(* ===== verification/Prelude.thy ===== *)
theory Prelude
  imports Main "HOL-Library.Word" "HOL-Library.Sublist"
begin

text \<open>
  What every theory of the development shares: bytes and paths, the outcome of an
  asynchronous Rust call (\<open>Ok\<close>, \<open>Err\<close>, a panic, or the task having been aborted at
  an \<open>await\<close>), programs as functions from a state to an outcome and a state, and the
  combinators that stand for the \<open>?\<close> operator, a matched \<open>Result\<close>, \<open>unwrap\<close> and
  the \<open>for\<close> loops of the source. \<open>preserves I p\<close> says that \<open>p\<close> keeps \<open>I\<close> whatever
  its outcome, so also when the task is aborted half-way.
  The locales \<open>codec\<close> (an encoder and its decoder) and \<open>transfer\<close> (move records by
  copying them before deleting them) are the two interfaces used by several components.
\<close>

section \<open>Bytes, paths, outcomes\<close>

type_synonym byte = "8 word"
type_synonym bytes = "byte list"
type_synonym path = "string list"

datatype io_kind = NotFound | InvalidData | OtherIo

text \<open>
  What an \<open>anyhow::Error\<close>, \<open>std::io::Error\<close> or \<open>AcceptError\<close> of the source carries:
  an I/O error, a failure of a third-party call, a failed (de)serialisation, or a message.
\<close>

datatype error = Io io_kind | External | Serde | Message string

datatype 'a res = Ok 'a | Err error | Panic | Cancelled

type_synonym ('s, 'a) prog = "'s \<Rightarrow> 'a res \<times> 's"

named_theorems prog_defs "definitions of the program combinators"
named_theorems preserves_rules "preservation of an invariant by the program combinators"

section \<open>Program combinators\<close>

definition ret :: "'a \<Rightarrow> ('s, 'a) prog" where
  [prog_defs]: "ret x = (\<lambda>s. (Ok x, s))"

definition fail :: "error \<Rightarrow> ('s, 'a) prog" where
  [prog_defs]: "fail e = (\<lambda>s. (Err e, s))"

definition panic :: "('s, 'a) prog" where
  [prog_defs]: "panic = (\<lambda>s. (Panic, s))"

text \<open>\<open>let x = m?; f(x)\<close>: anything but \<open>Ok\<close> leaves the function.\<close>

definition andThen :: "('s, 'a) prog \<Rightarrow> ('a \<Rightarrow> ('s, 'b) prog) \<Rightarrow> ('s, 'b) prog" where
  "andThen m f = (\<lambda>s. case m s of
       (Ok x, s') \<Rightarrow> f x s'
     | (Err e, s') \<Rightarrow> (Err e, s')
     | (Panic, s') \<Rightarrow> (Panic, s')
     | (Cancelled, s') \<Rightarrow> (Cancelled, s'))"

text \<open>A call whose \<open>Result\<close> is inspected instead of propagated.\<close>

definition attempt :: "('s, 'a) prog \<Rightarrow> ('s, error + 'a) prog" where
  "attempt m = (\<lambda>s. case m s of
       (Ok x, s') \<Rightarrow> (Ok (Inr x), s')
     | (Err e, s') \<Rightarrow> (Ok (Inl e), s')
     | (Panic, s') \<Rightarrow> (Panic, s')
     | (Cancelled, s') \<Rightarrow> (Cancelled, s'))"

text \<open>\<open>let _ = m;\<close>\<close>

definition ignore :: "('s, 'a) prog \<Rightarrow> ('s, unit) prog" where
  [prog_defs]: "ignore m = andThen (attempt m) (\<lambda>_. ret ())"

definition unwrap :: "'a option \<Rightarrow> ('s, 'a) prog" where
  [prog_defs]: "unwrap x = (case x of Some y \<Rightarrow> ret y | None \<Rightarrow> panic)"

definition ok_or :: "error \<Rightarrow> 'a option \<Rightarrow> ('s, 'a) prog" where
  [prog_defs]: "ok_or e x = (case x of Some y \<Rightarrow> ret y | None \<Rightarrow> fail e)"

definition lift_res :: "'a res \<Rightarrow> ('s, 'a) prog" where
  [prog_defs]: "lift_res r = (\<lambda>s. (r, s))"

text \<open>A \<open>for\<close> loop with an accumulator; \<open>for_each\<close> is the loop without one.\<close>

primrec for_fold :: "('b \<Rightarrow> 'a \<Rightarrow> ('s, 'b) prog) \<Rightarrow> 'b \<Rightarrow> 'a list \<Rightarrow> ('s, 'b) prog" where
  "for_fold f acc [] = ret acc"
| "for_fold f acc (x # xs) = andThen (f acc x) (\<lambda>acc'. for_fold f acc' xs)"

definition for_each :: "('a \<Rightarrow> ('s, unit) prog) \<Rightarrow> 'a list \<Rightarrow> ('s, unit) prog" where
  [prog_defs]: "for_each f xs = for_fold (\<lambda>_ x. f x) () xs"

text \<open>
  The loop \<open>for x in xs { if f(x).await.is_ok() { out.push(g(x)) } }\<close>, which both syncer
  tasks run.
\<close>

definition collect_ok :: "('a \<Rightarrow> ('s, unit) prog) \<Rightarrow> ('a \<Rightarrow> 'b) \<Rightarrow> 'a list \<Rightarrow> ('s, 'b list) prog" where
  [prog_defs]: "collect_ok f g xs =
     for_fold (\<lambda>out x. andThen (attempt (f x))
        (\<lambda>r. ret (case r of Inl _ \<Rightarrow> out | Inr _ \<Rightarrow> out @ [g x]))) [] xs"

lemma andThen_cong [fundef_cong]:
  assumes "m s = m' s'" and "\<And>x t. m' s' = (Ok x, t) \<Longrightarrow> f x t = f' x t" and "s = s'"
  shows "andThen m f s = andThen m' f' s'"
  using assms by (auto simp: andThen_def split: prod.splits res.splits)

lemma andThen_ret [simp]: "andThen (ret x) f = f x"
  by (simp add: andThen_def ret_def)

lemma andThen_fail [simp]: "andThen (fail e) f = fail e"
  by (simp add: andThen_def fail_def)

lemma andThen_panic [simp]: "andThen panic f = panic"
  by (simp add: andThen_def panic_def)

lemma andThen_Ok: "m s = (Ok x, s') \<Longrightarrow> andThen m f s = f x s'"
  by (simp add: andThen_def)

lemma andThen_Err: "m s = (Err e, s') \<Longrightarrow> andThen m f s = (Err e, s')"
  by (simp add: andThen_def)

lemma andThen_Panic: "m s = (Panic, s') \<Longrightarrow> andThen m f s = (Panic, s')"
  by (simp add: andThen_def)

lemma andThen_Cancelled: "m s = (Cancelled, s') \<Longrightarrow> andThen m f s = (Cancelled, s')"
  by (simp add: andThen_def)

lemmas andThen_eval = andThen_Ok andThen_Err andThen_Panic andThen_Cancelled

lemma andThen_Ok_iff:
  "andThen m f s = (Ok y, s'') \<longleftrightarrow> (\<exists>x s'. m s = (Ok x, s') \<and> f x s' = (Ok y, s''))"
  by (auto simp: andThen_def split: prod.splits res.splits)

lemma attempt_eval:
  "m s = (Ok x, s') \<Longrightarrow> attempt m s = (Ok (Inr x), s')"
  "m s = (Err e, s') \<Longrightarrow> attempt m s = (Ok (Inl e), s')"
  "m s = (Panic, s') \<Longrightarrow> attempt m s = (Panic, s')"
  "m s = (Cancelled, s') \<Longrightarrow> attempt m s = (Cancelled, s')"
  by (simp_all add: attempt_def)

lemma attempt_Ok_iff:
  "attempt m s = (Ok r, s') \<longleftrightarrow>
     (\<exists>x. r = Inr x \<and> m s = (Ok x, s')) \<or> (\<exists>e. r = Inl e \<and> m s = (Err e, s'))"
  by (auto simp: attempt_def split: prod.splits res.splits)

lemma ignore_run: "ignore p s = (r, s') \<Longrightarrow> \<exists>r0. p s = (r0, s')"
  by (cases "p s"; cases "fst (p s)") (auto simp: ignore_def andThen_def attempt_def ret_def)

lemma ret_Ok_iff [simp]: "ret x s = (r, s') \<longleftrightarrow> r = Ok x \<and> s' = s"
  by (auto simp: ret_def)

lemma fail_iff [simp]: "fail e s = (r, s') \<longleftrightarrow> r = Err e \<and> s' = s"
  by (auto simp: fail_def)

lemma panic_iff [simp]: "panic s = (r, s') \<longleftrightarrow> r = Panic \<and> s' = s"
  by (auto simp: panic_def)

lemma unwrap_Ok_iff: "unwrap x s = (Ok y, s') \<longleftrightarrow> x = Some y \<and> s' = s"
  by (auto simp: unwrap_def split: option.splits)

lemma ok_or_Ok_iff: "ok_or e x s = (Ok y, s') \<longleftrightarrow> x = Some y \<and> s' = s"
  by (auto simp: ok_or_def split: option.splits)

lemma ok_or_simps [simp]: "ok_or e (Some y) = ret y" "ok_or e None = fail e"
  by (simp_all add: ok_or_def)

lemma unwrap_simps [simp]: "unwrap (Some y) = ret y" "unwrap None = panic"
  by (simp_all add: unwrap_def)

lemma lift_res_Ok_iff: "lift_res r s = (Ok y, s') \<longleftrightarrow> r = Ok y \<and> s' = s"
  by (auto simp: lift_res_def)

lemmas prog_Ok_iffs = andThen_Ok_iff attempt_Ok_iff unwrap_Ok_iff ok_or_Ok_iff lift_res_Ok_iff

section \<open>Invariants kept whatever the outcome\<close>

definition preserves :: "('s \<Rightarrow> bool) \<Rightarrow> ('s, 'a) prog \<Rightarrow> bool" where
  "preserves I p \<longleftrightarrow> (\<forall>s. I s \<longrightarrow> I (snd (p s)))"

lemma preservesI: "(\<And>s r s'. I s \<Longrightarrow> p s = (r, s') \<Longrightarrow> I s') \<Longrightarrow> preserves I p"
  by (metis preserves_def prod.collapse)

lemma preservesD: "preserves I p \<Longrightarrow> I s \<Longrightarrow> p s = (r, s') \<Longrightarrow> I s'"
  by (metis preserves_def snd_conv)

lemma preserves_ret [preserves_rules]: "preserves I (ret x)"
  by (simp add: preserves_def ret_def)

lemma preserves_fail [preserves_rules]: "preserves I (fail e)"
  by (simp add: preserves_def fail_def)

lemma preserves_panic [preserves_rules]: "preserves I panic"
  by (simp add: preserves_def panic_def)

lemma preserves_lift_res [preserves_rules]: "preserves I (lift_res r)"
  by (simp add: preserves_def lift_res_def)

lemma preserves_andThen [preserves_rules]:
  "preserves I m \<Longrightarrow> (\<And>x. preserves I (f x)) \<Longrightarrow> preserves I (andThen m f)"
  by (fastforce simp: preserves_def andThen_def split: prod.splits res.splits)

lemma preserves_attempt [preserves_rules]: "preserves I m \<Longrightarrow> preserves I (attempt m)"
  by (fastforce simp: preserves_def attempt_def split: prod.splits res.splits)

lemma preserves_ignore [preserves_rules]: "preserves I m \<Longrightarrow> preserves I (ignore m)"
  by (simp add: ignore_def preserves_rules)

lemma preserves_unwrap [preserves_rules]: "preserves I (unwrap x)"
  by (cases x) (simp_all add: preserves_rules)

lemma preserves_ok_or [preserves_rules]: "preserves I (ok_or e x)"
  by (cases x) (simp_all add: preserves_rules)

lemma preserves_for_fold [preserves_rules]:
  "(\<And>acc x. x \<in> set xs \<Longrightarrow> preserves I (f acc x)) \<Longrightarrow> preserves I (for_fold f acc xs)"
proof (induction xs arbitrary: acc)
  case Nil
  then show ?case by (simp add: preserves_ret)
next
  case (Cons x xs)
  have "preserves I (f acc x)" using Cons.prems by simp
  moreover have "preserves I (for_fold f acc' xs)" for acc'
    using Cons.prems by (intro Cons.IH) simp
  ultimately show ?case by (simp add: preserves_andThen)
qed

lemma preserves_for_each [preserves_rules]:
  "(\<And>x. x \<in> set xs \<Longrightarrow> preserves I (f x)) \<Longrightarrow> preserves I (for_each f xs)"
  unfolding for_each_def by (rule preserves_for_fold)

lemma preserves_if [preserves_rules]:
  "preserves I p \<Longrightarrow> preserves I q \<Longrightarrow> preserves I (if b then p else q)"
  by simp

lemma preserves_case_option [preserves_rules]:
  "preserves I p \<Longrightarrow> (\<And>x. preserves I (q x)) \<Longrightarrow> preserves I (case z of None \<Rightarrow> p | Some x \<Rightarrow> q x)"
  by (cases z) simp_all

lemma preserves_case_sum [preserves_rules]:
  "(\<And>x. preserves I (p x)) \<Longrightarrow> (\<And>x. preserves I (q x)) \<Longrightarrow>
   preserves I (case z of Inl x \<Rightarrow> p x | Inr x \<Rightarrow> q x)"
  by (cases z) simp_all

lemma preserves_case_prod [preserves_rules]:
  "(\<And>x y. preserves I (p x y)) \<Longrightarrow> preserves I (case z of (x, y) \<Rightarrow> p x y)"
  by (cases z) simp_all

lemma preserves_collect_ok [preserves_rules]:
  "(\<And>x. x \<in> set xs \<Longrightarrow> preserves I (f x)) \<Longrightarrow> preserves I (collect_ok f g xs)"
  unfolding collect_ok_def
  by (intro preserves_for_fold preserves_andThen preserves_attempt preserves_ret)

lemma preserves_conj: "preserves I p \<Longrightarrow> preserves J p \<Longrightarrow> preserves (\<lambda>s. I s \<and> J s) p"
  by (auto simp: preserves_def)

section \<open>Triples\<close>

text \<open>
  \<open>triple I p Q E\<close>: started where \<open>I\<close> holds, \<open>p\<close> ends in \<open>Q x\<close> when it returns \<open>Ok x\<close>
  and in \<open>E\<close> when it fails, panics or is aborted.
\<close>

definition triple :: "('s \<Rightarrow> bool) \<Rightarrow> ('s, 'a) prog \<Rightarrow> ('a \<Rightarrow> 's \<Rightarrow> bool) \<Rightarrow> ('s \<Rightarrow> bool) \<Rightarrow> bool" where
  "triple I p Q E \<longleftrightarrow> (\<forall>s r s'. I s \<longrightarrow> p s = (r, s') \<longrightarrow> (case r of Ok x \<Rightarrow> Q x s' | _ \<Rightarrow> E s'))"

lemma tripleI:
  "(\<And>s x s'. I s \<Longrightarrow> p s = (Ok x, s') \<Longrightarrow> Q x s') \<Longrightarrow>
   (\<And>s r s'. I s \<Longrightarrow> p s = (r, s') \<Longrightarrow> (\<And>x. r \<noteq> Ok x) \<Longrightarrow> E s') \<Longrightarrow> triple I p Q E"
  by (auto simp: triple_def split: res.splits)

lemma tripleD: "triple I p Q E \<Longrightarrow> I s \<Longrightarrow> p s = (r, s') \<Longrightarrow> (\<exists>x. r = Ok x \<and> Q x s') \<or> ((\<forall>x. r \<noteq> Ok x) \<and> E s')"
  by (cases r) (auto simp: triple_def split: res.splits)

lemma triple_andThen:
  assumes "triple I m Q E" and "\<And>x. triple (Q x) (f x) R E"
  shows "triple I (andThen m f) R E"
proof -
  have "case r of Ok x \<Rightarrow> R x s' | _ \<Rightarrow> E s'"
    if I: "I s" and run: "andThen m f s = (r, s')" for s r s'
  proof -
    obtain r1 s1 where m: "m s = (r1, s1)" by force
    from tripleD [OF assms(1) I m] show ?thesis
    proof (elim disjE exE conjE)
      fix x assume "r1 = Ok x" and Q: "Q x s1"
      with run m have "f x s1 = (r, s')" by (simp add: andThen_eval)
      with assms(2) Q show ?thesis unfolding triple_def by blast
    next
      assume "\<forall>x. r1 \<noteq> Ok x" and "E s1"
      with run m show ?thesis by (cases r1) (auto simp: andThen_eval)
    qed
  qed
  then show ?thesis unfolding triple_def by blast
qed

lemma triple_weaken:
  "triple I p Q E \<Longrightarrow> (\<And>s. J s \<Longrightarrow> I s) \<Longrightarrow> (\<And>x s. Q x s \<Longrightarrow> R x s) \<Longrightarrow> (\<And>s. E s \<Longrightarrow> F s) \<Longrightarrow> triple J p R F"
  by (rule tripleI) (blast dest: tripleD)+

lemma triple_ret: "(\<And>s. I s \<Longrightarrow> Q x s) \<Longrightarrow> triple I (ret x) Q E"
  by (rule tripleI) auto

lemma triple_fail: "(\<And>s. I s \<Longrightarrow> E s) \<Longrightarrow> triple I (fail e) Q E"
  by (rule tripleI) auto

lemma triple_panic: "(\<And>s. I s \<Longrightarrow> E s) \<Longrightarrow> triple I panic Q E"
  by (rule tripleI) auto

lemma triple_lift_res:
  "(\<And>s x. I s \<Longrightarrow> r = Ok x \<Longrightarrow> Q x s) \<Longrightarrow> (\<And>s. I s \<Longrightarrow> E s) \<Longrightarrow> triple I (lift_res r) Q E"
  by (rule tripleI) (auto simp: lift_res_def)

lemma triple_ok_or:
  "(\<And>s x. I s \<Longrightarrow> o' = Some x \<Longrightarrow> Q x s) \<Longrightarrow> (\<And>s. I s \<Longrightarrow> E s) \<Longrightarrow> triple I (ok_or e o') Q E"
  by (cases o') (auto intro: triple_ret triple_fail)

lemma triple_preserves:
  "preserves I p \<Longrightarrow> (\<And>s. I s \<Longrightarrow> E s) \<Longrightarrow> triple I p (\<lambda>_. I) E"
  by (rule tripleI) (auto dest: preservesD)

lemma triple_seq:
  assumes "triple I m Q E'" and "\<And>s. E' s \<Longrightarrow> E s" and "\<And>x. triple (Q x) (f x) R E"
  shows "triple I (andThen m f) R E"
proof (rule triple_andThen)
  show "triple I m Q E" using assms(1) by (rule triple_weaken) (assumption | rule assms(2))+
qed (rule assms(3))

lemma triple_pure: "(A \<Longrightarrow> triple I p Q E) \<Longrightarrow> triple (\<lambda>s. I s \<and> A) p Q E"
  by (auto simp: triple_def)

lemma triple_ok_or_Some: "triple I (ok_or e z) (\<lambda>x s. I s \<and> z = Some x) I"
  by (rule triple_ok_or) simp_all

text \<open>A loop that returns has gone through every element.\<close>

lemma for_each_reaches:
  assumes keep: "\<And>x. x \<in> set xs \<Longrightarrow> preserves I (f x)"
    and keep_T: "\<And>x. x \<in> set xs \<Longrightarrow> preserves (\<lambda>s. I s \<and> T s) (f x)"
    and y: "y \<in> set xs" and reach: "triple I (f y) (\<lambda>_ s. I s \<and> T s) (\<lambda>_. True)"
  shows "triple I (for_each f xs) (\<lambda>_ s. I s \<and> T s) (\<lambda>_. True)"
  using keep keep_T y
proof (induction xs)
  case (Cons x xs)
  have unfold: "for_each f (x # xs) = andThen (f x) (\<lambda>_. for_each f xs)"
    by (simp add: for_each_def)
  show ?case
  proof (cases "y = x")
    case True
    have "preserves (\<lambda>s. I s \<and> T s) (for_each f xs)"
      using Cons.prems(2) by (intro preserves_for_each) simp
    then show ?thesis using reach True unfolding unfold
      by (intro triple_andThen [where Q = "\<lambda>_ s. I s \<and> T s"] triple_preserves) auto
  next
    case False
    then have "triple I (for_each f xs) (\<lambda>_ s. I s \<and> T s) (\<lambda>_. True)"
      using Cons.prems by (intro Cons.IH) auto
    then show ?thesis using Cons.prems(1) [of x] unfolding unfold
      by (intro triple_andThen [where Q = "\<lambda>_. I"] triple_preserves) auto
  qed
qed simp

lemma triple_if:
  "(b \<Longrightarrow> triple I p Q E) \<Longrightarrow> (\<not> b \<Longrightarrow> triple I q Q E) \<Longrightarrow> triple I (if b then p else q) Q E"
  by simp

section \<open>Encoders and decoders\<close>

locale codec =
  fixes encode :: "'a \<Rightarrow> 'b"
    and decode :: "'b \<Rightarrow> 'a option"
    and valid :: "'a \<Rightarrow> bool"
  assumes decode_encode: "valid x \<Longrightarrow> decode (encode x) = Some x"
begin

lemma encode_inj:
  assumes "valid x" and "valid y" and "encode x = encode y"
  shows "x = y"
proof -
  have "Some x = Some y"
    using decode_encode [OF assms(1)] decode_encode [OF assms(2)] by (simp only: assms(3))
  then show ?thesis by simp
qed

lemma encode_inj_on: "inj_on encode {x. valid x}"
  by (auto intro!: inj_onI dest: encode_inj)

end

section \<open>Moving records: copy first, delete afterwards\<close>

text \<open>
  Both syncer tasks move payment records: they copy each one to its new location, collect
  the ones that were copied, and then delete those from the old location. \<open>src\<close> and
  \<open>dst\<close> say that a record is in the old or the new location; records that are the \<open>same\<close>
  are deleted together.
\<close>

locale transfer =
  fixes copy :: "'a \<Rightarrow> ('s, unit) prog"
    and label :: "'a \<Rightarrow> 'b"
    and forget :: "'b list \<Rightarrow> ('s, unit) prog"
    and inv :: "'s \<Rightarrow> bool"
    and src :: "'s \<Rightarrow> 'a \<Rightarrow> bool"
    and dst :: "'s \<Rightarrow> 'a \<Rightarrow> bool"
    and same :: "'a \<Rightarrow> 'a \<Rightarrow> bool"
  assumes copy_inv: "inv s \<Longrightarrow> copy x s = (r, s') \<Longrightarrow> inv s'"
    and copy_stores: "inv s \<Longrightarrow> copy x s = (Ok u, s') \<Longrightarrow> dst s' x"
    and copy_src: "inv s \<Longrightarrow> copy x s = (r, s') \<Longrightarrow> src s y \<Longrightarrow> src s' y"
    and copy_dst: "inv s \<Longrightarrow> copy x s = (r, s') \<Longrightarrow> dst s y \<Longrightarrow> dst s' y"
    and forget_inv: "inv s \<Longrightarrow> forget ls s = (r, s') \<Longrightarrow> inv s'"
    and forget_src: "inv s \<Longrightarrow> forget ls s = (r, s') \<Longrightarrow> src s y \<Longrightarrow>
      (\<And>x. label x \<in> set ls \<Longrightarrow> \<not> same x y) \<Longrightarrow> src s' y"
    and forget_dst: "inv s \<Longrightarrow> forget ls s = (r, s') \<Longrightarrow> dst s y \<Longrightarrow> dst s' y"
    and same_label: "label x = label y \<Longrightarrow> same x y"
    and same_dst: "inv s \<Longrightarrow> same x y \<Longrightarrow> dst s x \<Longrightarrow> dst s y"
begin

definition safe :: "'a \<Rightarrow> 's \<Rightarrow> bool" where
  "safe y s \<longleftrightarrow> inv s \<and> (src s y \<or> dst s y)"

lemma copy_preserves_safe: "preserves (safe y) (copy x)"
  by (rule preservesI) (auto simp: safe_def dest: copy_inv copy_src copy_dst)

lemma for_fold_copies:
  assumes "inv s"
    and "for_fold (\<lambda>out x. andThen (attempt (copy x))
           (\<lambda>r. ret (case r of Inl _ \<Rightarrow> out | Inr _ \<Rightarrow> out @ [label x]))) out xs s = (Ok ls, s')"
    and "\<And>l. l \<in> set out \<Longrightarrow> \<exists>x. label x = l \<and> dst s x"
  shows "inv s' \<and> (\<forall>l \<in> set ls. \<exists>x. label x = l \<and> dst s' x)"
  using assms
proof (induction xs arbitrary: out s)
  case Nil
  then show ?case by auto
next
  case (Cons x xs)
  from Cons.prems(2) obtain r s1 where step: "attempt (copy x) s = (Ok r, s1)"
    and rest: "for_fold (\<lambda>out x. andThen (attempt (copy x))
           (\<lambda>r. ret (case r of Inl _ \<Rightarrow> out | Inr _ \<Rightarrow> out @ [label x])))
           (case r of Inl _ \<Rightarrow> out | Inr _ \<Rightarrow> out @ [label x]) xs s1 = (Ok ls, s')"
    by (auto simp: andThen_Ok_iff)
  from step obtain r0 where c: "copy x s = (r0, s1)"
    by (auto simp: attempt_Ok_iff split: sum.splits)
  have inv1: "inv s1" using Cons.prems(1) c by (rule copy_inv)
  have out1: "\<exists>z. label z = l \<and> dst s1 z"
    if "l \<in> set (case r of Inl _ \<Rightarrow> out | Inr _ \<Rightarrow> out @ [label x])" for l
  proof (cases "l \<in> set out")
    case True
    then show ?thesis using Cons.prems(3) copy_dst [OF Cons.prems(1) c] by blast
  next
    case False
    with that step have "l = label x" and "\<exists>u. copy x s = (Ok u, s1)"
      by (auto simp: attempt_Ok_iff split: sum.splits)
    then show ?thesis using copy_stores [OF Cons.prems(1)] by blast
  qed
  from inv1 rest out1 show ?case by (rule Cons.IH)
qed

lemma collect_ok_copies:
  assumes "inv s" and "collect_ok copy label xs s = (Ok ls, s')" and "l \<in> set ls"
  shows "inv s'" and "\<exists>x. label x = l \<and> dst s' x"
  using for_fold_copies [of s "[]" xs ls s'] assms by (auto simp: collect_ok_def)

lemma copy_preserves_inv: "preserves inv (copy x)"
  by (rule preservesI) (rule copy_inv)

lemma collect_ok_inv: "inv s \<Longrightarrow> collect_ok copy label xs s = (r, s') \<Longrightarrow> inv s'"
  by (rule preservesD [OF preserves_collect_ok [OF copy_preserves_inv]])

text \<open>
  The whole move keeps every record in one of the two places, whatever fails and wherever
  the task is aborted.
\<close>

lemma transfer_safe:
  "preserves (safe y)
     (andThen (collect_ok copy label xs)
        (\<lambda>ls. if ls = [] then ret () else andThen (forget ls) (\<lambda>_. ret ())))"
proof (rule preservesI)
  fix s r s'
  assume s: "safe y s"
    and run: "andThen (collect_ok copy label xs)
        (\<lambda>ls. if ls = [] then ret () else andThen (forget ls) (\<lambda>_. ret ())) s = (r, s')"
  obtain r1 s1 where c: "collect_ok copy label xs s = (r1, s1)" by force
  have safe1: "safe y s1"
    using preserves_collect_ok [OF copy_preserves_safe] s c by (rule preservesD)
  show "safe y s'"
  proof (cases "\<exists>ls. r1 = Ok ls \<and> ls \<noteq> []")
    case False
    with run c safe1 show ?thesis
      by (cases r1) (auto simp: andThen_eval split: if_splits)
  next
    case True
    then obtain ls where ls: "r1 = Ok ls" "ls \<noteq> []" by blast
    obtain r2 s2 where f: "forget ls s1 = (r2, s2)" by force
    have s': "s' = s2"
      using run c ls f by (cases r2) (auto simp: andThen_eval)
    have inv1: "inv s1" and place: "src s1 y \<or> dst s1 y"
      using safe1 by (auto simp: safe_def)
    have inv2: "inv s2" using inv1 f by (rule forget_inv)
    have "src s2 y \<or> dst s2 y"
    proof (cases "\<exists>z. label z \<in> set ls \<and> same z y")
      case True
      then obtain z where z: "label z \<in> set ls" "same z y" by blast
      then obtain x where x: "label x = label z" and "dst s1 x"
        using collect_ok_copies(2) [of s xs ls s1] s c ls by (auto simp: safe_def)
      then have "dst s1 z" using inv1 same_dst same_label by blast
      then have "dst s1 y" using inv1 z(2) same_dst by blast
      then show ?thesis using forget_dst [OF inv1 f] by blast
    next
      case False
      then show ?thesis using place forget_src [OF inv1 f, of y] forget_dst [OF inv1 f, of y] by blast
    qed
    with inv2 s' show ?thesis by (simp add: safe_def)
  qed
qed

end

end
