(* ===== verification/Node.thy ===== *)
theory Node
  imports Prelude "HOL-Library.AList"
begin

text \<open>
  The data types the modules share, and the state of one device: how many \<open>await\<close>s its
  running task still gets before it is aborted, how the next I/O operations turn out, its
  file system, the state of its iroh engine (router, docs, blobs; a type parameter, since
  iroh is not part of the repository), and, for the two applications, the federation
  clients.
  The file system is modelled after \<open>std::fs\<close> (\<open>tokio::fs\<close> is its asynchronous
  version): files and directories by path, where every operation can fail and a write can
  be torn, that is, fail after a prefix of the new contents has replaced the old ones.
\<close>

section \<open>Data\<close>

text \<open>
  Third-party identifiers are opaque: the code only compares them, and converts them by
  functions that are parameters of the model. A sha256 hash is its 32 bytes.
\<close>

datatype endpoint_id = EndpointId nat
datatype author_id = AuthorId nat
datatype namespace_id = NamespaceId nat
datatype content_hash = ContentHash nat
datatype public_key = PublicKey nat
datatype invite_code = InviteCode nat
datatype claimable_contract = ClaimableContract nat

typedef hash32 = "{bs :: bytes. length bs = 32}"
  morphisms bytes_of_hash Hash32
  by (rule exI [of _ "replicate 32 0"]) simp

datatype federation_id = FederationId hash32
datatype contract_id = ContractId hash32

text \<open>\<open><[u8; 32]>::try_from(&[u8])\<close> and \<open>Hash::from_bytes_ref\<close>.\<close>

definition to_hash32 :: "bytes \<Rightarrow> hash32 option" where
  "to_hash32 bs = (if length bs = 32 then Some (Hash32 bs) else None)"

lemma length_bytes_of_hash [simp]: "length (bytes_of_hash h) = 32"
  using bytes_of_hash [of h] by simp

lemma to_hash32_bytes [simp]: "to_hash32 (bytes_of_hash h) = Some h"
  by (simp add: to_hash32_def bytes_of_hash_inverse)

lemma bytes_of_Hash32: "length bs = 32 \<Longrightarrow> bytes_of_hash (Hash32 bs) = bs"
  by (simp add: Hash32_inverse)

lemma bytes_of_hash_eq_iff [simp]: "bytes_of_hash g = bytes_of_hash h \<longleftrightarrow> g = h"
  by (simp add: bytes_of_hash_inject)

record machine_config =
  federation_invite_code :: invite_code
  claimer_pk :: public_key

datatype kv_entry_author = Manager | Machine

record kv_entry =
  kv_key :: bytes
  kv_value :: bytes
  kv_author :: kv_entry_author
  kv_timestamp :: "64 word"

text \<open>What the code reads of iroh document tickets, endpoint addresses and document entries.\<close>

datatype capability = CapWrite nat | CapRead namespace_id

record doc_ticket =
  ticket_capability :: capability
  ticket_nodes :: "endpoint_id list"

record endpoint_addr =
  addr_id :: endpoint_id
  addr_hints :: "nat list"

record entry =
  entry_key :: bytes
  entry_author :: author_id
  entry_hash :: content_hash
  entry_timestamp :: "64 word"

section \<open>Device state\<close>

datatype fs_node = File bytes | Dir

datatype io_outcome = IoOk | IoErr | IoTorn nat

type_synonym disk = "(path \<times> fs_node) list"

record 'd node =
  awaits_left :: "nat option"
  io_script :: "io_outcome list"
  disk :: disk
  engine :: 'd

record ('d, 'c) wallet_node = "'d node" +
  clients :: "(federation_id \<times> 'c) list"

section \<open>Suspension points\<close>

text \<open>
  A task can be aborted wherever it awaits: with \<open>awaits_left = Some n\<close> it is aborted at
  its \<open>n+1\<close>-st await, with \<open>None\<close> it runs to its end.
\<close>

definition await :: "(('d, 'z) node_scheme, 'a) prog \<Rightarrow> (('d, 'z) node_scheme, 'a) prog" where
  "await m = (\<lambda>s. case awaits_left s of
       None \<Rightarrow> m s
     | Some 0 \<Rightarrow> (Cancelled, s)
     | Some (Suc n) \<Rightarrow> m (s\<lparr>awaits_left := Some n\<rparr>))"

definition engine_call :: "('d \<Rightarrow> 'a res \<times> 'd) \<Rightarrow> (('d, 'z) node_scheme, 'a) prog" where
  "engine_call f = await (\<lambda>s. case f (engine s) of (r, d) \<Rightarrow> (r, s\<lparr>engine := d\<rparr>))"

lemma awaits_left_same: "awaits_left s = x \<Longrightarrow> s\<lparr>awaits_left := x\<rparr> = s"
  by (cases s) simp

lemma io_script_same: "io_script s = x \<Longrightarrow> s\<lparr>io_script := x\<rparr> = s"
  by (cases s) simp

text \<open>
  An invariant is \<open>stable\<close> when it survives spending awaits and I/O outcomes, and
  \<open>disk_free\<close> when it does not depend on the disk.
\<close>

definition stable :: "(('d, 'z) node_scheme \<Rightarrow> bool) \<Rightarrow> bool" where
  "stable I \<longleftrightarrow> (\<forall>s n os. I s \<longrightarrow> suffix os (io_script s) \<longrightarrow> I (s\<lparr>awaits_left := n, io_script := os\<rparr>))"

lemma stable_conj: "stable I \<Longrightarrow> stable J \<Longrightarrow> stable (\<lambda>s. I s \<and> J s)"
  by (simp add: stable_def)

definition disk_free :: "(('d, 'z) node_scheme \<Rightarrow> bool) \<Rightarrow> bool" where
  "disk_free I \<longleftrightarrow> (\<forall>s d. I s \<longrightarrow> I (s\<lparr>disk := d\<rparr>))"

lemma stableD:
  "stable I \<Longrightarrow> I s \<Longrightarrow> suffix os (io_script s) \<Longrightarrow> I (s\<lparr>awaits_left := n, io_script := os\<rparr>)"
  by (simp add: stable_def)

lemma stable_awaits: "stable I \<Longrightarrow> I s \<Longrightarrow> I (s\<lparr>awaits_left := n\<rparr>)"
  using stableD [of I s "io_script s" n] by simp

lemma stable_script: "stable I \<Longrightarrow> I s \<Longrightarrow> suffix os (io_script s) \<Longrightarrow> I (s\<lparr>io_script := os\<rparr>)"
  using stableD [of I s os "awaits_left s"] by simp

lemma preserves_await: "stable I \<Longrightarrow> preserves I m \<Longrightarrow> preserves I (await m)"
  by (auto simp: preserves_def await_def split: option.split nat.split intro: stable_awaits)

lemma await_Ok:
  "await m s = (Ok x, s') \<longleftrightarrow>
     (awaits_left s = None \<and> m s = (Ok x, s')) \<or>
     (\<exists>n. awaits_left s = Some (Suc n) \<and> m (s\<lparr>awaits_left := Some n\<rparr>) = (Ok x, s'))"
  by (auto simp: await_def split: option.splits nat.splits)

lemma preserves_engine_call:
  assumes "stable I" and "\<And>s r d. I s \<Longrightarrow> f (engine s) = (r, d) \<Longrightarrow> I (s\<lparr>engine := d\<rparr>)"
  shows "preserves I (engine_call f)"
  unfolding engine_call_def using assms(1)
  by (rule preserves_await) (auto simp: preserves_def split: prod.split intro: assms(2))

lemma engine_call_cases:
  assumes "engine_call f s = (r, s')"
  obtains (aborted) "awaits_left s = Some 0" "r = Cancelled" "s' = s"
  | (ran) n d where "f (engine s) = (r, d)" "s' = s\<lparr>awaits_left := n, engine := d\<rparr>"
      "awaits_left s = map_option Suc n"
proof -
  obtain r0 d where f: "f (engine s) = (r0, d)" by force
  consider "awaits_left s = None" | "awaits_left s = Some 0" | n where "awaits_left s = Some (Suc n)"
    by (metis not0_implies_Suc option.exhaust)
  then show ?thesis
  proof cases
    case 1
    with assms f have "f (engine s) = (r, d)" "s' = s\<lparr>awaits_left := None, engine := d\<rparr>"
      by (auto simp: engine_call_def await_def awaits_left_same)
    with 1 show ?thesis by (intro ran [of d None]) simp_all
  next
    case 2
    with assms show ?thesis by (intro aborted) (simp_all add: engine_call_def await_def)
  next
    case 3
    with assms f have "f (engine s) = (r, d)" "s' = s\<lparr>awaits_left := Some n, engine := d\<rparr>"
      by (simp_all add: engine_call_def await_def)
    with 3 show ?thesis by (intro ran [of d "Some n"]) simp_all
  qed
qed

lemma engine_call_Ok_iff:
  "engine_call f s = (Ok x, s') \<longleftrightarrow>
     (\<exists>n d. f (engine s) = (Ok x, d) \<and> awaits_left s = map_option Suc n \<and>
            s' = s\<lparr>awaits_left := n, engine := d\<rparr>)"
  (is "?lhs \<longleftrightarrow> ?rhs")
proof
  assume ?lhs then show ?rhs by (cases rule: engine_call_cases) auto
next
  assume ?rhs
  then obtain n d where r: "f (engine s) = (Ok x, d)" "awaits_left s = map_option Suc n"
    "s' = s\<lparr>awaits_left := n, engine := d\<rparr>" by blast
  then show ?lhs by (cases n) (simp_all add: engine_call_def await_def awaits_left_same)
qed

lemma engine_call_OkD:
  "engine_call f s = (Ok x, s') \<Longrightarrow> f (engine s) = (Ok x, engine s')"
  by (auto simp: engine_call_Ok_iff)

lemma engine_call_run:
  "awaits_left s = None \<Longrightarrow> f (engine s) = (r, d) \<Longrightarrow> engine_call f s = (r, s\<lparr>engine := d\<rparr>)"
  by (simp add: engine_call_def await_def)

lemma suspend_cases:
  assumes "await (ret x) s = (r, s')"
  obtains "r = Cancelled" "s' = s" | n where "r = Ok x" "s' = s\<lparr>awaits_left := n\<rparr>"
proof -
  consider "awaits_left s = None" | "awaits_left s = Some 0" | n where "awaits_left s = Some (Suc n)"
    by (metis not0_implies_Suc option.exhaust)
  then show ?thesis
  proof cases
    case 1
    then show ?thesis using assms that(2) [of None] by (simp add: await_def ret_def awaits_left_same)
  next
    case 2
    then show ?thesis using assms that(1) by (simp add: await_def)
  next
    case (3 n)
    then show ?thesis using assms that(2) [of "Some n"] by (simp add: await_def ret_def)
  qed
qed

end
