(* ===== verification/Disk.thy ===== *)
theory Disk
  imports Node
begin

text \<open>
  The file-system operations the source uses (\<open>tokio::fs\<close>, \<open>std::path\<close>) on the
  \<open>disk\<close> of a node. Each consumes the next entry of \<open>io_script\<close> (an empty script means
  that nothing fails): \<open>IoErr\<close> makes the operation fail with no effect, \<open>IoTorn n\<close> makes
  a write fail after it has replaced the contents by the first \<open>n\<close> new bytes. Order of a
  directory listing is the order of creation; nothing below depends on it.
\<close>

section \<open>UTF-8\<close>

text \<open>The well-formed byte sequences of \<open>str::from_utf8\<close>, which \<open>read_to_string\<close> checks.\<close>

definition is_cont :: "byte \<Rightarrow> bool" where
  "is_cont b \<longleftrightarrow> 0x80 \<le> b \<and> b \<le> 0xBF"

definition second_ok :: "byte \<Rightarrow> byte \<Rightarrow> bool" where
  "second_ok b c \<longleftrightarrow>
     (if b = 0xE0 then 0xA0 \<le> c \<and> c \<le> 0xBF
      else if b = 0xED then 0x80 \<le> c \<and> c \<le> 0x9F
      else if b = 0xF0 then 0x90 \<le> c \<and> c \<le> 0xBF
      else if b = 0xF4 then 0x80 \<le> c \<and> c \<le> 0x8F
      else is_cont c)"

fun utf8_valid :: "bytes \<Rightarrow> bool" where
  "utf8_valid [] = True"
| "utf8_valid (b # bs) =
     (if b < 0x80 then utf8_valid bs
      else if 0xC2 \<le> b \<and> b \<le> 0xDF then
        (case bs of c # r \<Rightarrow> is_cont c \<and> utf8_valid r | _ \<Rightarrow> False)
      else if 0xE0 \<le> b \<and> b \<le> 0xEF then
        (case bs of c # d # r \<Rightarrow> second_ok b c \<and> is_cont d \<and> utf8_valid r | _ \<Rightarrow> False)
      else if 0xF0 \<le> b \<and> b \<le> 0xF4 then
        (case bs of c # d # e # r \<Rightarrow> second_ok b c \<and> is_cont d \<and> is_cont e \<and> utf8_valid r
         | _ \<Rightarrow> False)
      else False)"

lemma utf8_valid_ascii: "\<forall>b \<in> set bs. b < 0x80 \<Longrightarrow> utf8_valid bs"
  by (induction bs) auto

section \<open>Outcomes of I/O operations\<close>

definition next_io :: "(('d, 'z) node_scheme, io_outcome) prog" where
  "next_io = (\<lambda>s. case io_script s of [] \<Rightarrow> (Ok IoOk, s) | x # xs \<Rightarrow> (Ok x, s\<lparr>io_script := xs\<rparr>))"

definition fs_op :: "(io_outcome \<Rightarrow> disk \<Rightarrow> 'a res \<times> disk) \<Rightarrow> (('d, 'z) node_scheme, 'a) prog" where
  "fs_op f = await (andThen next_io
     (\<lambda>x s. case f x (disk s) of (r, d) \<Rightarrow> (r, s\<lparr>disk := d\<rparr>)))"

lemma fs_op_cases:
  assumes "fs_op f s = (r, s')"
  obtains (aborted) "awaits_left s = Some 0" "r = Cancelled" "s' = s"
  | (ran) n os x d where "f x (disk s) = (r, d)"
      "s' = s\<lparr>awaits_left := n, io_script := os, disk := d\<rparr>"
      "awaits_left s = map_option Suc n"
      "io_script s = x # os \<or> io_script s = [] \<and> os = [] \<and> x = IoOk"
proof -
  consider "awaits_left s = None" | "awaits_left s = Some 0" | n where "awaits_left s = Some (Suc n)"
    by (metis not0_implies_Suc option.exhaust)
  then show ?thesis
  proof cases
    case 2
    with assms show ?thesis by (intro aborted) (simp_all add: fs_op_def await_def)
  next
    case 1
    show ?thesis
    proof (cases "io_script s")
      case Nil
      obtain r0 d where f: "f IoOk (disk s) = (r0, d)" by force
      with 1 Nil assms have "r0 = r" "s' = s\<lparr>awaits_left := None, io_script := [], disk := d\<rparr>"
        by (auto simp: fs_op_def await_def next_io_def andThen_eval awaits_left_same io_script_same)
      with f 1 Nil show ?thesis by (intro ran [of IoOk d "[]" None]) simp_all
    next
      case (Cons x os)
      obtain r0 d where f: "f x (disk s) = (r0, d)" by force
      with 1 Cons assms have "r0 = r" "s' = s\<lparr>awaits_left := None, io_script := os, disk := d\<rparr>"
        by (auto simp: fs_op_def await_def next_io_def andThen_eval awaits_left_same)
      with f 1 Cons show ?thesis by (intro ran [of x d os None]) simp_all
    qed
  next
    case (3 n)
    show ?thesis
    proof (cases "io_script s")
      case Nil
      obtain r0 d where f: "f IoOk (disk s) = (r0, d)" by force
      with 3 Nil assms have "r0 = r" "s' = s\<lparr>awaits_left := Some n, io_script := [], disk := d\<rparr>"
        by (auto simp: fs_op_def await_def next_io_def andThen_eval io_script_same)
      with f 3 Nil show ?thesis by (intro ran [of IoOk d "[]" "Some n"]) simp_all
    next
      case (Cons x os)
      obtain r0 d where f: "f x (disk s) = (r0, d)" by force
      with 3 Cons assms have "r0 = r" "s' = s\<lparr>awaits_left := Some n, io_script := os, disk := d\<rparr>"
        by (auto simp: fs_op_def await_def next_io_def andThen_eval)
      with f 3 Cons show ?thesis by (intro ran [of x d os "Some n"]) simp_all
    qed
  qed
qed

lemma preserves_fs_op:
  assumes "stable I" and "\<And>s x r d. I s \<Longrightarrow> f x (disk s) = (r, d) \<Longrightarrow> I (s\<lparr>disk := d\<rparr>)"
  shows "preserves I (fs_op f)"
proof (rule preservesI)
  fix s r s'
  assume I: "I s" and run: "fs_op f s = (r, s')"
  from run show "I s'"
  proof (cases rule: fs_op_cases)
    case (ran n os x d)
    have "I (s\<lparr>disk := d\<rparr>)" using I ran(1) by (rule assms(2))
    moreover have "suffix os (io_script (s\<lparr>disk := d\<rparr>))" using ran(4) by (auto intro: suffix_ConsI)
    ultimately have "I (s\<lparr>disk := d\<rparr>\<lparr>awaits_left := n, io_script := os\<rparr>)"
      by (rule stableD [OF assms(1)])
    moreover have "s\<lparr>disk := d\<rparr>\<lparr>awaits_left := n, io_script := os\<rparr> = s'" using ran(2) by simp
    ultimately show ?thesis by simp
  qed (use I in simp)
qed

lemma preserves_fs_op_disk_free:
  "stable I \<Longrightarrow> disk_free I \<Longrightarrow> preserves I (fs_op f)"
  by (rule preserves_fs_op) (auto simp: disk_free_def)

lemma fs_op_run:
  "awaits_left s = None \<Longrightarrow> io_script s = [] \<Longrightarrow> f IoOk (disk s) = (r, d) \<Longrightarrow>
   fs_op f s = (r, s\<lparr>disk := d\<rparr>)"
  by (simp add: fs_op_def await_def next_io_def andThen_eval)

section \<open>Operations\<close>

definition read_op :: "path \<Rightarrow> io_outcome \<Rightarrow> disk \<Rightarrow> bytes res \<times> disk" where
  "read_op p x d = (case x of
       IoOk \<Rightarrow> (case map_of d p of
           Some (File b) \<Rightarrow> Ok b
         | Some Dir \<Rightarrow> Err (Io OtherIo)
         | None \<Rightarrow> Err (Io NotFound))
     | _ \<Rightarrow> Err (Io OtherIo), d)"

definition fs_read :: "path \<Rightarrow> (('d, 'z) node_scheme, bytes) prog" where
  "fs_read p = fs_op (read_op p)"

definition fs_read_to_string :: "path \<Rightarrow> (('d, 'z) node_scheme, bytes) prog" where
  "fs_read_to_string p = andThen (fs_read p)
     (\<lambda>b. if utf8_valid b then ret b else fail (Io InvalidData))"

text \<open>A directory exists when it is the root or listed; a file is created in one.\<close>

definition is_dir :: "disk \<Rightarrow> path \<Rightarrow> bool" where
  "is_dir d p \<longleftrightarrow> p = [] \<or> map_of d p = Some Dir"

definition write_op :: "path \<Rightarrow> bytes \<Rightarrow> io_outcome \<Rightarrow> disk \<Rightarrow> unit res \<times> disk" where
  "write_op p b x d =
     (if p = [] \<or> is_dir d p \<or> \<not> is_dir d (butlast p) then (Err (Io OtherIo), d)
      else (case x of
          IoOk \<Rightarrow> (Ok (), AList.update p (File b) d)
        | IoErr \<Rightarrow> (Err (Io OtherIo), d)
        | IoTorn n \<Rightarrow> (Err (Io OtherIo), AList.update p (File (take n b)) d)))"

definition fs_write :: "path \<Rightarrow> bytes \<Rightarrow> (('d, 'z) node_scheme, unit) prog" where
  "fs_write p b = fs_op (write_op p b)"

fun mkdirs :: "path list \<Rightarrow> disk \<Rightarrow> unit res \<times> disk" where
  "mkdirs [] d = (Ok (), d)"
| "mkdirs (q # qs) d = (case map_of d q of
       None \<Rightarrow> mkdirs qs (AList.update q Dir d)
     | Some Dir \<Rightarrow> mkdirs qs d
     | Some (File _) \<Rightarrow> (Err (Io OtherIo), d))"

definition create_dir_all_op :: "path \<Rightarrow> io_outcome \<Rightarrow> disk \<Rightarrow> unit res \<times> disk" where
  "create_dir_all_op p x d = (case x of
       IoOk \<Rightarrow> mkdirs (tl (prefixes p)) d
     | IoErr \<Rightarrow> (Err (Io OtherIo), d)
     | IoTorn n \<Rightarrow> (Err (Io OtherIo), snd (mkdirs (take n (tl (prefixes p))) d)))"

definition fs_create_dir_all :: "path \<Rightarrow> (('d, 'z) node_scheme, unit) prog" where
  "fs_create_dir_all p = fs_op (create_dir_all_op p)"

text \<open>\<open>OsString::into_string\<close>\<close>

definition os_into_string :: "string \<Rightarrow> string option" where
  "os_into_string s = (if utf8_valid (map of_char s) then Some s else None)"

text \<open>\<open>tokio::fs::read_dir\<close>; \<open>fs_next_entry\<close> is the fallible step to the next entry.\<close>

definition dir_names :: "disk \<Rightarrow> path \<Rightarrow> string list" where
  "dir_names d p = remdups (map last (filter (\<lambda>q. q \<noteq> [] \<and> butlast q = p) (map fst d)))"

definition read_dir_op :: "path \<Rightarrow> io_outcome \<Rightarrow> disk \<Rightarrow> string list res \<times> disk" where
  "read_dir_op p x d =
     (if is_dir d p \<and> x = IoOk then Ok (dir_names d p) else Err (Io OtherIo), d)"

definition fs_read_dir :: "path \<Rightarrow> (('d, 'z) node_scheme, string list) prog" where
  "fs_read_dir p = fs_op (read_dir_op p)"

definition fs_next_entry :: "(('d, 'z) node_scheme, unit) prog" where
  "fs_next_entry = fs_op (\<lambda>x d. (if x = IoOk then Ok () else Err (Io OtherIo), d))"

text \<open>\<open>entry.file_type().await?.is_file()\<close>\<close>

definition fs_is_file :: "path \<Rightarrow> (('d, 'z) node_scheme, bool) prog" where
  "fs_is_file p = fs_op (\<lambda>x d. (if x = IoOk
       then (case map_of d p of Some (File _) \<Rightarrow> Ok True | Some Dir \<Rightarrow> Ok False | None \<Rightarrow> Err (Io NotFound))
       else Err (Io OtherIo), d))"

definition fs_try_exists :: "path \<Rightarrow> (('d, 'z) node_scheme, bool) prog" where
  "fs_try_exists p = fs_op (\<lambda>x d. (if x = IoOk then Ok (p = [] \<or> map_of d p \<noteq> None)
       else Err (Io OtherIo), d))"

text \<open>The synchronous \<open>Path::is_dir\<close> and \<open>Path::exists\<close>: an I/O error reads as \<open>false\<close>.\<close>

definition path_is_dir :: "path \<Rightarrow> (('d, 'z) node_scheme, bool) prog" where
  "path_is_dir p = andThen next_io (\<lambda>x s. (Ok (x = IoOk \<and> is_dir (disk s) p), s))"

definition path_exists :: "path \<Rightarrow> (('d, 'z) node_scheme, bool) prog" where
  "path_exists p = andThen next_io (\<lambda>x s. (Ok (x = IoOk \<and> (p = [] \<or> map_of (disk s) p \<noteq> None)), s))"

definition remove_dir_all_op :: "path \<Rightarrow> io_outcome \<Rightarrow> disk \<Rightarrow> unit res \<times> disk" where
  "remove_dir_all_op p x d =
     (if is_dir d p \<and> x = IoOk then (Ok (), filter (\<lambda>(q, _). \<not> prefix p q) d)
      else (Err (Io OtherIo), d))"

definition fs_remove_dir_all :: "path \<Rightarrow> (('d, 'z) node_scheme, unit) prog" where
  "fs_remove_dir_all p = fs_op (remove_dir_all_op p)"

lemmas fs_defs = fs_read_def fs_write_def fs_create_dir_all_def fs_read_dir_def
  fs_next_entry_def fs_is_file_def fs_try_exists_def fs_remove_dir_all_def

section \<open>Lemmas\<close>

lemma preserves_fs [preserves_rules]:
  assumes "stable I" and "disk_free I"
  shows "preserves I (fs_read p)" "preserves I (fs_read_to_string p)" "preserves I (fs_write p b)"
    "preserves I (fs_create_dir_all p)" "preserves I (fs_read_dir p)" "preserves I fs_next_entry"
    "preserves I (fs_is_file p)" "preserves I (fs_try_exists p)" "preserves I (fs_remove_dir_all p)"
  unfolding fs_defs fs_read_to_string_def
  by (intro preserves_fs_op_disk_free assms preserves_andThen preserves_if preserves_ret preserves_fail)+

lemma preserves_next_io: "stable I \<Longrightarrow> preserves I next_io"
proof (rule preservesI)
  fix s r s'
  assume st: "stable I" and I: "I s" and run: "next_io s = (r, s')"
  show "I s'"
  proof (cases "io_script s")
    case Nil
    with I run show ?thesis by (simp add: next_io_def)
  next
    case (Cons x xs)
    then have "suffix xs (io_script s)" by (simp add: suffix_ConsI)
    with st I have "I (s\<lparr>io_script := xs\<rparr>)" by (rule stable_script)
    with Cons run show ?thesis by (simp add: next_io_def)
  qed
qed

lemma preserves_path_is_dir [preserves_rules]: "stable I \<Longrightarrow> preserves I (path_is_dir p)"
  unfolding path_is_dir_def
  by (intro preserves_andThen preserves_next_io) (simp_all add: preserves_def)

lemma preserves_path_exists [preserves_rules]: "stable I \<Longrightarrow> preserves I (path_exists p)"
  unfolding path_exists_def
  by (intro preserves_andThen preserves_next_io) (simp_all add: preserves_def)

text \<open>Reads do not write.\<close>

lemma read_op_disk: "read_op p x d = (r, d') \<Longrightarrow> d' = d"
  by (simp add: read_op_def)

lemma read_op_Ok_iff: "read_op p x d = (Ok b, d') \<longleftrightarrow> x = IoOk \<and> map_of d p = Some (File b) \<and> d' = d"
  by (auto simp: read_op_def split: io_outcome.splits option.splits fs_node.splits)

lemma fs_read_Ok:
  assumes "fs_read p s = (Ok b, s')"
  shows "map_of (disk s) p = Some (File b)" and "disk s' = disk s"
  using assms unfolding fs_read_def
  by (cases rule: fs_op_cases; auto simp: read_op_Ok_iff)+

lemma fs_read_to_string_Ok:
  assumes "fs_read_to_string p s = (Ok b, s')"
  shows "map_of (disk s) p = Some (File b)" and "disk s' = disk s" and "utf8_valid b"
  using assms by (auto simp: fs_read_to_string_def andThen_Ok_iff split: if_splits dest: fs_read_Ok)

lemma write_op_cases:
  assumes "write_op p b x d = (r, d')"
  obtains (unchanged) e where "r = Err e" "d' = d"
  | (torn) n e where "r = Err e" "d' = AList.update p (File (take n b)) d"
  | (written) "r = Ok ()" "x = IoOk" "d' = AList.update p (File b) d"
  using assms by (auto simp: write_op_def split: if_splits io_outcome.splits)

lemma fs_write_Ok:
  assumes "fs_write p b s = (Ok u, s')"
  shows "map_of (disk s') p = Some (File b)"
    and "q \<noteq> p \<Longrightarrow> map_of (disk s') q = map_of (disk s) q"
  using assms unfolding fs_write_def
  by (cases rule: fs_op_cases; auto elim!: write_op_cases simp: update_conv)+

lemma fs_write_other:
  assumes "fs_write p b s = (r, s')" and "q \<noteq> p"
  shows "map_of (disk s') q = map_of (disk s) q"
  using assms unfolding fs_write_def
  by (cases rule: fs_op_cases) (auto elim!: write_op_cases simp: update_conv)

lemma fs_read_OkD:
  "fs_read p s = (Ok b, s') \<Longrightarrow>
   map_of (disk s) p = Some (File b) \<and> disk s' = disk s \<and> engine s' = engine s"
  unfolding fs_read_def by (erule fs_op_cases) (auto simp: read_op_Ok_iff)

lemma fs_read_to_string_OkD:
  "fs_read_to_string p s = (Ok b, s') \<Longrightarrow>
   map_of (disk s) p = Some (File b) \<and> utf8_valid b \<and> disk s' = disk s \<and> engine s' = engine s"
  by (auto simp: fs_read_to_string_def andThen_Ok_iff split: if_splits dest!: fs_read_OkD)

lemma fs_write_OkD:
  "fs_write p b s = (Ok u, s') \<Longrightarrow>
   map_of (disk s') = (map_of (disk s))(p \<mapsto> File b) \<and> engine s' = engine s"
  unfolding fs_write_def
  by (erule fs_op_cases) (auto elim!: write_op_cases simp: update_conv)

text \<open>A read fails without changing the disk or the engine.\<close>

lemma fs_read_frame:
  "fs_read p s = (r, s') \<Longrightarrow> disk s' = disk s \<and> engine s' = engine s"
  unfolding fs_read_def by (erule fs_op_cases) (auto simp: read_op_def)

lemma fs_read_to_string_frame:
  "fs_read_to_string p s = (r, s') \<Longrightarrow> disk s' = disk s \<and> engine s' = engine s"
  by (auto simp: fs_read_to_string_def andThen_def split: prod.splits res.splits if_splits
      dest!: fs_read_frame)

lemma fs_op_engine: "fs_op f s = (r, s') \<Longrightarrow> engine s' = engine s"
  by (erule fs_op_cases) auto

text \<open>Creating directories leaves every existing file and directory alone.\<close>

lemma mkdirs_keeps: "map_of d q = Some v \<Longrightarrow> map_of (snd (mkdirs ps d)) q = Some v"
proof (induction ps d rule: mkdirs.induct)
  case (2 p ps d)
  then show ?case by (cases "q = p") (auto simp: update_conv split: option.splits fs_node.splits)
qed simp

lemma create_dir_all_keeps:
  "create_dir_all_op p x d = (r, d') \<Longrightarrow> map_of d q = Some v \<Longrightarrow> map_of d' q = Some v"
  using mkdirs_keeps [of d q v] 
  by (auto simp: create_dir_all_op_def split: io_outcome.splits) (metis snd_conv)

lemma mkdirs_files: "map_of (snd (mkdirs ps d)) q = Some (File b) \<Longrightarrow> map_of d q = Some (File b)"
proof (induction ps d rule: mkdirs.induct)
  case (2 p ps d)
  then show ?case by (auto simp: update_conv split: option.splits fs_node.splits if_splits)
qed simp

lemma fs_create_dir_all_keeps:
  assumes "fs_create_dir_all p s = (r, s')" and "map_of (disk s) q = Some v"
  shows "map_of (disk s') q = Some v"
  using assms unfolding fs_create_dir_all_def
  by (cases rule: fs_op_cases) (auto dest: create_dir_all_keeps)

lemma fs_create_dir_all_frame:
  "fs_create_dir_all p s = (r, s') \<Longrightarrow>
   map_of (disk s) \<subseteq>\<^sub>m map_of (disk s') \<and> engine s' = engine s"
  by (auto simp: map_le_def fs_create_dir_all_keeps)
     (auto simp: fs_create_dir_all_def dest: fs_op_engine)

lemma mkdirs_other: "q \<notin> set ps \<Longrightarrow> map_of (snd (mkdirs ps d)) q = map_of d q"
proof (induction ps d rule: mkdirs.induct)
  case (2 p ps d)
  then show ?case by (auto simp: update_conv split: option.splits fs_node.splits)
qed simp

lemma set_tl_prefixes: "q \<in> set (tl (prefixes p)) \<Longrightarrow> prefix q p"
  by (metis in_set_prefixes list.set_sel(2) tl_Nil)

lemma fs_create_dir_all_other:
  assumes "fs_create_dir_all p s = (r, s')" and "\<not> prefix q p"
  shows "map_of (disk s') q = map_of (disk s) q"
proof -
  have q: "q \<notin> set (tl (prefixes p))" using assms(2) set_tl_prefixes by blast
  then have "q \<notin> set (take n (tl (prefixes p)))" for n by (meson in_set_takeD)
  with q have op: "map_of (snd (create_dir_all_op p x d)) q = map_of d q" for x d
    by (simp add: create_dir_all_op_def mkdirs_other split: io_outcome.split)
  from assms(1) [unfolded fs_create_dir_all_def] show ?thesis
  proof (cases rule: fs_op_cases)
    case (ran n os x d)
    then show ?thesis using op [of x "disk s"] by simp
  qed simp
qed

section \<open>A disk that does not fail\<close>

definition healthy :: "('d, 'z) node_scheme \<Rightarrow> bool" where
  "healthy s \<longleftrightarrow> set (io_script s) \<subseteq> {IoOk}"

lemma healthy_suffix: "healthy s \<Longrightarrow> suffix (io_script s') (io_script s) \<Longrightarrow> healthy s'"
  by (auto simp: healthy_def dest: set_mono_suffix)

lemma fs_op_healthy:
  assumes "healthy s" and "fs_op f s = (r, s')"
  obtains (aborted) "r = Cancelled" "s' = s"
  | (ran) n os d where "f IoOk (disk s) = (r, d)" "suffix os (io_script s)"
      "s' = s\<lparr>awaits_left := n, io_script := os, disk := d\<rparr>"
  using assms(2)
proof (cases rule: fs_op_cases)
  case aborted
  then show ?thesis by (intro that(1))
next
  case (ran n os x d)
  then have "x = IoOk" using assms(1) by (auto simp: healthy_def)
  with ran show ?thesis by (intro that(2) [of d os n]) (auto intro: suffix_ConsI)
qed

lemma mkdirs_existing: "\<forall>q \<in> set ps. map_of d q = Some Dir \<Longrightarrow> mkdirs ps d = (Ok (), d)"
  by (induction ps) auto

lemma tl_prefixes: "q \<in> set (tl (prefixes p)) \<Longrightarrow> q \<noteq> [] \<and> prefix q p"
  by (cases p) auto

text \<open>Creating a directory that is there is a no-op.\<close>

definition dirs_exist :: "disk \<Rightarrow> path \<Rightarrow> bool" where
  "dirs_exist d p \<longleftrightarrow> (\<forall>q. prefix q p \<longrightarrow> is_dir d q)"

lemma create_dir_all_existing:
  "dirs_exist d p \<Longrightarrow> create_dir_all_op p IoOk d = (Ok (), d)"
  by (auto simp: create_dir_all_op_def dirs_exist_def is_dir_def intro!: mkdirs_existing dest: tl_prefixes)


lemma mkdirs_Ok: "mkdirs ps d = (Ok u, d') \<Longrightarrow> \<forall>q \<in> set ps. map_of d' q = Some Dir"
proof (induction ps d rule: mkdirs.induct)
  case (2 p ps d)
  show ?case
  proof (cases "map_of d p")
    case None
    with 2 have "\<forall>q \<in> set ps. map_of d' q = Some Dir" and m: "mkdirs ps (AList.update p Dir d) = (Ok u, d')"
      by simp_all
    moreover have "map_of d' p = Some Dir"
      using mkdirs_keeps [of "AList.update p Dir d" p Dir ps] m by (simp add: update_conv)
    ultimately show ?thesis by simp
  next
    case (Some n)
    with 2 have n: "n = Dir" and m: "mkdirs ps d = (Ok u, d')" by (auto split: fs_node.splits)
    with 2 Some have "\<forall>q \<in> set ps. map_of d' q = Some Dir" by simp
    moreover have "map_of d' p = Some Dir" using mkdirs_keeps [of d p Dir ps] m Some n by simp
    ultimately show ?thesis by simp
  qed
qed simp

lemma in_tl_prefixes: "prefix q p \<Longrightarrow> q \<noteq> [] \<Longrightarrow> q \<in> set (tl (prefixes p))"
  by (cases p; cases q) auto

lemma create_dir_all_Ok: "create_dir_all_op p x d = (Ok u, d') \<Longrightarrow> dirs_exist d' p"
  by (auto simp: create_dir_all_op_def dirs_exist_def is_dir_def split: io_outcome.splits
      dest!: mkdirs_Ok dest: in_tl_prefixes)

lemma fs_create_dir_all_Ok:
  assumes "fs_create_dir_all p s = (Ok u, s')"
  shows "dirs_exist (disk s') p"
  using assms unfolding fs_create_dir_all_def
  by (cases rule: fs_op_cases) (auto dest: create_dir_all_Ok)

text \<open>Writing a file that lies below a directory leaves the path to it alone.\<close>

lemma not_prefix_snoc [simp]: "\<not> prefix (p @ [x]) p"
  by (auto dest: prefix_length_le)

lemma dirs_exist_update:
  "dirs_exist d p \<Longrightarrow> \<not> prefix q p \<Longrightarrow> dirs_exist (AList.update q v d) p"
  by (auto simp: dirs_exist_def is_dir_def update_conv)

lemma dirs_exist_cong:
  "(\<And>q. prefix q p \<Longrightarrow> map_of d' q = map_of d q) \<Longrightarrow> dirs_exist d p \<Longrightarrow> dirs_exist d' p"
  by (auto simp: dirs_exist_def is_dir_def)

lemma fs_write_dirs_exist:
  assumes "fs_write q b s = (r, s')" and "\<not> prefix q p" and "dirs_exist (disk s) p"
  shows "dirs_exist (disk s') p"
  using assms(3) fs_write_other [OF assms(1)] assms(2) by (auto intro: dirs_exist_cong)

section \<open>What lies outside the base node\<close>

definition more_is :: "'z \<Rightarrow> ('d, 'z) node_scheme \<Rightarrow> bool" where
  "more_is m s \<longleftrightarrow> node.more s = m"

lemma stable_more_is [simp, intro]: "stable (more_is m)"
  and disk_free_more_is [simp, intro]: "disk_free (more_is m)"
  by (simp_all add: stable_def disk_free_def more_is_def)

lemma more_engine_call [preserves_rules]: "preserves (more_is m) (engine_call f)"
  by (rule preserves_engine_call) (simp_all add: more_is_def)

lemma more_fs [preserves_rules]:
  "preserves (more_is m) (fs_read p)" "preserves (more_is m) (fs_read_to_string p)"
  "preserves (more_is m) (fs_write p b)" "preserves (more_is m) (fs_create_dir_all p)"
  "preserves (more_is m) (fs_read_dir p)" "preserves (more_is m) fs_next_entry"
  "preserves (more_is m) (fs_is_file p)" "preserves (more_is m) (fs_try_exists p)"
  "preserves (more_is m) (fs_remove_dir_all p)"
  by (rule preserves_fs; simp)+

lemma more_await [preserves_rules]: "preserves (more_is m) p \<Longrightarrow> preserves (more_is m) (await p)"
  by (rule preserves_await) simp


lemma more_peer_triple:
  "triple (more_is m) (await (lift_res z)) (\<lambda>x s. more_is m s \<and> z = Ok x) (more_is m)"
proof (rule tripleI)
  fix s x s' assume "more_is m s" and "await (lift_res z) s = (Ok x, s')"
  then show "more_is m s' \<and> z = Ok x" by (auto simp: await_Ok lift_res_def more_is_def)
next
qed (rule preservesD [OF more_await [OF preserves_lift_res]])


section \<open>A file on a disk that does not fail\<close>

text \<open>The file \<open>f\<close> is there, and its contents is one of \<open>B\<close>.\<close>

definition has_file :: "path \<Rightarrow> bytes set \<Rightarrow> ('d, 'z) node_scheme \<Rightarrow> bool" where
  "has_file f B s \<longleftrightarrow> healthy s \<and> (\<exists>b \<in> B. map_of (disk s) f = Some (File b))"

lemma stable_has_file [simp]: "stable (has_file f B)"
  by (auto simp: stable_def has_file_def healthy_def dest: set_mono_suffix)

lemma has_file_engine_call [preserves_rules]: "preserves (has_file f B) (engine_call g)"
  by (rule preserves_engine_call) (simp_all add: has_file_def healthy_def)

lemma has_file_await [preserves_rules]: "preserves (has_file f B) p \<Longrightarrow> preserves (has_file f B) (await p)"
  by (rule preserves_await) simp

lemma has_file_fs_op:
  assumes "\<And>b d r d'. b \<in> B \<Longrightarrow> map_of d f = Some (File b) \<Longrightarrow> g IoOk d = (r, d') \<Longrightarrow>
    \<exists>b' \<in> B. map_of d' f = Some (File b')"
  shows "preserves (has_file f B) (fs_op g)"
proof (rule preservesI)
  fix s r s'
  assume pre: "has_file f B s" and run: "fs_op g s = (r, s')"
  then have h: "healthy s" by (simp add: has_file_def)
  from h run show "has_file f B s'"
  proof (cases rule: fs_op_healthy)
    case (ran n os d)
    obtain b where "b \<in> B" "map_of (disk s) f = Some (File b)" using pre by (auto simp: has_file_def)
    then have "\<exists>b' \<in> B. map_of d f = Some (File b')" by (rule assms [OF _ _ ran(1)])
    moreover have "healthy s'" by (rule healthy_suffix [OF h]) (simp add: ran(2,3))
    ultimately show ?thesis by (simp add: has_file_def ran(3))
  qed (use pre in simp)
qed

lemma has_file_fs [preserves_rules]:
  "preserves (has_file f B) (fs_read p)" "preserves (has_file f B) (fs_read_to_string p)"
  "preserves (has_file f B) (fs_create_dir_all p)"
proof -
  show r: "preserves (has_file f B) (fs_read p)"
    unfolding fs_read_def by (rule has_file_fs_op) (auto simp: read_op_def)
  show "preserves (has_file f B) (fs_read_to_string p)"
    unfolding fs_read_to_string_def
    by (intro preserves_andThen r preserves_if preserves_ret preserves_fail)
  show "preserves (has_file f B) (fs_create_dir_all p)"
    unfolding fs_create_dir_all_def by (rule has_file_fs_op) (auto dest: create_dir_all_keeps)
qed

lemma has_file_fs_write [preserves_rules]:
  assumes "p \<noteq> f \<or> c \<in> B"
  shows "preserves (has_file f B) (fs_write p c)"
  unfolding fs_write_def
proof (rule has_file_fs_op)
  fix b d r d' assume "b \<in> B" and "map_of d f = Some (File b)" and "write_op p c IoOk d = (r, d')"
  then show "\<exists>b' \<in> B. map_of d' f = Some (File b')" using assms
    by (auto simp: write_op_def update_conv split: if_splits)
qed

text \<open>Reading it succeeds, unless the task is aborted.\<close>

lemma has_file_read:
  assumes "has_file f B s" and "\<And>b. b \<in> B \<Longrightarrow> utf8_valid b" and "fs_read_to_string f s = (r, s')"
  shows "(\<exists>b \<in> B. r = Ok b) \<or> r = Cancelled"
proof -
  obtain r0 s0 where rd: "fs_read f s = (r0, s0)" by force
  have "(\<exists>b \<in> B. r0 = Ok b) \<or> r0 = Cancelled"
    using conjunct1 [OF assms(1) [unfolded has_file_def]] rd [unfolded fs_read_def]
    by (cases rule: fs_op_healthy) (use assms(1) in \<open>auto simp: read_op_def has_file_def\<close>)
  then show ?thesis using assms(2,3) rd by (auto simp: fs_read_to_string_def andThen_eval)
qed

end
