(* ===== verification/Platform.thy ===== *)
theory Platform
  imports Disk
begin

text \<open>
  The third-party code the iroh modules call, as one record of functions that is a
  parameter of every definition that uses it: the documents, blobs and router of iroh as
  operations on an opaque engine state, and the (de)serialisers. The second half states,
  over an abstract view of the engine state, what the code relies on: a document is a set
  of entries per (author, key), each with a timestamp; a query returns, per key, an entry with
  the greatest timestamp and no tombstones; the local clock does not run backwards;
  writing one key leaves the entries of
  other authors, of other documents, and of keys that do not extend it alone.
  These contracts occur in theorems as named hypotheses only.
\<close>

section \<open>Operations\<close>

datatype share_mode = ShareRead | ShareWrite
datatype addr_options = AddrId | RelayAndAddresses

text \<open>\<open>QueryBuilder::<SingleLatestPerKeyQuery>::default()\<close> with its key filter.\<close>

datatype query = KeyExact bytes | KeyPrefix bytes

record 'd platform =
  author_default :: "'d \<Rightarrow> author_id res \<times> 'd"
  docs_create :: "'d \<Rightarrow> namespace_id res \<times> 'd"
  docs_open :: "namespace_id \<Rightarrow> 'd \<Rightarrow> namespace_id option res \<times> 'd"
  docs_import :: "doc_ticket \<Rightarrow> 'd \<Rightarrow> namespace_id res \<times> 'd"
  doc_share :: "namespace_id \<Rightarrow> share_mode \<Rightarrow> addr_options \<Rightarrow> 'd \<Rightarrow> doc_ticket res \<times> 'd"
  doc_set_bytes :: "namespace_id \<Rightarrow> author_id \<Rightarrow> bytes \<Rightarrow> bytes \<Rightarrow> 'd \<Rightarrow> content_hash res \<times> 'd"
  doc_del :: "namespace_id \<Rightarrow> author_id \<Rightarrow> bytes \<Rightarrow> 'd \<Rightarrow> nat res \<times> 'd"
  doc_get_one :: "namespace_id \<Rightarrow> query \<Rightarrow> 'd \<Rightarrow> entry option res \<times> 'd"
  doc_get_many :: "namespace_id \<Rightarrow> query \<Rightarrow> 'd \<Rightarrow> (error + entry) list res \<times> 'd"
  blobs_get_bytes :: "content_hash \<Rightarrow> 'd \<Rightarrow> bytes res \<times> 'd"
  endpoint_bind :: "hash32 \<Rightarrow> 'd \<Rightarrow> unit res \<times> 'd"
  blobs_load :: "path \<Rightarrow> 'd \<Rightarrow> unit res \<times> 'd"
  docs_persistent :: "path \<Rightarrow> 'd \<Rightarrow> unit res \<times> 'd"
  router_spawn :: "'d \<Rightarrow> unit res \<times> 'd"
  endpoint_addr_of :: "'d \<Rightarrow> endpoint_addr"
  router_shutdown :: "'d \<Rightarrow> unit res \<times> 'd"
  router_is_shutdown :: "'d \<Rightarrow> bool"
  blobs_shutdown :: "'d \<Rightarrow> unit res \<times> 'd"
  docs_shutdown :: "'d \<Rightarrow> unit res \<times> 'd"
  capability_id :: "capability \<Rightarrow> namespace_id"
  endpoint_to_string :: "endpoint_id \<Rightarrow> string"
  endpoint_from_str :: "string \<Rightarrow> endpoint_id option"
  endpoint_to_json :: "endpoint_id \<Rightarrow> bytes option"
  endpoint_from_json :: "bytes \<Rightarrow> endpoint_id option"
  ticket_to_json :: "doc_ticket \<Rightarrow> bytes option"
  ticket_from_json :: "bytes \<Rightarrow> doc_ticket option"
  config_to_json :: "machine_config \<Rightarrow> bytes option"
  config_from_json :: "bytes \<Rightarrow> machine_config option"
  contract_to_json :: "claimable_contract \<Rightarrow> bytes option"
  contract_from_json :: "bytes \<Rightarrow> claimable_contract option"
  contract_id_of :: "claimable_contract \<Rightarrow> contract_id"
  invite_federation_id :: "invite_code \<Rightarrow> federation_id"
  hash_database_bytes :: "hash32 \<Rightarrow> bytes"

section \<open>The view of the document engine\<close>

record stored =
  st_hash :: content_hash
  st_timestamp :: "64 word"
  st_empty :: bool

record 'd docs_view =
  author_of :: "'d \<Rightarrow> author_id"
  known :: "'d \<Rightarrow> namespace_id \<Rightarrow> bool"
  stored_of :: "'d \<Rightarrow> namespace_id \<Rightarrow> author_id \<Rightarrow> bytes \<Rightarrow> stored option"
  blob_of :: "'d \<Rightarrow> content_hash \<Rightarrow> bytes option"
  clock_of :: "'d \<Rightarrow> 64 word"

definition same_store :: "('d, 'v) docs_view_scheme \<Rightarrow> 'd \<Rightarrow> 'd \<Rightarrow> bool" where
  "same_store V d d' \<longleftrightarrow> author_of V d' = author_of V d \<and> known V d' = known V d \<and>
     stored_of V d' = stored_of V d \<and> blob_of V d' = blob_of V d \<and> clock_of V d \<le> clock_of V d'"

text \<open>\<open>e\<close> is a newest entry of its key and no tombstone.\<close>

definition visible :: "('d, 'v) docs_view_scheme \<Rightarrow> 'd \<Rightarrow> namespace_id \<Rightarrow> entry \<Rightarrow> bool" where
  "visible V d ns e \<longleftrightarrow>
     (\<exists>st. stored_of V d ns (entry_author e) (entry_key e) = Some st \<and>
           entry_hash e = st_hash st \<and> entry_timestamp e = st_timestamp st \<and> \<not> st_empty st \<and>
           (\<forall>a st'. stored_of V d ns a (entry_key e) = Some st' \<longrightarrow> st_timestamp st' \<le> st_timestamp st))"

text \<open>The entry of author \<open>a\<close> is strictly newer than every other author's.\<close>

definition newest :: "('d, 'v) docs_view_scheme \<Rightarrow> 'd \<Rightarrow> namespace_id \<Rightarrow> author_id \<Rightarrow> bytes \<Rightarrow> stored \<Rightarrow> bool" where
  "newest V d ns a k st \<longleftrightarrow> stored_of V d ns a k = Some st \<and>
     (\<forall>a' st'. stored_of V d ns a' k = Some st' \<longrightarrow> a' \<noteq> a \<longrightarrow> st_timestamp st' < st_timestamp st)"

text \<open>The local clock is ahead of what the other authors have written to this key.\<close>

definition clock_ahead :: "('d, 'v) docs_view_scheme \<Rightarrow> 'd \<Rightarrow> namespace_id \<Rightarrow> bytes \<Rightarrow> bool" where
  "clock_ahead V d ns k \<longleftrightarrow>
     (\<forall>a st. stored_of V d ns a k = Some st \<longrightarrow> a \<noteq> author_of V d \<longrightarrow> st_timestamp st < clock_of V d)"

section \<open>Contracts\<close>

definition author_default_law :: "'d platform \<Rightarrow> ('d, 'v) docs_view_scheme \<Rightarrow> bool" where
  "author_default_law P V \<longleftrightarrow> (\<forall>d r d'. author_default P d = (r, d') \<longrightarrow>
     same_store V d d' \<and> (\<forall>a. r = Ok a \<longrightarrow> a = author_of V d))"

definition docs_open_law :: "'d platform \<Rightarrow> ('d, 'v) docs_view_scheme \<Rightarrow> bool" where
  "docs_open_law P V \<longleftrightarrow> (\<forall>ns d r d'. docs_open P ns d = (r, d') \<longrightarrow>
     same_store V d d' \<and> (\<forall>x. r = Ok x \<longrightarrow> x = (if known V d ns then Some ns else None)))"

definition doc_share_law :: "'d platform \<Rightarrow> ('d, 'v) docs_view_scheme \<Rightarrow> bool" where
  "doc_share_law P V \<longleftrightarrow> (\<forall>ns m ao d r d'. doc_share P ns m ao d = (r, d') \<longrightarrow>
     same_store V d d' \<and> (\<forall>t. r = Ok t \<longrightarrow> capability_id P (ticket_capability t) = ns \<and>
        (m = ShareWrite \<longrightarrow> (\<exists>k. ticket_capability t = CapWrite k))))"

definition get_bytes_law :: "'d platform \<Rightarrow> ('d, 'v) docs_view_scheme \<Rightarrow> bool" where
  "get_bytes_law P V \<longleftrightarrow> (\<forall>h d r d'. blobs_get_bytes P h d = (r, d') \<longrightarrow>
     same_store V d d' \<and> (\<forall>b. r = Ok b \<longrightarrow> blob_of V d h = Some b))"

definition get_one_law :: "'d platform \<Rightarrow> ('d, 'v) docs_view_scheme \<Rightarrow> bool" where
  "get_one_law P V \<longleftrightarrow> (\<forall>ns k d r d'. doc_get_one P ns (KeyExact k) d = (r, d') \<longrightarrow>
     same_store V d d' \<and>
     (\<forall>e. r = Ok (Some e) \<longrightarrow> entry_key e = k \<and> visible V d ns e) \<and>
     (r = Ok None \<longrightarrow> (\<forall>a st. newest V d ns a k st \<longrightarrow> st_empty st)))"

definition get_many_law :: "'d platform \<Rightarrow> ('d, 'v) docs_view_scheme \<Rightarrow> bool" where
  "get_many_law P V \<longleftrightarrow> (\<forall>ns p d r d'. doc_get_many P ns (KeyPrefix p) d = (r, d') \<longrightarrow>
     same_store V d d' \<and>
     (\<forall>es. r = Ok es \<longrightarrow>
        (\<forall>e. Inr e \<in> set es \<longrightarrow> prefix p (entry_key e) \<and> visible V d ns e) \<and>
        (\<forall>a k st. newest V d ns a k st \<longrightarrow> prefix p k \<longrightarrow> \<not> st_empty st \<longrightarrow>
           (\<exists>x. Inl x \<in> set es) \<or> (\<exists>e. Inr e \<in> set es \<and> entry_key e = k)) \<and>
        distinct [entry_key e. Inr e \<leftarrow> es]))"

text \<open>A write or delete reaches only the entries of its author whose keys extend its key.\<close>

definition touches_only :: "('d, 'v) docs_view_scheme \<Rightarrow> namespace_id \<Rightarrow> author_id \<Rightarrow> bytes \<Rightarrow> 'd \<Rightarrow> 'd \<Rightarrow> bool" where
  "touches_only V ns a k d d' \<longleftrightarrow>
     author_of V d' = author_of V d \<and> known V d' = known V d \<and> clock_of V d \<le> clock_of V d' \<and>
     (\<forall>h b. blob_of V d h = Some b \<longrightarrow> blob_of V d' h = Some b) \<and>
     (\<forall>ns' a' k'. (ns' \<noteq> ns \<or> a' \<noteq> a \<or> \<not> prefix k k') \<longrightarrow>
        stored_of V d' ns' a' k' = stored_of V d ns' a' k')"

definition set_bytes_law :: "'d platform \<Rightarrow> ('d, 'v) docs_view_scheme \<Rightarrow> bool" where
  "set_bytes_law P V \<longleftrightarrow> (\<forall>ns a k v d r d'. doc_set_bytes P ns a k v d = (r, d') \<longrightarrow>
     touches_only V ns a k d d' \<and>
     (\<forall>h. r = Ok h \<longrightarrow> blob_of V d' h = Some v \<and>
        stored_of V d' ns a k = Some \<lparr>st_hash = h, st_timestamp = clock_of V d, st_empty = False\<rparr>) \<and>
     ((\<forall>h. r \<noteq> Ok h) \<longrightarrow> stored_of V d' = stored_of V d))"

definition del_law :: "'d platform \<Rightarrow> ('d, 'v) docs_view_scheme \<Rightarrow> bool" where
  "del_law P V \<longleftrightarrow> (\<forall>ns a k d r d'. doc_del P ns a k d = (r, d') \<longrightarrow>
     touches_only V ns a k d d' \<and>
     (\<forall>n. r = Ok n \<longrightarrow> (\<exists>st. stored_of V d' ns a k = Some st \<and>
        st_timestamp st = clock_of V d \<and> st_empty st)) \<and>
     ((\<forall>n. r \<noteq> Ok n) \<longrightarrow> stored_of V d' = stored_of V d))"

definition create_law :: "'d platform \<Rightarrow> ('d, 'v) docs_view_scheme \<Rightarrow> bool" where
  "create_law P V \<longleftrightarrow> (\<forall>d r d'. docs_create P d = (r, d') \<longrightarrow>
     author_of V d' = author_of V d \<and> blob_of V d' = blob_of V d \<and>
     (\<forall>ns. known V d ns \<longrightarrow> known V d' ns \<and> stored_of V d' ns = stored_of V d ns) \<and>
     (\<forall>ns. r = Ok ns \<longrightarrow> \<not> known V d ns \<and> known V d' ns \<and> (\<forall>a k. stored_of V d' ns a k = None)))"

definition import_law :: "'d platform \<Rightarrow> ('d, 'v) docs_view_scheme \<Rightarrow> bool" where
  "import_law P V \<longleftrightarrow> (\<forall>t d r d'. docs_import P t d = (r, d') \<longrightarrow>
     author_of V d' = author_of V d \<and>
     (\<forall>h b. blob_of V d h = Some b \<longrightarrow> blob_of V d' h = Some b) \<and>
     (\<forall>ns. known V d ns \<longrightarrow> known V d' ns) \<and>
     (\<forall>ns. ns \<noteq> capability_id P (ticket_capability t) \<longrightarrow>
        known V d' ns = known V d ns \<and> stored_of V d' ns = stored_of V d ns) \<and>
     (\<forall>ns. r = Ok ns \<longrightarrow> ns = capability_id P (ticket_capability t) \<and> known V d' ns))"

definition docs_contract :: "'d platform \<Rightarrow> ('d, 'v) docs_view_scheme \<Rightarrow> bool" where
  "docs_contract P V \<longleftrightarrow>
     author_default_law P V \<and> docs_open_law P V \<and> doc_share_law P V \<and> get_bytes_law P V \<and>
     get_one_law P V \<and> get_many_law P V \<and> set_bytes_law P V \<and> del_law P V \<and>
     create_law P V \<and> import_law P V"

text \<open>
  What is read back from JSON or from a string is what was written, as valid UTF-8; the
  database encoding of a hash (\<open>DatabaseValue::to_bytes\<close>) is its 32 bytes.
\<close>

definition codec_contract :: "'d platform \<Rightarrow> bool" where
  "codec_contract P \<longleftrightarrow>
     (\<forall>x b. endpoint_to_json P x = Some b \<longrightarrow> endpoint_from_json P b = Some x \<and> utf8_valid b) \<and>
     (\<forall>x b. ticket_to_json P x = Some b \<longrightarrow> ticket_from_json P b = Some x \<and> utf8_valid b) \<and>
     (\<forall>x b. config_to_json P x = Some b \<longrightarrow> config_from_json P b = Some x \<and> utf8_valid b) \<and>
     (\<forall>x b. contract_to_json P x = Some b \<longrightarrow> contract_from_json P b = Some x \<and> utf8_valid b) \<and>
     (\<forall>x. endpoint_from_str P (endpoint_to_string P x) = Some x) \<and>
     (\<forall>h. hash_database_bytes P h = bytes_of_hash h)"

definition router_contract :: "'d platform \<Rightarrow> bool" where
  "router_contract P \<longleftrightarrow>
     (\<forall>d r d'. router_shutdown P d = (r, d') \<longrightarrow>
        (r = Ok () \<longrightarrow> router_is_shutdown P d') \<and> (router_is_shutdown P d \<longrightarrow> r = Ok () \<and> router_is_shutdown P d')) \<and>
     (\<forall>d r d'. blobs_shutdown P d = (r, d') \<longrightarrow> router_is_shutdown P d' = router_is_shutdown P d) \<and>
     (\<forall>d r d'. docs_shutdown P d = (r, d') \<longrightarrow> router_is_shutdown P d' = router_is_shutdown P d)"

section \<open>The contracts as rules\<close>

lemma same_store_refl [simp]: "same_store V d d"
  by (simp add: same_store_def)

lemma same_store_views:
  assumes "same_store V d d'"
  shows "author_of V d' = author_of V d" "known V d' = known V d"
    "stored_of V d' = stored_of V d" "blob_of V d' = blob_of V d" "clock_of V d \<le> clock_of V d'"
  using assms by (simp_all add: same_store_def)

lemma touches_only_views:
  assumes "touches_only V ns a k d d'"
  shows "author_of V d' = author_of V d" "known V d' = known V d" "clock_of V d \<le> clock_of V d'"
    "blob_of V d h = Some b \<Longrightarrow> blob_of V d' h = Some b"
    "ns' \<noteq> ns \<or> a' \<noteq> a \<or> \<not> prefix k k' \<Longrightarrow> stored_of V d' ns' a' k' = stored_of V d ns' a' k'"
  using assms unfolding touches_only_def by blast+

lemma author_default_contract:
  assumes "docs_contract P V" and "author_default P d = (r, d')"
  shows "same_store V d d'"
    and "r = Ok a \<Longrightarrow> a = author_of V d"
proof -
  from assms(1) have "author_default_law P V" by (simp add: docs_contract_def)
  with assms(2) show "same_store V d d'" "r = Ok a \<Longrightarrow> a = author_of V d"
    unfolding author_default_law_def by blast+
qed

lemma docs_open_contract:
  assumes "docs_contract P V" and "docs_open P ns d = (r, d')"
  shows "same_store V d d'"
    and "r = Ok x \<Longrightarrow> x = (if known V d ns then Some ns else None)"
proof -
  from assms(1) have "docs_open_law P V" by (simp add: docs_contract_def)
  with assms(2) show "same_store V d d'" "r = Ok x \<Longrightarrow> x = (if known V d ns then Some ns else None)"
    unfolding docs_open_law_def by blast+
qed

lemma doc_share_contract:
  assumes "docs_contract P V" and "doc_share P ns m ao d = (r, d')"
  shows "same_store V d d'"
    and "r = Ok t \<Longrightarrow> capability_id P (ticket_capability t) = ns"
    and "r = Ok t \<Longrightarrow> m = ShareWrite \<Longrightarrow> \<exists>k. ticket_capability t = CapWrite k"
proof -
  from assms(1) have "doc_share_law P V" by (simp add: docs_contract_def)
  with assms(2) show "same_store V d d'" "r = Ok t \<Longrightarrow> capability_id P (ticket_capability t) = ns" "r = Ok t \<Longrightarrow> m = ShareWrite \<Longrightarrow> \<exists>k. ticket_capability t = CapWrite k"
    unfolding doc_share_law_def by blast+
qed

lemma blobs_get_bytes_contract:
  assumes "docs_contract P V" and "blobs_get_bytes P h d = (r, d')"
  shows "same_store V d d'"
    and "r = Ok b \<Longrightarrow> blob_of V d h = Some b"
proof -
  from assms(1) have "get_bytes_law P V" by (simp add: docs_contract_def)
  with assms(2) show "same_store V d d'" "r = Ok b \<Longrightarrow> blob_of V d h = Some b"
    unfolding get_bytes_law_def by blast+
qed

lemma doc_get_one_contract:
  assumes "docs_contract P V" and "doc_get_one P ns (KeyExact k) d = (r, d')"
  shows "same_store V d d'"
    and "r = Ok (Some e) \<Longrightarrow> entry_key e = k \<and> visible V d ns e"
    and "r = Ok None \<Longrightarrow> newest V d ns a k st \<Longrightarrow> st_empty st"
proof -
  from assms(1) have "get_one_law P V" by (simp add: docs_contract_def)
  with assms(2) show "same_store V d d'" "r = Ok (Some e) \<Longrightarrow> entry_key e = k \<and> visible V d ns e" "r = Ok None \<Longrightarrow> newest V d ns a k st \<Longrightarrow> st_empty st"
    unfolding get_one_law_def by blast+
qed

lemma doc_get_many_contract:
  assumes "docs_contract P V" and "doc_get_many P ns (KeyPrefix p) d = (r, d')"
  shows "same_store V d d'"
    and "r = Ok es \<Longrightarrow> Inr e \<in> set es \<Longrightarrow> prefix p (entry_key e) \<and> visible V d ns e"
    and "r = Ok es \<Longrightarrow> newest V d ns a k st \<Longrightarrow> prefix p k \<Longrightarrow> \<not> st_empty st \<Longrightarrow>
      (\<exists>x. Inl x \<in> set es) \<or> (\<exists>e. Inr e \<in> set es \<and> entry_key e = k)"
    and "r = Ok es \<Longrightarrow> distinct [entry_key e. Inr e \<leftarrow> es]"
proof -
  from assms(1) have "get_many_law P V" by (simp add: docs_contract_def)
  with assms(2) show "same_store V d d'" "r = Ok es \<Longrightarrow> Inr e \<in> set es \<Longrightarrow> prefix p (entry_key e) \<and> visible V d ns e" "r = Ok es \<Longrightarrow> newest V d ns a k st \<Longrightarrow> prefix p k \<Longrightarrow> \<not> st_empty st \<Longrightarrow>
      (\<exists>x. Inl x \<in> set es) \<or> (\<exists>e. Inr e \<in> set es \<and> entry_key e = k)" "r = Ok es \<Longrightarrow> distinct [entry_key e. Inr e \<leftarrow> es]"
    unfolding get_many_law_def by blast+
qed

lemma doc_set_bytes_contract:
  assumes "docs_contract P V" and "doc_set_bytes P ns a k v d = (r, d')"
  shows "touches_only V ns a k d d'"
    and "r = Ok h \<Longrightarrow> blob_of V d' h = Some v"
    and "r = Ok h \<Longrightarrow>
      stored_of V d' ns a k = Some \<lparr>st_hash = h, st_timestamp = clock_of V d, st_empty = False\<rparr>"
    and "(\<And>h. r \<noteq> Ok h) \<Longrightarrow> stored_of V d' = stored_of V d"
proof -
  from assms(1) have "set_bytes_law P V" by (simp add: docs_contract_def)
  with assms(2) show "touches_only V ns a k d d'" "r = Ok h \<Longrightarrow> blob_of V d' h = Some v" "r = Ok h \<Longrightarrow>
      stored_of V d' ns a k = Some \<lparr>st_hash = h, st_timestamp = clock_of V d, st_empty = False\<rparr>" "(\<And>h. r \<noteq> Ok h) \<Longrightarrow> stored_of V d' = stored_of V d"
    unfolding set_bytes_law_def by blast+
qed

lemma doc_del_contract:
  assumes "docs_contract P V" and "doc_del P ns a k d = (r, d')"
  shows "touches_only V ns a k d d'"
    and "r = Ok n \<Longrightarrow> \<exists>st. stored_of V d' ns a k = Some st \<and> st_timestamp st = clock_of V d \<and> st_empty st"
    and "(\<And>n. r \<noteq> Ok n) \<Longrightarrow> stored_of V d' = stored_of V d"
proof -
  from assms(1) have "del_law P V" by (simp add: docs_contract_def)
  with assms(2) show "touches_only V ns a k d d'" "r = Ok n \<Longrightarrow> \<exists>st. stored_of V d' ns a k = Some st \<and> st_timestamp st = clock_of V d \<and> st_empty st" "(\<And>n. r \<noteq> Ok n) \<Longrightarrow> stored_of V d' = stored_of V d"
    unfolding del_law_def by blast+
qed

lemma docs_create_contract:
  assumes "docs_contract P V" and "docs_create P d = (r, d')"
  shows "author_of V d' = author_of V d"
    and "blob_of V d' = blob_of V d"
    and "known V d ns \<Longrightarrow> known V d' ns \<and> stored_of V d' ns = stored_of V d ns"
    and "r = Ok ns \<Longrightarrow> \<not> known V d ns \<and> known V d' ns \<and> (\<forall>a k. stored_of V d' ns a k = None)"
proof -
  from assms(1) have "create_law P V" by (simp add: docs_contract_def)
  with assms(2) show "author_of V d' = author_of V d" "blob_of V d' = blob_of V d" "known V d ns \<Longrightarrow> known V d' ns \<and> stored_of V d' ns = stored_of V d ns" "r = Ok ns \<Longrightarrow> \<not> known V d ns \<and> known V d' ns \<and> (\<forall>a k. stored_of V d' ns a k = None)"
    unfolding create_law_def by blast+
qed

lemma docs_import_contract:
  assumes "docs_contract P V" and "docs_import P t d = (r, d')"
  shows "author_of V d' = author_of V d"
    and "blob_of V d h = Some b \<Longrightarrow> blob_of V d' h = Some b"
    and "known V d ns \<Longrightarrow> known V d' ns"
    and "ns \<noteq> capability_id P (ticket_capability t) \<Longrightarrow>
      known V d' ns = known V d ns \<and> stored_of V d' ns = stored_of V d ns"
    and "r = Ok ns \<Longrightarrow> ns = capability_id P (ticket_capability t) \<and> known V d' ns"
proof -
  from assms(1) have "import_law P V" by (simp add: docs_contract_def)
  with assms(2) show "author_of V d' = author_of V d" "blob_of V d h = Some b \<Longrightarrow> blob_of V d' h = Some b" "known V d ns \<Longrightarrow> known V d' ns" "ns \<noteq> capability_id P (ticket_capability t) \<Longrightarrow>
      known V d' ns = known V d ns \<and> stored_of V d' ns = stored_of V d ns" "r = Ok ns \<Longrightarrow> ns = capability_id P (ticket_capability t) \<and> known V d' ns"
    unfolding import_law_def by blast+
qed

lemma codec_contractD:
  assumes "codec_contract P"
  shows "endpoint_to_json P x = Some b \<Longrightarrow> endpoint_from_json P b = Some x \<and> utf8_valid b"
    and "ticket_to_json P t = Some b \<Longrightarrow> ticket_from_json P b = Some t \<and> utf8_valid b"
    and "config_to_json P c = Some b \<Longrightarrow> config_from_json P b = Some c \<and> utf8_valid b"
    and "contract_to_json P cc = Some b \<Longrightarrow> contract_from_json P b = Some cc \<and> utf8_valid b"
    and "endpoint_from_str P (endpoint_to_string P x) = Some x"
    and "hash_database_bytes P h = bytes_of_hash h"
  using assms unfolding codec_contract_def by blast+

text \<open>Newest entries are visible, and decide what a query may return.\<close>

lemma newest_visible_unique:
  assumes "newest V d ns a k st" and "visible V d ns e" and "entry_key e = k"
  shows "entry_author e = a" and "entry_hash e = st_hash st" and "entry_timestamp e = st_timestamp st"
    and "\<not> st_empty st"
proof -
  from assms(2,3) obtain st' where st': "stored_of V d ns (entry_author e) k = Some st'"
    and e: "entry_hash e = st_hash st'" "entry_timestamp e = st_timestamp st'" "\<not> st_empty st'"
    and max: "\<And>a st. stored_of V d ns a k = Some st \<Longrightarrow> st_timestamp st \<le> st_timestamp st'"
    by (auto simp: visible_def)
  from assms(1) have own: "stored_of V d ns a k = Some st"
    and other: "\<And>a' st'. stored_of V d ns a' k = Some st' \<Longrightarrow> a' \<noteq> a \<Longrightarrow> st_timestamp st' < st_timestamp st"
    by (auto simp: newest_def)
  show "entry_author e = a"
    using other [OF st'] max [OF own] by fastforce
  with own st' have "st' = st" by simp
  with e show "entry_hash e = st_hash st" "entry_timestamp e = st_timestamp st" "\<not> st_empty st"
    by simp_all
qed

lemma newest_after_set:
  assumes "docs_contract P V" and "doc_set_bytes P ns (author_of V d) k v d = (Ok h, d')"
    and "clock_ahead V d ns k"
  shows "newest V d' ns (author_of V d) k \<lparr>st_hash = h, st_timestamp = clock_of V d, st_empty = False\<rparr>"
  using doc_set_bytes_contract(3) [OF assms(1,2) refl]
    touches_only_views(5) [OF doc_set_bytes_contract(1) [OF assms(1,2)]] assms(3)
  by (auto simp: newest_def clock_ahead_def)

lemma newest_after_del:
  assumes "docs_contract P V" and "doc_del P ns (author_of V d) k d = (Ok n, d')"
    and "clock_ahead V d ns k"
  shows "\<exists>st. newest V d' ns (author_of V d) k st \<and> st_empty st"
proof -
  obtain st where "stored_of V d' ns (author_of V d) k = Some st" "st_timestamp st = clock_of V d" "st_empty st"
    using doc_del_contract(2) [OF assms(1,2) refl] by blast
  then show ?thesis
    using touches_only_views(5) [OF doc_del_contract(1) [OF assms(1,2)]] assms(3)
    by (intro exI [of _ st]) (auto simp: newest_def clock_ahead_def)
qed

section \<open>Quiet steps\<close>

text \<open>
  A step that only reads: it spends awaits and I/O outcomes, and leaves the disk, the
  document store and the rest of the node alone. Most operations are a quiet prefix
  followed by one effect, and proofs follow that structure.
\<close>

definition quiet :: "('d, 'v) docs_view_scheme \<Rightarrow> ('d, 'z) node_scheme \<Rightarrow> ('d, 'z) node_scheme \<Rightarrow> bool" where
  "quiet V s s' \<longleftrightarrow> (\<exists>n os e. s' = s\<lparr>awaits_left := n, io_script := os, engine := e\<rparr> \<and>
     suffix os (io_script s) \<and> same_store V (engine s) e)"

lemma quietI:
  "s' = s\<lparr>awaits_left := n, io_script := os, engine := e\<rparr> \<Longrightarrow> suffix os (io_script s) \<Longrightarrow>
   same_store V (engine s) e \<Longrightarrow> quiet V s s'"
  unfolding quiet_def by blast

lemma same_store_trans: "same_store V a b \<Longrightarrow> same_store V b c \<Longrightarrow> same_store V a c"
  by (auto simp: same_store_def)

lemma quiet_refl [simp]: "quiet V s s"
proof -
  have "s = s\<lparr>awaits_left := awaits_left s, io_script := io_script s, engine := engine s\<rparr>" by simp
  then show ?thesis by (rule quietI) simp_all
qed

lemma quiet_trans [trans]:
  assumes "quiet V s t" and "quiet V t u"
  shows "quiet V s u"
proof -
  obtain n os e where t: "t = s\<lparr>awaits_left := n, io_script := os, engine := e\<rparr>"
    "suffix os (io_script s)" "same_store V (engine s) e"
    using assms(1) by (auto simp: quiet_def)
  obtain n' os' e' where u: "u = t\<lparr>awaits_left := n', io_script := os', engine := e'\<rparr>"
    "suffix os' (io_script t)" "same_store V (engine t) e'"
    using assms(2) by (auto simp: quiet_def)
  have "u = s\<lparr>awaits_left := n', io_script := os', engine := e'\<rparr>" using t(1) u(1) by simp
  moreover have "suffix os' (io_script s)" using t u(2) by (auto intro: suffix_order.trans)
  moreover have "same_store V (engine s) e'" using t u(3) by (auto intro: same_store_trans)
  ultimately show ?thesis by (rule quietI)
qed

lemma quiet_views:
  assumes "quiet V s s'"
  shows "disk s' = disk s" "node.more s' = node.more s" "suffix (io_script s') (io_script s)"
    "same_store V (engine s) (engine s')"
  using assms by (auto simp: quiet_def)

lemma quiet_engine_views:
  assumes "quiet V s s'"
  shows "author_of V (engine s') = author_of V (engine s)" "known V (engine s') = known V (engine s)"
    "stored_of V (engine s') = stored_of V (engine s)" "blob_of V (engine s') = blob_of V (engine s)"
    "clock_of V (engine s) \<le> clock_of V (engine s')"
  using same_store_views [OF quiet_views(4) [OF assms]] by simp_all

lemma quiet_engine_call:
  assumes "\<And>d r d'. f d = (r, d') \<Longrightarrow> same_store V d d'" and "engine_call f s = (r, s')"
  shows "quiet V s s'"
  using assms(2)
proof (cases rule: engine_call_cases)
  case (ran n d)
  have "s' = s\<lparr>awaits_left := n, io_script := io_script s, engine := d\<rparr>" using ran(2) by simp
  then show ?thesis by (rule quietI) (use ran assms(1) in auto)
qed simp

lemma quiet_fs_op:
  assumes "\<And>x d r d'. f x d = (r, d') \<Longrightarrow> d' = d" and "fs_op f s = (r, s')"
  shows "quiet V s s'"
  using assms(2)
proof (cases rule: fs_op_cases)
  case (ran n os x d)
  have "d = disk s" using ran(1) by (rule assms(1))
  then have "s' = s\<lparr>awaits_left := n, io_script := os, engine := engine s\<rparr>" using ran(2) by simp
  then show ?thesis by (rule quietI) (use ran(4) in \<open>auto intro: suffix_ConsI\<close>)
qed simp

lemma quiet_suspend: "await (ret x) s = (r, s') \<Longrightarrow> quiet V s s'"
proof (erule suspend_cases)
  fix n assume "s' = s\<lparr>awaits_left := n\<rparr>"
  then have "s' = s\<lparr>awaits_left := n, io_script := io_script s, engine := engine s\<rparr>" by simp
  then show ?thesis by (rule quietI) simp_all
qed simp

lemma quiet_fs_read: "fs_read p s = (r, s') \<Longrightarrow> quiet V s s'"
  unfolding fs_read_def by (rule quiet_fs_op) (rule read_op_disk)

text \<open>Programs all of whose runs are quiet.\<close>

definition reads_only :: "('d, 'v) docs_view_scheme \<Rightarrow> (('d, 'z) node_scheme, 'a) prog \<Rightarrow> bool" where
  "reads_only V p \<longleftrightarrow> (\<forall>s r s'. p s = (r, s') \<longrightarrow> quiet V s s')"

named_theorems reads_rules "programs that only read"

lemma reads_onlyI: "(\<And>s r s'. p s = (r, s') \<Longrightarrow> quiet V s s') \<Longrightarrow> reads_only V p"
  by (simp add: reads_only_def)

lemma reads_onlyD: "reads_only V p \<Longrightarrow> p s = (r, s') \<Longrightarrow> quiet V s s'"
  by (simp add: reads_only_def)

lemma reads_only_ret [reads_rules]: "reads_only V (ret x)"
  and reads_only_fail [reads_rules]: "reads_only V (fail e)"
  and reads_only_panic [reads_rules]: "reads_only V panic"
  and reads_only_lift_res [reads_rules]: "reads_only V (lift_res z)"
  by (simp_all add: reads_only_def lift_res_def)

lemma reads_only_andThen [reads_rules]:
  assumes "reads_only V m" and "\<And>x. reads_only V (f x)"
  shows "reads_only V (andThen m f)"
proof (rule reads_onlyI)
  fix s r s' assume run: "andThen m f s = (r, s')"
  obtain r1 s1 where m: "m s = (r1, s1)" by force
  with assms(1) have q: "quiet V s s1" by (auto dest: reads_onlyD)
  show "quiet V s s'"
  proof (cases r1)
    case (Ok x)
    with run m have "f x s1 = (r, s')" by (simp add: andThen_eval)
    with assms(2) have "quiet V s1 s'" by (auto dest: reads_onlyD)
    with q show ?thesis by (rule quiet_trans)
  qed (use run m q in \<open>auto simp: andThen_eval\<close>)
qed

lemma reads_only_attempt [reads_rules]: "reads_only V m \<Longrightarrow> reads_only V (attempt m)"
  by (auto simp: reads_only_def attempt_def split: prod.splits res.splits)

lemma reads_only_ok_or [reads_rules]: "reads_only V (ok_or e x)"
  by (cases x) (simp_all add: reads_rules)

lemma reads_only_unwrap [reads_rules]: "reads_only V (unwrap x)"
  by (cases x) (simp_all add: reads_rules)

lemma reads_only_for_fold [reads_rules]:
  "(\<And>acc x. reads_only V (f acc x)) \<Longrightarrow> reads_only V (for_fold f acc xs)"
  by (induction xs arbitrary: acc) (simp_all add: reads_only_ret reads_only_andThen)

lemma reads_only_if [reads_rules]: "reads_only V p \<Longrightarrow> reads_only V q \<Longrightarrow> reads_only V (if b then p else q)"
  by simp

lemma reads_only_case_option [reads_rules]:
  "reads_only V p \<Longrightarrow> (\<And>x. reads_only V (q x)) \<Longrightarrow> reads_only V (case z of None \<Rightarrow> p | Some x \<Rightarrow> q x)"
  by (cases z) simp_all

lemma reads_only_case_sum [reads_rules]:
  "(\<And>x. reads_only V (p x)) \<Longrightarrow> (\<And>x. reads_only V (q x)) \<Longrightarrow>
   reads_only V (case z of Inl x \<Rightarrow> p x | Inr x \<Rightarrow> q x)"
  by (cases z) simp_all

lemma reads_only_fs [reads_rules]:
  "reads_only V (fs_read p)" "reads_only V (fs_read_to_string p)" "reads_only V (await (ret x))"
proof -
  show 1: "reads_only V (fs_read p)" by (rule reads_onlyI) (rule quiet_fs_read)
  then show "reads_only V (fs_read_to_string p)"
    unfolding fs_read_to_string_def by (intro reads_rules)
  show "reads_only V (await (ret x))" by (rule reads_onlyI) (rule quiet_suspend)
qed

lemma reads_only_dir [reads_rules]:
  "reads_only V (fs_read_dir p)" "reads_only V fs_next_entry" "reads_only V (fs_is_file p)"
  "reads_only V (fs_try_exists p)"
  unfolding fs_read_dir_def fs_next_entry_def fs_is_file_def fs_try_exists_def
  by (rule reads_onlyI, erule quiet_fs_op [rotated], simp add: read_dir_op_def)+

lemma reads_only_path_exists [reads_rules]:
  "reads_only V (path_exists p :: (('d, 'z) node_scheme, bool) prog)"
proof (rule reads_onlyI)
  fix s s' :: "('d, 'z) node_scheme" and r assume "path_exists p s = (r, s')"
  then have "s' = s \<or> (\<exists>x xs. io_script s = x # xs \<and> s' = s\<lparr>io_script := xs\<rparr>)"
    by (auto simp: path_exists_def next_io_def andThen_def split: list.splits)
  then show "quiet V s s'"
  proof (elim disjE exE conjE)
    fix x xs assume "io_script s = x # xs" and s': "s' = s\<lparr>io_script := xs\<rparr>"
    then have "suffix xs (io_script s)" by (simp add: suffix_ConsI)
    moreover have "s' = s\<lparr>awaits_left := awaits_left s, io_script := xs, engine := engine s\<rparr>" using s' by simp
    ultimately show ?thesis by (intro quietI [where n = "awaits_left s" and os = xs and e = "engine s"]) simp_all
  qed simp
qed

text \<open>What a loop that only reads has collected, each element from one step.\<close>

lemma for_fold_collects:
  assumes reads: "\<And>acc x. reads_only V (f acc x)"
    and step: "\<And>acc x s acc' s' p. f acc x s = (Ok acc', s') \<Longrightarrow> p \<in> set acc' \<Longrightarrow> p \<notin> set acc \<Longrightarrow> \<Phi> s x p"
    and unquiet: "\<And>s s' x p. quiet V s s' \<Longrightarrow> \<Phi> s' x p \<Longrightarrow> \<Phi> s x p"
    and run: "for_fold f acc xs s = (Ok acc', s')" and p: "p \<in> set acc'" "p \<notin> set acc"
  shows "\<exists>x \<in> set xs. \<Phi> s x p"
  using run p
proof (induction xs arbitrary: acc s)
  case (Cons x xs)
  then obtain acc1 s1 where one: "f acc x s = (Ok acc1, s1)" and rest: "for_fold f acc1 xs s1 = (Ok acc', s')"
    by (auto simp: andThen_Ok_iff)
  have q: "quiet V s s1" using reads one by (rule reads_onlyD)
  show ?case
  proof (cases "p \<in> set acc1")
    case True
    then show ?thesis using step [OF one] Cons.prems(3) by auto
  next
    case False
    then obtain y where "y \<in> set xs" "\<Phi> s1 y p" using Cons.IH [OF rest] Cons.prems(2) by blast
    then show ?thesis using unquiet [OF q] by auto
  qed
qed simp

lemma reads_only_engine_call:
  assumes "\<And>d r d'. f d = (r, d') \<Longrightarrow> same_store V d d'"
  shows "reads_only V (engine_call f)"
  by (rule reads_onlyI) (rule quiet_engine_call [OF assms])

lemma reads_only_engine [reads_rules]:
  assumes "docs_contract P V"
  shows "reads_only V (engine_call (author_default P))"
    and "reads_only V (engine_call (docs_open P ns))"
    and "reads_only V (engine_call (doc_share P ns m ao))"
    and "reads_only V (engine_call (blobs_get_bytes P h))"
    and "reads_only V (engine_call (doc_get_one P ns (KeyExact k)))"
    and "reads_only V (engine_call (doc_get_many P ns (KeyPrefix k)))"
proof -
  show "reads_only V (engine_call (author_default P))"
    by (rule reads_only_engine_call) (rule author_default_contract(1) [OF assms])
  show "reads_only V (engine_call (docs_open P ns))"
    by (rule reads_only_engine_call) (rule docs_open_contract(1) [OF assms])
  show "reads_only V (engine_call (doc_share P ns m ao))"
    by (rule reads_only_engine_call) (rule doc_share_contract(1) [OF assms])
  show "reads_only V (engine_call (blobs_get_bytes P h))"
    by (rule reads_only_engine_call) (rule blobs_get_bytes_contract(1) [OF assms])
  show "reads_only V (engine_call (doc_get_one P ns (KeyExact k)))"
    by (rule reads_only_engine_call) (rule doc_get_one_contract(1) [OF assms])
  show "reads_only V (engine_call (doc_get_many P ns (KeyPrefix k)))"
    by (rule reads_only_engine_call) (rule doc_get_many_contract(1) [OF assms])
qed


section \<open>Writes\<close>

text \<open>
  What one write of key \<open>k\<close> does to the node: a failed or aborted one leaves every entry
  as it was, a successful one stores the value under the local author, and neither touches
  the disk.
\<close>

definition wrote ::
    "('d, 'v) docs_view_scheme \<Rightarrow> namespace_id \<Rightarrow> bytes \<Rightarrow> bytes \<Rightarrow> ('d, 'z) node_scheme \<Rightarrow>
     unit res \<Rightarrow> ('d, 'z) node_scheme \<Rightarrow> bool" where
  "wrote V ns k v s r s' \<longleftrightarrow>
     (\<exists>n os d. s' = s\<lparr>awaits_left := n, io_script := os, engine := d\<rparr> \<and> suffix os (io_script s)) \<and>
     touches_only V ns (author_of V (engine s)) k (engine s) (engine s') \<and>
     (r = Ok () \<longrightarrow> (\<exists>h t. clock_of V (engine s) \<le> t \<and> blob_of V (engine s') h = Some v \<and>
        stored_of V (engine s') ns (author_of V (engine s)) k =
          Some \<lparr>st_hash = h, st_timestamp = t, st_empty = False\<rparr>)) \<and>
     (r \<noteq> Ok () \<longrightarrow> stored_of V (engine s') = stored_of V (engine s))"

lemma same_store_touches: "same_store V d d' \<Longrightarrow> touches_only V ns a k d d'"
  by (simp add: same_store_def touches_only_def)

lemma touches_only_same_store:
  assumes "same_store V d d'" and "touches_only V ns a k d' d''"
  shows "touches_only V ns a k d d''"
  using assms unfolding same_store_def touches_only_def by auto

lemma quiet_wrote: "quiet V s s' \<Longrightarrow> r \<noteq> Ok () \<Longrightarrow> wrote V ns k v s r s'"
  using quiet_views(4) [of V s s']
  by (auto simp: wrote_def quiet_def same_store_touches same_store_def)

lemma wrote_after_quiet:
  assumes q: "quiet V s t" and w: "wrote V ns k v t r u"
  shows "wrote V ns k v s r u"
proof -
  obtain n os e where t: "t = s\<lparr>awaits_left := n, io_script := os, engine := e\<rparr>"
    "suffix os (io_script s)" "same_store V (engine s) e"
    using q by (auto simp: quiet_def)
  obtain n' os' d where u: "u = t\<lparr>awaits_left := n', io_script := os', engine := d\<rparr>"
    "suffix os' (io_script t)"
    using w by (auto simp: wrote_def)
  have "u = s\<lparr>awaits_left := n', io_script := os', engine := d\<rparr>" using t(1) u(1) by simp
  moreover have "suffix os' (io_script s)" using t u(2) by (auto intro: suffix_order.trans)
  moreover have eng: "engine t = e" using t(1) by simp
  moreover have "touches_only V ns (author_of V (engine s)) k (engine s) (engine u)"
    using w t(3) by (auto simp: wrote_def eng same_store_def touches_only_def)
  moreover note ss = same_store_views [OF t(3)]
  ultimately show ?thesis
    using w ss(5) unfolding wrote_def eng ss by (auto intro: order_trans)
qed

lemma put_wrote:
  assumes c: "docs_contract P V"
    and run: "andThen (engine_call (doc_set_bytes P ns (author_of V (engine s)) k v)) (\<lambda>_. ret ()) s = (r, s')"
  shows "wrote V ns k v s r s'"
proof -
  obtain r1 s1 where op: "engine_call (doc_set_bytes P ns (author_of V (engine s)) k v) s = (r1, s1)"
    by force
  have s': "s' = s1" and r: "r = Ok () \<longleftrightarrow> (\<exists>h. r1 = Ok h)"
    using run op by (cases r1; auto simp: andThen_eval)+
  from op show ?thesis
  proof (cases rule: engine_call_cases)
    case aborted
    then show ?thesis using s' r by (intro quiet_wrote) simp_all
  next
    case (ran n d)
    have shape: "s' = s\<lparr>awaits_left := n, io_script := io_script s, engine := d\<rparr>"
      using s' ran(2) by simp
    have eng: "engine s' = d" using shape by simp
    note law = doc_set_bytes_contract [OF c ran(1)]
    show ?thesis
      unfolding wrote_def eng
    proof (intro conjI impI)
      show "\<exists>n os d. s' = s\<lparr>awaits_left := n, io_script := os, engine := d\<rparr> \<and> suffix os (io_script s)"
        using shape by blast
      show "touches_only V ns (author_of V (engine s)) k (engine s) d" by (rule law(1))
    next
      assume "r = Ok ()"
      then obtain h where "r1 = Ok h" using r by blast
      then show "\<exists>h t. clock_of V (engine s) \<le> t \<and> blob_of V d h = Some v \<and>
          stored_of V d ns (author_of V (engine s)) k =
            Some \<lparr>st_hash = h, st_timestamp = t, st_empty = False\<rparr>"
        using law(2,3) by blast
    next
      assume "r \<noteq> Ok ()"
      then show "stored_of V d = stored_of V (engine s)" using law(4) r by blast
    qed
  qed
qed

lemma author_default_quiet:
  assumes "docs_contract P V" and "engine_call (author_default P) s = (r, s')"
  shows "quiet V s s'" and "r = Ok a \<Longrightarrow> a = author_of V (engine s')"
proof -
  show q: "quiet V s s'" using reads_only_engine(1) [OF assms(1)] assms(2) by (rule reads_onlyD)
  assume "r = Ok a"
  then have "a = author_of V (engine s)"
    using author_default_contract(2) [OF assms(1) engine_call_OkD [OF assms(2) [unfolded \<open>r = Ok a\<close>]] refl] by blast
  then show "a = author_of V (engine s')" using quiet_engine_views(1) [OF q] by simp
qed

lemma wrote_views:
  assumes "wrote V ns k v s r s'"
  shows "disk s' = disk s" "node.more s' = node.more s" "suffix (io_script s') (io_script s)"
    "author_of V (engine s') = author_of V (engine s)" "known V (engine s') = known V (engine s)"
    "blob_of V (engine s) h = Some b \<Longrightarrow> blob_of V (engine s') h = Some b"
    "ns' \<noteq> ns \<or> a' \<noteq> author_of V (engine s) \<or> \<not> prefix k k' \<Longrightarrow>
     stored_of V (engine s') ns' a' k' = stored_of V (engine s) ns' a' k'"
    "r \<noteq> Ok () \<Longrightarrow> stored_of V (engine s') = stored_of V (engine s)"
proof -
  have t: "touches_only V ns (author_of V (engine s)) k (engine s) (engine s')"
    using assms by (simp add: wrote_def)
  show "disk s' = disk s" "node.more s' = node.more s" "suffix (io_script s') (io_script s)"
    "r \<noteq> Ok () \<Longrightarrow> stored_of V (engine s') = stored_of V (engine s)"
    using assms by (auto simp: wrote_def)
  show "author_of V (engine s') = author_of V (engine s)" "known V (engine s') = known V (engine s)"
    using touches_only_views(1,2) [OF t] by simp_all
  show "blob_of V (engine s) h = Some b \<Longrightarrow> blob_of V (engine s') h = Some b"
    by (rule touches_only_views(4) [OF t])
  show "ns' \<noteq> ns \<or> a' \<noteq> author_of V (engine s) \<or> \<not> prefix k k' \<Longrightarrow>
     stored_of V (engine s') ns' a' k' = stored_of V (engine s) ns' a' k'"
    by (rule touches_only_views(5) [OF t])
qed

lemma wrote_OkD:
  assumes "wrote V ns k v s (Ok ()) s'"
  obtains h t where "clock_of V (engine s) \<le> t" "blob_of V (engine s') h = Some v"
    "stored_of V (engine s') ns (author_of V (engine s)) k =
       Some \<lparr>st_hash = h, st_timestamp = t, st_empty = False\<rparr>"
  using assms by (auto simp: wrote_def)

text \<open>The local author's write wins when its clock is ahead, and other keys keep their winner.\<close>

definition wins :: "('d, 'v) docs_view_scheme \<Rightarrow> 'd \<Rightarrow> namespace_id \<Rightarrow> bytes \<Rightarrow> bytes \<Rightarrow> author_id \<Rightarrow> bool" where
  "wins V d ns k v a \<longleftrightarrow>
     (\<exists>st. newest V d ns a k st \<and> \<not> st_empty st \<and> blob_of V d (st_hash st) = Some v)"

lemma wrote_wins:
  assumes w: "wrote V ns k v s (Ok ()) s'" and ahead: "clock_ahead V (engine s) ns k"
  shows "wins V (engine s') ns k v (author_of V (engine s))"
proof -
  obtain h t where t: "clock_of V (engine s) \<le> t" and b: "blob_of V (engine s') h = Some v"
    and st: "stored_of V (engine s') ns (author_of V (engine s)) k =
       Some \<lparr>st_hash = h, st_timestamp = t, st_empty = False\<rparr>"
    using w by (rule wrote_OkD)
  have "st_timestamp st' < t"
    if "stored_of V (engine s') ns a' k = Some st'" and "a' \<noteq> author_of V (engine s)" for a' st'
  proof -
    have "stored_of V (engine s) ns a' k = Some st'"
      using that wrote_views(7) [OF w, of ns a' k] by simp
    then have "st_timestamp st' < clock_of V (engine s)"
      using ahead that(2) by (auto simp: clock_ahead_def)
    with t show ?thesis by simp
  qed
  with st b show ?thesis by (auto simp: wins_def newest_def)
qed

lemma wrote_wins_other:
  assumes w: "wrote V ns k v s r s'" and "\<not> prefix k k'" and "wins V (engine s) ns k' u a"
  shows "wins V (engine s') ns k' u a"
  using assms(3) wrote_views(7) [OF w, of ns _ k'] wrote_views(6) [OF w] assms(2)
  by (auto simp: wins_def newest_def)

lemma quiet_wins: "quiet V s s' \<Longrightarrow> wins V (engine s') = wins V (engine s)"
  by (rule ext)+ (simp add: wins_def newest_def quiet_engine_views)

text \<open>Reading a key with a winner returns it.\<close>

lemma get_one_wins:
  assumes c: "docs_contract P V" and w: "wins V (engine s) ns k v a"
    and run: "engine_call (doc_get_one P ns (KeyExact k)) s = (Ok x, s')"
  shows "\<exists>e. x = Some e \<and> entry_key e = k \<and> entry_author e = a \<and>
    blob_of V (engine s') (entry_hash e) = Some v"
proof -
  obtain st where st: "newest V (engine s) ns a k st" "\<not> st_empty st"
    "blob_of V (engine s) (st_hash st) = Some v"
    using w by (auto simp: wins_def)
  note law = doc_get_one_contract [OF c engine_call_OkD [OF run]]
  have "x \<noteq> None" using law(3) [OF _ st(1)] st(2) by auto
  then obtain e where e: "x = Some e" by blast
  then have vis: "entry_key e = k" "visible V (engine s) ns e" using law(2) by blast+
  note n = newest_visible_unique [OF st(1) vis(2,1)]
  have "blob_of V (engine s') = blob_of V (engine s)" using law(1) by (rule same_store_views)
  with e vis(1) n st(3) show ?thesis by simp
qed

section \<open>Shutting down\<close>

lemma router_contractD:
  assumes "router_contract P"
  shows "router_shutdown P d = (Ok (), d') \<Longrightarrow> router_is_shutdown P d'"
    and "blobs_shutdown P d = (q, d') \<Longrightarrow> router_is_shutdown P d' = router_is_shutdown P d"
    and "docs_shutdown P d = (q, d') \<Longrightarrow> router_is_shutdown P d' = router_is_shutdown P d"
  using assms unfolding router_contract_def by blast+

lemma ignored_engine_call:
  assumes "ignore (engine_call f) s = (r, s')" and "\<And>q d. f (engine s) = (q, d) \<Longrightarrow> g d = g (engine s)"
  shows "g (engine s') = g (engine s)"
proof -
  obtain r0 where "engine_call f s = (r0, s')" using ignore_run [OF assms(1)] by blast
  then show ?thesis
  proof (cases rule: engine_call_cases)
    case (ran n d)
    then show ?thesis using assms(2) [OF ran(1)] by simp
  qed simp
qed

lemma router_stops:
  assumes r: "router_contract P" and run: "andThen (engine_call (router_shutdown P)) (\<lambda>_.
     andThen (ignore (engine_call (blobs_shutdown P))) (\<lambda>_.
     andThen (ignore (engine_call (docs_shutdown P))) (\<lambda>_.
     ret ()))) s = (Ok u, s')"
  shows "router_is_shutdown P (engine s')"
proof -
  obtain u1 s1 u2 s2 where a: "engine_call (router_shutdown P) s = (Ok u1, s1)"
    and b: "ignore (engine_call (blobs_shutdown P)) s1 = (Ok u2, s2)"
    and c: "ignore (engine_call (docs_shutdown P)) s2 = (Ok u, s')"
    using run unfolding andThen_Ok_iff by auto
  have "router_is_shutdown P (engine s1)"
    by (rule router_contractD(1) [OF r]) (use engine_call_OkD [OF a] in simp)
  moreover have "router_is_shutdown P (engine s2) = router_is_shutdown P (engine s1)"
    using b by (rule ignored_engine_call) (rule router_contractD(2) [OF r])
  moreover have "router_is_shutdown P (engine s') = router_is_shutdown P (engine s2)"
    using c by (rule ignored_engine_call) (rule router_contractD(3) [OF r])
  ultimately show ?thesis by simp
qed

end
