(* ===== verification/Shared.thy ===== *)
theory Shared
  imports Platform Decimal
begin

text \<open>
  \<open>vendimint_iroh/shared.rs\<close>: the keys of the shared document, the conversion of document
  entries to key/value entries, the persistent device identity, and the claim PIN.
\<close>

section \<open>Constants\<close>

definition CLAIMABLE_CONTRACT_PREFIX :: bytes where
  "CLAIMABLE_CONTRACT_PREFIX = [0x01, 0xFF]"

definition MACHINE_CONFIG_KEY :: bytes where
  "MACHINE_CONFIG_KEY = [0x02, 0xFF]"

definition KV_PREFIX :: bytes where
  "KV_PREFIX = [0x03, 0xFF]"

definition CLAIM_EXPORT_LABEL :: string where
  "CLAIM_EXPORT_LABEL = ''machine-claim-pin''"

definition PING_MAGIC_BYTES :: bytes where
  "PING_MAGIC_BYTES = [0x01, 0x02, 0x03, 0x04]"

definition IROH_SUBDIR :: string where "IROH_SUBDIR = ''iroh''"
definition APP_SUBDIR :: string where "APP_SUBDIR = ''app''"
definition SECRET_KEY_FILE :: string where "SECRET_KEY_FILE = ''secret.key''"

lemmas doc_key_defs = CLAIMABLE_CONTRACT_PREFIX_def MACHINE_CONFIG_KEY_def KV_PREFIX_def

section \<open>Document keys\<close>

definition create_claimable_contract_machine_doc_key ::
    "'d platform \<Rightarrow> federation_id \<Rightarrow> claimable_contract \<Rightarrow> bytes" where
  "create_claimable_contract_machine_doc_key P fid cc =
     (case fid of FederationId f \<Rightarrow>
      case contract_id_of P cc of ContractId c \<Rightarrow>
        CLAIMABLE_CONTRACT_PREFIX @ hash_database_bytes P f @ bytes_of_hash c)"

definition parse_incoming_contract_machine_doc_key ::
    "bytes \<Rightarrow> error + (federation_id \<times> contract_id)" where
  "parse_incoming_contract_machine_doc_key key =
     (if length key \<noteq> 66 then Inl (Message ''Invalid key length'')
      else if \<not> prefix CLAIMABLE_CONTRACT_PREFIX key then Inl (Message ''Invalid key prefix'')
      else (case to_hash32 (take 32 (drop 2 key)) of
          None \<Rightarrow> Inl Serde
        | Some f \<Rightarrow> (case to_hash32 (take 32 (drop 34 key)) of
            None \<Rightarrow> Inl Serde
          | Some c \<Rightarrow> Inr (FederationId f, ContractId c))))"

text \<open>The key under which the KV interface stores a caller's key.\<close>

definition kv_full_key :: "bytes \<Rightarrow> bytes" where
  "kv_full_key key = KV_PREFIX @ key"

section \<open>Key/value entries\<close>

definition opposite_author :: "kv_entry_author \<Rightarrow> kv_entry_author" where
  "opposite_author a = (case a of Machine \<Rightarrow> Manager | Manager \<Rightarrow> Machine)"

definition from_iroh_entry ::
    "'d platform \<Rightarrow> entry \<Rightarrow> kv_entry_author \<Rightarrow> (('d, 'z) node_scheme, kv_entry) prog" where
  "from_iroh_entry P entry reader_device =
     andThen (engine_call (blobs_get_bytes P (entry_hash entry))) (\<lambda>v.
     let full_key = entry_key entry;
         user_key = (if prefix KV_PREFIX full_key then drop (length KV_PREFIX) full_key
                     else full_key) in
     andThen (engine_call (author_default P)) (\<lambda>me.
     let author = (if entry_author entry = me then reader_device
                   else opposite_author reader_device) in
     ret \<lparr>kv_key = user_key, kv_value = v, kv_author = author,
          kv_timestamp = entry_timestamp entry\<rparr>))"

text \<open>The loop over a stream of entries, awaited one by one, that stops at the first error.\<close>

definition collect_kv_entries ::
    "'d platform \<Rightarrow> kv_entry_author \<Rightarrow> (error + entry) list \<Rightarrow> (('d, 'z) node_scheme, kv_entry list) prog" where
  "collect_kv_entries P reader_device entry_stream =
     for_fold (\<lambda>entries entry_result.
       andThen (await (ret entry_result)) (\<lambda>entry_result.
       case entry_result of
         Inl e \<Rightarrow> fail e
       | Inr entry \<Rightarrow>
           andThen (from_iroh_entry P entry reader_device) (\<lambda>kv. ret (entries @ [kv]))))
     [] entry_stream"

section \<open>The device identity and the storage layout\<close>

text \<open>
  The \<open>if let Ok(key_bytes) = read(..)\<close> of \<open>SharedProtocol::new\<close>: any read error takes the
  branch that generates a key; \<open>rng\<close> is the 32 bytes drawn there.
\<close>

definition load_or_create_secret_key :: "path \<Rightarrow> hash32 \<Rightarrow> (('d, 'z) node_scheme, hash32) prog" where
  "load_or_create_secret_key storage_path rng =
     (let secret_key_path = storage_path @ [SECRET_KEY_FILE] in
      andThen (attempt (fs_read secret_key_path)) (\<lambda>r.
      case r of
        Inr key_bytes \<Rightarrow> unwrap (to_hash32 key_bytes)
      | Inl _ \<Rightarrow>
          andThen (fs_create_dir_all storage_path) (\<lambda>_.
          andThen (fs_write secret_key_path (bytes_of_hash rng)) (\<lambda>_.
          ret rng))))"

definition app_storage_path :: "path \<Rightarrow> path" where
  "app_storage_path storage_path = storage_path @ [APP_SUBDIR]"

text \<open>\<open>SharedProtocol::new\<close>; the handles it returns are the engine and the app directory.\<close>

definition shared_protocol_new ::
    "'d platform \<Rightarrow> path \<Rightarrow> hash32 \<Rightarrow> (('d, 'z) node_scheme, path) prog" where
  "shared_protocol_new P storage_path rng =
     andThen (load_or_create_secret_key storage_path rng) (\<lambda>secret_key.
     andThen (engine_call (endpoint_bind P secret_key)) (\<lambda>_.
     let iroh_storage_path = storage_path @ [IROH_SUBDIR];
         app_path = app_storage_path storage_path in
     andThen (fs_create_dir_all iroh_storage_path) (\<lambda>_.
     andThen (fs_create_dir_all app_path) (\<lambda>_.
     andThen (engine_call (blobs_load P iroh_storage_path)) (\<lambda>_.
     andThen (engine_call (docs_persistent P iroh_storage_path)) (\<lambda>_.
     ret app_path))))))"

section \<open>The claim PIN\<close>

datatype claim_pin = ClaimPin "32 word"

definition as_u32 :: "claim_pin \<Rightarrow> 32 word" where
  "as_u32 p = (case p of ClaimPin n \<Rightarrow> n)"

text \<open>\<open>Display\<close>: the format spec \<open>{:06}\<close>.\<close>

definition display_pin :: "claim_pin \<Rightarrow> string" where
  "display_pin p = zero_pad 6 (dec (unat (as_u32 p)))"

definition u32_from_be_bytes :: "bytes \<Rightarrow> 32 word" where
  "u32_from_be_bytes bs = foldl (\<lambda>w b. w * 256 + ucast b) 0 bs"

text \<open>The argument is the connection's exporter: 32 bytes for a label and a context.\<close>

definition claim_pin_from_keying_material :: "(string \<Rightarrow> bytes \<Rightarrow> hash32) \<Rightarrow> claim_pin" where
  "claim_pin_from_keying_material export_keying_material =
     (let km = bytes_of_hash (export_keying_material CLAIM_EXPORT_LABEL []) in
      ClaimPin (u32_from_be_bytes (take 4 km) mod 1000000))"

text \<open>
  What both sides promise of the key/value store: \<open>holds s k v a\<close> says that the store's
  winning entry of \<open>k\<close> is \<open>v\<close>, written by \<open>a\<close>; \<open>fresh s k\<close> that the local clock is
  ahead of the other side's writes of \<open>k\<close>.
\<close>

locale kv_store =
  fixes inv :: "'s \<Rightarrow> bool"
    and fresh :: "'s \<Rightarrow> bytes \<Rightarrow> bool"
    and holds :: "'s \<Rightarrow> bytes \<Rightarrow> bytes \<Rightarrow> kv_entry_author \<Rightarrow> bool"
    and put :: "bytes \<Rightarrow> bytes \<Rightarrow> ('s, unit) prog"
    and get :: "bytes \<Rightarrow> ('s, kv_entry option) prog"
    and me :: kv_entry_author
  assumes put_inv: "inv s \<Longrightarrow> put k v s = (r, s') \<Longrightarrow> inv s'"
    and put_holds: "inv s \<Longrightarrow> fresh s k \<Longrightarrow> put k v s = (Ok u, s') \<Longrightarrow> holds s' k v me"
    and put_other: "inv s \<Longrightarrow> put k v s = (r, s') \<Longrightarrow> \<not> prefix k k' \<Longrightarrow> holds s k' w a \<Longrightarrow> holds s' k' w a"
    and get_inv: "inv s \<Longrightarrow> get k s = (g, s') \<Longrightarrow> inv s'"
    and get_frame: "inv s \<Longrightarrow> get k s = (g, s') \<Longrightarrow> holds s k' w a \<Longrightarrow> holds s' k' w a"
    and get_holds: "inv s \<Longrightarrow> holds s k v a \<Longrightarrow> get k s = (Ok e, s') \<Longrightarrow>
      \<exists>t. e = Some \<lparr>kv_key = k, kv_value = v, kv_author = a, kv_timestamp = t\<rparr>"
begin

lemma get_after_put:
  assumes "inv s" and "fresh s k" and "put k v s = (Ok (), s1)" and "get k s1 = (Ok e, s2)"
  shows "\<exists>t. e = Some \<lparr>kv_key = k, kv_value = v, kv_author = me, kv_timestamp = t\<rparr>"
  using get_holds [OF put_inv [OF assms(1,3)] put_holds [OF assms(1,2,3)] assms(4)] .

lemma get_other_after_put:
  assumes "inv s" and "put k v s = (r, s1)" and "\<not> prefix k k'" and "holds s k' w a"
    and "get k' s1 = (Ok e, s2)"
  shows "\<exists>t. e = Some \<lparr>kv_key = k', kv_value = w, kv_author = a, kv_timestamp = t\<rparr>"
  using get_holds [OF put_inv [OF assms(1,2)] put_other [OF assms(1,2,3,4)] assms(5)] .

lemma get_twice:
  assumes "inv s" and "holds s k v a" and "get k' s = (r, s1)" and "get k s1 = (Ok e, s2)"
  shows "\<exists>t. e = Some \<lparr>kv_key = k, kv_value = v, kv_author = a, kv_timestamp = t\<rparr>"
  using get_holds [OF get_inv [OF assms(1,3)] get_frame [OF assms(1,3,2)] assms(4)] .

end

section \<open>Properties of the keys\<close>

lemma contract_key_eq:
  assumes "codec_contract P" and "contract_id_of P cc = ContractId c"
  shows "create_claimable_contract_machine_doc_key P (FederationId f) cc =
    CLAIMABLE_CONTRACT_PREFIX @ bytes_of_hash f @ bytes_of_hash c"
  using assms by (simp add: create_claimable_contract_machine_doc_key_def codec_contractD)

lemma length_contract_key:
  assumes "codec_contract P"
  shows "length (create_claimable_contract_machine_doc_key P fid cc) = 66"
  using codec_contractD(6) [OF assms]
  by (simp add: create_claimable_contract_machine_doc_key_def CLAIMABLE_CONTRACT_PREFIX_def
      split: federation_id.split contract_id.split)

lemma prefix_contract_key:
  "prefix CLAIMABLE_CONTRACT_PREFIX (create_claimable_contract_machine_doc_key P fid cc)"
  by (simp add: create_claimable_contract_machine_doc_key_def
      split: federation_id.split contract_id.split)

lemma parse_contract_key:
  assumes "codec_contract P"
  shows "parse_incoming_contract_machine_doc_key (create_claimable_contract_machine_doc_key P fid cc) =
    Inr (fid, contract_id_of P cc)"
proof -
  obtain f where f: "fid = FederationId f" by (cases fid)
  obtain c where c: "contract_id_of P cc = ContractId c" by (cases "contract_id_of P cc")
  have len: "length CLAIMABLE_CONTRACT_PREFIX = 2" by (simp add: CLAIMABLE_CONTRACT_PREFIX_def)
  show ?thesis
    by (simp add: parse_incoming_contract_machine_doc_key_def f contract_key_eq [OF assms c] c len)
qed

lemma parse_key_Inr:
  assumes "parse_incoming_contract_machine_doc_key key = Inr (fid, cid)"
  shows "length key = 66" and "prefix CLAIMABLE_CONTRACT_PREFIX key"
  using assms by (auto simp: parse_incoming_contract_machine_doc_key_def split: if_splits)

text \<open>A key that parses is built from the two identifiers it parses to: nothing is lost.\<close>

lemma parse_key_unique:
  assumes "parse_incoming_contract_machine_doc_key key = Inr (FederationId f, ContractId c)"
  shows "key = CLAIMABLE_CONTRACT_PREFIX @ bytes_of_hash f @ bytes_of_hash c"
proof -
  note pk = parse_key_Inr [OF assms]
  from pk(2) obtain rest where key: "key = CLAIMABLE_CONTRACT_PREFIX @ rest" by (auto elim: prefixE)
  have len: "length CLAIMABLE_CONTRACT_PREFIX = 2" by (simp add: CLAIMABLE_CONTRACT_PREFIX_def)
  from pk(1) key len have rest: "length rest = 64" by simp
  have "f = Hash32 (take 32 rest)" and "c = Hash32 (drop 32 rest)"
    using assms key len rest
    by (auto simp: parse_incoming_contract_machine_doc_key_def to_hash32_def split: if_splits)
  with rest have "bytes_of_hash f = take 32 rest" and "bytes_of_hash c = drop 32 rest"
    by (simp_all add: bytes_of_Hash32)
  with key show ?thesis by simp
qed

text \<open>The key is a codec of the pair of identifiers, so distinct contracts have distinct keys.\<close>

definition contract_key_of :: "federation_id \<times> contract_id \<Rightarrow> bytes" where
  "contract_key_of x = (case x of (FederationId f, ContractId c) \<Rightarrow>
     CLAIMABLE_CONTRACT_PREFIX @ bytes_of_hash f @ bytes_of_hash c)"

lemma contract_key_of_eq:
  "codec_contract P \<Longrightarrow>
   create_claimable_contract_machine_doc_key P fid cc = contract_key_of (fid, contract_id_of P cc)"
  by (cases fid; cases "contract_id_of P cc") (simp add: contract_key_of_def contract_key_eq)

lemma parse_key_contract_key_of:
  "parse_incoming_contract_machine_doc_key key = Inr x \<Longrightarrow> key = contract_key_of x"
  by (cases x; cases "fst x"; cases "snd x") (auto simp: contract_key_of_def dest: parse_key_unique)

definition parse_ok :: "bytes \<Rightarrow> (federation_id \<times> contract_id) option" where
  "parse_ok key = (case parse_incoming_contract_machine_doc_key key of Inl _ \<Rightarrow> None | Inr x \<Rightarrow> Some x)"

interpretation contract_key: codec contract_key_of parse_ok "\<lambda>_. True"
proof
  fix x :: "federation_id \<times> contract_id"
  obtain f c where x: "x = (FederationId f, ContractId c)"
    by (cases x; cases "fst x"; cases "snd x") auto
  have len: "length CLAIMABLE_CONTRACT_PREFIX = 2" by (simp add: CLAIMABLE_CONTRACT_PREFIX_def)
  show "parse_ok (contract_key_of x) = Some x"
    by (simp add: x parse_ok_def contract_key_of_def parse_incoming_contract_machine_doc_key_def len)
qed

lemma length_contract_key_of [simp]: "length (contract_key_of x) = 66"
  by (cases x; cases "fst x"; cases "snd x") (auto simp: contract_key_of_def CLAIMABLE_CONTRACT_PREFIX_def)

lemma contract_key_prefix_iff:
  "prefix (contract_key_of x) (contract_key_of y) \<longleftrightarrow> x = y"
proof
  assume "prefix (contract_key_of x) (contract_key_of y)"
  then obtain zs where zs: "contract_key_of y = contract_key_of x @ zs" by (auto elim: prefixE)
  then have "length (contract_key_of y) = length (contract_key_of x @ zs)" by (simp only:)
  then have "zs = []" by simp
  with zs have "contract_key_of x = contract_key_of y" by simp
  then show "x = y" by (rule contract_key.encode_inj [OF TrueI TrueI])
qed simp

text \<open>The three key spaces of a machine document are disjoint, and no key extends another's.\<close>

lemma key_spaces_disjoint:
  "\<not> prefix (contract_key_of x) (kv_full_key k)" "\<not> prefix (contract_key_of x) MACHINE_CONFIG_KEY"
  "\<not> prefix (kv_full_key k) (contract_key_of x)" "\<not> prefix (kv_full_key k) MACHINE_CONFIG_KEY"
  "\<not> prefix MACHINE_CONFIG_KEY (contract_key_of x)" "\<not> prefix MACHINE_CONFIG_KEY (kv_full_key k)"
  "\<not> prefix CLAIMABLE_CONTRACT_PREFIX (kv_full_key k)" "\<not> prefix CLAIMABLE_CONTRACT_PREFIX MACHINE_CONFIG_KEY"
  "\<not> prefix KV_PREFIX (contract_key_of x)" "\<not> prefix KV_PREFIX MACHINE_CONFIG_KEY"
  by (cases x; cases "fst x"; cases "snd x";
      simp add: contract_key_of_def kv_full_key_def doc_key_defs)+

section \<open>Properties of the PIN\<close>

lemma pin_bound: "unat (as_u32 (claim_pin_from_keying_material ex)) < 1000000"
proof -
  have "unat (w mod 1000000) < 1000000" for w :: "32 word"
    by (simp add: unat_mod)
  then show ?thesis by (simp add: claim_pin_from_keying_material_def as_u32_def)
qed

definition pin_of_display :: "string \<Rightarrow> claim_pin option" where
  "pin_of_display s = Some (ClaimPin (of_nat (undec s)))"

interpretation pin_display: codec display_pin pin_of_display "\<lambda>_. True"
proof
  fix p :: claim_pin
  obtain w where "p = ClaimPin w" by (cases p)
  then show "pin_of_display (display_pin p) = Some p"
    by (simp add: pin_of_display_def display_pin_def as_u32_def)
qed

lemma display_pin_length:
  assumes "unat (as_u32 p) < 1000000"
  shows "length (display_pin p) = 6"
proof -
  have "length (dec (unat (as_u32 p))) \<le> 6"
    using assms by (intro length_dec_le) simp_all
  then show ?thesis by (simp add: display_pin_def length_zero_pad)
qed

section \<open>Properties of the identity\<close>

text \<open>Once a key is on disk, loading again returns it and leaves the disk alone.\<close>

lemma load_secret_key_stored:
  assumes "map_of (disk s) (sp @ [SECRET_KEY_FILE]) = Some (File (bytes_of_hash k))"
    and "awaits_left s = None" and "io_script s = []"
  shows "load_or_create_secret_key sp rng s = (Ok k, s)"
proof -
  have "fs_read (sp @ [SECRET_KEY_FILE]) s = (Ok (bytes_of_hash k), s\<lparr>disk := disk s\<rparr>)"
    unfolding fs_read_def using assms by (intro fs_op_run) (simp_all add: read_op_def)
  then show ?thesis
    by (simp add: load_or_create_secret_key_def Let_def andThen_eval attempt_eval)
qed

lemma load_secret_key_Ok_stored:
  assumes "load_or_create_secret_key sp rng s = (Ok k, s')"
  shows "map_of (disk s') (sp @ [SECRET_KEY_FILE]) = Some (File (bytes_of_hash k))"
  using assms
  by (auto simp: load_or_create_secret_key_def Let_def andThen_Ok_iff attempt_Ok_iff unwrap_Ok_iff
      to_hash32_def bytes_of_Hash32 split: if_splits dest!: fs_read_OkD fs_write_OkD)


section \<open>Reading and writing key/value entries\<close>

text \<open>The store's winning value of a key, with its author as the reader \<open>dev\<close> sees it.\<close>

definition kv_holds ::
    "('d, 'v) docs_view_scheme \<Rightarrow> kv_entry_author \<Rightarrow> namespace_id \<Rightarrow> ('d, 'z) node_scheme \<Rightarrow>
     bytes \<Rightarrow> bytes \<Rightarrow> kv_entry_author \<Rightarrow> bool" where
  "kv_holds V dev ns s k v a \<longleftrightarrow> (\<exists>aid. wins V (engine s) ns (kv_full_key k) v aid \<and>
     a = (if aid = author_of V (engine s) then dev else opposite_author dev))"

lemma prefix_kv_full_key [simp]: "prefix (kv_full_key k) (kv_full_key k') \<longleftrightarrow> prefix k k'"
  by (simp add: kv_full_key_def)

lemma kv_holds_quiet: "quiet V s s' \<Longrightarrow> kv_holds V dev ns s k v a \<Longrightarrow> kv_holds V dev ns s' k v a"
  by (auto simp: kv_holds_def quiet_wins quiet_engine_views)

lemma kv_holds_wrote:
  "wrote V ns (kv_full_key k) v s (Ok ()) s' \<Longrightarrow> clock_ahead V (engine s) ns (kv_full_key k) \<Longrightarrow>
   kv_holds V dev ns s' k v dev"
  unfolding kv_holds_def
  by (intro exI [of _ "author_of V (engine s)"] conjI wrote_wins) (simp_all add: wrote_views)

lemma kv_holds_other:
  "wrote V ns key u s r s' \<Longrightarrow> \<not> prefix key (kv_full_key k') \<Longrightarrow> kv_holds V dev ns s k' w a \<Longrightarrow>
   kv_holds V dev ns s' k' w a"
  unfolding kv_holds_def using wrote_wins_other wrote_views(4) by metis

lemma reads_from_iroh_entry [reads_rules]:
  "docs_contract P V \<Longrightarrow> reads_only V (from_iroh_entry P e dev)"
  unfolding from_iroh_entry_def Let_def by (intro reads_rules)

lemma from_iroh_entry_Ok:
  assumes c: "docs_contract P V" and run: "from_iroh_entry P e dev s = (Ok kv, s')"
    and b: "blob_of V (engine s) (entry_hash e) = Some v" and k: "entry_key e = kv_full_key k"
  shows "kv = \<lparr>kv_key = k, kv_value = v,
    kv_author = (if entry_author e = author_of V (engine s) then dev else opposite_author dev),
    kv_timestamp = entry_timestamp e\<rparr>"
proof -
  obtain w s1 me where g: "engine_call (blobs_get_bytes P (entry_hash e)) s = (Ok w, s1)"
    and a: "engine_call (author_default P) s1 = (Ok me, s')"
    and kv: "kv = \<lparr>kv_key = (if prefix KV_PREFIX (entry_key e) then drop (length KV_PREFIX) (entry_key e)
               else entry_key e), kv_value = w,
       kv_author = (if entry_author e = me then dev else opposite_author dev),
       kv_timestamp = entry_timestamp e\<rparr>"
    using run by (auto simp: from_iroh_entry_def Let_def andThen_Ok_iff)
  note law = blobs_get_bytes_contract [OF c engine_call_OkD [OF g]]
  have "w = v" using law(2) b by simp
  moreover have "me = author_of V (engine s)"
    using author_default_contract(2) [OF c engine_call_OkD [OF a] refl] same_store_views(1) [OF law(1)]
    by simp
  ultimately show ?thesis using kv k by (simp add: kv_full_key_def)
qed

definition kv_get_tail ::
    "'d platform \<Rightarrow> kv_entry_author \<Rightarrow> bytes \<Rightarrow> namespace_id \<Rightarrow> (('d, 'z) node_scheme, kv_entry option) prog" where
  "kv_get_tail P dev key doc =
     andThen (engine_call (doc_get_one P doc (KeyExact (kv_full_key key)))) (\<lambda>entry_or.
     case entry_or of
       None \<Rightarrow> ret None
     | Some entry \<Rightarrow> andThen (from_iroh_entry P entry dev) (\<lambda>kv. ret (Some kv)))"

lemma reads_kv_get_tail: "docs_contract P V \<Longrightarrow> reads_only V (kv_get_tail P dev key doc)"
  unfolding kv_get_tail_def by (intro reads_rules)

lemma kv_get_tail_Ok:
  assumes c: "docs_contract P V" and h: "kv_holds V dev ns s k v a"
    and run: "kv_get_tail P dev k ns s = (Ok x, s')"
  shows "\<exists>t. x = Some \<lparr>kv_key = k, kv_value = v, kv_author = a, kv_timestamp = t\<rparr>"
proof -
  obtain aid where w: "wins V (engine s) ns (kv_full_key k) v aid"
    and a: "a = (if aid = author_of V (engine s) then dev else opposite_author dev)"
    using h by (auto simp: kv_holds_def)
  obtain eo s1 where g: "engine_call (doc_get_one P ns (KeyExact (kv_full_key k))) s = (Ok eo, s1)"
    and rest: "(case eo of None \<Rightarrow> ret None
       | Some entry \<Rightarrow> andThen (from_iroh_entry P entry dev) (\<lambda>kv. ret (Some kv))) s1 = (Ok x, s')"
    using run by (auto simp: kv_get_tail_def andThen_Ok_iff)
  have au: "author_of V (engine s1) = author_of V (engine s)"
    by (rule same_store_views(1) [OF doc_get_one_contract(1) [OF c engine_call_OkD [OF g]]])
  obtain e where e: "eo = Some e" "entry_key e = kv_full_key k" "entry_author e = aid"
    "blob_of V (engine s1) (entry_hash e) = Some v"
    using get_one_wins [OF c w g] by blast
  obtain kv where kv: "from_iroh_entry P e dev s1 = (Ok kv, s')" "x = Some kv"
    using rest e(1) by (auto simp: andThen_Ok_iff)
  show ?thesis
    using from_iroh_entry_Ok [OF c kv(1) e(4,2)] kv(2) e(3) a au by simp
qed


section \<open>Payments in a document\<close>

text \<open>The document offers a contract with the id of \<open>cc\<close> to whoever queries it.\<close>

definition payment_pending ::
    "'d platform \<Rightarrow> ('d, 'v) docs_view_scheme \<Rightarrow> namespace_id \<Rightarrow> federation_id \<Rightarrow> claimable_contract \<Rightarrow>
     ('d, 'z) node_scheme \<Rightarrow> bool" where
  "payment_pending P V ns fid cc s \<longleftrightarrow>
     (\<exists>e b cc'. visible V (engine s) ns e \<and> entry_key e = create_claimable_contract_machine_doc_key P fid cc \<and>
        blob_of V (engine s) (entry_hash e) = Some b \<and> contract_from_json P b = Some cc' \<and>
        contract_id_of P cc' = contract_id_of P cc)"

lemma contract_keys_prefix:
  assumes "codec_contract P"
    and "prefix (create_claimable_contract_machine_doc_key P fid cc)
           (create_claimable_contract_machine_doc_key P fid' cc')"
  shows "fid = fid'" and "contract_id_of P cc = contract_id_of P cc'"
  using assms by (simp_all add: contract_key_of_eq contract_key_prefix_iff)

lemma visible_touches:
  assumes "touches_only V ns a k d d'" and "\<not> prefix k (entry_key e)" and "visible V d ns' e"
  shows "visible V d' ns' e"
proof -
  have "stored_of V d' ns' a' (entry_key e) = stored_of V d ns' a' (entry_key e)" for a'
    using touches_only_views(5) [OF assms(1)] assms(2) by blast
  then show ?thesis using assms(3) by (simp add: visible_def)
qed

lemma payment_pending_touches:
  assumes "touches_only V ns a k (engine s) (engine s')"
    and "\<not> prefix k (create_claimable_contract_machine_doc_key P fid cc)"
    and "payment_pending P V ns' fid cc s"
  shows "payment_pending P V ns' fid cc s'"
proof -
  from assms(3) obtain e b cc' where e: "visible V (engine s) ns' e"
    "entry_key e = create_claimable_contract_machine_doc_key P fid cc"
    "blob_of V (engine s) (entry_hash e) = Some b" "contract_from_json P b = Some cc'"
    "contract_id_of P cc' = contract_id_of P cc"
    by (auto simp: payment_pending_def)
  have "visible V (engine s') ns' e" using visible_touches [OF assms(1)] assms(2) e(1,2) by simp
  with e touches_only_views(4) [OF assms(1) e(3)] show ?thesis unfolding payment_pending_def by blast
qed

lemma stable_payment_pending: "stable (payment_pending P V ns fid cc)"
  by (simp add: stable_def payment_pending_def)

end
