(* ===== verification/Machine_Protocol.thy ===== *)
theory Machine_Protocol
  imports Shared
begin

text \<open>
  \<open>vendimint_iroh/machine.rs\<close>: the machine's side of the protocol. A machine keeps its
  shared document's ticket and its manager's public key on disk and the latter also in
  memory (\<open>claimed_manager_pubkey\<close>, behind a mutex in the code). The claim handler is the
  whole of \<open>ClaimHandler::accept\<close>; what the remote side and the user do is the
  \<open>connection\<close> it gets. The handler holds the mutex until it has stored the claimer, so
  handlers run one after the other on the machine's state; \<open>conn_log\<close> records what leaves
  the machine: claim requests shown to the user, tickets sent, connections closed.
\<close>

section \<open>State\<close>

definition MACHINE_DOC_TICKET_PATH :: string where
  "MACHINE_DOC_TICKET_PATH = ''machine_doc_ticket.json''"

definition MACHINE_MANAGER_PUBLIC_KEY_PATH :: string where
  "MACHINE_MANAGER_PUBLIC_KEY_PATH = ''machine_manager_public_key.json''"

datatype machine_state = Claimed "machine_config option" | Unclaimed endpoint_addr

datatype conn_event = ClaimRequested claim_pin | TicketSent bytes | ConnClosed string

record ('d, 'c) machine_node = "('d, 'c) wallet_node" +
  claimed_manager_pubkey :: "endpoint_id option"
  conn_log :: "(endpoint_id \<times> conn_event) list"

record connection =
  remote_id :: endpoint_id
  exporter :: "string \<Rightarrow> bytes \<Rightarrow> hash32"
  request_channel :: "unit res"
  decision :: "bool option"
  accept_bi :: "unit res"
  recv_read_to_end :: "nat \<Rightarrow> bytes res"
  send_write_all :: "unit res"
  send_finish :: "unit res"
  send_stopped :: "unit res"
  send_shutdown :: "unit res"

section \<open>The machine's document\<close>

definition get_or_create_machine_doc ::
    "'d platform \<Rightarrow> path \<Rightarrow> (('d, 'z) node_scheme, namespace_id) prog" where
  "get_or_create_machine_doc P app_path =
     andThen (fs_create_dir_all app_path) (\<lambda>_.
     let doc_ticket_path = app_path @ [MACHINE_DOC_TICKET_PATH] in
     andThen (attempt (fs_read_to_string doc_ticket_path)) (\<lambda>r.
     let doc_ticket_or = (case r of Inr doc_ticket_str \<Rightarrow> ticket_from_json P doc_ticket_str
                          | Inl _ \<Rightarrow> None) in
     case doc_ticket_or of
       Some doc_ticket \<Rightarrow>
         andThen (engine_call (docs_open P (capability_id P (ticket_capability doc_ticket))))
           (\<lambda>doc_or. unwrap doc_or)
     | None \<Rightarrow>
         andThen (engine_call (docs_create P)) (\<lambda>new_doc.
         andThen (engine_call (doc_share P new_doc ShareWrite AddrId)) (\<lambda>new_doc_ticket.
         andThen (ok_or Serde (ticket_to_json P new_doc_ticket)) (\<lambda>new_doc_ticket_str.
         andThen (fs_write doc_ticket_path new_doc_ticket_str) (\<lambda>_.
         ret new_doc))))))"

section \<open>The claim handler\<close>

definition log_event ::
    "endpoint_id \<Rightarrow> conn_event \<Rightarrow> (('d, 'c, 'z) machine_node_scheme, unit) prog" where
  "log_event k ev = (\<lambda>s. (Ok (), s\<lparr>conn_log := conn_log s @ [(k, ev)]\<rparr>))"

definition set_claimed :: "endpoint_id \<Rightarrow> (('d, 'c, 'z) machine_node_scheme, unit) prog" where
  "set_claimed k = (\<lambda>s. (Ok (), s\<lparr>claimed_manager_pubkey := Some k\<rparr>))"

definition lock_claimed :: "(('d, 'c, 'z) machine_node_scheme, endpoint_id option) prog" where
  "lock_claimed = await (\<lambda>s. (Ok (claimed_manager_pubkey s), s))"

text \<open>The part of \<open>accept\<close> after both sides have agreed: lines 122 to 165 of the source.\<close>

definition accept_agreed ::
    "'d platform \<Rightarrow> path \<Rightarrow> connection \<Rightarrow> (('d, 'c, 'z) machine_node_scheme, unit) prog" where
  "accept_agreed P app_path conn =
     andThen (await (lift_res (accept_bi conn))) (\<lambda>_.
     andThen (await (lift_res (recv_read_to_end conn (length PING_MAGIC_BYTES + 1)))) (\<lambda>ping.
     if ping \<noteq> PING_MAGIC_BYTES then fail (Io InvalidData)
     else
       andThen (get_or_create_machine_doc P app_path) (\<lambda>doc.
       andThen (engine_call (doc_share P doc ShareWrite RelayAndAddresses)) (\<lambda>ticket.
       andThen (ok_or Serde (endpoint_to_json P (remote_id conn))) (\<lambda>claimer_pubkey_str.
       andThen (fs_write (app_path @ [MACHINE_MANAGER_PUBLIC_KEY_PATH]) claimer_pubkey_str) (\<lambda>_.
       andThen (set_claimed (remote_id conn)) (\<lambda>_.
       andThen (ok_or Serde (ticket_to_json P ticket)) (\<lambda>ticket_bytes.
       andThen (log_event (remote_id conn) (TicketSent ticket_bytes)) (\<lambda>_.
       andThen (await (lift_res (send_write_all conn))) (\<lambda>_.
       andThen (lift_res (send_finish conn)) (\<lambda>_.
       andThen (await (lift_res (send_stopped conn))) (\<lambda>_.
       andThen (await (lift_res (send_shutdown conn))) (\<lambda>_.
       log_event (remote_id conn) (ConnClosed ''finished''))))))))))))))"

definition accept_claim ::
    "'d platform \<Rightarrow> path \<Rightarrow> connection \<Rightarrow> (('d, 'c, 'z) machine_node_scheme, unit) prog" where
  "accept_claim P app_path conn =
     andThen lock_claimed (\<lambda>claimed.
     if (case claimed of Some k \<Rightarrow> k \<noteq> remote_id conn | None \<Rightarrow> False)
     then log_event (remote_id conn) (ConnClosed ''already_claimed'')
     else
       let pin = claim_pin_from_keying_material (exporter conn) in
       andThen (await (lift_res (request_channel conn))) (\<lambda>_.
       andThen (log_event (remote_id conn) (ClaimRequested pin)) (\<lambda>_.
       andThen (await (ret (decision conn))) (\<lambda>d.
       if (case d of Some b \<Rightarrow> b | None \<Rightarrow> False)
       then accept_agreed P app_path conn
       else log_event (remote_id conn) (ConnClosed ''rejected'')))))"

section \<open>Operations\<close>

text \<open>\<open>MachineProtocol::new\<close>.\<close>

definition machine_protocol_new ::
    "'d platform \<Rightarrow> path \<Rightarrow> hash32 \<Rightarrow> (('d, 'c, 'z) machine_node_scheme, path) prog" where
  "machine_protocol_new P storage_path rng =
     andThen (shared_protocol_new P storage_path rng) (\<lambda>app_path.
     andThen (attempt (fs_read_to_string (app_path @ [MACHINE_MANAGER_PUBLIC_KEY_PATH]))) (\<lambda>r.
     let manager_public_key_or = (case r of Inr str \<Rightarrow> endpoint_from_json P str | Inl _ \<Rightarrow> None) in
     andThen (\<lambda>s. (Ok (), s\<lparr>claimed_manager_pubkey := manager_public_key_or\<rparr>)) (\<lambda>_.
     andThen (\<lambda>s. case router_spawn P (engine s) of (q, d) \<Rightarrow> (q, s\<lparr>engine := d\<rparr>)) (\<lambda>_.
     ret app_path))))"

definition machine_shutdown :: "'d platform \<Rightarrow> (('d, 'z) node_scheme, unit) prog" where
  "machine_shutdown P =
     andThen (engine_call (router_shutdown P)) (\<lambda>_.
     andThen (ignore (engine_call (blobs_shutdown P))) (\<lambda>_.
     andThen (ignore (engine_call (docs_shutdown P))) (\<lambda>_.
     ret ())))"

definition machine_is_shutdown :: "'d platform \<Rightarrow> ('d, 'z) node_scheme \<Rightarrow> bool" where
  "machine_is_shutdown P s = router_is_shutdown P (engine s)"

definition machine_get_machine_config ::
    "'d platform \<Rightarrow> path \<Rightarrow> (('d, 'z) node_scheme, machine_config option) prog" where
  "machine_get_machine_config P app_path =
     andThen (get_or_create_machine_doc P app_path) (\<lambda>doc.
     andThen (engine_call (doc_get_one P doc (KeyExact MACHINE_CONFIG_KEY))) (\<lambda>entry_or.
     case entry_or of
       None \<Rightarrow> ret None
     | Some entry \<Rightarrow>
         andThen (engine_call (blobs_get_bytes P (entry_hash entry))) (\<lambda>bytes.
         andThen (ok_or Serde (config_from_json P bytes)) (\<lambda>config.
         ret (Some config)))))"

definition get_machine_state ::
    "'d platform \<Rightarrow> path \<Rightarrow> (('d, 'c, 'z) machine_node_scheme, machine_state) prog" where
  "get_machine_state P app_path =
     andThen lock_claimed (\<lambda>claimed.
     if claimed \<noteq> None
     then andThen (machine_get_machine_config P app_path) (\<lambda>config. ret (Claimed config))
     else (\<lambda>s. (Ok (Unclaimed (endpoint_addr_of P (engine s))), s)))"

definition write_payment_to_machine_doc ::
    "'d platform \<Rightarrow> path \<Rightarrow> federation_id \<Rightarrow> claimable_contract \<Rightarrow> (('d, 'z) node_scheme, unit) prog" where
  "write_payment_to_machine_doc P app_path federation_id claimable_contract =
     andThen (get_or_create_machine_doc P app_path) (\<lambda>doc.
     let key = create_claimable_contract_machine_doc_key P federation_id claimable_contract in
     andThen (engine_call (author_default P)) (\<lambda>author.
     andThen (ok_or Serde (contract_to_json P claimable_contract)) (\<lambda>bytes.
     andThen (engine_call (doc_set_bytes P doc author key bytes)) (\<lambda>_.
     ret ()))))"

definition machine_get_kv_value ::
    "'d platform \<Rightarrow> path \<Rightarrow> bytes \<Rightarrow> (('d, 'z) node_scheme, kv_entry option) prog" where
  "machine_get_kv_value P app_path key =
     andThen (get_or_create_machine_doc P app_path) (\<lambda>doc.
     let full_key = kv_full_key key in
     andThen (engine_call (doc_get_one P doc (KeyExact full_key))) (\<lambda>entry_or.
     case entry_or of
       None \<Rightarrow> ret None
     | Some entry \<Rightarrow> andThen (from_iroh_entry P entry Machine) (\<lambda>kv. ret (Some kv))))"

definition machine_set_kv_value ::
    "'d platform \<Rightarrow> path \<Rightarrow> bytes \<Rightarrow> bytes \<Rightarrow> (('d, 'z) node_scheme, unit) prog" where
  "machine_set_kv_value P app_path key v =
     andThen (get_or_create_machine_doc P app_path) (\<lambda>doc.
     let full_key = kv_full_key key in
     andThen (engine_call (author_default P)) (\<lambda>author.
     andThen (engine_call (doc_set_bytes P doc author full_key v)) (\<lambda>_.
     ret ())))"

definition machine_get_kv_entries ::
    "'d platform \<Rightarrow> path \<Rightarrow> (('d, 'z) node_scheme, kv_entry list) prog" where
  "machine_get_kv_entries P app_path =
     andThen (get_or_create_machine_doc P app_path) (\<lambda>doc.
     andThen (engine_call (doc_get_many P doc (KeyPrefix KV_PREFIX))) (\<lambda>entry_stream.
     collect_kv_entries P Machine entry_stream))"

section \<open>Reading through the machine's document\<close>

text \<open>The machine's ticket file names the known document \<open>ns\<close>.\<close>

definition machine_doc ::
    "'d platform \<Rightarrow> ('d, 'v) docs_view_scheme \<Rightarrow> path \<Rightarrow> ('d, 'z) node_scheme \<Rightarrow> namespace_id \<Rightarrow> bool" where
  "machine_doc P V app_path s ns \<longleftrightarrow>
     dirs_exist (disk s) app_path \<and> known V (engine s) ns \<and>
     (\<exists>b t. map_of (disk s) (app_path @ [MACHINE_DOC_TICKET_PATH]) = Some (File b) \<and> utf8_valid b \<and>
        ticket_from_json P b = Some t \<and> capability_id P (ticket_capability t) = ns)"

lemma machine_doc_quiet: "quiet V s s' \<Longrightarrow> machine_doc P V app_path s ns \<Longrightarrow> machine_doc P V app_path s' ns"
  by (auto simp: machine_doc_def quiet_views quiet_engine_views)

lemma healthy_quiet: "quiet V s s' \<Longrightarrow> healthy s \<Longrightarrow> healthy s'"
  by (auto dest: quiet_views(3) intro: healthy_suffix)

lemma create_dir_all_quiet:
  assumes h: "healthy s" and dirs: "dirs_exist (disk s) p" and mk: "fs_create_dir_all p s = (r1, s1)"
  shows "quiet V s s1" and "r1 = Ok () \<or> r1 = Cancelled"
proof -
  have "quiet V s s1 \<and> (r1 = Ok () \<or> r1 = Cancelled)"
    using h mk [unfolded fs_create_dir_all_def]
  proof (cases rule: fs_op_healthy)
    case aborted
    then show ?thesis by simp
  next
    case (ran n os d)
    with create_dir_all_existing [OF dirs] have d: "d = disk s" and r: "r1 = Ok ()" by simp_all
    have "s1 = s\<lparr>awaits_left := n, io_script := os, engine := engine s\<rparr>" using ran(3) d by simp
    then have "quiet V s s1" by (rule quietI) (simp_all add: ran(2))
    with r show ?thesis by simp
  qed
  then show "quiet V s s1" and "r1 = Ok () \<or> r1 = Cancelled" by simp_all
qed

text \<open>An existing document is opened again, and nothing is written.\<close>

lemma get_or_create_existing:
  assumes c: "docs_contract P V" and doc: "machine_doc P V app_path s ns" and h: "healthy s"
    and run: "get_or_create_machine_doc P app_path s = (r, s')"
  shows "quiet V s s'" and "r = Ok ns' \<Longrightarrow> ns' = ns"
proof -
  obtain r1 s1 where mk: "fs_create_dir_all app_path s = (r1, s1)" by force
  from doc have dirs: "dirs_exist (disk s) app_path" by (simp add: machine_doc_def)
  have q1: "quiet V s s1" and r1: "r1 = Ok () \<or> r1 = Cancelled"
    using create_dir_all_quiet [OF h dirs mk] by simp_all
  have q: "quiet V s s' \<and> (\<forall>ns'. r = Ok ns' \<longrightarrow> ns' = ns)"
  proof (cases "r1 = Cancelled")
    case True
    with run mk q1 show ?thesis by (simp add: get_or_create_machine_doc_def andThen_eval)
  next
    case False
    have doc1: "machine_doc P V app_path s1 ns" and h1: "healthy s1"
      using doc h q1 by (auto intro: machine_doc_quiet healthy_quiet)
    obtain b t where tfile: "map_of (disk s1) (app_path @ [MACHINE_DOC_TICKET_PATH]) = Some (File b)"
      "utf8_valid b" "ticket_from_json P b = Some t" "capability_id P (ticket_capability t) = ns"
      using doc1 by (auto simp: machine_doc_def)
    obtain r2 s2 where rd: "fs_read_to_string (app_path @ [MACHINE_DOC_TICKET_PATH]) s1 = (r2, s2)"
      by force
    have q2: "quiet V s1 s2" using rd reads_only_fs(2) by (rule reads_onlyD [rotated])
    obtain r0 s0 where rd0: "fs_read (app_path @ [MACHINE_DOC_TICKET_PATH]) s1 = (r0, s0)" by force
    have r0: "r0 = Ok b \<or> r0 = Cancelled"
      using rd0 unfolding fs_read_def
      by (cases rule: fs_op_healthy [OF h1]) (auto simp: read_op_def tfile)
    have r2: "r2 = Ok b \<or> r2 = Cancelled"
      using rd rd0 r0 tfile(2) by (auto simp: fs_read_to_string_def andThen_eval)
    show ?thesis
    proof (cases "r2 = Cancelled")
      case True
      with run mk rd False r1 quiet_trans [OF q1 q2] show ?thesis
        by (simp add: get_or_create_machine_doc_def Let_def andThen_eval attempt_eval)
    next
      case False
      obtain r3 s3 where op: "engine_call (docs_open P ns) s2 = (r3, s3)" by force
      have q3: "quiet V s2 s3" using op reads_only_engine(2) [OF c] by (rule reads_onlyD [rotated])
      have run': "andThen (engine_call (docs_open P ns)) unwrap s2 = (r, s')"
        using run mk rd False r2 r1 \<open>r1 \<noteq> Cancelled\<close> tfile(3,4)
        by (auto simp: get_or_create_machine_doc_def Let_def andThen_eval attempt_eval)
      have "known V (engine s2) ns"
        using doc1 quiet_engine_views(2) [OF q2] by (simp add: machine_doc_def)
      then have r3: "x = Some ns" if "r3 = Ok x" for x
        using docs_open_contract(2) [OF c engine_call_OkD [OF op [unfolded that]] refl]
          \<open>known V (engine s2) ns\<close> by simp
      have "s' = s3" using run' op by (cases r3) (auto simp: andThen_eval unwrap_def split: option.splits)
      moreover have "ns' = ns" if "r = Ok ns'" for ns'
        using run' op that r3 by (cases r3) (auto simp: andThen_eval unwrap_def split: option.splits)
      ultimately show ?thesis using q1 q2 q3 by (blast intro: quiet_trans)
    qed
  qed
  then show "quiet V s s'" and "r = Ok ns' \<Longrightarrow> ns' = ns" by blast+
qed


text \<open>
  The machine is ready: its document exists and the disk works. Every operation of the
  machine on its document then runs on that document.
\<close>

definition machine_ready ::
    "'d platform \<Rightarrow> ('d, 'v) docs_view_scheme \<Rightarrow> path \<Rightarrow> namespace_id \<Rightarrow> ('d, 'z) node_scheme \<Rightarrow> bool" where
  "machine_ready P V app_path ns s \<longleftrightarrow> machine_doc P V app_path s ns \<and> healthy s"

lemma machine_ready_quiet:
  "quiet V s s' \<Longrightarrow> machine_ready P V app_path ns s \<Longrightarrow> machine_ready P V app_path ns s'"
  by (auto simp: machine_ready_def intro: machine_doc_quiet healthy_quiet)

lemma machine_ready_wrote:
  "wrote V ns' k v s r s' \<Longrightarrow> machine_ready P V app_path ns s \<Longrightarrow> machine_ready P V app_path ns s'"
  by (auto simp: machine_ready_def machine_doc_def wrote_views dest: wrote_views(3) intro: healthy_suffix)

lemma with_machine_doc:
  assumes c: "docs_contract P V" and m: "machine_ready P V app_path ns s"
    and run: "andThen (get_or_create_machine_doc P app_path) f s = (r, s')"
  obtains (failed) "quiet V s s'" "\<And>x. r \<noteq> Ok x"
  | (opened) s1 where "quiet V s s1" "f ns s1 = (r, s')"
proof -
  obtain r1 s1 where g: "get_or_create_machine_doc P app_path s = (r1, s1)" by force
  note ex = get_or_create_existing [OF c _ _ g, of ns]
  have q: "quiet V s s1" using ex(1) m by (simp add: machine_ready_def)
  have "(quiet V s s' \<and> (\<forall>x. r \<noteq> Ok x)) \<or> (\<exists>s1. quiet V s s1 \<and> f ns s1 = (r, s'))"
  proof (cases r1)
    case (Ok x)
    then have "x = ns" using ex(2) m by (simp add: machine_ready_def)
    with Ok run g q show ?thesis by (auto simp: andThen_eval)
  qed (use run g q in \<open>auto simp: andThen_eval\<close>)
  then show ?thesis using failed opened by blast
qed

lemma machine_set_kv_wrote:
  assumes c: "docs_contract P V" and m: "machine_ready P V app_path ns s"
    and run: "machine_set_kv_value P app_path k v s = (r, s')"
  shows "wrote V ns (kv_full_key k) v s r s'"
  using c m run [unfolded machine_set_kv_value_def Let_def]
proof (cases rule: with_machine_doc)
  case failed
  then show ?thesis by (intro quiet_wrote) simp_all
next
  case (opened s1)
  obtain r2 s2 where a: "engine_call (author_default P) s1 = (r2, s2)" by force
  note au = author_default_quiet [OF c a]
  have q: "quiet V s s2" using opened(1) au(1) by (rule quiet_trans)
  show ?thesis
  proof (cases r2)
    case (Ok aid)
    then have "aid = author_of V (engine s2)" by (rule au(2))
    with Ok a opened(2) have "wrote V ns (kv_full_key k) v s2 r s'"
      by (intro put_wrote [OF c]) (simp add: andThen_eval)
    with q show ?thesis by (rule wrote_after_quiet)
  qed (use opened(2) a q in \<open>auto simp: andThen_eval intro: quiet_wrote\<close>)
qed

lemma machine_get_kv_quiet:
  assumes c: "docs_contract P V" and m: "machine_ready P V app_path ns s"
    and run: "machine_get_kv_value P app_path k s = (r, s')"
  shows "quiet V s s'"
proof -
  have "andThen (get_or_create_machine_doc P app_path) (kv_get_tail P Machine k) s = (r, s')"
    using run by (simp add: machine_get_kv_value_def kv_get_tail_def [abs_def] Let_def)
  with c m show ?thesis
  proof (cases rule: with_machine_doc)
    case (opened s1)
    then show ?thesis
      using reads_onlyD [OF reads_kv_get_tail [OF c] opened(2)] by (blast intro: quiet_trans)
  qed
qed

lemma machine_get_kv_holds:
  assumes c: "docs_contract P V" and m: "machine_ready P V app_path ns s"
    and h: "kv_holds V Machine ns s k v a"
    and run: "machine_get_kv_value P app_path k s = (Ok e, s')"
  shows "\<exists>t. e = Some \<lparr>kv_key = k, kv_value = v, kv_author = a, kv_timestamp = t\<rparr>"
proof -
  have "andThen (get_or_create_machine_doc P app_path) (kv_get_tail P Machine k) s = (Ok e, s')"
    using run by (simp add: machine_get_kv_value_def kv_get_tail_def [abs_def] Let_def)
  with c m show ?thesis
  proof (cases rule: with_machine_doc)
    case (opened s1)
    then show ?thesis using kv_get_tail_Ok [OF c kv_holds_quiet [OF opened(1) h]] by blast
  qed blast
qed

text \<open>The machine's end of the key/value store; it needs the contract of the document engine.\<close>

definition machine_kv_inv ::
    "'d platform \<Rightarrow> ('d, 'v) docs_view_scheme \<Rightarrow> path \<Rightarrow> namespace_id \<Rightarrow> ('d, 'z) node_scheme \<Rightarrow> bool" where
  "machine_kv_inv P V app_path ns s \<longleftrightarrow> docs_contract P V \<and> machine_ready P V app_path ns s"

interpretation machine_kv: kv_store
  "machine_kv_inv P V app_path ns :: ('d, 'z) node_scheme \<Rightarrow> bool"
  "\<lambda>s k. clock_ahead V (engine s) ns (kv_full_key k)"
  "kv_holds V Machine ns"
  "machine_set_kv_value P app_path" "machine_get_kv_value P app_path" Machine
  for P :: "'d platform" and V :: "('d, 'v) docs_view_scheme" and app_path ns
proof
  fix s :: "('d, 'z) node_scheme" and k v r s'
  assume i: "machine_kv_inv P V app_path ns s" and run: "machine_set_kv_value P app_path k v s = (r, s')"
  then have "wrote V ns (kv_full_key k) v s r s'"
    by (auto simp: machine_kv_inv_def intro: machine_set_kv_wrote)
  with i show "machine_kv_inv P V app_path ns s'"
    by (auto simp: machine_kv_inv_def intro: machine_ready_wrote)
next
  fix s :: "('d, 'z) node_scheme" and k v u s'
  assume "machine_kv_inv P V app_path ns s" and "clock_ahead V (engine s) ns (kv_full_key k)"
    and "machine_set_kv_value P app_path k v s = (Ok u, s')"
  then show "kv_holds V Machine ns s' k v Machine"
    by (auto simp: machine_kv_inv_def intro: kv_holds_wrote machine_set_kv_wrote)
next
  fix s :: "('d, 'z) node_scheme" and k v r s' k' w a
  assume "machine_kv_inv P V app_path ns s" and "machine_set_kv_value P app_path k v s = (r, s')"
    and "\<not> prefix k k'" and "kv_holds V Machine ns s k' w a"
  then show "kv_holds V Machine ns s' k' w a"
    by (auto simp: machine_kv_inv_def intro: kv_holds_other machine_set_kv_wrote)
next
  fix s :: "('d, 'z) node_scheme" and k g s'
  assume "machine_kv_inv P V app_path ns s" and "machine_get_kv_value P app_path k s = (g, s')"
  then show "machine_kv_inv P V app_path ns s'"
    by (auto simp: machine_kv_inv_def intro: machine_ready_quiet machine_get_kv_quiet)
next
  fix s :: "('d, 'z) node_scheme" and k g s' k' w a
  assume "machine_kv_inv P V app_path ns s" and "machine_get_kv_value P app_path k s = (g, s')"
    and "kv_holds V Machine ns s k' w a"
  then show "kv_holds V Machine ns s' k' w a"
    by (auto simp: machine_kv_inv_def intro: kv_holds_quiet machine_get_kv_quiet)
next
  fix s :: "('d, 'z) node_scheme" and k v a e s'
  assume "machine_kv_inv P V app_path ns s" and "kv_holds V Machine ns s k v a"
    and "machine_get_kv_value P app_path k s = (Ok e, s')"
  then show "\<exists>t. e = Some \<lparr>kv_key = k, kv_value = v, kv_author = a, kv_timestamp = t\<rparr>"
    by (auto simp: machine_kv_inv_def intro: machine_get_kv_holds)
qed


section \<open>Creating the document\<close>

lemma machine_doc_of_ticket:
  assumes "dirs_exist (disk s) app_path" and "known V (engine s) ns"
    and "map_of (disk s) (app_path @ [MACHINE_DOC_TICKET_PATH]) = Some (File b)" and "utf8_valid b"
    and "ticket_from_json P b = Some t" and "capability_id P (ticket_capability t) = ns"
  shows "machine_doc P V app_path s ns"
  unfolding machine_doc_def using assms by blast

text \<open>Whenever it returns a document, that document is the one the ticket file names.\<close>

lemma get_or_create_Ok:
  assumes c: "docs_contract P V" and j: "codec_contract P"
    and run: "get_or_create_machine_doc P app_path s = (Ok ns, s')"
  shows "machine_doc P V app_path s' ns"
proof -
  let ?p = "app_path @ [MACHINE_DOC_TICKET_PATH]"
  obtain u s1 where mk: "fs_create_dir_all app_path s = (Ok u, s1)"
    and rest: "andThen (attempt (fs_read_to_string ?p)) (\<lambda>r.
     case (case r of Inr doc_ticket_str \<Rightarrow> ticket_from_json P doc_ticket_str | Inl _ \<Rightarrow> None) of
       Some doc_ticket \<Rightarrow>
         andThen (engine_call (docs_open P (capability_id P (ticket_capability doc_ticket)))) unwrap
     | None \<Rightarrow>
         andThen (engine_call (docs_create P)) (\<lambda>new_doc.
         andThen (engine_call (doc_share P new_doc ShareWrite AddrId)) (\<lambda>new_doc_ticket.
         andThen (ok_or Serde (ticket_to_json P new_doc_ticket)) (\<lambda>new_doc_ticket_str.
         andThen (fs_write ?p new_doc_ticket_str) (\<lambda>_.
         ret new_doc))))) s1 = (Ok ns, s')"
    using run by (auto simp: get_or_create_machine_doc_def Let_def andThen_Ok_iff)
  have dirs1: "dirs_exist (disk s1) app_path" using mk by (rule fs_create_dir_all_Ok)
  obtain r2 s2 where rd: "attempt (fs_read_to_string ?p) s1 = (Ok r2, s2)"
    using rest by (auto simp: andThen_Ok_iff)
  have d2: "disk s2 = disk s1"
    using rd by (auto simp: attempt_Ok_iff dest: fs_read_to_string_frame)
  show ?thesis
  proof (cases "case r2 of Inr doc_ticket_str \<Rightarrow> ticket_from_json P doc_ticket_str | Inl _ \<Rightarrow> None")
    case (Some t)
    then obtain b where b: "r2 = Inr b" "ticket_from_json P b = Some t" by (auto split: sum.splits)
    then have tfile: "map_of (disk s1) ?p = Some (File b)" "utf8_valid b"
      using rd by (auto simp: attempt_Ok_iff dest: fs_read_to_string_OkD)
    obtain x where op: "engine_call (docs_open P (capability_id P (ticket_capability t))) s2 = (Ok x, s')"
      and x: "x = Some ns"
      using rest rd Some by (auto simp: andThen_eval andThen_Ok_iff unwrap_Ok_iff)
    note law = docs_open_contract [OF c engine_call_OkD [OF op]]
    have ns: "ns = capability_id P (ticket_capability t)" "known V (engine s') ns"
      using law(2) x same_store_views(2) [OF law(1)] by (auto split: if_splits)
    have "disk s' = disk s2" using op by (auto simp: engine_call_Ok_iff)
    then show ?thesis
      using dirs1 d2 tfile b(2) ns by (intro machine_doc_of_ticket [of s' app_path V ns b P t]) auto
  next
    case None
    obtain t b s3 s4 w where cr: "engine_call (docs_create P) s2 = (Ok ns, s3)"
      and sh: "engine_call (doc_share P ns ShareWrite AddrId) s3 = (Ok t, s4)"
      and b: "ticket_to_json P t = Some b" and wr: "fs_write ?p b s4 = (Ok w, s')"
      using rest rd None by (auto simp: andThen_eval andThen_Ok_iff ok_or_Ok_iff)
    have "disk s4 = disk s1" using cr sh d2 by (auto simp: engine_call_Ok_iff)
    then have dirs: "dirs_exist (disk s') app_path"
      using fs_write_dirs_exist [OF wr] dirs1 by simp
    note law = doc_share_contract [OF c engine_call_OkD [OF sh]]
    have "known V (engine s3) ns" using docs_create_contract(4) [OF c engine_call_OkD [OF cr] refl] by blast
    then have "known V (engine s') ns"
      using same_store_views(2) [OF law(1)] fs_write_OkD [OF wr] by simp
    with dirs show ?thesis
      using codec_contractD(2) [OF j b] law(2) fs_write_OkD [OF wr]
      by (intro machine_doc_of_ticket [of s' app_path V ns b P t]) auto
  qed
qed

section \<open>Payments\<close>

text \<open>The document holds, under the machine's own author, a contract with the id of \<open>cc\<close>.\<close>

definition payment_stored ::
    "'d platform \<Rightarrow> ('d, 'v) docs_view_scheme \<Rightarrow> namespace_id \<Rightarrow> federation_id \<Rightarrow> claimable_contract \<Rightarrow>
     ('d, 'z) node_scheme \<Rightarrow> bool" where
  "payment_stored P V ns fid cc s \<longleftrightarrow>
     (\<exists>st b cc'. stored_of V (engine s) ns (author_of V (engine s))
          (create_claimable_contract_machine_doc_key P fid cc) = Some st \<and> \<not> st_empty st \<and>
        blob_of V (engine s) (st_hash st) = Some b \<and> contract_from_json P b = Some cc' \<and>
        contract_id_of P cc' = contract_id_of P cc)"

lemma payment_stored_quiet:
  "quiet V s s' \<Longrightarrow> payment_stored P V ns fid cc s \<Longrightarrow> payment_stored P V ns fid cc s'"
  by (simp add: payment_stored_def quiet_engine_views)

lemma write_payment_wrote:
  assumes c: "docs_contract P V" and m: "machine_ready P V app_path ns s"
    and run: "write_payment_to_machine_doc P app_path fid cc s = (r, s')"
  shows "\<exists>b. wrote V ns (create_claimable_contract_machine_doc_key P fid cc) b s r s' \<and>
    (r = Ok () \<longrightarrow> contract_to_json P cc = Some b)"
  using c m run [unfolded write_payment_to_machine_doc_def Let_def]
proof (cases rule: with_machine_doc)
  case failed
  then show ?thesis using quiet_wrote [OF failed(1)] by blast
next
  case (opened s1)
  obtain r2 s2 where a: "engine_call (author_default P) s1 = (r2, s2)" by force
  note au = author_default_quiet [OF c a]
  have q: "quiet V s s2" using opened(1) au(1) by (rule quiet_trans)
  have fail: ?thesis if "r \<noteq> Ok ()" "s' = s2" using q that by (blast intro: quiet_wrote)
  show ?thesis
  proof (cases r2)
    case (Ok aid)
    then have aid: "aid = author_of V (engine s2)" by (rule au(2))
    show ?thesis
    proof (cases "contract_to_json P cc")
      case None
      with Ok a opened(2) have "r \<noteq> Ok ()" "s' = s2" by (auto simp: andThen_eval)
      then show ?thesis by (rule fail)
    next
      case (Some b)
      with Ok a opened(2) aid have "wrote V ns (create_claimable_contract_machine_doc_key P fid cc) b s2 r s'"
        by (intro put_wrote [OF c]) (simp add: andThen_eval)
      with q have "wrote V ns (create_claimable_contract_machine_doc_key P fid cc) b s r s'"
        by (rule wrote_after_quiet)
      with Some show ?thesis by blast
    qed
  qed (use opened(2) a q in \<open>auto simp: andThen_eval intro: quiet_wrote\<close>)
qed

lemma write_payment_stores:
  assumes c: "docs_contract P V" and j: "codec_contract P" and m: "machine_ready P V app_path ns s"
    and run: "write_payment_to_machine_doc P app_path fid cc s = (Ok u, s')"
  shows "payment_stored P V ns fid cc s'"
proof -
  obtain b where w: "wrote V ns (create_claimable_contract_machine_doc_key P fid cc) b s (Ok ()) s'"
    and b: "contract_to_json P cc = Some b"
    using write_payment_wrote [OF c m run] by auto
  from w obtain h t where "blob_of V (engine s') h = Some b"
    "stored_of V (engine s') ns (author_of V (engine s)) (create_claimable_contract_machine_doc_key P fid cc) =
       Some \<lparr>st_hash = h, st_timestamp = t, st_empty = False\<rparr>"
    by (rule wrote_OkD)
  then show ?thesis
    using codec_contractD(4) [OF j b] wrote_views(4) [OF w]
    unfolding payment_stored_def by (intro exI conjI) auto
qed

lemma write_payment_keeps:
  assumes c: "docs_contract P V" and j: "codec_contract P" and m: "machine_ready P V app_path ns s"
    and run: "write_payment_to_machine_doc P app_path fid cc s = (r, s')"
    and p: "payment_stored P V ns fid' cc' s"
  shows "payment_stored P V ns fid' cc' s'"
proof -
  let ?key = "create_claimable_contract_machine_doc_key P fid cc"
  let ?key' = "create_claimable_contract_machine_doc_key P fid' cc'"
  obtain b where w: "wrote V ns ?key b s r s'" using write_payment_wrote [OF c m run] by blast
  note wv = wrote_views [OF w]
  show ?thesis
  proof (cases "prefix ?key ?key' \<and> r = Ok ()")
    case True
    then have same: "fid = fid'" "contract_id_of P cc = contract_id_of P cc'"
      using contract_keys_prefix [OF j] by blast+
    then have "?key = ?key'" by (simp add: contract_key_of_eq [OF j])
    moreover have "payment_stored P V ns fid cc s'"
      using run True by (intro write_payment_stores [OF c j m]) auto
    ultimately show ?thesis using same by (simp add: payment_stored_def)
  next
    case False
    then have "stored_of V (engine s') ns (author_of V (engine s)) ?key' =
        stored_of V (engine s) ns (author_of V (engine s)) ?key'"
      using wv(7) [of ns _ ?key'] wv(8) by auto
    then show ?thesis using p wv(4,6) by (auto simp: payment_stored_def)
  qed
qed

lemma write_payment_ready:
  assumes "docs_contract P V" and "machine_ready P V app_path ns s"
    and "write_payment_to_machine_doc P app_path fid cc s = (r, s')"
  shows "machine_ready P V app_path ns s'" and "node.more s' = node.more s"
  using write_payment_wrote [OF assms] assms(2) wrote_views(2)
  by (blast intro: machine_ready_wrote)+


section \<open>Claiming\<close>

abbreviation manager_key_file :: "path \<Rightarrow> path" where
  "manager_key_file app_path \<equiv> app_path @ [MACHINE_MANAGER_PUBLIC_KEY_PATH]"

text \<open>The user accepted, and the manager opened the stream with the right bytes.\<close>

definition agreed :: "connection \<Rightarrow> bool" where
  "agreed conn \<longleftrightarrow> decision conn = Some True \<and> accept_bi conn = Ok () \<and>
     recv_read_to_end conn (length PING_MAGIC_BYTES + 1) = Ok PING_MAGIC_BYTES"

definition claim_stored :: "'d platform \<Rightarrow> path \<Rightarrow> endpoint_id \<Rightarrow> ('d, 'z) node_scheme \<Rightarrow> bool" where
  "claim_stored P app_path k s \<longleftrightarrow>
     (\<exists>b. map_of (disk s) (manager_key_file app_path) = Some (File b) \<and> utf8_valid b \<and>
          endpoint_from_json P b = Some k)"

text \<open>The bytes are a ticket that gives write access to the machine's document.\<close>

definition write_ticket ::
    "'d platform \<Rightarrow> ('d, 'v) docs_view_scheme \<Rightarrow> path \<Rightarrow> ('d, 'z) node_scheme \<Rightarrow> bytes \<Rightarrow> bool" where
  "write_ticket P V app_path s b \<longleftrightarrow> (\<exists>t ns. ticket_to_json P t = Some b \<and>
     (\<exists>k. ticket_capability t = CapWrite k) \<and> capability_id P (ticket_capability t) = ns \<and>
     machine_doc P V app_path s ns)"

definition claim_done ::
    "'d platform \<Rightarrow> ('d, 'v) docs_view_scheme \<Rightarrow> path \<Rightarrow> connection \<Rightarrow> (endpoint_id \<times> conn_event) list \<Rightarrow>
     conn_event list \<Rightarrow> ('d, 'c, 'z) machine_node_scheme \<Rightarrow> bool" where
  "claim_done P V app_path conn L evs s \<longleftrightarrow>
     claimed_manager_pubkey s = Some (remote_id conn) \<and> agreed conn \<and>
     claim_stored P app_path (remote_id conn) s \<and> conn_log s = L @ map (Pair (remote_id conn)) evs \<and>
     (\<forall>b. TicketSent b \<in> set evs \<longrightarrow> write_ticket P V app_path s b)"

lemma machine_more_views:
  assumes "node.more s = node.more (s' :: ('d, 'c, 'z) machine_node_scheme)"
  shows "claimed_manager_pubkey s = claimed_manager_pubkey s'" and "conn_log s = conn_log s'"
    and "clients s = clients s'"
  using assms by (cases s; cases s'; simp)+

lemma more_get_or_create [preserves_rules]: "preserves (more_is m) (get_or_create_machine_doc P app_path)"
  unfolding get_or_create_machine_doc_def Let_def by (intro preserves_rules)

lemma stable_claim_done: "stable (claim_done P V app_path conn L evs)"
  by (simp add: stable_def claim_done_def claim_stored_def write_ticket_def machine_doc_def)

lemma claim_doc_triple:
  assumes "docs_contract P V" and "codec_contract P"
  shows "triple (more_is m) (get_or_create_machine_doc P app_path)
    (\<lambda>doc s. more_is m s \<and> machine_doc P V app_path s doc) (more_is m)"
  using more_get_or_create [of m P app_path] get_or_create_Ok [OF assms]
  by (intro tripleI) (blast dest: preservesD)+

lemma claim_share_triple:
  assumes c: "docs_contract P V"
  shows "triple (\<lambda>s. more_is m s \<and> machine_doc P V app_path s doc)
    (engine_call (doc_share P doc ShareWrite ao))
    (\<lambda>t s. (more_is m s \<and> machine_doc P V app_path s doc) \<and>
       (capability_id P (ticket_capability t) = doc \<and> (\<exists>k. ticket_capability t = CapWrite k))) (more_is m)"
proof (rule tripleI)
  fix s t s'
  assume pre: "more_is m s \<and> machine_doc P V app_path s doc"
    and run: "engine_call (doc_share P doc ShareWrite ao) s = (Ok t, s')"
  have q: "quiet V s s'" using reads_only_engine(3) [OF c] run by (rule reads_onlyD)
  note law = doc_share_contract [OF c engine_call_OkD [OF run]]
  show "(more_is m s' \<and> machine_doc P V app_path s' doc) \<and>
       (capability_id P (ticket_capability t) = doc \<and> (\<exists>k. ticket_capability t = CapWrite k))"
  proof (intro conjI)
    show "more_is m s'" using pre quiet_views(2) [OF q] by (simp add: more_is_def)
    show "machine_doc P V app_path s' doc" using pre by (blast intro: machine_doc_quiet [OF q])
    show "capability_id P (ticket_capability t) = doc" by (rule law(2) [OF refl])
    show "\<exists>k. ticket_capability t = CapWrite k" by (rule law(3) [OF refl refl])
  qed
qed (blast dest: preservesD [OF more_engine_call])

lemma claim_write_triple:
  assumes j: "codec_contract P" and str: "endpoint_to_json P k = Some str"
  shows "triple (\<lambda>s. more_is m s \<and> machine_doc P V app_path s doc)
    (fs_write (manager_key_file app_path) str)
    (\<lambda>_ s. more_is m s \<and> machine_doc P V app_path s doc \<and> claim_stored P app_path k s) (more_is m)"
proof (rule tripleI)
  fix s u s'
  assume pre: "more_is m s \<and> machine_doc P V app_path s doc"
    and run: "fs_write (manager_key_file app_path) str s = (Ok u, s')"
  have "more_is m s'" using preservesD [OF more_fs(3) _ run] pre by blast
  moreover have "machine_doc P V app_path s' doc"
  proof -
    have "app_path @ [MACHINE_DOC_TICKET_PATH] \<noteq> manager_key_file app_path"
      by (simp add: MACHINE_DOC_TICKET_PATH_def MACHINE_MANAGER_PUBLIC_KEY_PATH_def)
    then show ?thesis
      using pre fs_write_OkD [OF run] fs_write_dirs_exist [OF run]
      by (auto simp: machine_doc_def)
  qed
  moreover have "claim_stored P app_path k s'"
    using fs_write_OkD [OF run] codec_contractD(1) [OF j str] by (simp add: claim_stored_def)
  ultimately show "more_is m s' \<and> machine_doc P V app_path s' doc \<and> claim_stored P app_path k s'" by blast
qed (blast dest: preservesD [OF more_fs(3)])

lemma machine_memory_only [simp]:
  "machine_doc P V app_path (s\<lparr>conn_log := x\<rparr>) ns = machine_doc P V app_path s ns"
  "machine_doc P V app_path (s\<lparr>claimed_manager_pubkey := y\<rparr>) ns = machine_doc P V app_path s ns"
  "claim_stored P app_path k (s\<lparr>conn_log := x\<rparr>) = claim_stored P app_path k s"
  "claim_stored P app_path k (s\<lparr>claimed_manager_pubkey := y\<rparr>) = claim_stored P app_path k s"
  "write_ticket P V app_path (s\<lparr>conn_log := x\<rparr>) b = write_ticket P V app_path s b"
  by (simp_all add: machine_doc_def claim_stored_def write_ticket_def)

lemma claim_set_triple:
  assumes "agreed conn" and "\<And>s :: ('d, 'c, 'z) machine_node_scheme. more_is m s \<Longrightarrow> conn_log s = L"
  shows "triple (\<lambda>s :: ('d, 'c, 'z) machine_node_scheme. more_is m s \<and> machine_doc P V app_path s doc \<and>
      claim_stored P app_path (remote_id conn) s)
    (set_claimed (remote_id conn))
    (\<lambda>_ s. claim_done P V app_path conn L [] s \<and> machine_doc P V app_path s doc) E"
  using assms by (intro tripleI) (auto simp: set_claimed_def claim_done_def)

lemma claim_log_triple:
  assumes ev: "\<And>b. ev = TicketSent b \<Longrightarrow> \<exists>t. ticket_to_json P t = Some b \<and>
     (\<exists>k. ticket_capability t = CapWrite k) \<and> capability_id P (ticket_capability t) = doc"
  shows "triple (\<lambda>s. claim_done P V app_path conn L evs s \<and> machine_doc P V app_path s doc)
    (log_event (remote_id conn) ev :: (('d, 'c, 'z) machine_node_scheme, unit) prog)
    (\<lambda>_ s. claim_done P V app_path conn L (evs @ [ev]) s) E"
proof (rule tripleI)
  fix s :: "('d, 'c, 'z) machine_node_scheme" and u s'
  assume pre: "claim_done P V app_path conn L evs s \<and> machine_doc P V app_path s doc"
    and run: "log_event (remote_id conn) ev s = (Ok u, s')"
  have "write_ticket P V app_path s b" if "ev = TicketSent b" for b
    using ev [OF that] pre unfolding write_ticket_def by blast
  then show "claim_done P V app_path conn L (evs @ [ev]) s'"
    using pre run by (auto simp: log_event_def claim_done_def)
qed (simp add: log_event_def)

lemma claim_close_triple:
  "triple (claim_done P V app_path conn L evs) (log_event (remote_id conn) (ConnClosed w))
    (\<lambda>_. claim_done P V app_path conn L (evs @ [ConnClosed w])) E"
  by (intro tripleI) (auto simp: log_event_def claim_done_def)

lemma claim_peer_triple:
  "triple (claim_done P V app_path conn L evs) (await (lift_res r))
    (\<lambda>_. claim_done P V app_path conn L evs) (claim_done P V app_path conn L evs)"
  "triple (claim_done P V app_path conn L evs) (lift_res r)
    (\<lambda>_. claim_done P V app_path conn L evs) (claim_done P V app_path conn L evs)"
  by (intro triple_preserves preserves_await preserves_lift_res stable_claim_done; assumption)+


lemma claim_tail_triple:
  "triple (claim_done P V app_path conn L [TicketSent b])
      (andThen (await (lift_res (send_write_all conn))) (\<lambda>_.
       andThen (lift_res (send_finish conn)) (\<lambda>_.
       andThen (await (lift_res (send_stopped conn))) (\<lambda>_.
       andThen (await (lift_res (send_shutdown conn))) (\<lambda>_.
       log_event (remote_id conn) (ConnClosed ''finished''))))))
     (\<lambda>_. claim_done P V app_path conn L [TicketSent b, ConnClosed ''finished''])
     (claim_done P V app_path conn L [TicketSent b])"
  using claim_close_triple [of P V app_path conn L "[TicketSent b]"]
  by (intro triple_andThen [OF claim_peer_triple(1)] triple_andThen [OF claim_peer_triple(2)]) simp

text \<open>
  Wherever the handler stops after both sides have agreed, either nothing has been claimed
  and nothing sent, or the claim is in memory and on disk.
\<close>

lemma accept_agreed_triple:
  assumes c: "docs_contract P V" and j: "codec_contract P" and d: "decision conn = Some True"
    and m: "\<And>s :: ('d, 'c, 'z) machine_node_scheme. more_is m s \<Longrightarrow> conn_log s = L"
  shows "triple (more_is m) (accept_agreed P app_path conn :: (('d, 'c, 'z) machine_node_scheme, unit) prog)
    (\<lambda>_ s. \<exists>b. claim_done P V app_path conn L [TicketSent b, ConnClosed ''finished''] s)
    (\<lambda>s. more_is m s \<or> (\<exists>evs. claim_done P V app_path conn L evs s))"
    (is "triple _ _ ?Q ?E")
  unfolding accept_agreed_def
  apply (rule triple_seq [OF more_peer_triple], blast)
  apply (rule triple_pure, rule triple_seq [OF more_peer_triple], blast)
  apply (rule triple_pure, rule triple_if, rule triple_fail, blast)
  apply (rule triple_seq [OF claim_doc_triple [OF c j]], blast)
  apply (rule triple_seq [OF claim_share_triple [OF c]], blast)
  apply (rule triple_pure, rule triple_seq [OF triple_ok_or_Some], blast)
  apply (rule triple_pure, rule triple_seq [OF claim_write_triple [OF j]], assumption, blast)
  apply (rule triple_seq [OF claim_set_triple])
     apply (use d in \<open>simp add: agreed_def\<close>)
    apply (erule m)
   apply assumption
  apply (rule triple_seq [OF triple_ok_or_Some], blast)
  apply (rule triple_pure, rule triple_seq [OF claim_log_triple], blast, assumption)
  apply (rule triple_weaken [OF claim_tail_triple], simp, blast, blast)
  done


definition claim_memory ::
    "endpoint_id option \<Rightarrow> (endpoint_id \<times> conn_event) list \<Rightarrow> ('d, 'c, 'z) machine_node_scheme \<Rightarrow> bool" where
  "claim_memory C L s \<longleftrightarrow> claimed_manager_pubkey s = C \<and> conn_log s = L"

lemma stable_claim_memory: "stable (claim_memory C L)"
  by (simp add: stable_def claim_memory_def)

lemma claim_memory_more:
  "claim_memory C L s \<Longrightarrow> more_is (node.more s) s' \<Longrightarrow> claim_memory C L (s' :: ('d, 'c, 'z) machine_node_scheme)"
  by (simp add: claim_memory_def more_is_def machine_more_views [of s' s])

lemma accept_agreed_memory:
  fixes conn :: connection
  assumes "docs_contract P V" and "codec_contract P" and "decision conn = Some True"
  shows "triple (claim_memory C L) (accept_agreed P app_path conn)
    (\<lambda>_ s. \<exists>b. claim_done P V app_path conn L [TicketSent b, ConnClosed ''finished''] s)
    (\<lambda>s. claim_memory C L s \<or> (\<exists>evs. claim_done P V app_path conn L evs s))"
proof (rule tripleI)
  fix s :: "('a, 'c, 'd) machine_node_scheme" and u s'
  assume pre: "claim_memory C L s" and run: "accept_agreed P app_path conn s = (Ok u, s')"
  have L: "conn_log t = L" if "more_is (node.more s) t" for t :: "('a, 'c, 'd) machine_node_scheme"
    using claim_memory_more [OF pre that] by (simp add: claim_memory_def)
  show "\<exists>b. claim_done P V app_path conn L [TicketSent b, ConnClosed ''finished''] s'"
    using tripleD [OF accept_agreed_triple [OF assms L] _ run]
    by (auto simp: more_is_def)
next
  fix s :: "('a, 'c, 'd) machine_node_scheme" and r s'
  assume pre: "claim_memory C L s" and run: "accept_agreed P app_path conn s = (r, s')"
    and r: "\<And>x. r \<noteq> Ok x"
  have L: "conn_log t = L" if "more_is (node.more s) t" for t :: "('a, 'c, 'd) machine_node_scheme"
    using claim_memory_more [OF pre that] by (simp add: claim_memory_def)
  have "more_is (node.more s) s' \<or> (\<exists>evs. claim_done P V app_path conn L evs s')"
    using tripleD [OF accept_agreed_triple [OF assms L] _ run] r by (auto simp: more_is_def)
  then show "claim_memory C L s' \<or> (\<exists>evs. claim_done P V app_path conn L evs s')"
    using claim_memory_more [OF pre] by blast
qed

text \<open>What one run of the handler leaves behind, on every outcome.\<close>

definition claim_outcome ::
    "'d platform \<Rightarrow> ('d, 'v) docs_view_scheme \<Rightarrow> path \<Rightarrow> connection \<Rightarrow> endpoint_id option \<Rightarrow>
     (endpoint_id \<times> conn_event) list \<Rightarrow> ('d, 'c, 'z) machine_node_scheme \<Rightarrow> bool" where
  "claim_outcome P V app_path conn C L s' \<longleftrightarrow>
     (\<exists>evs. (claim_memory C (L @ map (Pair (remote_id conn)) evs) s' \<and> (\<forall>b. TicketSent b \<notin> set evs)) \<or>
            (C \<in> {None, Some (remote_id conn)} \<and> claim_done P V app_path conn L evs s'))"

lemma claim_outcome_same: "claim_memory C L s \<Longrightarrow> claim_outcome P V app_path conn C L s"
  unfolding claim_outcome_def by (intro exI [of _ "[]"]) simp

lemma claim_outcome_event:
  "claim_memory C (L @ [(remote_id conn, ev)]) s \<Longrightarrow> \<forall>b. ev \<noteq> TicketSent b \<Longrightarrow>
   claim_outcome P V app_path conn C L s"
  unfolding claim_outcome_def by (intro exI [of _ "[ev]"]) auto

lemma claim_outcome_two:
  "claim_memory C ((L @ [(remote_id conn, ev)]) @ [(remote_id conn, ev')]) s \<Longrightarrow>
   \<forall>b. ev \<noteq> TicketSent b \<Longrightarrow> \<forall>b. ev' \<noteq> TicketSent b \<Longrightarrow> claim_outcome P V app_path conn C L s"
  unfolding claim_outcome_def by (intro exI [of _ "[ev, ev']"]) auto

lemma claim_outcome_done:
  assumes "claim_done P V app_path conn (L @ [(remote_id conn, ClaimRequested pin)]) evs s"
    and "C \<in> {None, Some (remote_id conn)}"
  shows "claim_outcome P V app_path conn C L s"
proof -
  have "claim_done P V app_path conn L (ClaimRequested pin # evs) s"
    using assms(1) by (simp add: claim_done_def)
  with assms(2) show ?thesis unfolding claim_outcome_def by blast
qed

lemma claim_outcome_agreed:
  assumes C: "C \<in> {None, Some (remote_id conn)}"
    and "claim_memory C (L @ [(remote_id conn, ClaimRequested pin)]) s \<or>
      (\<exists>evs. claim_done P V app_path conn (L @ [(remote_id conn, ClaimRequested pin)]) evs s)"
  shows "claim_outcome P V app_path conn C L s"
  using assms(2)
proof (elim disjE exE)
  assume "claim_memory C (L @ [(remote_id conn, ClaimRequested pin)]) s"
  then show ?thesis by (rule claim_outcome_event) simp
qed (rule claim_outcome_done [OF _ C])

lemma claimer_allowed:
  "\<not> (case C of None \<Rightarrow> False | Some k \<Rightarrow> k \<noteq> r) \<Longrightarrow> C \<in> {None, Some r}"
  by (simp split: option.splits)

lemma memory_lock_triple:
  "triple (claim_memory C L) lock_claimed (\<lambda>x s. claim_memory C L s \<and> x = C) (claim_memory C L)"
  unfolding lock_claimed_def
  by (intro tripleI) (auto simp: await_Ok claim_memory_def await_def split: option.splits nat.splits)

lemma memory_await_triple:
  "triple (claim_memory C L) (await (lift_res z)) (\<lambda>_. claim_memory C L) (claim_memory C L)"
  by (intro triple_preserves preserves_await preserves_lift_res stable_claim_memory)

lemma memory_ret_triple:
  "triple (claim_memory C L) (await (ret d)) (\<lambda>x s. claim_memory C L s \<and> x = d) (claim_memory C L)"
  by (intro tripleI) (auto simp: claim_memory_def elim!: suspend_cases)

lemma memory_log_triple:
  "triple (claim_memory C L) (log_event k ev) (\<lambda>_. claim_memory C (L @ [(k, ev)])) E"
  by (intro tripleI) (auto simp: log_event_def claim_memory_def)

lemma accept_claim_triple:
  assumes "docs_contract P V" and "codec_contract P"
  shows "triple (claim_memory C L) (accept_claim P app_path conn)
    (\<lambda>_. claim_outcome P V app_path conn C L) (claim_outcome P V app_path conn C L)"
  unfolding accept_claim_def Let_def
  apply (rule triple_seq [OF memory_lock_triple], erule claim_outcome_same)
  apply (rule triple_pure, rule triple_if)
   apply (rule triple_weaken [OF memory_log_triple], assumption, erule claim_outcome_event, simp, assumption)
  apply (rule triple_seq [OF memory_await_triple], erule claim_outcome_same)
  apply (rule triple_seq [OF memory_log_triple], assumption)
  apply (rule triple_seq [OF memory_ret_triple], erule claim_outcome_event, simp)
  apply (rule triple_pure, rule triple_if)
   apply (rule triple_weaken [OF accept_agreed_memory [OF assms]])
      apply (simp split: option.splits)
     apply assumption
    apply (rule claim_outcome_agreed [OF claimer_allowed], simp, blast)
   apply (rule claim_outcome_agreed [OF claimer_allowed], simp, assumption)
  apply (rule triple_weaken [OF memory_log_triple], assumption, erule claim_outcome_two, simp, simp, assumption)
  done

lemma accept_claim_outcome:
  assumes "docs_contract P V" and "codec_contract P" and "accept_claim P app_path conn s = (r, s')"
  shows "claim_outcome P V app_path conn (claimed_manager_pubkey s) (conn_log s) s'"
  using tripleD [OF accept_claim_triple [OF assms(1,2), of "claimed_manager_pubkey s" "conn_log s"] _ assms(3)]
  by (auto simp: claim_memory_def)


section \<open>Claims on disk\<close>

text \<open>
  On a disk that works, a file that already holds the claimer's key keeps it whatever
  happens to a handler of the same claimer, and the start of the machine finds it.
\<close>

lemma manager_key_file_other:
  "app_path @ [MACHINE_DOC_TICKET_PATH] \<noteq> manager_key_file app_path"
  by (simp add: MACHINE_DOC_TICKET_PATH_def MACHINE_MANAGER_PUBLIC_KEY_PATH_def)

lemma has_file_log [preserves_rules]:
  "preserves (has_file f B) (log_event k ev)" "preserves (has_file f B) (set_claimed k)"
  "preserves (has_file f B) lock_claimed"
  by (auto simp: preserves_def log_event_def set_claimed_def lock_claimed_def await_def has_file_def
      healthy_def split: option.splits nat.splits)

lemma has_file_get_or_create [preserves_rules]:
  "preserves (has_file (manager_key_file app_path) B) (get_or_create_machine_doc P app_path)"
  unfolding get_or_create_machine_doc_def Let_def
  by (intro preserves_rules disjI1 manager_key_file_other)

lemma claim_file_kept:
  assumes "\<And>b. endpoint_to_json P (remote_id conn) = Some b \<Longrightarrow> b \<in> B"
  shows "preserves (has_file (manager_key_file app_path) B) (accept_claim P app_path conn)"
proof (cases "endpoint_to_json P (remote_id conn)")
  case None
  show ?thesis unfolding accept_claim_def accept_agreed_def Let_def None ok_or_simps andThen_fail
    by (intro preserves_rules)
next
  case (Some b)
  show ?thesis unfolding accept_claim_def accept_agreed_def Let_def Some ok_or_simps andThen_ret
    by (intro preserves_rules disjI2 assms [OF Some])
qed

lemma accept_claim_other:
  assumes "claimed_manager_pubkey s = Some k" and "remote_id conn \<noteq> k"
    and "accept_claim P app_path conn s = (r, s')"
  shows "disk s' = disk s" and "engine s' = engine s" and "claimed_manager_pubkey s' = Some k"
    and "conn_log s' = conn_log s \<or> conn_log s' = conn_log s @ [(remote_id conn, ConnClosed ''already_claimed'')]"
    and "r = Ok () \<or> r = Cancelled"
  using assms
  by (auto simp: accept_claim_def lock_claimed_def await_def log_event_def andThen_def
      split: option.splits nat.splits)

lemma secret_key_file_other:
  "storage_path @ [SECRET_KEY_FILE] \<noteq> manager_key_file (app_storage_path storage_path)"
  by (simp add: app_storage_path_def)

lemma shared_new_keeps_claim:
  "preserves (has_file (manager_key_file (app_storage_path storage_path)) B)
     (shared_protocol_new P storage_path rng)"
  unfolding shared_protocol_new_def load_or_create_secret_key_def Let_def
  by (intro preserves_rules disjI1 secret_key_file_other)

lemma shared_new_path:
  "shared_protocol_new P storage_path rng s = (Ok p, s') \<Longrightarrow> p = app_storage_path storage_path"
  by (auto simp: shared_protocol_new_def Let_def andThen_Ok_iff)

text \<open>The contents that the stored key of the manager \<open>k\<close> may have.\<close>

definition key_bytes :: "'d platform \<Rightarrow> endpoint_id \<Rightarrow> bytes set" where
  "key_bytes P k = {b. utf8_valid b \<and> endpoint_from_json P b = Some k}"

lemma claim_stored_iff:
  "claim_stored P app_path k s \<longleftrightarrow> (\<exists>b \<in> key_bytes P k. map_of (disk s) (manager_key_file app_path) = Some (File b))"
  by (auto simp: claim_stored_def key_bytes_def)

lemma claim_stored_healthy:
  "healthy s \<Longrightarrow> claim_stored P app_path k s \<longleftrightarrow> has_file (manager_key_file app_path) (key_bytes P k) s"
  by (simp add: claim_stored_iff has_file_def)

lemma more_shared_new: "preserves (more_is m) (shared_protocol_new P storage_path rng)"
  unfolding shared_protocol_new_def load_or_create_secret_key_def Let_def by (intro preserves_rules)

lemma machine_new_parts:
  assumes run: "machine_protocol_new P storage_path rng s = (r, s')" and h: "healthy s"
  obtains (early) "claimed_manager_pubkey s' = claimed_manager_pubkey s"
      "\<And>B. has_file (manager_key_file (app_storage_path storage_path)) B s \<Longrightarrow>
        has_file (manager_key_file (app_storage_path storage_path)) B s'" "\<And>p. r \<noteq> Ok p"
  | (read) r2 s1 s2 where "shared_protocol_new P storage_path rng s = (Ok (app_storage_path storage_path), s1)"
      "fs_read_to_string (manager_key_file (app_storage_path storage_path)) s1 = (r2, s2)"
      "(\<exists>b. r2 = Ok b \<and> claimed_manager_pubkey s' = endpoint_from_json P b) \<or>
       (\<exists>e. r2 = Err e \<and> claimed_manager_pubkey s' = None)"
      "disk s' = disk s2" "io_script s' = io_script s2" "\<And>p. r = Ok p \<Longrightarrow> p = app_storage_path storage_path"
proof -
  let ?f = "manager_key_file (app_storage_path storage_path)"
  obtain r1 s1 where sh: "shared_protocol_new P storage_path rng s = (r1, s1)" by force
  have more1: "node.more s1 = node.more s"
    using preservesD [OF more_shared_new _ sh, of "node.more s"] by (simp add: more_is_def)
  then have c1: "claimed_manager_pubkey s1 = claimed_manager_pubkey s" by (rule machine_more_views)
  have f1: "has_file ?f B s \<Longrightarrow> has_file ?f B s1" for B
    by (rule preservesD [OF shared_new_keeps_claim _ sh])
  show thesis
  proof (cases "\<exists>p. r1 = Ok p")
    case False
    then have "s' = s1" and "\<And>p. r \<noteq> Ok p"
      using run sh by (cases r1; auto simp: machine_protocol_new_def Let_def andThen_eval)+
    with c1 f1 show thesis by (intro early) auto
  next
    case True
    then have r1: "r1 = Ok (app_storage_path storage_path)" using sh by (auto dest: shared_new_path)
    obtain r2 s2 where rd: "fs_read_to_string ?f s1 = (r2, s2)" by force
    have rest: "andThen (attempt (fs_read_to_string ?f)) (\<lambda>r.
       andThen (\<lambda>s. (Ok (), s\<lparr>claimed_manager_pubkey := (case r of Inr str \<Rightarrow> endpoint_from_json P str
          | Inl _ \<Rightarrow> None)\<rparr>)) (\<lambda>_.
       andThen (\<lambda>s. case router_spawn P (engine s) of (q, d) \<Rightarrow> (q, s\<lparr>engine := d\<rparr>)) (\<lambda>_.
       ret (app_storage_path storage_path)))) s1 = (r, s')"
      using run sh r1 by (simp add: machine_protocol_new_def Let_def andThen_eval)
    show thesis
    proof (cases "(\<exists>b. r2 = Ok b) \<or> (\<exists>e. r2 = Err e)")
      case True
      then show thesis using rest rd
        by (intro read [OF sh [unfolded r1] rd])
           (auto simp: andThen_def attempt_def split: prod.splits res.splits)
    next
      case False
      then have "s' = s2" and "\<And>p. r \<noteq> Ok p"
        using rest rd by (cases r2; auto simp: andThen_def attempt_def)+
      moreover have "has_file ?f B s1 \<Longrightarrow> has_file ?f B s2" for B
        by (rule preservesD [OF has_file_fs(2) _ rd])
      moreover have "node.more s2 = node.more s1"
        using preservesD [OF more_fs(2) _ rd, of "node.more s1"] by (simp add: more_is_def)
      then have "claimed_manager_pubkey s2 = claimed_manager_pubkey s1" by (rule machine_more_views)
      ultimately show thesis using c1 f1 by (intro early) auto
    qed
  qed
qed

lemma healthy_stable: "stable healthy" "disk_free healthy"
  by (auto simp: stable_def disk_free_def healthy_def dest!: set_mono_suffix)

lemma healthy_read: "preserves healthy (fs_read_to_string p)"
  by (rule preserves_fs [OF healthy_stable])

lemma healthy_shared_new: "preserves healthy (shared_protocol_new P storage_path rng)"
  unfolding shared_protocol_new_def load_or_create_secret_key_def Let_def
  by (intro preserves_andThen preserves_attempt preserves_case_sum preserves_unwrap preserves_ret
      preserves_fs healthy_stable preserves_engine_call) (simp_all add: healthy_def)

lemma healthy_new: "preserves healthy (machine_protocol_new P storage_path rng)"
  unfolding machine_protocol_new_def Let_def
  by (intro preserves_andThen preserves_attempt healthy_shared_new healthy_read preserves_ret)
     (auto simp: preserves_def healthy_def split: prod.split)

text \<open>A stored key survives a start, and is what the machine is claimed by afterwards.\<close>

lemma machine_new_stored:
  assumes f: "has_file (manager_key_file (app_storage_path storage_path)) (key_bytes P k) s"
    and run: "machine_protocol_new P storage_path rng s = (r, s')"
  shows "has_file (manager_key_file (app_storage_path storage_path)) (key_bytes P k) s'"
    and "claimed_manager_pubkey s' = Some k \<or> claimed_manager_pubkey s' = claimed_manager_pubkey s \<and> (\<forall>p. r \<noteq> Ok p)"
    and "r = Ok p \<Longrightarrow> p = app_storage_path storage_path"
proof -
  let ?f = "manager_key_file (app_storage_path storage_path)"
  have h: "healthy s" using f by (simp add: has_file_def)
  have "has_file ?f (key_bytes P k) s' \<and>
    (claimed_manager_pubkey s' = Some k \<or> claimed_manager_pubkey s' = claimed_manager_pubkey s \<and> (\<forall>p. r \<noteq> Ok p)) \<and>
    (\<forall>p. r = Ok p \<longrightarrow> p = app_storage_path storage_path)"
    using run h
  proof (cases rule: machine_new_parts)
    case early
    then show ?thesis using f by auto
  next
    case (read r2 s1 s2)
    have f1: "has_file ?f (key_bytes P k) s1" by (rule preservesD [OF shared_new_keeps_claim f read(1)])
    have "has_file ?f (key_bytes P k) s2" by (rule preservesD [OF has_file_fs(2) f1 read(2)])
    then have "has_file ?f (key_bytes P k) s'" using read(4,5) by (simp add: has_file_def healthy_def)
    moreover have "(\<exists>b \<in> key_bytes P k. r2 = Ok b) \<or> r2 = Cancelled"
      by (rule has_file_read [OF f1 _ read(2)]) (simp add: key_bytes_def)
    then have "claimed_manager_pubkey s' = Some k" using read(3) by (auto simp: key_bytes_def)
    ultimately show ?thesis using read(6) by blast
  qed
  then show "has_file ?f (key_bytes P k) s'"
    and "claimed_manager_pubkey s' = Some k \<or> claimed_manager_pubkey s' = claimed_manager_pubkey s \<and> (\<forall>p. r \<noteq> Ok p)"
    and "r = Ok p \<Longrightarrow> p = app_storage_path storage_path" by blast+
qed

text \<open>Without one, a start that finds a claim found it in the file.\<close>

lemma machine_new_found:
  assumes h: "healthy s" and n: "claimed_manager_pubkey s = None"
    and run: "machine_protocol_new P storage_path rng s = (r, s')" and k: "claimed_manager_pubkey s' = Some k"
  shows "has_file (manager_key_file (app_storage_path storage_path)) (key_bytes P k) s'"
  using run h
proof (cases rule: machine_new_parts)
  case early
  with n k show ?thesis by simp
next
  case (read r2 s1 s2)
  let ?f = "manager_key_file (app_storage_path storage_path)"
  from read(3) k obtain b where b: "r2 = Ok b" "endpoint_from_json P b = Some k" by auto
  have d: "map_of (disk s1) ?f = Some (File b)" "utf8_valid b" "disk s2 = disk s1"
    using read(2) b fs_read_to_string_Ok by blast+
  have "healthy s1" by (rule preservesD [OF healthy_shared_new h read(1)])
  then have "healthy s2" by (rule preservesD [OF healthy_read _ read(2)])
  with d b read(4,5) show ?thesis by (simp add: has_file_def key_bytes_def healthy_def)
qed

end
