(* ===== verification/Manager_Protocol.thy ===== *)
theory Manager_Protocol
  imports Shared
begin

text \<open>
  \<open>vendimint_iroh/manager.rs\<close>: the manager's side of the protocol. A manager keeps one
  document ticket per claimed machine, in a directory of files named after the machines,
  and opens a machine's document through its ticket. \<open>manager_claim_task\<close> is the task
  that \<open>claim_machine\<close> spawns; what the user and the machine do is the
  \<open>outgoing_connection\<close> it gets. The \<open>HashMap\<close> that \<open>remove_claimable_contracts\<close> folds
  into is an association list with an explicit iteration order \<open>iter\<close>.
\<close>

section \<open>Claiming a machine\<close>

definition MACHINE_DOC_TICKETS_SUBDIR :: string where
  "MACHINE_DOC_TICKETS_SUBDIR = ''machine_doc_tickets''"

definition machine_doc_ticket_path :: "path \<Rightarrow> path" where
  "machine_doc_ticket_path app_path = app_path @ [MACHINE_DOC_TICKETS_SUBDIR]"

record outgoing_connection =
  out_connect :: "unit res"
  out_exporter :: "string \<Rightarrow> bytes \<Rightarrow> hash32"
  out_decision :: "bool option"
  out_open_bi :: "unit res"
  out_write_all :: "bytes \<Rightarrow> unit res"
  out_finish :: "unit res"
  out_stopped :: "unit res"
  out_read_to_end :: "nat \<Rightarrow> bytes res"
  out_shutdown :: "unit res"

text \<open>\<open>ManagerProtocol::new\<close>\<close>

definition manager_protocol_new ::
    "'d platform \<Rightarrow> path \<Rightarrow> hash32 \<Rightarrow> (('d, 'z) node_scheme, path) prog" where
  "manager_protocol_new P storage_path rng =
     andThen (shared_protocol_new P storage_path rng) (\<lambda>app_path.
     andThen (\<lambda>s. case router_spawn P (engine s) of (q, d) \<Rightarrow> (q, s\<lparr>engine := d\<rparr>)) (\<lambda>_.
     andThen (fs_create_dir_all (machine_doc_ticket_path app_path)) (\<lambda>_.
     ret app_path)))"

definition manager_shutdown :: "'d platform \<Rightarrow> (('d, 'z) node_scheme, unit) prog" where
  "manager_shutdown P =
     andThen (engine_call (router_shutdown P)) (\<lambda>_.
     andThen (ignore (engine_call (blobs_shutdown P))) (\<lambda>_.
     andThen (ignore (engine_call (docs_shutdown P))) (\<lambda>_.
     ret ())))"

definition manager_is_shutdown :: "'d platform \<Rightarrow> ('d, 'z) node_scheme \<Rightarrow> bool" where
  "manager_is_shutdown P s = router_is_shutdown P (engine s)"

text \<open>The synchronous part of \<open>claim_machine\<close>: connect and compute the PIN.\<close>

definition claim_machine :: "outgoing_connection \<Rightarrow> (('d, 'z) node_scheme, claim_pin) prog" where
  "claim_machine conn =
     andThen (await (lift_res (out_connect conn))) (\<lambda>_.
     ret (claim_pin_from_keying_material (out_exporter conn)))"

definition is_write_capability :: "capability \<Rightarrow> bool" where
  "is_write_capability c = (case c of CapWrite _ \<Rightarrow> True | CapRead _ \<Rightarrow> False)"

lemma is_write_capability_iff: "is_write_capability c \<longleftrightarrow> (\<exists>k. c = CapWrite k)"
  by (simp add: is_write_capability_def split: capability.split)

text \<open>What the task does with the bytes the machine sent.\<close>

definition store_machine_ticket ::
    "'d platform \<Rightarrow> path \<Rightarrow> endpoint_id \<Rightarrow> doc_ticket \<Rightarrow> (('d, 'z) node_scheme, unit) prog" where
  "store_machine_ticket P app_path machine_id machine_doc_ticket =
     andThen (ignore (engine_call (docs_import P machine_doc_ticket))) (\<lambda>_.
     andThen (unwrap (ticket_to_json P machine_doc_ticket)) (\<lambda>str.
     ignore (fs_write (machine_doc_ticket_path app_path @ [endpoint_to_string P machine_id]) str)))"

definition receive_machine_ticket ::
    "'d platform \<Rightarrow> path \<Rightarrow> endpoint_id \<Rightarrow> error + bytes \<Rightarrow> (('d, 'z) node_scheme, unit) prog" where
  "receive_machine_ticket P app_path machine_id r =
     (case r of
        Inl _ \<Rightarrow> ret ()
      | Inr bytes \<Rightarrow> (case ticket_from_json P bytes of
          None \<Rightarrow> ret ()
        | Some t \<Rightarrow> if is_write_capability (ticket_capability t)
            then store_machine_ticket P app_path machine_id t else ret ()))"

text \<open>
  The spawned task. It returns the reason it closed the connection with, or \<open>None\<close> when it
  left early and the connection was dropped.
\<close>

definition manager_claim_task ::
    "'d platform \<Rightarrow> path \<Rightarrow> outgoing_connection \<Rightarrow> endpoint_id \<Rightarrow> (('d, 'z) node_scheme, string option) prog" where
  "manager_claim_task P app_path conn machine_id =
     andThen (await (ret (out_decision conn))) (\<lambda>d.
     if \<not> (case d of Some b \<Rightarrow> b | None \<Rightarrow> False) then ret (Some ''done'')
     else
       andThen (attempt (await (lift_res (out_open_bi conn)))) (\<lambda>bi.
       case bi of Inl _ \<Rightarrow> ret (Some ''done'')
       | Inr _ \<Rightarrow>
         andThen (attempt (await (lift_res (out_write_all conn PING_MAGIC_BYTES)))) (\<lambda>w.
         case w of Inl _ \<Rightarrow> ret None
         | Inr _ \<Rightarrow>
           andThen (attempt (lift_res (out_finish conn))) (\<lambda>f.
           case f of Inl _ \<Rightarrow> ret None
           | Inr _ \<Rightarrow>
             andThen (attempt (await (lift_res (out_stopped conn)))) (\<lambda>st.
             case st of Inl _ \<Rightarrow> ret None
             | Inr _ \<Rightarrow>
               andThen (attempt (await (lift_res (out_read_to_end conn (1024 * 1024))))) (\<lambda>r.
               andThen (receive_machine_ticket P app_path machine_id r) (\<lambda>_.
               andThen (attempt (await (lift_res (out_shutdown conn)))) (\<lambda>sd.
               case sd of Inl _ \<Rightarrow> ret None
               | Inr _ \<Rightarrow> ret (Some ''done'')))))))))"

section \<open>The claimed machines\<close>

definition get_machine ::
    "'d platform \<Rightarrow> path \<Rightarrow> endpoint_id \<Rightarrow> (('d, 'z) node_scheme, doc_ticket) prog" where
  "get_machine P app_path machine_id =
     andThen (fs_read_to_string (machine_doc_ticket_path app_path @ [endpoint_to_string P machine_id])) (\<lambda>str.
     ok_or Serde (ticket_from_json P str))"

definition list_one ::
    "'d platform \<Rightarrow> path \<Rightarrow> (endpoint_id \<times> doc_ticket) list \<Rightarrow> string \<Rightarrow>
     (('d, 'z) node_scheme, (endpoint_id \<times> doc_ticket) list) prog" where
  "list_one P dir machines os_name =
     andThen fs_next_entry (\<lambda>_.
     andThen (fs_is_file (dir @ [os_name])) (\<lambda>is_file.
     if is_file then
       andThen (unwrap (os_into_string os_name)) (\<lambda>file_name.
       andThen (unwrap (endpoint_from_str P file_name)) (\<lambda>machine_id.
       andThen (fs_read_to_string (dir @ [os_name])) (\<lambda>str.
       andThen (unwrap (ticket_from_json P str)) (\<lambda>t.
       ret (machines @ [(machine_id, t)])))))
     else ret machines))"

definition list_machines ::
    "'d platform \<Rightarrow> path \<Rightarrow> (('d, 'z) node_scheme, (endpoint_id \<times> doc_ticket) list) prog" where
  "list_machines P app_path =
     (let dir = machine_doc_ticket_path app_path in
      andThen (fs_read_dir dir) (\<lambda>names.
      andThen (for_fold (list_one P dir) [] names) (\<lambda>machines.
      andThen fs_next_entry (\<lambda>_. ret machines))))"

text \<open>The document of a machine: its ticket, opened.\<close>

definition open_machine_doc ::
    "'d platform \<Rightarrow> doc_ticket \<Rightarrow> (('d, 'z) node_scheme, namespace_id) prog" where
  "open_machine_doc P t =
     andThen (engine_call (docs_open P (capability_id P (ticket_capability t)))) (\<lambda>doc_or. unwrap doc_or)"

definition manager_get_machine_config ::
    "'d platform \<Rightarrow> path \<Rightarrow> endpoint_id \<Rightarrow> (('d, 'z) node_scheme, machine_config option) prog" where
  "manager_get_machine_config P app_path machine_id =
     andThen (get_machine P app_path machine_id) (\<lambda>t.
     andThen (open_machine_doc P t) (\<lambda>doc.
     andThen (engine_call (doc_get_one P doc (KeyExact MACHINE_CONFIG_KEY))) (\<lambda>entry_or.
     case entry_or of
       None \<Rightarrow> ret None
     | Some entry \<Rightarrow>
         andThen (engine_call (blobs_get_bytes P (entry_hash entry))) (\<lambda>bytes.
         andThen (ok_or Serde (config_from_json P bytes)) (\<lambda>config.
         ret (Some config))))))"

definition manager_set_machine_config ::
    "'d platform \<Rightarrow> path \<Rightarrow> endpoint_id \<Rightarrow> machine_config \<Rightarrow> (('d, 'z) node_scheme, unit) prog" where
  "manager_set_machine_config P app_path machine_id config =
     andThen (get_machine P app_path machine_id) (\<lambda>t.
     andThen (open_machine_doc P t) (\<lambda>doc.
     andThen (engine_call (author_default P)) (\<lambda>author.
     andThen (ok_or Serde (config_to_json P config)) (\<lambda>bytes.
     andThen (engine_call (doc_set_bytes P doc author MACHINE_CONFIG_KEY bytes)) (\<lambda>_.
     ret ())))))"

section \<open>Payments\<close>

type_synonym payment = "endpoint_id \<times> federation_id \<times> claimable_contract"

text \<open>One entry of the contract stream of a machine.\<close>

definition collect_contract ::
    "'d platform \<Rightarrow> endpoint_id \<Rightarrow> payment list \<Rightarrow> error + entry \<Rightarrow> (('d, 'z) node_scheme, payment list) prog" where
  "collect_contract P machine_id payments entry_or =
     andThen (await (ret entry_or)) (\<lambda>entry_or.
     case entry_or of
       Inl _ \<Rightarrow> ret payments
     | Inr entry \<Rightarrow> (case parse_incoming_contract_machine_doc_key (entry_key entry) of
         Inl _ \<Rightarrow> ret payments
       | Inr (federation_id, _) \<Rightarrow>
           andThen (engine_call (blobs_get_bytes P (entry_hash entry))) (\<lambda>bytes.
           if bytes = [] then ret payments
           else
             andThen (ok_or Serde (contract_from_json P bytes)) (\<lambda>claimable_contract.
             ret (payments @ [(machine_id, federation_id, claimable_contract)])))))"

definition collect_machine ::
    "'d platform \<Rightarrow> payment list \<Rightarrow> endpoint_id \<times> doc_ticket \<Rightarrow> (('d, 'z) node_scheme, payment list) prog" where
  "collect_machine P payments m = (case m of (machine_id, t) \<Rightarrow>
     andThen (open_machine_doc P t) (\<lambda>doc.
     andThen (engine_call (doc_get_many P doc (KeyPrefix CLAIMABLE_CONTRACT_PREFIX))) (\<lambda>contract_stream.
     for_fold (collect_contract P machine_id) payments contract_stream)))"

definition manager_get_claimable_contracts ::
    "'d platform \<Rightarrow> path \<Rightarrow> (('d, 'z) node_scheme, payment list) prog" where
  "manager_get_claimable_contracts P app_path =
     andThen (list_machines P app_path) (\<lambda>machines. for_fold (collect_machine P) [] machines)"

definition push_contract ::
    "(endpoint_id \<times> (federation_id \<times> claimable_contract) list) list \<Rightarrow> payment \<Rightarrow>
     (endpoint_id \<times> (federation_id \<times> claimable_contract) list) list" where
  "push_contract acc x = (case x of (a, b, c) \<Rightarrow>
     AList.update a ((case map_of acc a of Some v \<Rightarrow> v | None \<Rightarrow> []) @ [(b, c)]) acc)"

definition group_by_machine ::
    "payment list \<Rightarrow> (endpoint_id \<times> (federation_id \<times> claimable_contract) list) list" where
  "group_by_machine xs = foldl push_contract [] xs"

definition remove_contract ::
    "'d platform \<Rightarrow> author_id \<Rightarrow> namespace_id \<Rightarrow> federation_id \<times> claimable_contract \<Rightarrow>
     (('d, 'z) node_scheme, unit) prog" where
  "remove_contract P author doc x = (case x of (federation_id, claimable_contract) \<Rightarrow>
     let key = create_claimable_contract_machine_doc_key P federation_id claimable_contract in
     andThen (engine_call (doc_del P doc author key)) (\<lambda>_. ret ()))"

definition remove_of_machine ::
    "'d platform \<Rightarrow> path \<Rightarrow> author_id \<Rightarrow> endpoint_id \<times> (federation_id \<times> claimable_contract) list \<Rightarrow>
     (('d, 'z) node_scheme, unit) prog" where
  "remove_of_machine P app_path author g = (case g of (machine_id, contracts) \<Rightarrow>
     andThen (get_machine P app_path machine_id) (\<lambda>t.
     andThen (open_machine_doc P t) (\<lambda>doc.
     for_each (remove_contract P author doc) contracts)))"

definition remove_claimable_contracts ::
    "'d platform \<Rightarrow> path \<Rightarrow>
     ((endpoint_id \<times> (federation_id \<times> claimable_contract) list) list \<Rightarrow>
      (endpoint_id \<times> (federation_id \<times> claimable_contract) list) list) \<Rightarrow>
     payment list \<Rightarrow> (('d, 'z) node_scheme, unit) prog" where
  "remove_claimable_contracts P app_path iter claimable_contracts =
     andThen (engine_call (author_default P)) (\<lambda>author.
     for_each (remove_of_machine P app_path author) (iter (group_by_machine claimable_contracts)))"

section \<open>Key/value entries\<close>

definition manager_get_kv_value ::
    "'d platform \<Rightarrow> path \<Rightarrow> endpoint_id \<Rightarrow> bytes \<Rightarrow> (('d, 'z) node_scheme, kv_entry option) prog" where
  "manager_get_kv_value P app_path machine_id key =
     andThen (get_machine P app_path machine_id) (\<lambda>t.
     andThen (open_machine_doc P t) (\<lambda>doc.
     let full_key = kv_full_key key in
     andThen (engine_call (doc_get_one P doc (KeyExact full_key))) (\<lambda>entry_or.
     case entry_or of
       None \<Rightarrow> ret None
     | Some entry \<Rightarrow> andThen (from_iroh_entry P entry Manager) (\<lambda>kv. ret (Some kv)))))"

definition manager_set_kv_value ::
    "'d platform \<Rightarrow> path \<Rightarrow> endpoint_id \<Rightarrow> bytes \<Rightarrow> bytes \<Rightarrow> (('d, 'z) node_scheme, unit) prog" where
  "manager_set_kv_value P app_path machine_id key v =
     andThen (get_machine P app_path machine_id) (\<lambda>t.
     andThen (open_machine_doc P t) (\<lambda>doc.
     let full_key = kv_full_key key in
     andThen (engine_call (author_default P)) (\<lambda>author.
     andThen (engine_call (doc_set_bytes P doc author full_key v)) (\<lambda>_.
     ret ()))))"

definition manager_get_kv_entries ::
    "'d platform \<Rightarrow> path \<Rightarrow> endpoint_id \<Rightarrow> (('d, 'z) node_scheme, kv_entry list) prog" where
  "manager_get_kv_entries P app_path machine_id =
     andThen (get_machine P app_path machine_id) (\<lambda>t.
     andThen (open_machine_doc P t) (\<lambda>doc.
     andThen (engine_call (doc_get_many P doc (KeyPrefix KV_PREFIX))) (\<lambda>entry_stream.
     collect_kv_entries P Manager entry_stream)))"


section \<open>Listing the machines\<close>

text \<open>The file \<open>name\<close> of the ticket directory is the ticket \<open>t\<close> of machine \<open>m\<close>.\<close>

definition ticket_file :: "'d platform \<Rightarrow> path \<Rightarrow> disk \<Rightarrow> string \<Rightarrow> endpoint_id \<times> doc_ticket \<Rightarrow> bool" where
  "ticket_file P dir d name x \<longleftrightarrow> os_into_string name = Some name \<and>
     endpoint_from_str P name = Some (fst x) \<and>
     (\<exists>b. map_of d (dir @ [name]) = Some (File b) \<and> utf8_valid b \<and> ticket_from_json P b = Some (snd x))"

definition is_file :: "disk \<Rightarrow> path \<Rightarrow> bool" where
  "is_file d p \<longleftrightarrow> (\<exists>b. map_of d p = Some (File b))"

lemma fs_is_file_Ok:
  "fs_is_file p s = (Ok b, s') \<Longrightarrow> b = is_file (disk s) p \<and> disk s' = disk s \<and> engine s' = engine s"
  unfolding fs_is_file_def
  by (erule fs_op_cases) (auto simp: is_file_def split: if_splits option.splits fs_node.splits)

lemma fs_next_entry_Ok:
  "fs_next_entry s = (Ok u, s') \<Longrightarrow> disk s' = disk s \<and> engine s' = engine s"
  unfolding fs_next_entry_def by (erule fs_op_cases) (auto split: if_splits)

lemma fs_read_dir_Ok:
  "fs_read_dir p s = (Ok ns, s') \<Longrightarrow> ns = dir_names (disk s) p \<and> disk s' = disk s \<and> engine s' = engine s"
  unfolding fs_read_dir_def by (erule fs_op_cases) (auto simp: read_dir_op_def split: if_splits)

lemma os_into_string_Some: "os_into_string s = Some t \<Longrightarrow> t = s"
  by (simp add: os_into_string_def split: if_splits)

lemma list_one_Ok:
  assumes "list_one P dir ms name s = (Ok ms', s')"
  shows "disk s' = disk s" and "engine s' = engine s"
    and "is_file (disk s) (dir @ [name]) \<Longrightarrow> \<exists>x. ms' = ms @ [x] \<and> ticket_file P dir (disk s) name x"
    and "\<not> is_file (disk s) (dir @ [name]) \<Longrightarrow> ms' = ms"
proof -
  obtain u s1 b s2 where n: "fs_next_entry s = (Ok u, s1)" and f: "fs_is_file (dir @ [name]) s1 = (Ok b, s2)"
    and rest: "(if b then
       andThen (unwrap (os_into_string name)) (\<lambda>file_name.
       andThen (unwrap (endpoint_from_str P file_name)) (\<lambda>machine_id.
       andThen (fs_read_to_string (dir @ [name])) (\<lambda>str.
       andThen (unwrap (ticket_from_json P str)) (\<lambda>t.
       ret (ms @ [(machine_id, t)])))))
     else ret ms) s2 = (Ok ms', s')"
    using assms by (auto simp: list_one_def andThen_Ok_iff)
  have b: "b = is_file (disk s) (dir @ [name])" and d2: "disk s2 = disk s" "engine s2 = engine s"
    using fs_is_file_Ok [OF f] fs_next_entry_Ok [OF n] by simp_all
  have "disk s' = disk s \<and> engine s' = engine s \<and>
      (if b then \<exists>x. ms' = ms @ [x] \<and> ticket_file P dir (disk s) name x else ms' = ms)"
  proof (cases b)
    case True
    with rest obtain nm m str t where "os_into_string name = Some nm" "endpoint_from_str P nm = Some m"
      "fs_read_to_string (dir @ [name]) s2 = (Ok str, s')" "ticket_from_json P str = Some t" "ms' = ms @ [(m, t)]"
      by (auto simp: andThen_Ok_iff unwrap_Ok_iff)
    moreover from this(1) have "nm = name" by (rule os_into_string_Some)
    ultimately show ?thesis
      using d2 True by (auto simp: ticket_file_def dest!: fs_read_to_string_OkD)
  next
    case False
    with rest d2 show ?thesis by simp
  qed
  with b show "disk s' = disk s" "engine s' = engine s"
    "is_file (disk s) (dir @ [name]) \<Longrightarrow> \<exists>x. ms' = ms @ [x] \<and> ticket_file P dir (disk s) name x"
    "\<not> is_file (disk s) (dir @ [name]) \<Longrightarrow> ms' = ms" by auto
qed

lemma list_loop_Ok:
  "for_fold (list_one P dir) ms names s = (Ok ms', s') \<Longrightarrow>
   disk s' = disk s \<and> engine s' = engine s \<and>
   (\<exists>xs. ms' = ms @ xs \<and>
      list_all2 (ticket_file P dir (disk s)) (filter (\<lambda>n. is_file (disk s) (dir @ [n])) names) xs)"
proof (induction names arbitrary: ms s)
  case (Cons n names)
  then obtain ms1 s1 where one: "list_one P dir ms n s = (Ok ms1, s1)"
    and rest: "for_fold (list_one P dir) ms1 names s1 = (Ok ms', s')"
    by (auto simp: andThen_Ok_iff)
  note o = list_one_Ok [OF one]
  from Cons.IH [OF rest] obtain xs where xs: "ms' = ms1 @ xs"
    "list_all2 (ticket_file P dir (disk s1)) (filter (\<lambda>n. is_file (disk s1) (dir @ [n])) names) xs"
    and "disk s' = disk s1" "engine s' = engine s1" by blast
  moreover have "\<exists>ys. ms' = ms @ ys \<and>
      list_all2 (ticket_file P dir (disk s)) (filter (\<lambda>n. is_file (disk s) (dir @ [n])) (n # names)) ys"
  proof (cases "is_file (disk s) (dir @ [n])")
    case True
    with o(3) obtain x where "ms1 = ms @ [x]" "ticket_file P dir (disk s) n x" by blast
    with True xs o(1) show ?thesis by (intro exI [of _ "x # xs"]) simp
  next
    case False
    with o xs show ?thesis by simp
  qed
  ultimately show ?case using o(1,2) by simp
qed simp

text \<open>A listing that succeeds is exactly the files of the ticket directory, decoded.\<close>

lemma list_machines_Ok:
  assumes "list_machines P app_path s = (Ok ms, s')"
  shows "disk s' = disk s" and "engine s' = engine s"
    and "list_all2 (ticket_file P (machine_doc_ticket_path app_path) (disk s))
      (filter (\<lambda>n. is_file (disk s) (machine_doc_ticket_path app_path @ [n]))
         (dir_names (disk s) (machine_doc_ticket_path app_path))) ms"
proof -
  let ?dir = "machine_doc_ticket_path app_path"
  obtain ns s1 s2 u where rd: "fs_read_dir ?dir s = (Ok ns, s1)"
    and lp: "for_fold (list_one P ?dir) [] ns s1 = (Ok ms, s2)" and nx: "fs_next_entry s2 = (Ok u, s')"
    using assms by (auto simp: list_machines_def Let_def andThen_Ok_iff)
  show "disk s' = disk s" "engine s' = engine s"
    "list_all2 (ticket_file P ?dir (disk s))
      (filter (\<lambda>n. is_file (disk s) (?dir @ [n])) (dir_names (disk s) ?dir)) ms"
    using fs_read_dir_Ok [OF rd] list_loop_Ok [OF lp] fs_next_entry_Ok [OF nx] by auto
qed

lemma dir_names_iff: "n \<in> set (dir_names d p) \<longleftrightarrow> map_of d (p @ [n]) \<noteq> None"
proof
  assume "n \<in> set (dir_names d p)"
  then obtain q v where "(q, v) \<in> set d" "q \<noteq> []" "butlast q = p" "n = last q"
    by (auto simp: dir_names_def)
  then have "(p @ [n], v) \<in> set d" by (metis append_butlast_last_id)
  then show "map_of d (p @ [n]) \<noteq> None" by (auto dest: weak_map_of_SomeI)
next
  assume "map_of d (p @ [n]) \<noteq> None"
  then obtain v where "(p @ [n], v) \<in> set d" by (auto dest: map_of_SomeD)
  then show "n \<in> set (dir_names d p)"
    by (force simp: dir_names_def intro!: image_eqI [of _ _ "p @ [n]"])
qed

lemma listed_iff:
  assumes "list_machines P app_path s = (Ok ms, s')"
  shows "x \<in> set ms \<longleftrightarrow> (\<exists>n. ticket_file P (machine_doc_ticket_path app_path) (disk s) n x)"
proof -
  let ?dir = "machine_doc_ticket_path app_path"
  note l2 = list_machines_Ok(3) [OF assms]
  have fin: "n \<in> set (filter (\<lambda>n. is_file (disk s) (?dir @ [n])) (dir_names (disk s) ?dir)) \<longleftrightarrow>
      is_file (disk s) (?dir @ [n])" for n
    by (auto simp: dir_names_iff is_file_def)
  show ?thesis
  proof
    assume "x \<in> set ms"
    then obtain i where "i < length ms" "x = ms ! i" by (auto simp: in_set_conv_nth)
    then show "\<exists>n. ticket_file P ?dir (disk s) n x" using list_all2_nthD2 [OF l2] by blast
  next
    assume "\<exists>n. ticket_file P ?dir (disk s) n x"
    then obtain n where n: "ticket_file P ?dir (disk s) n x" by blast
    then have "is_file (disk s) (?dir @ [n])" by (auto simp: ticket_file_def is_file_def)
    then obtain i where i: "i < length (filter (\<lambda>n. is_file (disk s) (?dir @ [n])) (dir_names (disk s) ?dir))"
      "n = filter (\<lambda>n. is_file (disk s) (?dir @ [n])) (dir_names (disk s) ?dir) ! i"
      using fin [of n] unfolding in_set_conv_nth by blast
    then have "ticket_file P ?dir (disk s) n (ms ! i)" using list_all2_nthD [OF l2 i(1)] by simp
    moreover have "ms ! i \<in> set ms" using i(1) list_all2_lengthD [OF l2] by simp
    ultimately obtain y where y: "y \<in> set ms" "ticket_file P ?dir (disk s) n y" by blast
    then have "fst y = fst x" "snd y = snd x" using n by (auto simp: ticket_file_def)
    with y(1) show "x \<in> set ms" by (metis prod_eqI)
  qed
qed

section \<open>Opening a machine's document\<close>

lemma reads_get_machine [reads_rules]: "reads_only V (get_machine P app_path m)"
  unfolding get_machine_def by (intro reads_rules)

lemma reads_open_machine_doc [reads_rules]:
  "docs_contract P V \<Longrightarrow> reads_only V (open_machine_doc P t)"
  unfolding open_machine_doc_def by (intro reads_rules)

text \<open>The ticket file of machine \<open>m\<close> names the known document \<open>ns\<close>.\<close>

definition manager_doc ::
    "'d platform \<Rightarrow> ('d, 'v) docs_view_scheme \<Rightarrow> path \<Rightarrow> endpoint_id \<Rightarrow> namespace_id \<Rightarrow> ('d, 'z) node_scheme \<Rightarrow> bool" where
  "manager_doc P V app_path m ns s \<longleftrightarrow> known V (engine s) ns \<and>
     (\<exists>b t. map_of (disk s) (machine_doc_ticket_path app_path @ [endpoint_to_string P m]) = Some (File b) \<and>
        utf8_valid b \<and> ticket_from_json P b = Some t \<and> capability_id P (ticket_capability t) = ns)"

lemma manager_doc_quiet: "quiet V s s' \<Longrightarrow> manager_doc P V app_path m ns s \<Longrightarrow> manager_doc P V app_path m ns s'"
  by (simp add: manager_doc_def quiet_views quiet_engine_views)

lemma manager_doc_wrote:
  "wrote V ns' k v s r s' \<Longrightarrow> manager_doc P V app_path m ns s \<Longrightarrow> manager_doc P V app_path m ns s'"
  by (simp add: manager_doc_def wrote_views)

text \<open>Every operation on a machine starts by opening its document, which only reads.\<close>

lemma with_manager_doc:
  assumes c: "docs_contract P V" and m: "manager_doc P V app_path m ns s"
    and run: "andThen (get_machine P app_path m) (\<lambda>t. andThen (open_machine_doc P t) f) s = (r, s')"
  obtains (failed) "quiet V s s'" "\<And>x. r \<noteq> Ok x"
  | (opened) s1 where "quiet V s s1" "f ns s1 = (r, s')"
proof -
  have assoc: "andThen (get_machine P app_path m) (\<lambda>t. andThen (open_machine_doc P t) f) s =
      andThen (andThen (get_machine P app_path m) (open_machine_doc P)) f s"
    by (auto simp: andThen_def split: prod.splits res.splits)
  obtain r1 s1 where g: "andThen (get_machine P app_path m) (open_machine_doc P) s = (r1, s1)" by force
  have "reads_only V (andThen (get_machine P app_path m) (open_machine_doc P))"
    using c by (intro reads_rules)
  then have q: "quiet V s s1" using g by (rule reads_onlyD)
  have ns: "x = ns" if r1: "r1 = Ok x" for x
  proof -
    obtain t s2 y where gm: "get_machine P app_path m s = (Ok t, s2)"
      and op: "engine_call (docs_open P (capability_id P (ticket_capability t))) s2 = (Ok y, s1)" "y = Some x"
      using g [unfolded r1] by (auto simp: andThen_Ok_iff open_machine_doc_def unwrap_Ok_iff)
    have "capability_id P (ticket_capability t) = ns"
      using gm m by (auto simp: get_machine_def andThen_Ok_iff ok_or_Ok_iff manager_doc_def
          dest!: fs_read_to_string_OkD)
    then show ?thesis
      using docs_open_contract(2) [OF c engine_call_OkD [OF op(1)] refl] op(2) by (simp split: if_splits)
  qed
  have "(quiet V s s' \<and> (\<forall>x. r \<noteq> Ok x)) \<or> (\<exists>s1. quiet V s s1 \<and> f ns s1 = (r, s'))"
    using run g q ns unfolding assoc by (cases r1) (auto simp: andThen_eval)
  then show ?thesis using failed opened by blast
qed


section \<open>Writing to a machine's document\<close>

lemma manager_set_kv_wrote:
  assumes c: "docs_contract P V" and m: "manager_doc P V app_path m ns s"
    and run: "manager_set_kv_value P app_path m k v s = (r, s')"
  shows "wrote V ns (kv_full_key k) v s r s'"
  using c m run [unfolded manager_set_kv_value_def Let_def]
proof (cases rule: with_manager_doc)
  case failed
  then show ?thesis by (intro quiet_wrote) simp_all
next
  case (opened s1)
  obtain r2 s2 where a: "engine_call (author_default P) s1 = (r2, s2)" by force
  note au = author_default_quiet [OF c a]
  have q: "quiet V s s2" using opened(1) au(1) by (rule quiet_trans)
  show ?thesis
  proof (cases r2)
    case (Ok aid)
    then have "aid = author_of V (engine s2)" by (rule au(2))
    with Ok a opened(2) have "wrote V ns (kv_full_key k) v s2 r s'"
      by (intro put_wrote [OF c]) (simp add: andThen_eval)
    with q show ?thesis by (rule wrote_after_quiet)
  qed (use opened(2) a q in \<open>auto simp: andThen_eval intro: quiet_wrote\<close>)
qed

lemma set_config_wrote:
  assumes c: "docs_contract P V" and m: "manager_doc P V app_path m ns s"
    and run: "manager_set_machine_config P app_path m config s = (r, s')"
  shows "\<exists>b. wrote V ns MACHINE_CONFIG_KEY b s r s' \<and> (r = Ok () \<longrightarrow> config_to_json P config = Some b)"
  using c m run [unfolded manager_set_machine_config_def]
proof (cases rule: with_manager_doc)
  case failed
  then show ?thesis using quiet_wrote [OF failed(1)] by blast
next
  case (opened s1)
  obtain r2 s2 where a: "engine_call (author_default P) s1 = (r2, s2)" by force
  note au = author_default_quiet [OF c a]
  have q: "quiet V s s2" using opened(1) au(1) by (rule quiet_trans)
  show ?thesis
  proof (cases "\<exists>aid b. r2 = Ok aid \<and> config_to_json P config = Some b")
    case False
    then have "r \<noteq> Ok ()" "s' = s2"
      using a opened(2) by (cases r2; cases "config_to_json P config"; auto simp: andThen_eval)+
    then show ?thesis using quiet_wrote [OF q] by blast
  next
    case True
    then obtain aid b where r2: "r2 = Ok aid" and b: "config_to_json P config = Some b" by blast
    from r2 have "aid = author_of V (engine s2)" by (rule au(2))
    with r2 b a opened(2) have "wrote V ns MACHINE_CONFIG_KEY b s2 r s'"
      by (intro put_wrote [OF c]) (simp add: andThen_eval)
    with q b show ?thesis by (blast intro: wrote_after_quiet)
  qed
qed

text \<open>The manager's end of the key/value store of one machine.\<close>

lemma manager_get_kv_quiet:
  assumes c: "docs_contract P V" and run: "manager_get_kv_value P app_path m k s = (r, s')"
  shows "quiet V s s'"
proof -
  have "reads_only V (manager_get_kv_value P app_path m k)"
    unfolding manager_get_kv_value_def Let_def using c by (intro reads_rules reads_from_iroh_entry)
  then show ?thesis using run by (rule reads_onlyD)
qed

lemma manager_get_kv_holds:
  assumes c: "docs_contract P V" and m: "manager_doc P V app_path m ns s"
    and h: "kv_holds V Manager ns s k v a"
    and run: "manager_get_kv_value P app_path m k s = (Ok e, s')"
  shows "\<exists>t. e = Some \<lparr>kv_key = k, kv_value = v, kv_author = a, kv_timestamp = t\<rparr>"
proof -
  have "andThen (get_machine P app_path m) (\<lambda>t. andThen (open_machine_doc P t) (kv_get_tail P Manager k)) s = (Ok e, s')"
    using run by (simp add: manager_get_kv_value_def kv_get_tail_def [abs_def] Let_def)
  with c m show ?thesis
  proof (cases rule: with_manager_doc)
    case (opened s1)
    then show ?thesis using kv_get_tail_Ok [OF c kv_holds_quiet [OF opened(1) h]] by blast
  qed blast
qed

definition manager_kv_inv ::
    "'d platform \<Rightarrow> ('d, 'v) docs_view_scheme \<Rightarrow> path \<Rightarrow> endpoint_id \<Rightarrow> namespace_id \<Rightarrow> ('d, 'z) node_scheme \<Rightarrow> bool" where
  "manager_kv_inv P V app_path m ns s \<longleftrightarrow> docs_contract P V \<and> manager_doc P V app_path m ns s"

interpretation manager_kv: kv_store
  "manager_kv_inv P V app_path m ns :: ('d, 'z) node_scheme \<Rightarrow> bool"
  "\<lambda>s k. clock_ahead V (engine s) ns (kv_full_key k)"
  "kv_holds V Manager ns"
  "manager_set_kv_value P app_path m" "manager_get_kv_value P app_path m" Manager
  for P :: "'d platform" and V :: "('d, 'v) docs_view_scheme" and app_path m ns
proof
  fix s :: "('d, 'z) node_scheme" and k v r s'
  assume "manager_kv_inv P V app_path m ns s" and "manager_set_kv_value P app_path m k v s = (r, s')"
  then show "manager_kv_inv P V app_path m ns s'"
    by (auto simp: manager_kv_inv_def dest: manager_set_kv_wrote intro: manager_doc_wrote)
next
  fix s :: "('d, 'z) node_scheme" and k v u s'
  assume "manager_kv_inv P V app_path m ns s" and "clock_ahead V (engine s) ns (kv_full_key k)"
    and "manager_set_kv_value P app_path m k v s = (Ok u, s')"
  then show "kv_holds V Manager ns s' k v Manager"
    by (auto simp: manager_kv_inv_def intro: kv_holds_wrote manager_set_kv_wrote)
next
  fix s :: "('d, 'z) node_scheme" and k v r s' k' w a
  assume "manager_kv_inv P V app_path m ns s" and "manager_set_kv_value P app_path m k v s = (r, s')"
    and "\<not> prefix k k'" and "kv_holds V Manager ns s k' w a"
  then show "kv_holds V Manager ns s' k' w a"
    by (auto simp: manager_kv_inv_def intro: kv_holds_other manager_set_kv_wrote)
next
  fix s :: "('d, 'z) node_scheme" and k g s'
  assume "manager_kv_inv P V app_path m ns s" and "manager_get_kv_value P app_path m k s = (g, s')"
  then show "manager_kv_inv P V app_path m ns s'"
    by (auto simp: manager_kv_inv_def intro: manager_doc_quiet manager_get_kv_quiet)
next
  fix s :: "('d, 'z) node_scheme" and k g s' k' w a
  assume "manager_kv_inv P V app_path m ns s" and "manager_get_kv_value P app_path m k s = (g, s')"
    and "kv_holds V Manager ns s k' w a"
  then show "kv_holds V Manager ns s' k' w a"
    by (auto simp: manager_kv_inv_def intro: kv_holds_quiet manager_get_kv_quiet)
next
  fix s :: "('d, 'z) node_scheme" and k v a e s'
  assume "manager_kv_inv P V app_path m ns s" and "kv_holds V Manager ns s k v a"
    and "manager_get_kv_value P app_path m k s = (Ok e, s')"
  then show "\<exists>t. e = Some \<lparr>kv_key = k, kv_value = v, kv_author = a, kv_timestamp = t\<rparr>"
    by (auto simp: manager_kv_inv_def intro: manager_get_kv_holds)
qed


section \<open>Collecting payments\<close>

lemma collect_contract_Ok:
  assumes c: "docs_contract P V" and run: "collect_contract P m ps x s = (Ok ps', s')"
    and new: "p \<in> set ps'" "p \<notin> set ps"
  shows "\<exists>e b fid cid cc. x = Inr e \<and> p = (m, fid, cc) \<and>
    parse_incoming_contract_machine_doc_key (entry_key e) = Inr (fid, cid) \<and>
    blob_of V (engine s) (entry_hash e) = Some b \<and> b \<noteq> [] \<and> contract_from_json P b = Some cc"
proof -
  obtain s1 where q: "quiet V s s1" and rest: "(case x of
       Inl _ \<Rightarrow> ret ps
     | Inr entry \<Rightarrow> (case parse_incoming_contract_machine_doc_key (entry_key entry) of
         Inl _ \<Rightarrow> ret ps
       | Inr (fid, _) \<Rightarrow>
           andThen (engine_call (blobs_get_bytes P (entry_hash entry))) (\<lambda>bytes.
           if bytes = [] then ret ps
           else andThen (ok_or Serde (contract_from_json P bytes)) (\<lambda>cc. ret (ps @ [(m, fid, cc)]))))) s1 = (Ok ps', s')"
    using run quiet_suspend by (fastforce simp: collect_contract_def andThen_Ok_iff elim: suspend_cases)
  from rest new obtain e fid cid b s2 cc where x: "x = Inr e"
    "parse_incoming_contract_machine_doc_key (entry_key e) = Inr (fid, cid)"
    and g: "engine_call (blobs_get_bytes P (entry_hash e)) s1 = (Ok b, s2)"
    and b: "b \<noteq> []" "contract_from_json P b = Some cc" "p = (m, fid, cc)"
    by (auto simp: andThen_Ok_iff ok_or_Ok_iff split: sum.splits if_splits)
  have "blob_of V (engine s) (entry_hash e) = Some b"
    using blobs_get_bytes_contract(2) [OF c engine_call_OkD [OF g] refl] quiet_engine_views(4) [OF q] by simp
  with x b show ?thesis by blast
qed

lemma reads_collect_contract [reads_rules]:
  "docs_contract P V \<Longrightarrow> reads_only V (collect_contract P m ps x)"
  unfolding collect_contract_def
  by (intro reads_rules) (auto intro!: reads_rules split: sum.split prod.split)

lemma reads_collect_machine [reads_rules]:
  "docs_contract P V \<Longrightarrow> reads_only V (collect_machine P ps x)"
  unfolding collect_machine_def by (auto intro!: reads_rules split: prod.split)


text \<open>
  A listed payment comes from an entry of the machine's document that is newest at its key,
  whose key names the federation and whose contents decode to the contract.
\<close>

definition offered ::
    "'d platform \<Rightarrow> ('d, 'v) docs_view_scheme \<Rightarrow> namespace_id \<Rightarrow> payment \<Rightarrow> ('d, 'z) node_scheme \<Rightarrow> bool" where
  "offered P V ns p s \<longleftrightarrow> (\<exists>e b cid. visible V (engine s) ns e \<and>
     parse_incoming_contract_machine_doc_key (entry_key e) = Inr (fst (snd p), cid) \<and>
     blob_of V (engine s) (entry_hash e) = Some b \<and> b \<noteq> [] \<and>
     contract_from_json P b = Some (snd (snd p)))"

lemma offered_quiet: "quiet V s s' \<Longrightarrow> offered P V ns p s' \<longleftrightarrow> offered P V ns p s"
  by (simp add: offered_def visible_def quiet_engine_views)

lemma collect_machine_Ok:
  assumes c: "docs_contract P V" and run: "collect_machine P ps (m, t) s = (Ok ps', s')"
    and new: "p \<in> set ps'" "p \<notin> set ps"
  shows "fst p = m \<and> offered P V (capability_id P (ticket_capability t)) p s"
proof -
  let ?ns = "capability_id P (ticket_capability t)"
  obtain doc s1 es s2 where op: "open_machine_doc P t s = (Ok doc, s1)"
    and gm: "engine_call (doc_get_many P doc (KeyPrefix CLAIMABLE_CONTRACT_PREFIX)) s1 = (Ok es, s2)"
    and lp: "for_fold (collect_contract P m) ps es s2 = (Ok ps', s')"
    using run by (auto simp: collect_machine_def andThen_Ok_iff)
  have q1: "quiet V s s1" using reads_open_machine_doc [OF c] op by (rule reads_onlyD)
  have q2: "quiet V s1 s2" using reads_only_engine(6) [OF c] gm by (rule reads_onlyD)
  have doc: "doc = ?ns"
  proof -
    obtain x where "engine_call (docs_open P ?ns) s = (Ok x, s1)" "x = Some doc"
      using op by (auto simp: open_machine_doc_def andThen_Ok_iff unwrap_Ok_iff)
    then show ?thesis using docs_open_contract(2) [OF c engine_call_OkD refl] by (fastforce split: if_splits)
  qed
  define \<Phi> where "\<Phi> s x p \<longleftrightarrow> (\<exists>e b fid cid cc. x = Inr e \<and> p = (m, fid, cc) \<and>
    parse_incoming_contract_machine_doc_key (entry_key e) = Inr (fid, cid) \<and>
    blob_of V (engine s) (entry_hash e) = Some b \<and> b \<noteq> [] \<and> contract_from_json P b = Some cc)"
    for s :: "('a, 'c) node_scheme" and x :: "error + entry" and p :: payment
  have unquiet: "\<Phi> s x p" if "quiet V s s'" and "\<Phi> s' x p" for s s' x p
    using that by (simp add: \<Phi>_def quiet_engine_views)
  have step: "\<Phi> s x p" if "collect_contract P m acc x s = (Ok acc', s')" "p \<in> set acc'" "p \<notin> set acc"
    for s x p acc acc' s'
    using collect_contract_Ok [OF c that] unfolding \<Phi>_def .
  have "\<exists>x \<in> set es. \<Phi> s2 x p"
    by (rule for_fold_collects [where f = "collect_contract P m" and \<Phi> = \<Phi> and V = V, OF _ _ _ lp new])
       (rule reads_collect_contract [OF c] | erule (2) step | erule (1) unquiet)+
  then obtain x where x: "x \<in> set es" "\<Phi> s2 x p" by blast
  then obtain e b fid cid cc where e: "x = Inr e" "p = (m, fid, cc)"
    "parse_incoming_contract_machine_doc_key (entry_key e) = Inr (fid, cid)"
    "blob_of V (engine s2) (entry_hash e) = Some b" "b \<noteq> []" "contract_from_json P b = Some cc"
    unfolding \<Phi>_def by blast
  have "visible V (engine s1) doc e"
    using doc_get_many_contract(2) [OF c engine_call_OkD [OF gm] refl] x(1) e(1) by blast
  then have "visible V (engine s) ?ns e"
    using quiet_engine_views(3) [OF q1] doc by (simp add: visible_def)
  moreover have "blob_of V (engine s) (entry_hash e) = Some b"
    using e(4) quiet_engine_views(4) [OF quiet_trans [OF q1 q2]] by simp
  ultimately show ?thesis using e unfolding offered_def by auto
qed

lemma reads_list_machines [reads_rules]: "reads_only V (list_machines P app_path)"
  unfolding list_machines_def list_one_def Let_def by (intro reads_rules)

lemma get_claimable_contracts_Ok:
  assumes c: "docs_contract P V" and run: "manager_get_claimable_contracts P app_path s = (Ok ps, s')"
    and p: "p \<in> set ps"
  shows "\<exists>n t. ticket_file P (machine_doc_ticket_path app_path) (disk s) n (fst p, t) \<and>
    offered P V (capability_id P (ticket_capability t)) p s"
proof -
  obtain ms s1 where ls: "list_machines P app_path s = (Ok ms, s1)"
    and lp: "for_fold (collect_machine P) [] ms s1 = (Ok ps, s')"
    using run by (auto simp: manager_get_claimable_contracts_def andThen_Ok_iff)
  have q: "quiet V s s1" using reads_list_machines ls by (rule reads_onlyD)
  define \<Phi> where "\<Phi> s x p \<longleftrightarrow>
      fst p = fst x \<and> offered P V (capability_id P (ticket_capability (snd x))) p s"
    for s :: "('a, 'c) node_scheme" and x :: "endpoint_id \<times> doc_ticket" and p :: payment
  have unquiet: "\<Phi> s x p" if "quiet V s s'" and "\<Phi> s' x p" for s s' x p
    using that by (simp add: \<Phi>_def offered_quiet)
  have step: "\<Phi> s x p" if "collect_machine P acc x s = (Ok acc', s')" "p \<in> set acc'" "p \<notin> set acc"
    for s x p acc acc' s'
    using collect_machine_Ok [OF c, of acc "fst x" "snd x" s acc' s' p] that by (simp add: \<Phi>_def)
  have "\<exists>x \<in> set ms. \<Phi> s1 x p"
    by (rule for_fold_collects [where f = "collect_machine P" and \<Phi> = \<Phi> and V = V, OF _ _ _ lp p])
       (rule reads_collect_machine [OF c] | erule (2) step | erule (1) unquiet | simp)+
  then obtain x where x: "x \<in> set ms" "\<Phi> s1 x p" by blast
  then obtain n where "ticket_file P (machine_doc_ticket_path app_path) (disk s) n x"
    using listed_iff [OF ls] by blast
  then have "ticket_file P (machine_doc_ticket_path app_path) (disk s) n (fst p, snd x)"
    using x(2) by (simp add: \<Phi>_def)
  moreover have "offered P V (capability_id P (ticket_capability (snd x))) p s"
    using x(2) offered_quiet [OF q] by (simp add: \<Phi>_def)
  ultimately show ?thesis by blast
qed


section \<open>Removing payments\<close>

lemma set_group_by_machine:
  "(case map_of (group_by_machine xs) a of Some v \<Rightarrow> v | None \<Rightarrow> []) =
     map snd (filter (\<lambda>x. fst x = a) xs)"
proof (induction xs rule: rev_induct)
  case (snoc x xs)
  obtain m y where x: "x = (m, y)" by (cases x)
  have "group_by_machine (xs @ [x]) = push_contract (group_by_machine xs) x"
    by (simp add: group_by_machine_def)
  then show ?case using snoc by (cases y) (auto simp: x push_contract_def update_conv split: option.splits)
qed (simp add: group_by_machine_def)

lemma group_by_machine_member:
  assumes "(m, fid, cc) \<in> set xs"
  shows "\<exists>cs. (m, cs) \<in> set (group_by_machine xs) \<and> (fid, cc) \<in> set cs"
proof -
  have "(fid, cc) \<in> set (map snd (filter (\<lambda>x. fst x = m) xs))" using assms by force
  then have mem: "(fid, cc) \<in> set (case map_of (group_by_machine xs) m of Some v \<Rightarrow> v | None \<Rightarrow> [])"
    by (simp only: set_group_by_machine)
  then obtain cs where "map_of (group_by_machine xs) m = Some cs"
    by (cases "map_of (group_by_machine xs) m") auto
  with mem show ?thesis by (auto dest: map_of_SomeD)
qed

lemma group_by_machine_sound:
  "(m, cs) \<in> set (group_by_machine xs) \<Longrightarrow> (fid, cc) \<in> set cs \<Longrightarrow> (m, fid, cc) \<in> set xs"
proof (induction xs arbitrary: cs rule: rev_induct)
  case (snoc x xs)
  obtain m' y where x: "x = (m', y)" by (cases x)
  let ?g = "group_by_machine xs"
  have g: "group_by_machine (xs @ [x]) = push_contract ?g x"
    by (simp add: group_by_machine_def)
  have upd: "(k, w) \<in> set (AList.update k' v al) \<Longrightarrow> (k, w) = (k', v) \<or> (k, w) \<in> set al"
    for k k' v w and al :: "(endpoint_id \<times> (federation_id \<times> claimable_contract) list) list"
    by (induction al) (auto split: if_splits)
  have "(m, cs) = (m', (case map_of ?g m' of Some v \<Rightarrow> v | None \<Rightarrow> []) @ [y]) \<or> (m, cs) \<in> set ?g"
    using snoc.prems(1) unfolding g by (cases y) (auto simp: x push_contract_def dest: upd)
  then show ?case
  proof
    assume "(m, cs) \<in> set ?g"
    then show ?thesis using snoc by auto
  next
    assume "(m, cs) = (m', (case map_of ?g m' of Some v \<Rightarrow> v | None \<Rightarrow> []) @ [y])"
    then show ?thesis
      using snoc.prems(2) by (auto simp: set_group_by_machine x)
  qed
qed (simp add: group_by_machine_def)

lemma quiet_payment_pending: "quiet V s s' \<Longrightarrow> payment_pending P V ns fid cc s \<Longrightarrow> payment_pending P V ns fid cc s'"
  by (simp add: payment_pending_def visible_def quiet_engine_views)

lemma reads_preserves:
  "reads_only V p \<Longrightarrow> (\<And>s s'. quiet V s s' \<Longrightarrow> I s \<Longrightarrow> I s') \<Longrightarrow> preserves I p"
  by (rule preservesI) (blast dest: reads_onlyD)

lemma open_preserves:
  assumes c: "docs_contract P V" and q: "\<And>s s'. quiet V s s' \<Longrightarrow> I s \<Longrightarrow> I s'"
    and f: "\<And>doc. preserves I (f doc)"
  shows "preserves I (andThen (get_machine P app_path m) (\<lambda>t. andThen (open_machine_doc P t) f))"
  by (intro preserves_andThen f reads_preserves [OF reads_get_machine] reads_preserves [OF reads_open_machine_doc [OF c]])
     (erule (1) q)+

text \<open>
  What removing contracts keeps: whatever survives reading, and touching the keys of the
  contracts that are named.
\<close>

lemma remove_contracts_preserves:
  assumes c: "docs_contract P V" and st: "stable I" and q: "\<And>s s'. quiet V s s' \<Longrightarrow> I s \<Longrightarrow> I s'"
    and iter: "set (iter (group_by_machine ps)) \<subseteq> set (group_by_machine ps)"
    and del: "\<And>m fid cc s d doc a. (m, fid, cc) \<in> set ps \<Longrightarrow> I s \<Longrightarrow>
      touches_only V doc a (create_claimable_contract_machine_doc_key P fid cc) (engine s) d \<Longrightarrow> I (s\<lparr>engine := d\<rparr>)"
  shows "preserves I (remove_claimable_contracts P app_path iter ps)"
  unfolding remove_claimable_contracts_def
proof (intro preserves_andThen preserves_for_each)
  show "preserves I (engine_call (author_default P))"
    using reads_only_engine(1) [OF c] q by (rule reads_preserves)
  fix author g
  assume g: "g \<in> set (iter (group_by_machine ps))"
  obtain m cs where gm: "g = (m, cs)" by (cases g)
  have "preserves I (remove_contract P author doc x)" if "x \<in> set cs" for doc x
  proof -
    obtain fid cc where x: "x = (fid, cc)" by (cases x)
    have "(m, fid, cc) \<in> set ps" using group_by_machine_sound g iter that gm x by blast
    then have "I (s\<lparr>engine := d\<rparr>)"
      if "I s" "doc_del P doc author (create_claimable_contract_machine_doc_key P fid cc) (engine s) = (r, d)" for s r d
      using del that doc_del_contract(1) [OF c that(2)] by blast
    then show ?thesis unfolding x remove_contract_def Let_def prod.case
      by (intro preserves_andThen preserves_engine_call st preserves_ret)
  qed
  then show "preserves I (remove_of_machine P app_path author g)"
    unfolding remove_of_machine_def gm prod.case
    by (intro open_preserves [OF c] preserves_for_each) (rule q)
qed

text \<open>So it leaves every other payment pending, in every document.\<close>

lemma remove_contracts_pending:
  assumes c: "docs_contract P V" and j: "codec_contract P"
    and iter: "set (iter (group_by_machine ps)) \<subseteq> set (group_by_machine ps)"
    and other: "\<And>m fid' cc'. (m, fid', cc') \<in> set ps \<Longrightarrow>
      fid' \<noteq> fid \<or> contract_id_of P cc' \<noteq> contract_id_of P cc"
  shows "preserves (payment_pending P V ns fid cc) (remove_claimable_contracts P app_path iter ps)"
proof (rule remove_contracts_preserves [where I = "payment_pending P V ns fid cc" and V = V, OF c stable_payment_pending])
  show "payment_pending P V ns fid cc s \<Longrightarrow> payment_pending P V ns fid cc s'" if "quiet V s s'"
    for s s' :: "('a, 'c) node_scheme" by (rule quiet_payment_pending [OF that])
  show "set (iter (group_by_machine ps)) \<subseteq> set (group_by_machine ps)" by (rule iter)
  fix m fid' cc' s d doc a
  assume p: "(m, fid', cc') \<in> set ps" and pend: "payment_pending P V ns fid cc s"
    and t: "touches_only V doc a (create_claimable_contract_machine_doc_key P fid' cc') (engine s) d"
  have "\<not> prefix (create_claimable_contract_machine_doc_key P fid' cc') (create_claimable_contract_machine_doc_key P fid cc)"
    using contract_keys_prefix [OF j] other [OF p] by blast
  with pend t show "payment_pending P V ns fid cc (s\<lparr>engine := d\<rparr>)"
    using payment_pending_touches [of V doc a _ s "s\<lparr>engine := d\<rparr>" P fid cc ns] by simp
qed

text \<open>What every step of the removal keeps of the state \<open>s0\<close> it started in.\<close>

definition removing ::
    "('d, 'v) docs_view_scheme \<Rightarrow> ('d, 'z) node_scheme \<Rightarrow> ('d, 'z) node_scheme \<Rightarrow> bool" where
  "removing V s0 s \<longleftrightarrow> disk s = disk s0 \<and> author_of V (engine s) = author_of V (engine s0) \<and>
     known V (engine s) = known V (engine s0) \<and> clock_of V (engine s0) \<le> clock_of V (engine s) \<and>
     (\<forall>ns a k. a \<noteq> author_of V (engine s0) \<longrightarrow> stored_of V (engine s) ns a k = stored_of V (engine s0) ns a k)"

text \<open>The manager's tombstone at \<open>key\<close>, no older than the start.\<close>

definition buried ::
    "('d, 'v) docs_view_scheme \<Rightarrow> ('d, 'z) node_scheme \<Rightarrow> namespace_id \<Rightarrow> bytes \<Rightarrow> ('d, 'z) node_scheme \<Rightarrow> bool" where
  "buried V s0 ns key s \<longleftrightarrow> (\<exists>st. stored_of V (engine s) ns (author_of V (engine s0)) key = Some st \<and>
     st_empty st \<and> clock_of V (engine s0) \<le> st_timestamp st)"

lemma stable_removing: "stable (removing V s0)" "stable (\<lambda>s. removing V s0 s \<and> buried V s0 ns key s)"
  by (simp_all add: stable_def removing_def buried_def)

lemma removing_quiet: "quiet V s s' \<Longrightarrow> removing V s0 s \<Longrightarrow> removing V s0 s'"
  using quiet_engine_views(5) [of V s s']
  by (auto simp: removing_def quiet_views quiet_engine_views intro: order_trans)

lemma buried_quiet: "quiet V s s' \<Longrightarrow> removing V s0 s \<and> buried V s0 ns key s \<Longrightarrow> removing V s0 s' \<and> buried V s0 ns key s'"
  by (auto intro: removing_quiet) (simp add: buried_def quiet_engine_views)

lemma removing_del:
  assumes c: "docs_contract P V" and s: "removing V s0 s"
    and del: "doc_del P doc (author_of V (engine s0)) k (engine s) = (r, d)"
  shows "removing V s0 (s\<lparr>engine := d\<rparr>)"
proof -
  note t = touches_only_views [OF doc_del_contract(1) [OF c del]]
  have "stored_of V d ns a k' = stored_of V (engine s0) ns a k'" if "a \<noteq> author_of V (engine s0)" for ns a k'
    using t(5) [of ns a k'] that s by (simp add: removing_def)
  with s t(1,2,3) show ?thesis by (auto simp: removing_def intro: order_trans)
qed

lemma buried_del:
  assumes c: "docs_contract P V" and s: "removing V s0 s" and b: "buried V s0 ns key s"
    and del: "doc_del P doc (author_of V (engine s0)) k (engine s) = (r, d)"
    and k: "prefix k key \<Longrightarrow> k = key"
  shows "buried V s0 ns key (s\<lparr>engine := d\<rparr>)"
proof -
  note law = doc_del_contract [OF c del]
  consider (new) n where "r = Ok n" "doc = ns" "k = key"
    | (same) "stored_of V d ns (author_of V (engine s0)) key = stored_of V (engine s) ns (author_of V (engine s0)) key"
    using law(3) touches_only_views(5) [OF law(1), of ns "author_of V (engine s0)" key] k by metis
  then show ?thesis
  proof cases
    case new
    then obtain st where "stored_of V d ns (author_of V (engine s0)) key = Some st"
      "st_timestamp st = clock_of V (engine s)" "st_empty st"
      using law(2) by blast
    then show ?thesis using s by (auto simp: buried_def removing_def)
  next
    case same
    then show ?thesis using b by (simp add: buried_def)
  qed
qed

lemma contract_key_prefix_same:
  assumes "codec_contract P"
    and "prefix (create_claimable_contract_machine_doc_key P fid cc) (create_claimable_contract_machine_doc_key P fid' cc')"
  shows "create_claimable_contract_machine_doc_key P fid cc = create_claimable_contract_machine_doc_key P fid' cc'"
  using contract_keys_prefix [OF assms] by (simp add: contract_key_of_eq [OF assms(1)])

lemma remove_contract_steps:
  assumes c: "docs_contract P V" and j: "codec_contract P"
  shows "preserves (removing V s0) (remove_contract P (author_of V (engine s0)) doc x)"
    and "preserves (\<lambda>s. removing V s0 s \<and> buried V s0 ns (create_claimable_contract_machine_doc_key P fid cc) s)
      (remove_contract P (author_of V (engine s0)) doc x)"
  unfolding remove_contract_def Let_def
  by (cases x; simp; intro preserves_andThen preserves_engine_call preserves_ret stable_removing;
      auto intro: removing_del [OF c] buried_del [OF c] dest: contract_key_prefix_same [OF j])+

lemma remove_contract_buries:
  assumes c: "docs_contract P V"
  shows "triple (removing V s0) (remove_contract P (author_of V (engine s0)) ns (fid, cc))
    (\<lambda>_ s. removing V s0 s \<and> buried V s0 ns (create_claimable_contract_machine_doc_key P fid cc) s) (\<lambda>_. True)"
proof (rule tripleI)
  let ?k = "create_claimable_contract_machine_doc_key P fid cc"
  fix s u s'
  assume r: "removing V s0 s" and run: "remove_contract P (author_of V (engine s0)) ns (fid, cc) s = (Ok u, s')"
  then obtain n where op: "engine_call (doc_del P ns (author_of V (engine s0)) ?k) s = (Ok n, s')"
    by (auto simp: remove_contract_def Let_def andThen_Ok_iff)
  then have del: "doc_del P ns (author_of V (engine s0)) ?k (engine s) = (Ok n, engine s')"
    by (rule engine_call_OkD)
  have d: "disk s' = disk s" using op by (auto simp: engine_call_Ok_iff)
  have "removing V s0 s'" using removing_del [OF c r del] d by (simp add: removing_def)
  moreover have "buried V s0 ns ?k s'"
    using doc_del_contract(2) [OF c del refl] r by (auto simp: buried_def removing_def)
  ultimately show "removing V s0 s' \<and> buried V s0 ns ?k s'" by blast
qed simp

lemma with_manager_doc_triple:
  assumes c: "docs_contract P V" and m: "\<And>s. I s \<Longrightarrow> manager_doc P V app_path m ns s"
    and q: "\<And>s s'. quiet V s s' \<Longrightarrow> I s \<Longrightarrow> I s'" and f: "triple I (f ns) Q (\<lambda>_. True)"
  shows "triple I (andThen (get_machine P app_path m) (\<lambda>t. andThen (open_machine_doc P t) f)) Q (\<lambda>_. True)"
proof (rule tripleI)
  fix s x s'
  assume I: "I s" and run: "andThen (get_machine P app_path m) (\<lambda>t. andThen (open_machine_doc P t) f) s = (Ok x, s')"
  from c m [OF I] run show "Q x s'"
  proof (cases rule: with_manager_doc)
    case (opened s1)
    then show ?thesis using tripleD [OF f q [OF opened(1) I] opened(2)] by auto
  qed blast
qed simp

lemma remove_claimable_contracts_Ok:
  assumes c: "docs_contract P V" and j: "codec_contract P"
    and iter: "set (iter (group_by_machine ps)) = set (group_by_machine ps)"
    and p: "(m, fid, cc) \<in> set ps" and doc: "manager_doc P V app_path m ns s"
    and ahead: "clock_ahead V (engine s) ns (create_claimable_contract_machine_doc_key P fid cc)"
    and run: "remove_claimable_contracts P app_path iter ps s = (Ok (), s')"
  shows "\<not> payment_pending P V ns fid cc s'"
proof -
  let ?k = "create_claimable_contract_machine_doc_key P fid cc"
  let ?a = "author_of V (engine s)"
  let ?I = "removing V s"
  let ?T = "\<lambda>t. removing V s t \<and> buried V s ns ?k t"
  obtain author s1 where au: "engine_call (author_default P) s = (Ok author, s1)"
    and lp: "for_each (remove_of_machine P app_path author) (iter (group_by_machine ps)) s1 = (Ok (), s')"
    using run by (auto simp: remove_claimable_contracts_def andThen_Ok_iff)
  note aq = author_default_quiet [OF c au]
  have author: "author = ?a" using aq(2) [OF refl] quiet_engine_views(1) [OF aq(1)] by simp
  have "?I s" by (simp add: removing_def)
  with aq(1) have I1: "?I s1" by (rule removing_quiet)
  have of_machine: "preserves ?I (remove_of_machine P app_path ?a g)" "preserves ?T (remove_of_machine P app_path ?a g)" for g
    unfolding remove_of_machine_def case_prod_beta
    by (rule open_preserves [OF c], erule (1) removing_quiet buried_quiet,
        intro preserves_for_each remove_contract_steps [OF c j])+
  obtain cs where cs: "(m, cs) \<in> set (iter (group_by_machine ps))" "(fid, cc) \<in> set cs"
    using group_by_machine_member [OF p] iter by blast
  have "triple ?I (for_each (remove_contract P ?a ns) cs) (\<lambda>_ t. ?I t \<and> buried V s ns ?k t) (\<lambda>_. True)"
    using remove_contract_steps [OF c j] cs(2) remove_contract_buries [OF c] by (rule for_each_reaches)
  moreover have "manager_doc P V app_path m ns t" if "?I t" for t
    using that doc by (simp add: removing_def manager_doc_def)
  ultimately have "triple ?I (remove_of_machine P app_path ?a (m, cs)) (\<lambda>_ t. ?I t \<and> buried V s ns ?k t) (\<lambda>_. True)"
    unfolding remove_of_machine_def prod.case
    by (intro with_manager_doc_triple [OF c _ removing_quiet])
  with of_machine cs(1)
  have "triple ?I (for_each (remove_of_machine P app_path ?a) (iter (group_by_machine ps)))
      (\<lambda>_ t. ?I t \<and> buried V s ns ?k t) (\<lambda>_. True)"
    by (rule for_each_reaches)
  from tripleD [OF this I1 lp [unfolded author]] have end_state: "?I s'" "buried V s ns ?k s'" by auto
  show ?thesis
  proof
    assume "payment_pending P V ns fid cc s'"
    then obtain e :: entry and st where e: "stored_of V (engine s') ns (entry_author e) ?k = Some st" "\<not> st_empty st"
      and max: "\<forall>a st'. stored_of V (engine s') ns a ?k = Some st' \<longrightarrow> st_timestamp st' \<le> st_timestamp st"
      by (auto simp: payment_pending_def visible_def)
    obtain st' where st': "stored_of V (engine s') ns ?a ?k = Some st'" "st_empty st'"
      "clock_of V (engine s) \<le> st_timestamp st'"
      using end_state(2) by (auto simp: buried_def)
    with e have "entry_author e \<noteq> ?a" by auto
    then have "stored_of V (engine s) ns (entry_author e) ?k = Some st"
      using e(1) end_state(1) by (simp add: removing_def)
    then have "st_timestamp st < clock_of V (engine s)"
      using ahead \<open>entry_author e \<noteq> ?a\<close> by (auto simp: clock_ahead_def)
    moreover have "st_timestamp st' \<le> st_timestamp st" using max st'(1) by blast
    ultimately show False using st'(3) by simp
  qed
qed


section \<open>The claim task\<close>

text \<open>The user accepted, the ping went out and the machine answered with a write ticket.\<close>

definition ticket_received :: "'d platform \<Rightarrow> outgoing_connection \<Rightarrow> doc_ticket \<Rightarrow> bool" where
  "ticket_received P conn t \<longleftrightarrow> out_decision conn = Some True \<and> out_open_bi conn = Ok () \<and>
     out_write_all conn PING_MAGIC_BYTES = Ok () \<and> out_finish conn = Ok () \<and> out_stopped conn = Ok () \<and>
     is_write_capability (ticket_capability t) \<and>
     (\<exists>bytes. out_read_to_end conn (1024 * 1024) = Ok bytes \<and> ticket_from_json P bytes = Some t)"

text \<open>The disk is as it was, or only the machine's ticket file was (at least partly) written.\<close>

definition ticket_disk ::
    "'d platform \<Rightarrow> path \<Rightarrow> endpoint_id \<Rightarrow> outgoing_connection \<Rightarrow> disk \<Rightarrow> ('d, 'z) node_scheme \<Rightarrow> bool" where
  "ticket_disk P app_path m conn d s \<longleftrightarrow> disk s = d \<or>
     (\<exists>t str n. ticket_received P conn t \<and> ticket_to_json P t = Some str \<and>
        (disk s = AList.update (machine_doc_ticket_path app_path @ [endpoint_to_string P m]) (File (take n str)) d))"

definition disk_is :: "disk \<Rightarrow> ('d, 'z) node_scheme \<Rightarrow> bool" where
  "disk_is d s \<longleftrightarrow> disk s = d"

lemma stable_disk_is: "stable (disk_is d)"
  by (simp add: stable_def disk_is_def)

lemma stable_ticket_disk: "stable (ticket_disk P app_path m conn d)"
  by (simp add: stable_def ticket_disk_def)

lemma disk_is_peer:
  "triple (disk_is d) (attempt (await (lift_res z))) (\<lambda>r s. disk_is d s \<and> (\<forall>x. r = Inr x \<longrightarrow> z = Ok x)) (disk_is d)"
  "triple (disk_is d) (attempt (lift_res z)) (\<lambda>r s. disk_is d s \<and> (\<forall>x. r = Inr x \<longrightarrow> z = Ok x)) (disk_is d)"
  "triple (disk_is d) (await (ret w)) (\<lambda>x s. disk_is d s \<and> x = w) (disk_is d)"
proof -
  have a: "preserves (disk_is d) (attempt (await (lift_res z)))"
    by (intro preserves_attempt preserves_await stable_disk_is preserves_lift_res)
  show "triple (disk_is d) (attempt (await (lift_res z))) (\<lambda>r s. disk_is d s \<and> (\<forall>x. r = Inr x \<longrightarrow> z = Ok x)) (disk_is d)"
  proof (rule tripleI)
    fix s r s'
    assume "disk_is d s" and run: "attempt (await (lift_res z)) s = (Ok r, s')"
    with a have "disk_is d s'" by (rule preservesD)
    then show "disk_is d s' \<and> (\<forall>x. r = Inr x \<longrightarrow> z = Ok x)"
      using run by (auto simp: attempt_Ok_iff await_Ok lift_res_def)
  qed (rule preservesD [OF a])
  show "triple (disk_is d) (attempt (lift_res z)) (\<lambda>r s. disk_is d s \<and> (\<forall>x. r = Inr x \<longrightarrow> z = Ok x)) (disk_is d)"
    by (rule tripleI) (auto simp: attempt_def lift_res_def split: res.splits)
  show "triple (disk_is d) (await (ret w)) (\<lambda>x s. disk_is d s \<and> x = w) (disk_is d)"
    by (rule tripleI) (auto simp: disk_is_def elim!: suspend_cases)
qed

lemma store_ticket_disk:
  assumes "ticket_received P conn t"
  shows "triple (disk_is d) (store_machine_ticket P app_path m t :: (('d, 'z) node_scheme, unit) prog)
    (\<lambda>_. ticket_disk P app_path m conn d) (ticket_disk P app_path m conn d)"
proof -
  have "preserves (disk_is d) (ignore (engine_call (docs_import P t)))"
    by (intro preserves_ignore preserves_engine_call stable_disk_is) (simp add: disk_is_def)
  then have imp: "triple (disk_is d) (ignore (engine_call (docs_import P t))) (\<lambda>_. disk_is d) (disk_is d)"
    by (rule triple_preserves)
  have wr: "ticket_disk P app_path m conn d s'"
    if "disk_is d s" "ticket_to_json P t = Some str"
      "fs_write (machine_doc_ticket_path app_path @ [endpoint_to_string P m]) str s = (r, s')"
    for s s' :: "('d, 'z) node_scheme" and r str
    using that(3) unfolding fs_write_def
  proof (cases rule: fs_op_cases)
    case (ran n os x d')
    from ran(1) show ?thesis
    proof (cases rule: write_op_cases)
      case (torn k e)
      then show ?thesis using ran(2) that(1,2) assms unfolding ticket_disk_def disk_is_def
        by (intro disjI2 exI [of _ t] exI [of _ str] exI [of _ k]) simp
    next
      case written
      then show ?thesis using ran(2) that(1,2) assms unfolding ticket_disk_def disk_is_def
        by (intro disjI2 exI [of _ t] exI [of _ str] exI [of _ "length str"]) simp
    qed (use ran that(1) in \<open>simp add: ticket_disk_def disk_is_def\<close>)
  qed (use that(1) in \<open>simp add: ticket_disk_def disk_is_def\<close>)
  have "triple (disk_is d) (ignore (fs_write (machine_doc_ticket_path app_path @ [endpoint_to_string P m]) str)
        :: (('d, 'z) node_scheme, unit) prog)
      (\<lambda>_. ticket_disk P app_path m conn d) (ticket_disk P app_path m conn d)"
    if "ticket_to_json P t = Some str" for str
    using wr [OF _ that] by (intro tripleI) (blast dest: ignore_run)+
  note wr_json = this
  have same: "ticket_disk P app_path m conn d s" if "disk_is d s" for s :: "('d, 'z) node_scheme"
    using that by (simp add: ticket_disk_def disk_is_def)
  show ?thesis
    unfolding store_machine_ticket_def
  proof (rule triple_seq [OF imp same])
    fix x :: unit
    show "triple (disk_is d) (andThen (unwrap (ticket_to_json P t)) (\<lambda>str.
        ignore (fs_write (machine_doc_ticket_path app_path @ [endpoint_to_string P m]) str))
        :: (('d, 'z) node_scheme, unit) prog)
      (\<lambda>_. ticket_disk P app_path m conn d) (ticket_disk P app_path m conn d)"
      by (cases "ticket_to_json P t") (simp_all add: wr_json triple_panic [OF same])
  qed
qed

lemma manager_claim_disk_triple:
  "triple (disk_is d) (manager_claim_task P app_path conn m :: (('d, 'z) node_scheme, string option) prog)
    (\<lambda>_. ticket_disk P app_path m conn d) (ticket_disk P app_path m conn d)"
proof -
  have same: "ticket_disk P app_path m conn d s" if "disk_is d s" for s :: "('d, 'z) node_scheme"
    using that by (simp add: ticket_disk_def disk_is_def)
  have tail: "triple (ticket_disk P app_path m conn d) (andThen (attempt (await (lift_res z)))
       (\<lambda>sd. case sd of Inl _ \<Rightarrow> ret None | Inr _ \<Rightarrow> ret (Some ''done'')) :: (('d, 'z) node_scheme, string option) prog)
     (\<lambda>_. ticket_disk P app_path m conn d) (ticket_disk P app_path m conn d)" for z :: "unit res"
    by (intro triple_preserves preserves_andThen preserves_attempt preserves_await stable_ticket_disk
        preserves_lift_res preserves_case_sum preserves_ret)
  have receive: "triple (disk_is d) (receive_machine_ticket P app_path m r :: (('d, 'z) node_scheme, unit) prog)
     (\<lambda>_. ticket_disk P app_path m conn d) (ticket_disk P app_path m conn d)"
    if "out_decision conn = Some True" "out_open_bi conn = Ok ()" "out_write_all conn PING_MAGIC_BYTES = Ok ()"
      "out_finish conn = Ok ()" "out_stopped conn = Ok ()"
      "\<forall>x. r = Inr x \<longrightarrow> out_read_to_end conn (1024 * 1024) = Ok x" for r
    using that same
    by (auto simp: receive_machine_ticket_def ticket_received_def
        intro!: triple_ret store_ticket_disk split: sum.split option.split)
  have leave: "triple (\<lambda>s. disk_is d s \<and> A) (ret x :: (('d, 'z) node_scheme, string option) prog) (\<lambda>_. ticket_disk P app_path m conn d) (ticket_disk P app_path m conn d)"
    for A and x :: "string option"
    by (rule triple_ret) (simp add: same)
  show ?thesis
    unfolding manager_claim_task_def
    apply (rule triple_seq [OF disk_is_peer(3)], erule same)
    apply (rule triple_pure, rule triple_if, rule triple_ret, erule same)
    apply (rule triple_seq [OF disk_is_peer(1)], erule same)
    apply (case_tac xa; simp only: sum.case; (rule leave)?)
    apply (rule triple_pure, rule triple_seq [OF disk_is_peer(1)], erule same)
    apply (case_tac xb; simp only: sum.case; (rule leave)?)
    apply (rule triple_pure, rule triple_seq [OF disk_is_peer(2)], erule same)
    apply (case_tac xc; simp only: sum.case; (rule leave)?)
    apply (rule triple_pure, rule triple_seq [OF disk_is_peer(1)], erule same)
    apply (case_tac xd; simp only: sum.case; (rule leave)?)
    apply (rule triple_pure, rule triple_seq [OF disk_is_peer(1)], erule same)
    apply (rule triple_pure, rule triple_seq [OF receive])
           apply (simp_all split: option.splits)
    apply (rule tail)
    done
qed

end
