(* ===== verification/Claim.thy ===== *)
theory Claim
  imports Machine_Protocol Manager_Protocol
begin

text \<open>
  Claiming as a system: one machine and any number of managers, each step one run of the
  machine's claim handler (\<open>ClaimHandler::accept\<close>), of the machine's start
  (\<open>MachineProtocol::new\<close>), or of the task of a manager that claims the machine
  (\<open>ManagerProtocol::claim_machine\<close>). Every run can be aborted at any await. The network is
  the only thing assumed about the two ends of a connection: iroh connections are
  authenticated, so a manager reads from the machine only what the machine's handler sent
  on a connection whose remote end is that manager. Which connections come in, what the
  peers answer and what the users decide is arbitrary.
\<close>

section \<open>The system\<close>

record ('d, 'c) claim_system =
  the_machine :: "('d, 'c) machine_node"
  the_manager :: "endpoint_id \<Rightarrow> 'd node"

text \<open>What the manager \<open>k\<close> may read from the machine.\<close>

definition authentic :: "endpoint_id \<Rightarrow> (endpoint_id \<times> conn_event) list \<Rightarrow> outgoing_connection \<Rightarrow> bool" where
  "authentic k log conn \<longleftrightarrow> (\<forall>n b. out_read_to_end conn n = Ok b \<longrightarrow> (k, TicketSent b) \<in> set log)"

inductive claim_step ::
    "'d platform \<Rightarrow> path \<Rightarrow> (endpoint_id \<Rightarrow> path) \<Rightarrow> endpoint_id \<Rightarrow> ('d, 'c) claim_system \<Rightarrow> ('d, 'c) claim_system \<Rightarrow> bool"
  for P machine_dir manager_dir m where
  serve: "accept_claim P (app_storage_path machine_dir) conn ((the_machine x)\<lparr>awaits_left := n\<rparr>) = (r, s') \<Longrightarrow>
    claim_step P machine_dir manager_dir m x (x\<lparr>the_machine := s'\<rparr>)"
| start: "machine_protocol_new P machine_dir rng ((the_machine x)\<lparr>awaits_left := n\<rparr>) = (r, s') \<Longrightarrow>
    claim_step P machine_dir manager_dir m x (x\<lparr>the_machine := s'\<rparr>)"
| claim: "authentic k (conn_log (the_machine x)) conn \<Longrightarrow>
    manager_claim_task P (manager_dir k) conn m (the_manager x k\<lparr>awaits_left := n, io_script := os\<rparr>) = (r, t') \<Longrightarrow>
    claim_step P machine_dir manager_dir m x (x\<lparr>the_manager := (the_manager x)(k := t')\<rparr>)"

inductive_cases claim_stepE: "claim_step P machine_dir manager_dir m x y"

definition has_ticket :: "'d platform \<Rightarrow> path \<Rightarrow> endpoint_id \<Rightarrow> 'd node \<Rightarrow> bool" where
  "has_ticket P app_path m t \<longleftrightarrow>
     map_of (disk t) (machine_doc_ticket_path app_path @ [endpoint_to_string P m]) \<noteq> None"

definition claim_start :: "'d platform \<Rightarrow> (endpoint_id \<Rightarrow> path) \<Rightarrow> endpoint_id \<Rightarrow> ('d, 'c) claim_system \<Rightarrow> bool" where
  "claim_start P manager_dir m x \<longleftrightarrow> healthy (the_machine x) \<and> claimed_manager_pubkey (the_machine x) = None \<and>
     conn_log (the_machine x) = [] \<and> (\<forall>k. \<not> has_ticket P (manager_dir k) m (the_manager x k))"

inductive claim_reach ::
    "'d platform \<Rightarrow> path \<Rightarrow> (endpoint_id \<Rightarrow> path) \<Rightarrow> endpoint_id \<Rightarrow> ('d, 'c) claim_system \<Rightarrow> bool"
  for P machine_dir manager_dir m where
  init: "claim_start P manager_dir m x \<Longrightarrow> claim_reach P machine_dir manager_dir m x"
| step: "claim_reach P machine_dir manager_dir m x \<Longrightarrow> claim_step P machine_dir manager_dir m x y \<Longrightarrow>
    claim_reach P machine_dir manager_dir m y"

section \<open>The machine's invariant\<close>

text \<open>
  The claim in memory is also on disk, and only the manager it names has been sent tickets.
\<close>

definition claim_backed :: "'d platform \<Rightarrow> path \<Rightarrow> ('d, 'c) machine_node \<Rightarrow> bool" where
  "claim_backed P dir s \<longleftrightarrow> healthy s \<and>
     (\<forall>k. claimed_manager_pubkey s = Some k \<longrightarrow> has_file (manager_key_file (app_storage_path dir)) (key_bytes P k) s) \<and>
     (\<forall>k b. (k, TicketSent b) \<in> set (conn_log s) \<longrightarrow> claimed_manager_pubkey s = Some k)"

lemma healthy_accept: "preserves healthy (accept_claim P app_path conn)"
proof -
  have log: "preserves healthy (log_event k ev)" "preserves healthy (set_claimed k)" "preserves healthy lock_claimed" for k ev
    by (auto simp: preserves_def log_event_def set_claimed_def lock_claimed_def await_def healthy_def
        split: option.splits nat.splits)
  have doc: "preserves healthy (get_or_create_machine_doc P app_path)"
    unfolding get_or_create_machine_doc_def Let_def
    by (intro preserves_rules healthy_stable preserves_engine_call) (simp_all add: healthy_def)
  show ?thesis
    unfolding accept_claim_def accept_agreed_def Let_def
    by (intro preserves_rules log doc preserves_await healthy_stable preserves_engine_call)
       (simp_all add: healthy_def)
qed

lemma claim_backed_awaits: "claim_backed P dir s \<Longrightarrow> claim_backed P dir (s\<lparr>awaits_left := n\<rparr>)"
  by (simp add: claim_backed_def has_file_def healthy_def)

lemma serve_backed:
  assumes c: "docs_contract P V" and j: "codec_contract P" and i: "claim_backed P dir s"
    and run: "accept_claim P (app_storage_path dir) conn s = (r, s')"
  shows "claim_backed P dir s'" and "claimed_manager_pubkey s = Some k \<Longrightarrow> claimed_manager_pubkey s' = Some k"
    and "set (conn_log s) \<subseteq> set (conn_log s')"
proof -
  let ?f = "manager_key_file (app_storage_path dir)"
  have h': "healthy s'" by (rule preservesD [OF healthy_accept _ run]) (use i in \<open>simp add: claim_backed_def\<close>)
  have out: "claim_outcome P V (app_storage_path dir) conn (claimed_manager_pubkey s) (conn_log s) s'"
    by (rule accept_claim_outcome [OF c j run])
  have kept: "has_file ?f (key_bytes P k) s'" if k: "claimed_manager_pubkey s = Some k" for k
  proof (cases "remote_id conn = k")
    case True
    have "preserves (has_file ?f (key_bytes P k)) (accept_claim P (app_storage_path dir) conn)"
      using True codec_contractD(1) [OF j] by (intro claim_file_kept) (auto simp: key_bytes_def)
    moreover have "has_file ?f (key_bytes P k) s" using i k by (simp add: claim_backed_def)
    ultimately show ?thesis using run by (rule preservesD)
  next
    case False
    have "disk s' = disk s" by (rule accept_claim_other(1) [OF k False run])
    then show ?thesis using i k h' by (auto simp: claim_backed_def has_file_def)
  qed
  show "claim_backed P dir s'"
    using out kept i h' claim_stored_healthy [OF h', of P "app_storage_path dir" "remote_id conn"]
    by (fastforce simp: claim_outcome_def claim_memory_def claim_done_def claim_backed_def)
  show "claimed_manager_pubkey s = Some k \<Longrightarrow> claimed_manager_pubkey s' = Some k"
    using out by (auto simp: claim_outcome_def claim_memory_def claim_done_def)
  show "set (conn_log s) \<subseteq> set (conn_log s')"
    using out by (auto simp: claim_outcome_def claim_memory_def claim_done_def)
qed

text \<open>A start keeps the log, which is a record of the past.\<close>

definition log_is :: "(endpoint_id \<times> conn_event) list \<Rightarrow> ('d, 'c, 'z) machine_node_scheme \<Rightarrow> bool" where
  "log_is L s \<longleftrightarrow> conn_log s = L"

lemma new_log: "preserves (log_is L) (machine_protocol_new P dir rng)"
proof -
  have st: "stable (log_is L)" "disk_free (log_is L)" by (simp_all add: stable_def disk_free_def log_is_def)
  have e: "preserves (log_is L) (engine_call f)" for f
    by (rule preserves_engine_call [OF st(1)]) (simp add: log_is_def)
  show ?thesis
    unfolding machine_protocol_new_def shared_protocol_new_def load_or_create_secret_key_def Let_def
    by (intro preserves_andThen preserves_attempt preserves_case_sum preserves_unwrap preserves_ret preserves_fs st e)
       (auto simp: preserves_def log_is_def split: prod.split)
qed

lemma start_backed:
  assumes i: "claim_backed P dir s" and run: "machine_protocol_new P dir rng s = (r, s')"
  shows "claim_backed P dir s'" and "claimed_manager_pubkey s = Some k \<Longrightarrow> claimed_manager_pubkey s' = Some k"
    and "conn_log s' = conn_log s"
proof -
  show log: "conn_log s' = conn_log s"
    using preservesD [OF new_log _ run, of "conn_log s"] by (simp add: log_is_def)
  show keep: "claimed_manager_pubkey s = Some k \<Longrightarrow> claimed_manager_pubkey s' = Some k" for k
    using machine_new_stored(2) [OF _ run] i by (auto simp: claim_backed_def)
  have h: "healthy s" using i by (simp add: claim_backed_def)
  show "claim_backed P dir s'"
  proof (cases "claimed_manager_pubkey s")
    case None
    have "has_file (manager_key_file (app_storage_path dir)) (key_bytes P k) s'" if "claimed_manager_pubkey s' = Some k" for k
      by (rule machine_new_found [OF h None run that])
    moreover have "healthy s'" by (rule preservesD [OF healthy_new h run])
    ultimately show ?thesis using i None log by (auto simp: claim_backed_def)
  next
    case (Some k)
    have "has_file (manager_key_file (app_storage_path dir)) (key_bytes P k) s'"
      using machine_new_stored(1) [OF _ run] i Some by (auto simp: claim_backed_def)
    then show ?thesis using i Some keep [OF Some] log by (auto simp: claim_backed_def has_file_def)
  qed
qed

section \<open>The system's invariant\<close>

definition claim_inv :: "'d platform \<Rightarrow> path \<Rightarrow> (endpoint_id \<Rightarrow> path) \<Rightarrow> endpoint_id \<Rightarrow> ('d, 'c) claim_system \<Rightarrow> bool" where
  "claim_inv P machine_dir manager_dir m x \<longleftrightarrow> claim_backed P machine_dir (the_machine x) \<and>
     (\<forall>k. has_ticket P (manager_dir k) m (the_manager x k) \<longrightarrow>
        (\<exists>b. (k, TicketSent b) \<in> set (conn_log (the_machine x))))"

lemma task_ticket:
  assumes "manager_claim_task P app_path conn m t = (r, t')" and "has_ticket P app_path m t'"
  shows "has_ticket P app_path m t \<or> (\<exists>b. out_read_to_end conn (1024 * 1024) = Ok b)"
proof -
  have "ticket_disk P app_path m conn (disk t) t'"
    using tripleD [OF manager_claim_disk_triple _ assms(1), of "disk t"] by (auto simp: disk_is_def)
  with assms(2) show ?thesis by (auto simp: ticket_disk_def has_ticket_def ticket_received_def)
qed

lemma claim_inv_step:
  assumes "docs_contract P V" and "codec_contract P"
    and i: "claim_inv P machine_dir manager_dir m x" and st: "claim_step P machine_dir manager_dir m x y"
  shows "claim_inv P machine_dir manager_dir m y"
  using st
proof (cases rule: claim_stepE [consumes 1, case_names serve start claim])
  case (serve conn n r s')
  note s = serve_backed [OF assms(1,2) claim_backed_awaits serve(2)]
  show ?thesis using i s(1,3) unfolding serve(1) by (fastforce simp: claim_inv_def)
next
  case (start rng n r s')
  note s = start_backed [OF claim_backed_awaits start(2)]
  show ?thesis using i s(1,3) unfolding start(1) by (auto simp: claim_inv_def)
next
  case (claim k conn n os r t')
  have "\<exists>b. (k, TicketSent b) \<in> set (conn_log (the_machine x))" if "has_ticket P (manager_dir k) m t'"
    using task_ticket [OF claim(3) that] i claim(2) by (auto simp: claim_inv_def authentic_def has_ticket_def)
  then show ?thesis using i unfolding claim(1) by (simp add: claim_inv_def)
qed

lemma claim_reach_inv:
  assumes "docs_contract P V" and "codec_contract P"
  shows "claim_reach P machine_dir manager_dir m x \<Longrightarrow> claim_inv P machine_dir manager_dir m x"
proof (induction rule: claim_reach.induct)
  case (init x)
  then show ?case by (simp add: claim_start_def claim_inv_def claim_backed_def)
next
  case (step x y)
  show ?case using assms step(3,2) by (rule claim_inv_step)
qed

text \<open>Once claimed, always claimed by the same manager.\<close>

lemma claim_step_stays:
  assumes "docs_contract P V" and "codec_contract P" and i: "claim_inv P machine_dir manager_dir m x"
    and st: "claim_step P machine_dir manager_dir m x y" and k: "claimed_manager_pubkey (the_machine x) = Some k"
  shows "claimed_manager_pubkey (the_machine y) = Some k"
  using st
proof (cases rule: claim_stepE [consumes 1, case_names serve start claim])
  case (serve conn n r s')
  then show ?thesis using serve_backed(2) [OF assms(1,2) claim_backed_awaits serve(2)] i k by (simp add: claim_inv_def)
next
  case (start rng n r s')
  then show ?thesis using start_backed(2) [OF claim_backed_awaits start(2)] i k by (simp add: claim_inv_def)
qed (use k in simp)

section \<open>The PIN\<close>

text \<open>The requests in the log from position \<open>n\<close> on show the PIN of the connection.\<close>

definition pins_from :: "nat \<Rightarrow> claim_pin \<Rightarrow> ('d, 'c, 'z) machine_node_scheme \<Rightarrow> bool" where
  "pins_from n pin s \<longleftrightarrow> (\<forall>k p. (k, ClaimRequested p) \<in> set (drop n (conn_log s)) \<longrightarrow> p = pin)"

lemma stable_pins: "stable (pins_from n pin)" "disk_free (pins_from n pin)"
  by (simp_all add: stable_def disk_free_def pins_from_def)

lemma pins_log:
  "(\<And>p. ev = ClaimRequested p \<Longrightarrow> p = pin) \<Longrightarrow> preserves (pins_from n pin) (log_event k ev)"
  by (auto simp: preserves_def pins_from_def log_event_def drop_append dest: in_set_dropD)

lemma pins_accept:
  "preserves (pins_from n (claim_pin_from_keying_material (exporter conn))) (accept_claim P app_path conn)"
proof -
  let ?I = "pins_from n (claim_pin_from_keying_material (exporter conn))"
  have e: "preserves ?I (engine_call f)" for f :: "'d \<Rightarrow> 'x res \<times> 'd"
    by (rule preserves_engine_call [OF stable_pins(1)]) (simp add: pins_from_def)
  have lock: "preserves ?I lock_claimed" "preserves ?I (set_claimed k)" for k
    unfolding lock_claimed_def by (intro preserves_await stable_pins) (simp_all add: preserves_def set_claimed_def pins_from_def)
  have doc: "preserves ?I (get_or_create_machine_doc P app_path)"
    unfolding get_or_create_machine_doc_def Let_def
    by (intro preserves_rules stable_pins preserves_engine_call) (simp_all add: pins_from_def)
  show ?thesis
    unfolding accept_claim_def accept_agreed_def Let_def
    by (intro preserves_rules lock doc pins_log stable_pins preserves_await preserves_engine_call)
       (simp_all add: pins_from_def)
qed

end
