(* ===== verification/Liveness.thy ===== *)
theory Liveness
  imports Claim
begin

text \<open>
  A claim goes through when both peers cooperate, nothing fails and nothing is aborted: the
  machine's handler ends claimed and has sent its ticket, and the task of the manager that
  reads this ticket stores it. Together with the safety results of \<open>Claim\<close> this rules out
  that the handlers are safe only because they never do anything.
\<close>

text \<open>A node whose task runs to its end and whose I/O does not fail.\<close>

definition running :: "('d, 'z) node_scheme \<Rightarrow> bool" where
  "running s \<longleftrightarrow> awaits_left s = None \<and> io_script s = []"

lemma running_await: "running s \<Longrightarrow> await m s = m s"
  by (simp add: running_def await_def)

lemma running_engine_call:
  "running s \<Longrightarrow> f (engine s) = (r, d) \<Longrightarrow> engine_call f s = (r, s\<lparr>engine := d\<rparr>)"
  by (simp add: engine_call_def running_await)

lemma running_fs_op:
  "running s \<Longrightarrow> f IoOk (disk s) = (r, d) \<Longrightarrow> fs_op f s = (r, s\<lparr>disk := d\<rparr>)"
  by (simp add: fs_op_def running_await next_io_def andThen_def) (simp add: running_def)

lemma running_fs_read_to_string:
  "running s \<Longrightarrow> map_of (disk s) p = Some (File b) \<Longrightarrow> utf8_valid b \<Longrightarrow> fs_read_to_string p s = (Ok b, s)"
  by (simp add: fs_read_to_string_def fs_read_def andThen_def running_fs_op [of s _ "Ok b" "disk s"] read_op_def ret_def)

lemma running_next_entry: "running s \<Longrightarrow> fs_next_entry s = (Ok (), s)"
  unfolding fs_next_entry_def
  by (subst running_fs_op [where r = "Ok ()" and d = "disk s"]) (auto simp: running_def)

lemma running_read_dir: "running s \<Longrightarrow> is_dir (disk s) p \<Longrightarrow> fs_read_dir p s = (Ok (dir_names (disk s) p), s)"
  unfolding fs_read_dir_def
  by (subst running_fs_op [where r = "Ok (dir_names (disk s) p)" and d = "disk s"]) (auto simp: running_def read_dir_op_def)

lemma running_fs_write:
  "running s \<Longrightarrow> is_dir (disk s) p \<Longrightarrow> \<not> is_dir (disk s) (p @ [n]) \<Longrightarrow>
   fs_write (p @ [n]) b s = (Ok (), s\<lparr>disk := AList.update (p @ [n]) (File b) (disk s)\<rparr>)"
  by (simp add: fs_write_def running_fs_op [of s _ "Ok ()" "AList.update (p @ [n]) (File b) (disk s)"] write_op_def)

lemma running_create_dir_all:
  "running s \<Longrightarrow> dirs_exist (disk s) p \<Longrightarrow> fs_create_dir_all p s = (Ok (), s)"
  by (simp add: fs_create_dir_all_def running_fs_op [of s _ "Ok ()" "disk s"] create_dir_all_existing)

lemma running_fs_read_missing:
  "running s \<Longrightarrow> map_of (disk s) p = None \<Longrightarrow> fs_read p s = (Err (Io NotFound), s)"
  by (simp add: fs_read_def running_fs_op [of s _ "Err (Io NotFound)" "disk s"] read_op_def)

lemma running_read_missing: "running s \<Longrightarrow> map_of (disk s) p = None \<Longrightarrow> fs_read_to_string p s = (Err (Io NotFound), s)"
  using running_fs_read_missing [of s p] by (simp add: fs_read_to_string_def andThen_eval)

lemma running_new_secret:
  assumes "running s" and "dirs_exist (disk s) sp" and "is_dir (disk s) sp"
    and "map_of (disk s) (sp @ [SECRET_KEY_FILE]) = None"
  shows "load_or_create_secret_key sp rng s =
    (Ok rng, s\<lparr>disk := AList.update (sp @ [SECRET_KEY_FILE]) (File (bytes_of_hash rng)) (disk s)\<rparr>)"
  using running_fs_read_missing [OF assms(1,4)] running_create_dir_all [OF assms(1,2)]
    running_fs_write [OF assms(1,3), of SECRET_KEY_FILE "bytes_of_hash rng"] assms(4)
  by (simp add: load_or_create_secret_key_def Let_def andThen_def attempt_def ret_def is_dir_def)

lemma running_get_or_create:
  assumes s: "running s" and doc: "machine_doc P V app_path s ns"
    and op: "docs_open P ns (engine s) = (Ok (Some ns), d)"
  shows "get_or_create_machine_doc P app_path s = (Ok ns, s\<lparr>engine := d\<rparr>)"
proof -
  obtain b t where b: "map_of (disk s) (app_path @ [MACHINE_DOC_TICKET_PATH]) = Some (File b)" "utf8_valid b"
    "ticket_from_json P b = Some t" "capability_id P (ticket_capability t) = ns"
    using doc by (auto simp: machine_doc_def)
  have "fs_create_dir_all app_path s = (Ok (), s)"
    using s doc by (intro running_create_dir_all) (simp_all add: machine_doc_def)
  then show ?thesis
    using running_fs_read_to_string [OF s b(1,2)] b(3,4) running_engine_call [where f = "docs_open P ns", OF s op]
    by (simp add: get_or_create_machine_doc_def Let_def andThen_eval attempt_eval)
qed

text \<open>
  The two ways in which a machine gets at its document: the ticket file names a document that
  the engine opens, or there is no ticket file yet, and the machine makes a document and
  writes its ticket. In both, \<open>d\<close> and \<open>dk\<close> are the engine and the disk afterwards.
\<close>

definition reopens_document ::
    "'d platform \<Rightarrow> ('d, 'v) docs_view_scheme \<Rightarrow> path \<Rightarrow> ('d, 'z) node_scheme \<Rightarrow> namespace_id \<Rightarrow> 'd \<Rightarrow> disk \<Rightarrow> bool" where
  "reopens_document P V app_path s ns d dk \<longleftrightarrow>
     machine_doc P V app_path s ns \<and> docs_open P ns (engine s) = (Ok (Some ns), d) \<and> dk = disk s"

definition creates_document ::
    "'d platform \<Rightarrow> path \<Rightarrow> ('d, 'z) node_scheme \<Rightarrow> namespace_id \<Rightarrow> 'd \<Rightarrow> disk \<Rightarrow> bool" where
  "creates_document P app_path s ns d dk \<longleftrightarrow>
     dirs_exist (disk s) app_path \<and> app_path \<noteq> [] \<and> map_of (disk s) (app_path @ [MACHINE_DOC_TICKET_PATH]) = None \<and>
     (\<exists>d0 t b. docs_create P (engine s) = (Ok ns, d0) \<and> doc_share P ns ShareWrite AddrId d0 = (Ok t, d) \<and>
        ticket_to_json P t = Some b \<and> dk = AList.update (app_path @ [MACHINE_DOC_TICKET_PATH]) (File b) (disk s))"

lemma running_create_doc:
  assumes s: "running s" and doc: "creates_document P app_path s ns d dk"
  shows "get_or_create_machine_doc P app_path s = (Ok ns, s\<lparr>engine := d, disk := dk\<rparr>)"
proof -
  obtain d0 t b where c: "docs_create P (engine s) = (Ok ns, d0)" "doc_share P ns ShareWrite AddrId d0 = (Ok t, d)"
    "ticket_to_json P t = Some b" and dk: "dk = AList.update (app_path @ [MACHINE_DOC_TICKET_PATH]) (File b) (disk s)"
    and there: "dirs_exist (disk s) app_path" "app_path \<noteq> []" and new: "map_of (disk s) (app_path @ [MACHINE_DOC_TICKET_PATH]) = None"
    using doc by (auto simp: creates_document_def)
  have mk: "fs_create_dir_all app_path s = (Ok (), s)" by (rule running_create_dir_all [OF s there(1)])
  have cc: "engine_call (docs_create P) s = (Ok ns, s\<lparr>engine := d0\<rparr>)" by (rule running_engine_call [where f = "docs_create P", OF s c(1)])
  have sh: "engine_call (doc_share P ns ShareWrite AddrId) (s\<lparr>engine := d0\<rparr>) = (Ok t, s\<lparr>engine := d\<rparr>)"
    using running_engine_call [where f = "doc_share P ns ShareWrite AddrId" and s = "s\<lparr>engine := d0\<rparr>"] s c(2) by (simp add: running_def)
  have dir: "is_dir (disk s) app_path" using there by (simp add: dirs_exist_def)
  have wr: "fs_write (app_path @ [MACHINE_DOC_TICKET_PATH]) b (s\<lparr>engine := d\<rparr>) = (Ok (), s\<lparr>engine := d, disk := dk\<rparr>)"
    using running_fs_write [of "s\<lparr>engine := d\<rparr>" app_path MACHINE_DOC_TICKET_PATH b] s dir new dk
    by (simp add: is_dir_def running_def)
  show ?thesis
    using mk running_read_missing [OF s new] cc sh c(3) wr by (simp add: get_or_create_machine_doc_def Let_def andThen_eval attempt_eval)
qed

definition opens_document ::
    "'d platform \<Rightarrow> ('d, 'v) docs_view_scheme \<Rightarrow> path \<Rightarrow> ('d, 'z) node_scheme \<Rightarrow> namespace_id \<Rightarrow> 'd \<Rightarrow> disk \<Rightarrow> bool" where
  "opens_document P V app_path s ns d dk \<longleftrightarrow>
     reopens_document P V app_path s ns d dk \<or> creates_document P app_path s ns d dk"

lemma opens_document_runs:
  assumes "running s" and "opens_document P V app_path s ns d dk"
  shows "get_or_create_machine_doc P app_path s = (Ok ns, s\<lparr>engine := d, disk := dk\<rparr>)"
proof (cases "reopens_document P V app_path s ns d dk")
  case True
  then have a: "machine_doc P V app_path s ns" "docs_open P ns (engine s) = (Ok (Some ns), d)" "dk = disk s"
    by (simp_all add: reopens_document_def)
  show ?thesis using running_get_or_create [OF assms(1) a(1,2)] a(3) by simp
next
  case False
  then show ?thesis using assms running_create_doc by (simp add: opens_document_def)
qed

lemma opens_document_disk:
  assumes "opens_document P V app_path s ns d dk"
  shows "is_dir dk app_path" and "is_dir dk (manager_key_file app_path) \<longleftrightarrow> is_dir (disk s) (manager_key_file app_path)"
  using assms
  by (auto simp: opens_document_def reopens_document_def creates_document_def machine_doc_def dirs_exist_def is_dir_def
      update_conv' MACHINE_DOC_TICKET_PATH_def MACHINE_MANAGER_PUBLIC_KEY_PATH_def)

text \<open>A peer that plays its part.\<close>

definition cooperates :: "connection \<Rightarrow> bool" where
  "cooperates conn \<longleftrightarrow> request_channel conn = Ok () \<and> decision conn = Some True \<and> accept_bi conn = Ok () \<and>
     recv_read_to_end conn (length PING_MAGIC_BYTES + 1) = Ok PING_MAGIC_BYTES \<and>
     send_write_all conn = Ok () \<and> send_finish conn = Ok () \<and> send_stopped conn = Ok () \<and> send_shutdown conn = Ok ()"

lemma accept_agreed_completes:
  fixes s :: "('d, 'c, 'z) machine_node_scheme"
  assumes s: "running s" and co: "cooperates conn" and doc: "opens_document P V app_path s ns d1 dk"
    and sh: "doc_share P ns ShareWrite RelayAndAddresses d1 = (Ok t, d2)"
    and key: "endpoint_to_json P (remote_id conn) = Some kb" and tj: "ticket_to_json P t = Some tb"
    and free: "\<not> is_dir (disk s) (manager_key_file app_path)"
  shows "accept_agreed P app_path conn s = (Ok (), s\<lparr>engine := d2,
      disk := AList.update (manager_key_file app_path) (File kb) dk, claimed_manager_pubkey := Some (remote_id conn),
      conn_log := conn_log s @ [(remote_id conn, TicketSent tb), (remote_id conn, ConnClosed ''finished'')]\<rparr>)"
proof -
  let ?s1 = "s\<lparr>engine := d1, disk := dk\<rparr>" and ?s2 = "s\<lparr>engine := d2, disk := dk\<rparr>"
  have r: "running ?s1" "running ?s2" using s by (simp_all add: running_def)
  have dir: "is_dir (disk ?s2) app_path" using opens_document_disk(1) [OF doc] by simp
  have "\<not> is_dir (disk ?s2) (app_path @ [MACHINE_MANAGER_PUBLIC_KEY_PATH])"
    using free opens_document_disk(2) [OF doc] by simp
  then have w: "fs_write (app_path @ [MACHINE_MANAGER_PUBLIC_KEY_PATH]) kb ?s2 =
      (Ok (), ?s2\<lparr>disk := AList.update (manager_key_file app_path) (File kb) dk\<rparr>)"
    using running_fs_write [OF r(2) dir, of MACHINE_MANAGER_PUBLIC_KEY_PATH kb] by simp
  have a: "awaits_left s = None" using s by (simp add: running_def)
  have share: "engine_call (doc_share P ns ShareWrite RelayAndAddresses) ?s1 = (Ok t, ?s2)"
    using running_engine_call [OF r(1), of "doc_share P ns ShareWrite RelayAndAddresses"] sh by simp
  show ?thesis
    using co a by (simp add: accept_agreed_def cooperates_def running_await [OF s] opens_document_runs [OF s doc]
          share w key tj andThen_def lift_res_def set_claimed_def log_event_def await_def ret_def)
qed

lemma accept_claim_completes:
  fixes s :: "('d, 'c, 'z) machine_node_scheme"
  assumes s: "running s" and free_or_same: "claimed_manager_pubkey s \<in> {None, Some (remote_id conn)}"
    and co: "cooperates conn" and doc: "opens_document P V app_path s ns d1 dk"
    and sh: "doc_share P ns ShareWrite RelayAndAddresses d1 = (Ok t, d2)"
    and key: "endpoint_to_json P (remote_id conn) = Some kb" and tj: "ticket_to_json P t = Some tb"
    and free: "\<not> is_dir (disk s) (manager_key_file app_path)"
  shows "accept_claim P app_path conn s = (Ok (), s\<lparr>engine := d2,
      disk := AList.update (manager_key_file app_path) (File kb) dk, claimed_manager_pubkey := Some (remote_id conn),
      conn_log := conn_log s @ [(remote_id conn, ClaimRequested (claim_pin_from_keying_material (exporter conn))),
        (remote_id conn, TicketSent tb), (remote_id conn, ConnClosed ''finished'')]\<rparr>)"
proof -
  let ?s1 = "s\<lparr>conn_log := conn_log s @ [(remote_id conn, ClaimRequested (claim_pin_from_keying_material (exporter conn)))]\<rparr>"
  have "running ?s1" "opens_document P V app_path ?s1 ns d1 dk" "\<not> is_dir (disk ?s1) (manager_key_file app_path)"
    using s doc free by (simp_all add: running_def opens_document_def reopens_document_def creates_document_def machine_doc_def)
  then have "accept_agreed P app_path conn ?s1 = (Ok (), ?s1\<lparr>engine := d2,
      disk := AList.update (manager_key_file app_path) (File kb) dk, claimed_manager_pubkey := Some (remote_id conn),
      conn_log := conn_log ?s1 @ [(remote_id conn, TicketSent tb), (remote_id conn, ConnClosed ''finished'')]\<rparr>)"
    by (rule accept_agreed_completes [OF _ co _ sh key tj])
  moreover have "accept_claim P app_path conn s = accept_agreed P app_path conn ?s1"
    using s co free_or_same
    by (auto simp: accept_claim_def lock_claimed_def cooperates_def running_def await_def andThen_def lift_res_def
        log_event_def ret_def Let_def)
  ultimately show ?thesis by simp
qed

text \<open>The manager's side.\<close>

definition out_cooperates :: "outgoing_connection \<Rightarrow> bytes \<Rightarrow> bool" where
  "out_cooperates conn tb \<longleftrightarrow> out_decision conn = Some True \<and> out_open_bi conn = Ok () \<and>
     out_write_all conn PING_MAGIC_BYTES = Ok () \<and> out_finish conn = Ok () \<and> out_stopped conn = Ok () \<and>
     out_read_to_end conn (1024 * 1024) = Ok tb \<and> out_shutdown conn = Ok ()"

lemma manager_claim_completes:
  assumes s: "running s" and co: "out_cooperates conn tb" and t: "ticket_from_json P tb = Some t"
    and w: "is_write_capability (ticket_capability t)" and j: "ticket_to_json P t = Some str"
    and imp: "docs_import P t (engine s) = (r, d)" "r = Ok ns \<or> r = Err e"
    and dir: "is_dir (disk s) (machine_doc_ticket_path app_path)"
    and free: "\<not> is_dir (disk s) (machine_doc_ticket_path app_path @ [endpoint_to_string P m])"
  shows "manager_claim_task P app_path conn m s =
    (Ok (Some ''done''), s\<lparr>engine := d,
       disk := AList.update (machine_doc_ticket_path app_path @ [endpoint_to_string P m]) (File str) (disk s)\<rparr>)"
proof -
  let ?s1 = "s\<lparr>engine := d\<rparr>"
  have r1: "running ?s1" using s by (simp add: running_def)
  have dir1: "is_dir (disk ?s1) (machine_doc_ticket_path app_path)"
    and free1: "\<not> is_dir (disk ?s1) (machine_doc_ticket_path app_path @ [endpoint_to_string P m])"
    using dir free by simp_all
  have store: "store_machine_ticket P app_path m t s = (Ok (), s\<lparr>engine := d,
       disk := AList.update (machine_doc_ticket_path app_path @ [endpoint_to_string P m]) (File str) (disk s)\<rparr>)"
    using running_engine_call [where f = "docs_import P t", OF s imp(1)] imp(2) running_fs_write [OF r1 dir1 free1, of str] j
    by (auto simp: store_machine_ticket_def ignore_def andThen_def attempt_def ret_def)
  have a: "awaits_left s = None" using s by (simp add: running_def)
  show ?thesis
    using co a t w store
    by (simp add: manager_claim_task_def out_cooperates_def await_def andThen_def attempt_def lift_res_def ret_def
        receive_machine_ticket_def)
qed

end
