(* ===== verification/Amounts.thy ===== *)
theory Amounts
  imports Decimal
begin

text \<open>
  Amounts as \<open>fedimint_wallet.rs\<close> prints them: \<open>format_amount\<close> of a number of
  millisatoshis (\<open>Amount\<close>, a \<open>u64\<close>). The main result is that nothing is lost: a reader
  gets the exact amount back from the text.
\<close>

section \<open>Formatting\<close>

text \<open>\<open>slice::rchunks\<close>: chunks of \<open>n\<close> elements from the end, the short one last.\<close>

fun rchunks :: "nat \<Rightarrow> 'a list \<Rightarrow> 'a list list" where
  "rchunks n xs = (if xs = [] \<or> n = 0 then []
     else drop (length xs - n) xs # rchunks n (take (length xs - n) xs))"

declare rchunks.simps [simp del]

fun join :: "string \<Rightarrow> string list \<Rightarrow> string" where
  "join sep [] = []"
| "join sep [x] = x"
| "join sep (x # y # xs) = x @ sep @ join sep (y # xs)"

text \<open>The loop \<open>while s.ends_with('0') { s.pop(); }\<close>\<close>

fun pop_zeros :: "string \<Rightarrow> string" where
  "pop_zeros s = (if s \<noteq> [] \<and> last s = CHR ''0'' then pop_zeros (butlast s) else s)"

declare pop_zeros.simps [simp del]

definition format_amount :: "64 word \<Rightarrow> string" where
  "format_amount msats =
     (let amount_sats = msats div 1000;
          sub_sat_msats = msats mod 1000 in
      if amount_sats = 1 \<and> sub_sat_msats = 0 then ''1 sat''
      else
        let comma_formatted_sats = join '','' (rev (rchunks 3 (dec (unat amount_sats))));
            msats_str = (if sub_sat_msats = 0 then []
              else pop_zeros (''.'' @ zero_pad 3 (dec (unat sub_sat_msats)))) in
        comma_formatted_sats @ msats_str @ '' sats'')"

section \<open>Reading an amount back\<close>

definition parse_amount :: "string \<Rightarrow> 64 word option" where
  "parse_amount s =
     (if s = ''1 sat'' then Some 1000
      else
        let body = take (length s - 5) s;
            sats = filter (\<lambda>c. c \<noteq> CHR '','') (takeWhile (\<lambda>c. c \<noteq> CHR ''.'') body);
            frac = drop 1 (dropWhile (\<lambda>c. c \<noteq> CHR ''.'') body) in
        Some (of_nat (undec sats * 1000 + undec (frac @ replicate (3 - length frac) (CHR ''0'')))))"

section \<open>The groups of digits\<close>

lemma concat_rev_rchunks: "0 < n \<Longrightarrow> concat (rev (rchunks n xs)) = xs"
proof (induction n xs rule: rchunks.induct)
  case (1 n xs)
  then show ?case by (subst rchunks.simps) auto
qed

lemma rchunks_lengths:
  assumes "0 < n" and "rchunks n xs = ys @ zs" and "zs \<noteq> []"
  shows "\<forall>y \<in> set ys. length y = n"
  using assms
proof (induction n xs arbitrary: ys rule: rchunks.induct)
  case (1 n xs)
  show ?case
  proof (cases ys)
    case (Cons y ys')
    then have xs: "xs \<noteq> []" and y: "y = drop (length xs - n) xs"
      and rest: "rchunks n (take (length xs - n) xs) = ys' @ zs"
      using 1(2,3) by (auto simp: rchunks.simps [of n xs] split: if_splits)
    from rest 1(4) have "take (length xs - n) xs \<noteq> []" by (auto simp: rchunks.simps [of n])
    then have "length y = n" using y by auto
    moreover have "\<forall>y \<in> set ys'. length y = n" using xs 1(2,4) rest by (intro 1(1)) auto
    ultimately show ?thesis using Cons by simp
  qed simp
qed

lemma rchunks_short: "y \<in> set (rchunks n xs) \<Longrightarrow> y \<noteq> [] \<and> length y \<le> n"
proof (induction n xs rule: rchunks.induct)
  case (1 n xs)
  show ?case
  proof (cases "xs = [] \<or> n = 0")
    case True
    then have "rchunks n xs = []" by (subst rchunks.simps) (rule if_P)
    with 1 show ?thesis by simp
  next
    case False
    then have "rchunks n xs = drop (length xs - n) xs # rchunks n (take (length xs - n) xs)"
      by (subst rchunks.simps) (rule if_not_P)
    then have "y = drop (length xs - n) xs \<or> y \<in> set (rchunks n (take (length xs - n) xs))"
      using 1(2) by (simp only: list.set insert_iff)
    then show ?thesis
    proof
      assume y: "y = drop (length xs - n) xs"
      have "0 < length xs" "0 < n" using False by simp_all
      then have "length xs - n < length xs" "length xs - (length xs - n) \<le> n" by simp_all
      then show ?thesis using y by simp
    qed (rule 1(1) [OF False])
  qed
qed

lemma filter_absent: "c \<notin> set x \<Longrightarrow> filter (\<lambda>d. d \<noteq> c) x = x"
  by (induction x) auto

lemma filter_join:
  "\<forall>x \<in> set xs. CHR '','' \<notin> set x \<Longrightarrow> filter (\<lambda>c. c \<noteq> CHR '','') (join '','' xs) = concat xs"
proof (induction xs)
  case (Cons x xs)
  then show ?case by (cases xs) (simp_all add: filter_absent)
qed simp

lemma set_join: "set (join '','' xs) \<subseteq> insert (CHR '','') (\<Union>x \<in> set xs. set x)"
proof (induction xs)
  case (Cons x xs)
  then show ?case by (cases xs) auto
qed simp

section \<open>The fraction\<close>

lemma pop_zeros_append: "\<exists>k. s = pop_zeros s @ replicate k (CHR ''0'')"
proof (induction s rule: pop_zeros.induct)
  case (1 s)
  show ?case
  proof (cases "s \<noteq> [] \<and> last s = CHR ''0''")
    case True
    with 1 obtain k where "butlast s = pop_zeros (butlast s) @ replicate k (CHR ''0'')" by blast
    moreover from True have "s = butlast s @ [CHR ''0'']" by (metis append_butlast_last_id)
    ultimately have "s = pop_zeros s @ replicate (Suc k) (CHR ''0'')"
      using True pop_zeros.simps [of s] by (metis append_assoc replicate_append_same replicate_Suc)
    then show ?thesis by blast
  next
    case False
    then have "pop_zeros s = s" by (subst pop_zeros.simps) (rule if_not_P)
    then show ?thesis by (intro exI [of _ 0]) simp
  qed
qed

lemma pop_zeros_Cons: "c \<noteq> CHR ''0'' \<Longrightarrow> \<exists>t k. pop_zeros (c # s) = c # t \<and> s = t @ replicate k (CHR ''0'')"
proof -
  assume c: "c \<noteq> CHR ''0''"
  obtain k where k: "c # s = pop_zeros (c # s) @ replicate k (CHR ''0'')"
    using pop_zeros_append by blast
  have "pop_zeros (c # s) \<noteq> []"
  proof
    assume "pop_zeros (c # s) = []"
    with k have "c # s = replicate k (CHR ''0'')" by simp
    then have "c \<in> set (replicate k (CHR ''0''))" by (metis list.set_intros(1))
    with c show False by simp
  qed
  then obtain d t where "pop_zeros (c # s) = d # t" by (cases "pop_zeros (c # s)") auto
  with k show ?thesis by auto
qed

section \<open>Nothing is lost\<close>

lemma digits_no_comma: "CHR '','' \<notin> set (dec n)" "CHR ''.'' \<notin> set (dec n)"
  using dec_digits [of "CHR '',''" n] dec_digits [of "CHR ''.''" n] by (auto simp: is_digit_def)

lemma comma_groups:
  "filter (\<lambda>c. c \<noteq> CHR '','') (join '','' (rev (rchunks 3 (dec n)))) = dec n"
  "CHR ''.'' \<notin> set (join '','' (rev (rchunks 3 (dec n))))"
proof -
  have cat: "concat (rev (rchunks 3 (dec n))) = dec n" by (simp add: concat_rev_rchunks)
  have sub: "set x \<subseteq> set (dec n)" if "x \<in> set (rev (rchunks 3 (dec n)))" for x
    using that by (subst cat [symmetric]) (auto simp only: set_concat)
  have "\<forall>x \<in> set (rev (rchunks 3 (dec n))). CHR '','' \<notin> set x"
    using sub digits_no_comma(1) by blast
  then show "filter (\<lambda>c. c \<noteq> CHR '','') (join '','' (rev (rchunks 3 (dec n)))) = dec n"
    by (simp only: filter_join cat)
  show "CHR ''.'' \<notin> set (join '','' (rev (rchunks 3 (dec n))))"
    using set_join [of "rev (rchunks 3 (dec n))"] sub digits_no_comma(2) by fastforce
qed

lemma takeWhile_point:
  "CHR ''.'' \<notin> set x \<Longrightarrow> takeWhile (\<lambda>c. c \<noteq> CHR ''.'') (x @ CHR ''.'' # y) = x"
  "CHR ''.'' \<notin> set x \<Longrightarrow> dropWhile (\<lambda>c. c \<noteq> CHR ''.'') (x @ CHR ''.'' # y) = CHR ''.'' # y"
  "CHR ''.'' \<notin> set x \<Longrightarrow> takeWhile (\<lambda>c. c \<noteq> CHR ''.'') x = x"
  "CHR ''.'' \<notin> set x \<Longrightarrow> dropWhile (\<lambda>c. c \<noteq> CHR ''.'') x = []"
  by (induction x) auto

text \<open>The three digits of the fraction come back when the zeros that were popped are padded again.\<close>

lemma fraction:
  assumes "m < 1000"
  obtains t where "pop_zeros (''.'' @ zero_pad 3 (dec m)) = CHR ''.'' # t"
    and "undec (t @ replicate (3 - length t) (CHR ''0'')) = m"
proof -
  obtain t k where t: "pop_zeros (CHR ''.'' # zero_pad 3 (dec m)) = CHR ''.'' # t"
    "zero_pad 3 (dec m) = t @ replicate k (CHR ''0'')"
    using pop_zeros_Cons [of "CHR ''.''" "zero_pad 3 (dec m)"] by auto
  have "length (dec m) \<le> 3" using assms by (intro length_dec_le) simp_all
  then have "length (zero_pad 3 (dec m)) = 3" by (rule length_zero_pad)
  then have "k = 3 - length t" using t(2) by simp
  then have "undec (t @ replicate (3 - length t) (CHR ''0'')) = undec (zero_pad 3 (dec m))"
    using t(2) by simp
  then show ?thesis using t(1) by (intro that [of t]) simp_all
qed

interpretation amount: codec format_amount parse_amount "\<lambda>_. True"
proof
  fix a :: "64 word"
  define q r where "q = unat (a div 1000)" and "r = unat (a mod 1000)"
  have r: "r < 1000" by (simp add: r_def unat_mod)
  have a: "a = of_nat (q * 1000 + r)"
  proof -
    have "q * 1000 + r = unat a" by (simp add: q_def r_def unat_div unat_mod)
    then show ?thesis by simp
  qed
  show "parse_amount (format_amount a) = Some a"
  proof (cases "a div 1000 = 1 \<and> a mod 1000 = 0")
    case True
    then have "q = 1" "r = 0" by (simp_all add: q_def r_def)
    with True a show ?thesis by (simp add: format_amount_def parse_amount_def)
  next
    case False
    let ?c = "join '','' (rev (rchunks 3 (dec q)))"
    let ?f = "if r = 0 then [] else pop_zeros (''.'' @ zero_pad 3 (dec r))"
    have r0: "a mod 1000 = 0 \<longleftrightarrow> r = 0" by (simp add: r_def unat_eq_zero)
    have shape: "format_amount a = (?c @ ?f) @ '' sats''"
      using False unfolding format_amount_def Let_def q_def [symmetric] r_def [symmetric] r0 by simp
    have body: "take (length (format_amount a) - 5) (format_amount a) = ?c @ ?f"
      unfolding shape by simp
    have "last (format_amount a) = CHR ''s''" unfolding shape by simp
    then have not_one: "format_amount a \<noteq> ''1 sat''" by auto
    note c = comma_groups [of q]
    have "parse_amount (format_amount a) = Some (of_nat (q * 1000 + r))"
    proof (cases "r = 0")
      case True
      then show ?thesis
        using c by (simp add: parse_amount_def not_one body takeWhile_point Let_def)
    next
      case False
      obtain t where t: "pop_zeros (''.'' @ zero_pad 3 (dec r)) = CHR ''.'' # t"
        and u: "undec (t @ replicate (3 - length t) (CHR ''0'')) = r"
        using fraction [OF r] by blast
      then show ?thesis
        using False c by (simp add: parse_amount_def not_one body takeWhile_point Let_def)
    qed
    then show ?thesis by (simp only: a [symmetric])
  qed
qed

text \<open>The groups: three digits each, but the first one, which has one to three.\<close>

lemma rev_rchunks_groups:
  assumes "xs \<noteq> []"
  obtains g gs where "rev (rchunks 3 xs) = g # gs" "1 \<le> length g" "length g \<le> 3" "list_all (\<lambda>x. length x = 3) gs"
proof -
  have "rev (rchunks 3 xs) \<noteq> []" using assms by (subst rchunks.simps) simp
  then obtain g gs where gs: "rev (rchunks 3 xs) = g # gs" by (cases "rev (rchunks 3 xs)") auto
  then have split: "rchunks 3 xs = rev gs @ [g]" by (metis rev.simps(2) rev_rev_ident)
  have "list_all (\<lambda>x. length x = 3) gs"
    using rchunks_lengths [OF _ split] by (simp add: list_all_iff)
  moreover have "g \<noteq> [] \<and> length g \<le> 3" using split by (intro rchunks_short [of g 3 xs]) simp
  ultimately show thesis using gs by (intro that [of g gs]) (simp_all add: Suc_le_eq)
qed

lemma unit_amount: "(a :: 64 word) div 1000 = 1 \<and> a mod 1000 = 0 \<longleftrightarrow> a = 1000"
proof
  assume "a div 1000 = 1 \<and> a mod 1000 = 0"
  then show "a = 1000" using word_mod_div_equality [of a 1000] by simp
qed simp

lemma format_amount_groups:
  assumes "a \<noteq> 1000"
  shows "\<exists>g gs frac. format_amount a = join '','' (g # gs) @ frac @ '' sats'' \<and>
    concat (g # gs) = dec (unat (a div 1000)) \<and> 1 \<le> length g \<and> length g \<le> 3 \<and>
    list_all (\<lambda>x. length x = 3) gs \<and> (frac = [] \<longleftrightarrow> a mod 1000 = 0)"
proof -
  obtain g gs where gs: "rev (rchunks 3 (dec (unat (a div 1000)))) = g # gs" "1 \<le> length g" "length g \<le> 3"
    "list_all (\<lambda>x. length x = 3) gs" using rev_rchunks_groups [OF dec_nonempty] by blast
  have c: "concat (g # gs) = dec (unat (a div 1000))"
    using concat_rev_rchunks [of 3 "dec (unat (a div 1000))"] gs(1) by simp
  let ?frac = "if a mod 1000 = 0 then [] else pop_zeros (''.'' @ zero_pad 3 (dec (unat (a mod 1000))))"
  have "unat (a mod 1000) < 1000" by (simp add: unat_mod)
  then have "?frac = [] \<longleftrightarrow> a mod 1000 = 0" by (auto elim: fraction)
  moreover have "format_amount a = join '','' (g # gs) @ ?frac @ '' sats''"
    using assms unit_amount [of a] gs(1) by (auto simp: format_amount_def Let_def)
  ultimately have "format_amount a = join '','' (g # gs) @ ?frac @ '' sats'' \<and>
    concat (g # gs) = dec (unat (a div 1000)) \<and> 1 \<le> length g \<and> length g \<le> 3 \<and>
    list_all (\<lambda>x. length x = 3) gs \<and> (?frac = [] \<longleftrightarrow> a mod 1000 = 0)"
    using c gs(2-4) by (intro conjI)
  then show ?thesis by (intro exI)
qed

end
