(* ===== verification/Wallet.thy ===== *)
theory Wallet
  imports Platform Amounts "HOL-Library.List_Lexorder"
begin

text \<open>
  \<open>fedimint_wallet.rs\<close>: the federation clients of a device. The clients are a map from
  federation ids to third-party clients (type parameter \<open>'c\<close>), whose API is the record
  \<open>'c fedimint\<close>, a parameter of every definition; the rest of the state is on disk, in the
  data directory: one database directory per joined federation, the mnemonic and the
  default federation's invite code. The locks of the code are awaits; a lock that is held
  keeps the clients as they are. The task that publishes the view of the wallet has a
  state of its own, \<open>view_task\<close>.
\<close>

section \<open>Ordered identifiers\<close>

text \<open>\<open>FederationId\<close> is ordered by its bytes, which is the order of the view's \<open>BTreeMap\<close>.\<close>

instantiation hash32 :: linorder
begin

definition less_eq_hash32 :: "hash32 \<Rightarrow> hash32 \<Rightarrow> bool" where
  "less_eq_hash32 g h \<longleftrightarrow> bytes_of_hash g \<le> bytes_of_hash h"

definition less_hash32 :: "hash32 \<Rightarrow> hash32 \<Rightarrow> bool" where
  "less_hash32 g h \<longleftrightarrow> bytes_of_hash g < bytes_of_hash h"

instance
  by standard (auto simp: less_eq_hash32_def less_hash32_def less_le_not_le)

end

definition fid_hash :: "federation_id \<Rightarrow> hash32" where
  "fid_hash f = (case f of FederationId h \<Rightarrow> h)"

lemma fid_hash_inj: "fid_hash f = fid_hash g \<longleftrightarrow> f = g"
  by (cases f; cases g) (simp add: fid_hash_def)

instantiation federation_id :: linorder
begin

definition less_eq_federation_id :: "federation_id \<Rightarrow> federation_id \<Rightarrow> bool" where
  "less_eq_federation_id f g \<longleftrightarrow> fid_hash f \<le> fid_hash g"

definition less_federation_id :: "federation_id \<Rightarrow> federation_id \<Rightarrow> bool" where
  "less_federation_id f g \<longleftrightarrow> fid_hash f < fid_hash g"

instance
  by standard (auto simp: less_eq_federation_id_def less_federation_id_def less_le_not_le simp flip: fid_hash_inj)

end

fun btree_insert :: "'k :: linorder \<Rightarrow> 'v \<Rightarrow> ('k \<times> 'v) list \<Rightarrow> ('k \<times> 'v) list" where
  "btree_insert k v [] = [(k, v)]"
| "btree_insert k v ((k', v') # xs) =
     (if k < k' then (k, v) # (k', v') # xs
      else if k = k' then (k, v) # xs
      else (k', v') # btree_insert k v xs)"

lemma map_of_btree_insert: "map_of (btree_insert k v xs) = (map_of xs)(k \<mapsto> v)"
  by (induction xs) (auto simp: fun_eq_iff)

lemma keys_btree_insert: "fst ` set (btree_insert k v xs) = insert k (fst ` set xs)"
proof (induction xs)
  case (Cons x xs)
  then show ?case by (cases x) (simp add: insert_commute)
qed simp

lemma sorted_btree_insert:
  "sorted_wrt (<) (map fst xs) \<Longrightarrow> sorted_wrt (<) (map fst (btree_insert k v xs))"
proof (induction xs)
  case (Cons x xs)
  from Cons show ?case by (cases x) (auto simp: keys_btree_insert)
qed simp

section \<open>The client API\<close>

datatype network = Bitcoin | Testnet | Testnet4 | Signet | Regtest
datatype network_kind = NetMain | NetTest
datatype root_secret = RootSecret nat
datatype xpriv = Xpriv nat
datatype mnemonic = Mnemonic nat
datatype bolt11_invoice = Bolt11Invoice nat
datatype operation_id = OperationId nat
datatype oob_notes = OOBNotes nat
datatype final_state = FinalState nat

record 'c fedimint =
  fid_to_string :: "federation_id \<Rightarrow> string"
  fid_from_string :: "string \<Rightarrow> federation_id option"
  invite_id :: "invite_code \<Rightarrow> federation_id"
  invite_to_string :: "invite_code \<Rightarrow> bytes"
  invite_from_string :: "bytes \<Rightarrow> invite_code option"
  rocksdb_open :: "path \<Rightarrow> disk \<Rightarrow> unit res \<times> disk"
  client_is_initialized :: "path \<Rightarrow> disk \<Rightarrow> bool"
  client_builder :: "unit res"
  client_connectors :: "unit res"
  client_open :: "path \<Rightarrow> root_secret \<Rightarrow> disk \<Rightarrow> 'c res \<times> disk"
  client_preview :: "invite_code \<Rightarrow> unit res"
  client_join :: "invite_code \<Rightarrow> path \<Rightarrow> root_secret \<Rightarrow> disk \<Rightarrow> 'c res \<times> disk"
  client_name :: "'c \<Rightarrow> string option"
  client_balance :: "'c \<Rightarrow> 64 word option"
  amount_add :: "64 word \<Rightarrow> 64 word \<Rightarrow> 64 word option"
  has_lightning :: "'c \<Rightarrow> bool"
  has_mint :: "'c \<Rightarrow> bool"
  ln_public_key :: "'c \<Rightarrow> public_key"
  ln_remote_receive :: "public_key \<Rightarrow> 64 word \<Rightarrow> 32 word \<Rightarrow> string \<Rightarrow> string option \<Rightarrow> 'c \<Rightarrow>
    (bolt11_invoice \<times> operation_id) res \<times> 'c"
  operation_exists :: "operation_id \<Rightarrow> 'c \<Rightarrow> bool"
  ln_await_remote_receive :: "operation_id \<Rightarrow> 'c \<Rightarrow> final_state res \<times> 'c"
  ln_claimable :: "public_key \<Rightarrow> nat option \<Rightarrow> 'c \<Rightarrow> claimable_contract list"
  ln_remove_claimed :: "contract_id list \<Rightarrow> 'c \<Rightarrow> 'c"
  ln_claim :: "claimable_contract list \<Rightarrow> 'c \<Rightarrow> unit res \<times> 'c"
  mint_total :: "'c \<Rightarrow> 64 word"
  mint_spend_exact :: "64 word \<Rightarrow> nat \<Rightarrow> bool \<Rightarrow> string \<Rightarrow> 'c \<Rightarrow> oob_notes res \<times> 'c"
  network_to_string :: "network \<Rightarrow> string"
  mnemonic_to_string :: "mnemonic \<Rightarrow> bytes"
  mnemonic_from_string :: "bytes \<Rightarrow> mnemonic option"
  xpriv_new_master :: "network \<Rightarrow> mnemonic \<Rightarrow> string \<Rightarrow> xpriv"
  xpriv_network :: "xpriv \<Rightarrow> network_kind"
  xpriv_derive_hardened :: "xpriv \<Rightarrow> 32 word \<Rightarrow> hash32"
  entropy_root_secret :: "hash32 \<Rightarrow> root_secret"

section \<open>The view\<close>

record federation_view =
  view_federation_id :: federation_id
  view_name :: "string option"
  view_balance :: "64 word"

type_synonym wallet_view = "(federation_id \<times> federation_view) list"

definition display_federation_view :: "'c fedimint \<Rightarrow> federation_view \<Rightarrow> string" where
  "display_federation_view F v =
     (let name_or_id = (case view_name v of Some n \<Rightarrow> n | None \<Rightarrow> fid_to_string F (view_federation_id v)) in
      name_or_id @ '' ('' @ format_amount (view_balance v) @ '')'')"

text \<open>\<open>get_current_state\<close>: a failing balance makes the task panic.\<close>

fun get_current_state :: "'c fedimint \<Rightarrow> wallet_view \<Rightarrow> (federation_id \<times> 'c) list \<Rightarrow> wallet_view option" where
  "get_current_state F federations [] = Some federations"
| "get_current_state F federations ((fid, c) # cs) = (case client_balance F c of
       None \<Rightarrow> None
     | Some balance \<Rightarrow> get_current_state F (btree_insert fid
         \<lparr>view_federation_id = fid, view_name = client_name F c, view_balance = balance\<rparr> federations) cs)"

record view_task =
  last_state :: "wallet_view option"
  view_sent :: "wallet_view list"
  view_running :: bool
  view_acks :: nat

text \<open>
  One iteration of the loop of \<open>view_update_task\<close>: \<open>force\<close> says that a forced update woke
  it up, \<open>has_receivers\<close> that sending a view succeeds.
\<close>

definition view_task_step ::
    "'c fedimint \<Rightarrow> bool \<Rightarrow> bool \<Rightarrow> (federation_id \<times> 'c) list \<Rightarrow> view_task \<Rightarrow> view_task" where
  "view_task_step F force has_receivers cs t =
     (if \<not> view_running t then t
      else case get_current_state F [] cs of
        None \<Rightarrow> t\<lparr>view_running := False\<rparr>
      | Some current_state \<Rightarrow>
          let has_changed = (case last_state t of Some prev \<Rightarrow> current_state \<noteq> prev | None \<Rightarrow> True) in
          if has_changed \<and> \<not> has_receivers
          then t\<lparr>last_state := Some current_state, view_running := False\<rparr>
          else
            let t' = (if has_changed
                then t\<lparr>last_state := Some current_state, view_sent := view_sent t @ [current_state]\<rparr>
                else t) in
            if force then t'\<lparr>view_acks := view_acks t' + 1\<rparr> else t')"

section \<open>Locks and clients\<close>

definition lock_data_dir :: "(('d, 'z) node_scheme, unit) prog" where
  "lock_data_dir = await (ret ())"

definition lock_clients :: "(('d, 'c, 'z) wallet_node_scheme, (federation_id \<times> 'c) list) prog" where
  "lock_clients = await (\<lambda>s. (Ok (clients s), s))"

definition insert_client :: "federation_id \<Rightarrow> 'c \<Rightarrow> (('d, 'c, 'z) wallet_node_scheme, unit) prog" where
  "insert_client fid c = (\<lambda>s. (Ok (), s\<lparr>clients := AList.update fid c (clients s)\<rparr>))"

text \<open>\<open>HashMap::remove\<close>\<close>

definition take_client :: "federation_id \<Rightarrow> (('d, 'c, 'z) wallet_node_scheme, 'c option) prog" where
  "take_client fid = (\<lambda>s. (Ok (map_of (clients s) fid), s\<lparr>clients := AList.delete fid (clients s)\<rparr>))"

text \<open>A call on the client \<open>c\<close> of a federation while the clients are locked.\<close>

definition client_call ::
    "federation_id \<Rightarrow> 'c \<Rightarrow> ('c \<Rightarrow> 'a res \<times> 'c) \<Rightarrow> (('d, 'c, 'z) wallet_node_scheme, 'a) prog" where
  "client_call fid c f =
     await (\<lambda>s. case f c of (r, c') \<Rightarrow> (r, s\<lparr>clients := AList.update fid c' (clients s)\<rparr>))"

definition disk_call :: "(disk \<Rightarrow> 'a res \<times> disk) \<Rightarrow> (('d, 'z) node_scheme, 'a) prog" where
  "disk_call f = await (\<lambda>s. case f (disk s) of (r, d) \<Rightarrow> (r, s\<lparr>disk := d\<rparr>))"

text \<open>\<open>force_update_view\<close>: the request is sent, then its completion awaited; errors are ignored.\<close>

definition force_update_view :: "(('d, 'z) node_scheme, unit) prog" where
  "force_update_view = andThen (await (ret ())) (\<lambda>_. await (ret ()))"

text \<open>\<open>client.get_first_module::<..>().unwrap()\<close>\<close>

definition require_module :: "bool \<Rightarrow> ('s, unit) prog" where
  "require_module b = (if b then ret () else panic)"


section \<open>Secrets\<close>

definition MNEMONIC_PATH :: string where "MNEMONIC_PATH = ''mnemonic.txt''"
definition MNEMONIC_PASSWORD :: string where "MNEMONIC_PASSWORD = []"
definition DEFAULT_FEDERATION_PATH :: string where "DEFAULT_FEDERATION_PATH = ''default_federation.txt''"

definition coin_type_from_network :: "network_kind \<Rightarrow> 32 word" where
  "coin_type_from_network network_kind = (case network_kind of NetMain \<Rightarrow> 0 | NetTest \<Rightarrow> 1)"

text \<open>\<open>ChildNumber::from_hardened_idx\<close> rejects indices from \<open>2^31\<close> on, which the code does not expect.\<close>

definition get_root_secret :: "'c fedimint \<Rightarrow> xpriv \<Rightarrow> ('s, root_secret) prog" where
  "get_root_secret F xprivkey =
     (let idx = coin_type_from_network (xpriv_network F xprivkey) in
      if idx < 2 ^ 31 then ret (entropy_root_secret F (xpriv_derive_hardened F xprivkey idx)) else panic)"

section \<open>Building clients\<close>

definition build_client_connectors :: "'c fedimint \<Rightarrow> (('d, 'z) node_scheme, unit) prog" where
  "build_client_connectors F = await (lift_res (client_connectors F))"

definition build_client_from_invite_code ::
    "'c fedimint \<Rightarrow> root_secret \<Rightarrow> invite_code \<Rightarrow> path \<Rightarrow> (('d, 'z) node_scheme, 'c) prog" where
  "build_client_from_invite_code F root_secret invite_code db =
     andThen (await (\<lambda>s. (Ok (client_is_initialized F db (disk s)), s))) (\<lambda>is_initialized.
     andThen (await (lift_res (client_builder F))) (\<lambda>_.
     andThen (build_client_connectors F) (\<lambda>_.
     if is_initialized then disk_call (client_open F db root_secret)
     else
       andThen (await (lift_res (client_preview F invite_code))) (\<lambda>_.
       disk_call (client_join F invite_code db root_secret)))))"

definition build_client_from_federation_id ::
    "'c fedimint \<Rightarrow> root_secret \<Rightarrow> federation_id \<Rightarrow> path \<Rightarrow> (('d, 'z) node_scheme, 'c) prog" where
  "build_client_from_federation_id F root_secret federation_id db =
     andThen (await (\<lambda>s. (Ok (client_is_initialized F db (disk s)), s))) (\<lambda>is_initialized.
     andThen (await (lift_res (client_builder F))) (\<lambda>_.
     andThen (build_client_connectors F) (\<lambda>_.
     if is_initialized then disk_call (client_open F db root_secret)
     else fail (Message (''Federation with ID '' @ fid_to_string F federation_id @ '' is not initialized.'')))))"

section \<open>Joining and leaving federations\<close>

definition list_federation ::
    "'c fedimint \<Rightarrow> federation_id list \<Rightarrow> string \<Rightarrow> (('d, 'z) node_scheme, federation_id list) prog" where
  "list_federation F federation_ids os_name =
     andThen fs_next_entry (\<lambda>_.
     ret (case os_into_string os_name of
         None \<Rightarrow> federation_ids
       | Some federation_id_str \<Rightarrow> (case fid_from_string F federation_id_str of
           None \<Rightarrow> federation_ids
         | Some federation_id \<Rightarrow> federation_ids @ [federation_id])))"

definition connect_one ::
    "'c fedimint \<Rightarrow> root_secret \<Rightarrow> path \<Rightarrow> federation_id \<Rightarrow> (('d, 'c, 'z) wallet_node_scheme, unit) prog" where
  "connect_one F root_secret data_dir federation_id = (\<lambda>s.
     if map_of (clients s) federation_id \<noteq> None then ret () s
     else
       (let db = data_dir @ [fid_to_string F federation_id] in
        andThen (disk_call (rocksdb_open F db)) (\<lambda>_.
        andThen (build_client_from_federation_id F root_secret federation_id db) (\<lambda>client.
        insert_client federation_id client))) s)"

definition connect_to_joined_federations ::
    "'c fedimint \<Rightarrow> root_secret \<Rightarrow> path \<Rightarrow> (('d, 'c, 'z) wallet_node_scheme, unit) prog" where
  "connect_to_joined_federations F root_secret data_dir =
     andThen lock_data_dir (\<lambda>_.
     andThen (fs_read_dir data_dir) (\<lambda>names.
     andThen (for_fold (list_federation F) [] names) (\<lambda>federation_ids.
     andThen fs_next_entry (\<lambda>_.
     andThen lock_clients (\<lambda>_.
     andThen (for_each (connect_one F root_secret data_dir) federation_ids) (\<lambda>_.
     force_update_view))))))"

definition set_default_federation ::
    "'c fedimint \<Rightarrow> root_secret \<Rightarrow> path \<Rightarrow> invite_code \<Rightarrow> (('d, 'c, 'z) wallet_node_scheme, unit) prog" where
  "set_default_federation F root_secret data_dir invite_code =
     (let federation_id = invite_id F invite_code in
      andThen lock_data_dir (\<lambda>_.
      let federation_data_dir = data_dir @ [fid_to_string F federation_id] in
      andThen (path_is_dir federation_data_dir) (\<lambda>joined.
      andThen (if joined then ret ()
        else
          andThen (disk_call (rocksdb_open F federation_data_dir)) (\<lambda>_.
          andThen (build_client_from_invite_code F root_secret invite_code federation_data_dir) (\<lambda>client.
          andThen lock_clients (\<lambda>_.
          andThen (insert_client federation_id client) (\<lambda>_.
          force_update_view))))) (\<lambda>_.
      andThen (fs_write (data_dir @ [DEFAULT_FEDERATION_PATH]) (invite_to_string F invite_code)) (\<lambda>_.
      ret ())))))"

text \<open>\<open>str::trim\<close>: the UTF-8 encodings of the characters with the property White_Space.\<close>

definition whitespace :: "bytes list" where
  "whitespace = [[9], [10], [11], [12], [13], [32], [0xC2, 0x85], [0xC2, 0xA0], [0xE1, 0x9A, 0x80]] @
     map (\<lambda>b. [0xE2, 0x80, b]) [0x80, 0x81, 0x82, 0x83, 0x84, 0x85, 0x86, 0x87, 0x88, 0x89, 0x8A, 0xA8, 0xA9, 0xAF] @
     [[0xE2, 0x81, 0x9F], [0xE3, 0x80, 0x80]]"

function trim_start :: "bytes list \<Rightarrow> bytes \<Rightarrow> bytes" where
  "trim_start ws s = (case find (\<lambda>w. w \<noteq> [] \<and> prefix w s) ws of
       None \<Rightarrow> s
     | Some w \<Rightarrow> trim_start ws (drop (length w) s))"
  by auto
termination
  by (relation "measure (\<lambda>(_, s). length s)") (auto simp: find_Some_iff prefix_def)

declare trim_start.simps [simp del]

definition str_trim :: "bytes \<Rightarrow> bytes" where
  "str_trim s = rev (trim_start (map rev whitespace) (rev (trim_start whitespace s)))"

definition get_default_federation ::
    "'c fedimint \<Rightarrow> path \<Rightarrow> (('d, 'z) node_scheme, invite_code option) prog" where
  "get_default_federation F data_dir =
     andThen lock_data_dir (\<lambda>_.
     let default_path = data_dir @ [DEFAULT_FEDERATION_PATH] in
     andThen (path_exists default_path) (\<lambda>there.
     if \<not> there then ret None
     else
       andThen (fs_read_to_string default_path) (\<lambda>invite_str.
       case invite_from_string F (str_trim invite_str) of
         Some invite \<Rightarrow> ret (Some invite)
       | None \<Rightarrow> fail (Io InvalidData))))"

definition leave_federation ::
    "'c fedimint \<Rightarrow> path \<Rightarrow> federation_id \<Rightarrow> (('d, 'c, 'z) wallet_node_scheme, unit) prog" where
  "leave_federation F data_dir federation_id =
     andThen lock_clients (\<lambda>_.
     andThen (take_client federation_id) (\<lambda>client_or.
     andThen (case client_or of
         None \<Rightarrow> ret ()
       | Some client \<Rightarrow>
           andThen (await (unwrap (client_balance F client))) (\<lambda>balance.
           if balance \<noteq> 0 then
             andThen (insert_client federation_id client) (\<lambda>_.
             fail (Message (''Cannot leave federation with non-zero balance: '' @ fid_to_string F federation_id)))
           else
             andThen (await (ret ())) (\<lambda>_.
             andThen lock_data_dir (\<lambda>_.
             let federation_data_dir = data_dir @ [fid_to_string F federation_id] in
             andThen (path_is_dir federation_data_dir) (\<lambda>there.
             if there then fs_remove_dir_all federation_data_dir else ret ()))))) (\<lambda>_.
     force_update_view)))"


section \<open>Payments\<close>

definition not_found :: "'c fedimint \<Rightarrow> federation_id \<Rightarrow> error" where
  "not_found F fid = Message (''Client for federation '' @ fid_to_string F fid @ '' not found'')"

definition get_lnv2_claim_pubkey ::
    "'c fedimint \<Rightarrow> federation_id \<Rightarrow> (('d, 'c, 'z) wallet_node_scheme, public_key option) prog" where
  "get_lnv2_claim_pubkey F federation_id =
     andThen lock_clients (\<lambda>cs.
     case map_of cs federation_id of
       None \<Rightarrow> ret None
     | Some client \<Rightarrow>
         andThen (require_module (has_lightning F client)) (\<lambda>_.
         ret (Some (ln_public_key F client))))"

definition wallet_receive_payment ::
    "'c fedimint \<Rightarrow> federation_id \<Rightarrow> public_key \<Rightarrow> 64 word \<Rightarrow> 32 word \<Rightarrow> string \<Rightarrow> string option \<Rightarrow>
     (('d, 'c, 'z) wallet_node_scheme, bolt11_invoice \<times> operation_id) prog" where
  "wallet_receive_payment F federation_id claimer amount expiry_secs description gateway =
     andThen lock_clients (\<lambda>cs.
     andThen (ok_or (not_found F federation_id) (map_of cs federation_id)) (\<lambda>client.
     andThen (require_module (has_lightning F client)) (\<lambda>_.
     client_call federation_id client
       (ln_remote_receive F claimer amount expiry_secs description gateway))))"

text \<open>The loop over the clients of \<open>await_receive_payment_final_state\<close>.\<close>

fun await_operation ::
    "'c fedimint \<Rightarrow> operation_id \<Rightarrow> (federation_id \<times> 'c) list \<Rightarrow>
     (('d, 'c, 'z) wallet_node_scheme, final_state) prog" where
  "await_operation F op [] = fail (Message ''Client not found containing operation id'')"
| "await_operation F op ((fid, client) # cs) =
     andThen (await (ret (operation_exists F op client))) (\<lambda>found.
     if found then
       andThen (require_module (has_lightning F client)) (\<lambda>_.
       client_call fid client (ln_await_remote_receive F op))
     else await_operation F op cs)"

definition wallet_await_receive_payment_final_state ::
    "'c fedimint \<Rightarrow> operation_id \<Rightarrow> (('d, 'c, 'z) wallet_node_scheme, final_state) prog" where
  "wallet_await_receive_payment_final_state F op =
     andThen lock_clients (\<lambda>cs. await_operation F op cs)"

definition get_local_balance :: "'c fedimint \<Rightarrow> (('d, 'c, 'z) wallet_node_scheme, 64 word) prog" where
  "get_local_balance F =
     andThen lock_clients (\<lambda>cs.
     for_fold (\<lambda>balance x. case x of (_, client) \<Rightarrow>
       andThen (await (unwrap (client_balance F client))) (\<lambda>b.
       unwrap (amount_add F balance b))) 0 cs)"

definition sweep_all_ecash_notes ::
    "'c fedimint \<Rightarrow> federation_id \<Rightarrow> nat \<Rightarrow> bool \<Rightarrow> string \<Rightarrow>
     (('d, 'c, 'z) wallet_node_scheme, oob_notes option) prog" where
  "sweep_all_ecash_notes F federation_id try_cancel_after include_invite extra_meta =
     andThen lock_clients (\<lambda>cs.
     andThen (ok_or (not_found F federation_id) (map_of cs federation_id)) (\<lambda>client.
     andThen (require_module (has_mint F client)) (\<lambda>_.
     andThen (await (ret (mint_total F client))) (\<lambda>ecash_balance.
     if ecash_balance = 0 then ret None
     else
       andThen (client_call federation_id client
         (mint_spend_exact F ecash_balance try_cancel_after include_invite extra_meta)) (\<lambda>oob_notes.
       ret (Some oob_notes))))))"

definition wallet_get_claimable_contracts ::
    "'c fedimint \<Rightarrow> federation_id \<Rightarrow> public_key \<Rightarrow> nat option \<Rightarrow>
     (('d, 'c, 'z) wallet_node_scheme, claimable_contract list option) prog" where
  "wallet_get_claimable_contracts F federation_id claimer limit_or =
     andThen lock_clients (\<lambda>cs.
     case map_of cs federation_id of
       None \<Rightarrow> ret None
     | Some client \<Rightarrow>
         andThen (require_module (has_lightning F client)) (\<lambda>_.
         andThen (await (ret (ln_claimable F claimer limit_or client))) (\<lambda>contracts.
         ret (Some contracts))))"

definition remove_claimed_contracts ::
    "'c fedimint \<Rightarrow> federation_id \<Rightarrow> contract_id list \<Rightarrow> (('d, 'c, 'z) wallet_node_scheme, unit) prog" where
  "remove_claimed_contracts F federation_id contract_ids =
     andThen lock_clients (\<lambda>cs.
     case map_of cs federation_id of
       None \<Rightarrow> ret ()
     | Some client \<Rightarrow>
         andThen (require_module (has_lightning F client)) (\<lambda>_.
         client_call federation_id client (\<lambda>c. (Ok (), ln_remove_claimed F contract_ids c))))"

definition claim_contracts ::
    "'c fedimint \<Rightarrow> federation_id \<Rightarrow> claimable_contract list \<Rightarrow> (('d, 'c, 'z) wallet_node_scheme, unit) prog" where
  "claim_contracts F federation_id claimable_contracts =
     andThen lock_clients (\<lambda>cs.
     case map_of cs federation_id of
       None \<Rightarrow> fail (Message ''Client not found'')
     | Some client \<Rightarrow>
         andThen (require_module (has_lightning F client)) (\<lambda>_.
         client_call federation_id client (ln_claim F claimable_contracts)))"

section \<open>Opening the wallet\<close>

text \<open>
  \<open>Wallet::new\<close>; \<open>fresh\<close> is the mnemonic that would be generated. A stored mnemonic that
  does not parse panics.
\<close>

definition wallet_new ::
    "'c fedimint \<Rightarrow> path \<Rightarrow> network \<Rightarrow> mnemonic \<Rightarrow> (('d, 'c, 'z) wallet_node_scheme, root_secret) prog" where
  "wallet_new F data_dir net fresh =
     andThen (fs_create_dir_all data_dir) (\<lambda>_.
     andThen (\<lambda>s. (Ok (), s\<lparr>clients := []\<rparr>)) (\<lambda>_.
     let mnemonic_path = data_dir @ [MNEMONIC_PATH] in
     andThen (fs_try_exists mnemonic_path) (\<lambda>there.
     andThen (if there then ret () else fs_write mnemonic_path (mnemonic_to_string F fresh)) (\<lambda>_.
     andThen (fs_read_to_string mnemonic_path) (\<lambda>mnemonic_string.
     andThen (unwrap (mnemonic_from_string F mnemonic_string)) (\<lambda>mn.
     let xprivkey = xpriv_new_master F net mn MNEMONIC_PASSWORD in
     andThen (get_root_secret F xprivkey) (\<lambda>root_secret.
     andThen (connect_to_joined_federations F root_secret data_dir) (\<lambda>_.
     ret root_secret))))))))"

section \<open>What the clients promise\<close>

text \<open>
  A view of a client: the contracts it holds for later claiming, and the ones it has
  claimed. Claiming is remembered, and only the contracts that are named are removed.
\<close>

record 'c client_view =
  holds_contract :: "'c \<Rightarrow> contract_id \<Rightarrow> bool"
  has_claimed :: "'c \<Rightarrow> contract_id \<Rightarrow> bool"

definition client_contract ::
    "'c fedimint \<Rightarrow> (claimable_contract \<Rightarrow> contract_id) \<Rightarrow> 'c client_view \<Rightarrow> bool" where
  "client_contract F cid W \<longleftrightarrow>
     (\<forall>ccs c r c'. ln_claim F ccs c = (r, c') \<longrightarrow>
        (\<forall>i. has_claimed W c i \<longrightarrow> has_claimed W c' i) \<and>
        (r = Ok () \<longrightarrow> (\<forall>cc \<in> set ccs. has_claimed W c' (cid cc)))) \<and>
     (\<forall>ids c i. holds_contract W c i \<longrightarrow> i \<notin> set ids \<longrightarrow> holds_contract W (ln_remove_claimed F ids c) i) \<and>
     (\<forall>pk c cc. cc \<in> set (ln_claimable F pk None c) \<longrightarrow> holds_contract W c (cid cc))"


section \<open>The view is the clients\<close>

definition view_of :: "'c fedimint \<Rightarrow> federation_id \<Rightarrow> 'c \<Rightarrow> federation_view" where
  "view_of F fid c = \<lparr>view_federation_id = fid, view_name = client_name F c,
     view_balance = the (client_balance F c)\<rparr>"

lemma get_current_state_spec:
  assumes "get_current_state F v cs = Some v'" and "distinct (map fst cs)" and "sorted_wrt (<) (map fst v)"
  shows "sorted_wrt (<) (map fst v')"
    and "map_of v' fid = (case map_of cs fid of Some c \<Rightarrow> Some (view_of F fid c) | None \<Rightarrow> map_of v fid)"
    and "(f, c) \<in> set cs \<Longrightarrow> client_balance F c \<noteq> None"
proof -
  have "sorted_wrt (<) (map fst v') \<and>
      (\<forall>fid. map_of v' fid = (case map_of cs fid of Some c \<Rightarrow> Some (view_of F fid c) | None \<Rightarrow> map_of v fid)) \<and>
      (\<forall>(f, c) \<in> set cs. client_balance F c \<noteq> None)"
    using assms
  proof (induction F v cs rule: get_current_state.induct)
    case (2 F v f c cs)
    then obtain b where b: "client_balance F c = Some b" by (auto split: option.splits)
    let ?v = "btree_insert f \<lparr>view_federation_id = f, view_name = client_name F c, view_balance = b\<rparr> v"
    have rest: "get_current_state F ?v cs = Some v'" using 2(2) b by simp
    from 2(3) have fresh: "map_of cs f = None" by (simp add: map_of_eq_None_iff)
    have "sorted_wrt (<) (map fst ?v)" using 2(4) by (rule sorted_btree_insert)
    note ih = 2(1) [OF b rest _ this]
    have d: "distinct (map fst cs)" using 2(3) by simp
    from ih [OF d] fresh b show ?case
      by (auto simp: map_of_btree_insert view_of_def split: option.splits)
  qed (auto split: option.splits)
  then show "sorted_wrt (<) (map fst v')"
    and "map_of v' fid = (case map_of cs fid of Some c \<Rightarrow> Some (view_of F fid c) | None \<Rightarrow> map_of v fid)"
    and "(f, c) \<in> set cs \<Longrightarrow> client_balance F c \<noteq> None" by auto
qed

text \<open>The messages sent so far: no view is sent twice in a row, and the last one is \<open>last_state\<close>.\<close>

definition view_task_inv :: "view_task \<Rightarrow> bool" where
  "view_task_inv t \<longleftrightarrow> successively (\<noteq>) (view_sent t) \<and>
     (view_running t \<longrightarrow> last_state t = (if view_sent t = [] then None else Some (last (view_sent t))))"

lemma view_task_step_inv: "view_task_inv t \<Longrightarrow> view_task_inv (view_task_step F force r cs t)"
  by (auto simp: view_task_inv_def view_task_step_def Let_def successively_append_iff split: option.splits if_splits)

lemma view_task_step_current:
  assumes "view_task_inv t" and "view_running (view_task_step F force r cs t)"
  shows "\<exists>v. get_current_state F [] cs = Some v \<and> view_sent (view_task_step F force r cs t) \<noteq> [] \<and>
    last (view_sent (view_task_step F force r cs t)) = v"
  using assms
  by (auto simp: view_task_inv_def view_task_step_def Let_def split: option.splits if_splits)

section \<open>The root secret\<close>

lemma coin_type_hardened: "coin_type_from_network k < 2 ^ 31"
  by (simp add: coin_type_from_network_def split: network_kind.split)

lemma get_root_secret_eq:
  "get_root_secret F x = ret (entropy_root_secret F (xpriv_derive_hardened F x (coin_type_from_network (xpriv_network F x))))"
  using coin_type_hardened [of "xpriv_network F x"] by (simp add: get_root_secret_def Let_def)

section \<open>The default federation\<close>

lemma lock_data_dir_Ok: "lock_data_dir s = (Ok u, s') \<Longrightarrow> \<exists>n. s' = s\<lparr>awaits_left := n\<rparr>"
  unfolding lock_data_dir_def by (erule suspend_cases) auto

lemma set_default_Ok:
  assumes "set_default_federation F rs dir code s = (Ok u, s')"
  shows "map_of (disk s') (dir @ [DEFAULT_FEDERATION_PATH]) = Some (File (invite_to_string F code))"
  using assms by (auto simp: set_default_federation_def Let_def andThen_Ok_iff dest: fs_write_OkD)

lemma path_is_dir_Ok:
  "path_is_dir p s = (Ok b, s') \<Longrightarrow> healthy s \<Longrightarrow> b = is_dir (disk s) p \<and> disk s' = disk s \<and> node.more s' = node.more s"
  by (auto simp: path_is_dir_def andThen_def next_io_def healthy_def split: list.splits)

lemma set_default_joined:
  assumes "set_default_federation F rs dir code s = (Ok u, s')" and "healthy s"
    and "is_dir (disk s) (dir @ [fid_to_string F (invite_id F code)])"
  shows "node.more s' = node.more s"
proof -
  obtain u1 s1 b s2 where l: "lock_data_dir s = (Ok u1, s1)"
    and d: "path_is_dir (dir @ [fid_to_string F (invite_id F code)]) s1 = (Ok b, s2)"
    and rest: "andThen (if b then ret ()
        else
          andThen (disk_call (rocksdb_open F (dir @ [fid_to_string F (invite_id F code)]))) (\<lambda>_.
          andThen (build_client_from_invite_code F rs code (dir @ [fid_to_string F (invite_id F code)])) (\<lambda>client.
          andThen lock_clients (\<lambda>_.
          andThen (insert_client (invite_id F code) client) (\<lambda>_.
          force_update_view))))) (\<lambda>_.
      andThen (fs_write (dir @ [DEFAULT_FEDERATION_PATH]) (invite_to_string F code)) (\<lambda>_.
      ret ())) s2 = (Ok u, s')"
    using assms(1) by (auto simp: set_default_federation_def Let_def andThen_Ok_iff)
  have l': "healthy s1" "disk s1 = disk s" "node.more s1 = node.more s"
    using lock_data_dir_Ok [OF l] assms(2) by (auto simp: healthy_def)
  note d' = path_is_dir_Ok [OF d l'(1)]
  with assms(3) l' rest obtain w where "fs_write (dir @ [DEFAULT_FEDERATION_PATH]) (invite_to_string F code) s2 = (Ok w, s')"
    by (auto simp: andThen_Ok_iff)
  then have "more_is (node.more s2) s'"
    using preservesD [OF more_fs(3)] by (fastforce simp: more_is_def)
  then show ?thesis using d' l' by (simp add: more_is_def)
qed

lemma set_default_joins:
  assumes "set_default_federation F rs dir code s = (Ok u, s')" and "healthy s"
    and "\<not> is_dir (disk s) (dir @ [fid_to_string F (invite_id F code)])"
  shows "map_of (clients s') (invite_id F code) \<noteq> None"
proof -
  obtain u1 s1 b s2 u2 s3 w where l: "lock_data_dir s = (Ok u1, s1)"
    and d: "path_is_dir (dir @ [fid_to_string F (invite_id F code)]) s1 = (Ok b, s2)"
    and j: "(if b then ret ()
        else
          andThen (disk_call (rocksdb_open F (dir @ [fid_to_string F (invite_id F code)]))) (\<lambda>_.
          andThen (build_client_from_invite_code F rs code (dir @ [fid_to_string F (invite_id F code)])) (\<lambda>client.
          andThen lock_clients (\<lambda>_.
          andThen (insert_client (invite_id F code) client) (\<lambda>_.
          force_update_view))))) s2 = (Ok u2, s3)"
    and wr: "fs_write (dir @ [DEFAULT_FEDERATION_PATH]) (invite_to_string F code) s3 = (Ok w, s')"
    using assms(1) by (auto simp: set_default_federation_def Let_def andThen_Ok_iff)
  have "healthy s1" "disk s1 = disk s"
    using lock_data_dir_Ok [OF l] assms(2) by (auto simp: healthy_def)
  then have "\<not> b" using path_is_dir_Ok [OF d] assms(3) by simp
  with j obtain c s4 u5 s5 where ins: "insert_client (invite_id F code) c s4 = (Ok u5, s5)"
    and f: "force_update_view s5 = (Ok u2, s3)" by (auto simp: andThen_Ok_iff)
  have "node.more s3 = node.more s5"
    using f by (auto simp: force_update_view_def andThen_Ok_iff elim!: suspend_cases)
  moreover have "node.more s' = node.more s3"
    using preservesD [OF more_fs(3) _ wr, of "node.more s3"] by (simp add: more_is_def)
  ultimately have "clients s' = clients s5" by (cases s'; cases s5; simp)
  then show ?thesis using ins by (auto simp: insert_client_def update_conv)
qed


lemma get_default_after_set:
  assumes "map_of (disk s) (dir @ [DEFAULT_FEDERATION_PATH]) = Some (File (invite_to_string F code))"
    and "utf8_valid (invite_to_string F code)"
    and "invite_from_string F (str_trim (invite_to_string F code)) = Some code"
    and "healthy s" and "get_default_federation F dir s = (r, s')"
  shows "r = Ok (Some code) \<or> r = Cancelled"
proof -
  let ?p = "dir @ [DEFAULT_FEDERATION_PATH]"
  obtain r1 s1 where l: "lock_data_dir s = (r1, s1)" by force
  then have s1: "r1 = Cancelled \<or> r1 = Ok () \<and> has_file ?p {invite_to_string F code} s1"
    unfolding lock_data_dir_def
    by (elim suspend_cases) (use assms(1,4) in \<open>auto simp: has_file_def healthy_def\<close>)
  show ?thesis
  proof (cases "r1 = Cancelled")
    case True
    with l assms(5) show ?thesis by (auto simp: get_default_federation_def andThen_eval)
  next
    case False
    with s1 have r1: "r1 = Ok ()" and f1: "has_file ?p {invite_to_string F code} s1" by simp_all
    obtain b s2 where ex: "path_exists ?p s1 = (Ok b, s2)"
      by (cases "io_script s1") (auto simp: path_exists_def next_io_def andThen_def)
    then have b: "b" and f2: "has_file ?p {invite_to_string F code} s2"
      using f1 by (auto simp: path_exists_def next_io_def andThen_def has_file_def healthy_def split: list.splits)
    obtain r3 s3 where rd: "fs_read_to_string ?p s2 = (r3, s3)" by force
    have "r3 = Ok (invite_to_string F code) \<or> r3 = Cancelled" using has_file_read [OF f2 _ rd] assms(2) by auto
    then show ?thesis
      using assms(3,5) l r1 ex b rd
      by (auto simp: get_default_federation_def Let_def andThen_eval)
  qed
qed

section \<open>Leaving a federation\<close>

text \<open>A federation with a balance cannot be left: the client is put back.\<close>

lemma leave_with_balance:
  assumes "map_of (clients s) fid = Some c" and "client_balance F c = Some b" and "b \<noteq> 0"
    and "leave_federation F dir fid s = (r, s')"
  shows "\<not> (\<exists>u. r = Ok u)" and "disk s' = disk s"
    and "r \<noteq> Cancelled \<Longrightarrow> map_of (clients s') = map_of (clients s)"
  using assms
  by (auto simp: leave_federation_def lock_clients_def take_client_def insert_client_def await_def andThen_def
      fail_def ret_def update_conv delete_conv fun_eq_iff split: option.splits nat.splits)

section \<open>Connecting to the joined federations\<close>

definition connected :: "federation_id \<Rightarrow> ('d, 'c, 'z) wallet_node_scheme \<Rightarrow> bool" where
  "connected fid s \<longleftrightarrow> map_of (clients s) fid \<noteq> None"

lemma stable_connected: "stable (connected fid)" "disk_free (connected fid)"
  by (simp_all add: stable_def disk_free_def connected_def)

lemma preserves_disk_call: "stable I \<Longrightarrow> disk_free I \<Longrightarrow> preserves I (disk_call f)"
  unfolding disk_call_def
  by (rule preserves_await) (auto simp: preserves_def disk_free_def split: prod.split)

lemma connected_insert: "preserves (connected fid) (insert_client f c)"
  by (auto simp: preserves_def insert_client_def connected_def update_conv)

lemma preserves_observe: "preserves I (\<lambda>s. (Ok (f s), s))"
  by (simp add: preserves_def)

lemma preserves_build:
  assumes "stable I" and "disk_free I"
  shows "preserves I (build_client_from_federation_id F rs fid db)"
    and "preserves I (build_client_from_invite_code F rs code db)"
  unfolding build_client_from_federation_id_def build_client_from_invite_code_def build_client_connectors_def
  by (intro preserves_andThen preserves_await preserves_observe preserves_lift_res preserves_if
      preserves_disk_call preserves_fail assms)+

lemma connect_one_connected:
  "preserves (connected fid) (connect_one F rs dir f)"
  "triple (\<lambda>_. True) (connect_one F rs dir fid) (\<lambda>_ s. True \<and> connected fid s) (\<lambda>_. True)"
proof -
  let ?b = "\<lambda>f. let db = dir @ [fid_to_string F f] in
        andThen (disk_call (rocksdb_open F db)) (\<lambda>_.
        andThen (build_client_from_federation_id F rs f db) (\<lambda>client. insert_client f client))"
  have unf: "connect_one F rs dir f s = (if map_of (clients s) f \<noteq> None then ret () s else ?b f s)" for f s
    by (simp add: connect_one_def)
  have "preserves (connected fid) (?b f)"
    unfolding Let_def
    by (intro preserves_andThen preserves_disk_call preserves_build stable_connected connected_insert)
  then show "preserves (connected fid) (connect_one F rs dir f)"
    by (auto simp: preserves_def unf ret_def)
  show "triple (\<lambda>_. True) (connect_one F rs dir fid) (\<lambda>_ s. True \<and> connected fid s) (\<lambda>_. True)"
    by (rule tripleI)
       (auto simp: unf connected_def Let_def andThen_Ok_iff insert_client_def update_conv split: if_splits)
qed

lemma list_federation_Ok:
  assumes "for_fold (list_federation F) ids names s = (Ok ids', s')"
    and "n \<in> set names" and "os_into_string n \<noteq> None" and "fid_from_string F n = Some fid"
  shows "fid \<in> set ids'"
proof -
  have mono: "x \<in> set acc \<Longrightarrow> for_fold (list_federation F) acc ns t = (Ok ids', t') \<Longrightarrow> x \<in> set ids'" for x acc ns t t'
  proof (induction ns arbitrary: acc t)
    case (Cons m ns)
    then obtain acc1 t1 where "list_federation F acc m t = (Ok acc1, t1)" and r: "for_fold (list_federation F) acc1 ns t1 = (Ok ids', t')"
      by (auto simp: andThen_Ok_iff)
    then have "x \<in> set acc1" using Cons.prems(1)
      by (auto simp: list_federation_def andThen_Ok_iff split: option.splits)
    then show ?case using Cons.IH r by blast
  qed simp
  from assms show ?thesis
  proof (induction names arbitrary: ids s)
    case (Cons m names)
    then obtain ids1 s1 where one: "list_federation F ids m s = (Ok ids1, s1)"
      and r: "for_fold (list_federation F) ids1 names s1 = (Ok ids', s')"
      by (auto simp: andThen_Ok_iff)
    show ?case
    proof (cases "n = m")
      case True
      then have "fid \<in> set ids1" using one Cons.prems(3,4)
        by (auto simp: list_federation_def andThen_Ok_iff os_into_string_def split: option.splits if_splits)
      then show ?thesis using mono r by blast
    next
      case False
      then show ?thesis using Cons.IH [OF r] Cons.prems by simp
    qed
  qed simp
qed

lemma connect_Ok:
  assumes "connect_to_joined_federations F rs dir s = (Ok u, s')"
    and "map_of (disk s) (dir @ [n]) \<noteq> None" and "os_into_string n \<noteq> None"
    and "fid_from_string F n = Some fid"
  shows "map_of (clients s') fid \<noteq> None"
proof -
  obtain u1 s1 names s2 ids s3 u4 s4 cs s5 u6 s6 where l: "lock_data_dir s = (Ok u1, s1)"
    and rd: "fs_read_dir dir s1 = (Ok names, s2)"
    and lp: "for_fold (list_federation F) [] names s2 = (Ok ids, s3)"
    and nx: "fs_next_entry s3 = (Ok u4, s4)" and lc: "lock_clients s4 = (Ok cs, s5)"
    and fe: "for_each (connect_one F rs dir) ids s5 = (Ok u6, s6)"
    and fu: "force_update_view s6 = (Ok u, s')"
    using assms(1) by (auto simp: connect_to_joined_federations_def andThen_Ok_iff)
  have d1: "disk s1 = disk s" using lock_data_dir_Ok [OF l] by auto
  have "names = dir_names (disk s) dir"
    using rd d1 unfolding fs_read_dir_def
    by (elim fs_op_cases) (auto simp: read_dir_op_def split: if_splits)
  moreover have "n \<in> set (dir_names (disk s) dir)"
  proof -
    obtain v where "(dir @ [n], v) \<in> set (disk s)" using assms(2) by (auto dest: map_of_SomeD)
    then show ?thesis by (force simp: dir_names_def intro!: image_eqI [of _ _ "dir @ [n]"])
  qed
  ultimately have "fid \<in> set ids" using list_federation_Ok [OF lp _ assms(3,4)] by simp
  then have "triple (\<lambda>_. True) (for_each (connect_one F rs dir) ids) (\<lambda>_ s. True \<and> connected fid s) (\<lambda>_. True)"
    by (intro for_each_reaches [OF _ _ _ connect_one_connected(2)])
       (simp_all add: connect_one_connected(1), simp add: preserves_def)
  from tripleD [OF this TrueI fe] have "connected fid s6" by simp
  moreover have "preserves (connected fid) force_update_view"
    unfolding force_update_view_def
    by (intro preserves_andThen preserves_await preserves_ret stable_connected)
  ultimately have "connected fid s'" using fu by (blast dest: preservesD)
  then show ?thesis by (simp add: connected_def)
qed


section \<open>Contracts held and claimed\<close>

lemma clients_of_more: "node.more s = node.more s' \<Longrightarrow> clients s = clients (s' :: ('d, 'c, 'z) wallet_node_scheme)"
  by (cases s; cases s'; simp)

definition contract_held ::
    "'c client_view \<Rightarrow> federation_id \<Rightarrow> contract_id \<Rightarrow> ('d, 'c, 'z) wallet_node_scheme \<Rightarrow> bool" where
  "contract_held W fid i s \<longleftrightarrow> (\<exists>c. map_of (clients s) fid = Some c \<and> holds_contract W c i)"

definition contract_claimed ::
    "'c client_view \<Rightarrow> federation_id \<Rightarrow> contract_id \<Rightarrow> ('d, 'c, 'z) wallet_node_scheme \<Rightarrow> bool" where
  "contract_claimed W fid i s \<longleftrightarrow> (\<exists>c. map_of (clients s) fid = Some c \<and> has_claimed W c i)"

text \<open>A step that only spends awaits and changes the clients.\<close>

definition wallet_only ::
    "('d, 'c, 'z) wallet_node_scheme \<Rightarrow> ('d, 'c, 'z) wallet_node_scheme \<Rightarrow> bool" where
  "wallet_only s s' \<longleftrightarrow> (\<exists>n cs. s' = s\<lparr>awaits_left := n, clients := cs\<rparr>)"

lemma wallet_onlyI: "s' = s\<lparr>awaits_left := n, clients := cs\<rparr> \<Longrightarrow> wallet_only s s'"
  unfolding wallet_only_def by blast

lemma wallet_only_views:
  assumes "wallet_only s s'"
  shows "disk s' = disk s" "engine s' = engine s" "io_script s' = io_script s"
  using assms by (auto simp: wallet_only_def)

lemma lock_clients_cases:
  assumes "lock_clients s = (r, s')"
  obtains "r = Cancelled" "s' = s" | n where "r = Ok (clients s)" "s' = s\<lparr>awaits_left := n\<rparr>"
proof -
  have "(r = Cancelled \<and> s' = s) \<or> (\<exists>n. r = Ok (clients s) \<and> s' = s\<lparr>awaits_left := n\<rparr>)"
  proof (cases "awaits_left s")
    case None
    then have "r = Ok (clients s)" "s' = s" using assms by (auto simp: lock_clients_def await_def)
    then have "r = Ok (clients s) \<and> s' = s\<lparr>awaits_left := None\<rparr>" using None by (simp add: awaits_left_same)
    then show ?thesis by blast
  next
    case (Some k)
    with assms show ?thesis by (cases k) (auto simp: lock_clients_def await_def)
  qed
  then show ?thesis using that by blast
qed

lemma client_call_cases:
  assumes "client_call fid c f s = (r, s')"
  obtains "r = Cancelled" "s' = s"
  | n c' where "f c = (r, c')" "s' = s\<lparr>awaits_left := n, clients := AList.update fid c' (clients s)\<rparr>"
proof -
  obtain r0 c' where f: "f c = (r0, c')" by force
  have "(r = Cancelled \<and> s' = s) \<or>
     (\<exists>n. f c = (r, c') \<and> s' = s\<lparr>awaits_left := n, clients := AList.update fid c' (clients s)\<rparr>)"
  proof (cases "awaits_left s")
    case None
    then have "s' = s\<lparr>awaits_left := None, clients := AList.update fid c' (clients s)\<rparr>" and "r = r0"
      using assms f awaits_left_same [of s None] by (auto simp: client_call_def await_def)
    with f show ?thesis by blast
  next
    case (Some k)
    then show ?thesis using assms f by (cases k) (auto simp: client_call_def await_def)
  qed
  then show ?thesis using that f by blast
qed

text \<open>An operation on the client of one federation: it does nothing, or is one call on the client.\<close>

definition keeps_state :: "('s, 'a) prog \<Rightarrow> bool" where
  "keeps_state p \<longleftrightarrow> (\<forall>s. snd (p s) = s)"

lemma ret_same: "keeps_state (ret x)" and fail_same: "keeps_state (fail e)"
  by (simp_all add: keeps_state_def ret_def fail_def)

lemma on_client_cases:
  assumes e: "keeps_state e"
    and run: "andThen lock_clients (\<lambda>cs. case map_of cs fid of
       None \<Rightarrow> e
     | Some client \<Rightarrow> andThen (require_module (has_lightning F client)) (\<lambda>_. client_call fid client f)) s = (r, s')"
  obtains (idle) n where "s' = s\<lparr>awaits_left := n\<rparr>" "r = Cancelled \<or> r = Panic \<or> map_of (clients s) fid = None"
  | (call) n c c' where "map_of (clients s) fid = Some c" "f c = (r, c')"
      "s' = s\<lparr>awaits_left := n, clients := AList.update fid c' (clients s)\<rparr>"
proof -
  obtain r1 s1 where l: "lock_clients s = (r1, s1)" by force
  have same: "s = s\<lparr>awaits_left := awaits_left s\<rparr>" by simp
  from l show ?thesis
  proof (cases rule: lock_clients_cases)
    case 1
    with run l have "r = Cancelled" "s' = s" by (auto simp: andThen_eval)
    with same show ?thesis by (intro idle [of "awaits_left s"]) simp_all
  next
    case (2 n)
    show ?thesis
    proof (cases "map_of (clients s) fid")
      case None
      then have "e s1 = (r, s')" using run l 2 by (simp add: andThen_eval)
      then have "s' = s1" using e by (metis keeps_state_def snd_conv)
      with 2 None show ?thesis by (intro idle [of n]) simp_all
    next
      case (Some c)
      show ?thesis
      proof (cases "has_lightning F c")
        case False
        then have "r = Panic" "s' = s1" using run l 2 Some
          by (auto simp: andThen_eval require_module_def)
        with 2 show ?thesis by (intro idle [of n]) simp_all
      next
        case True
        then have "client_call fid c f s1 = (r, s')" using run l 2 Some
          by (simp add: andThen_eval require_module_def)
        then show ?thesis
        proof (cases rule: client_call_cases)
          case 1
          with \<open>s1 = s\<lparr>awaits_left := n\<rparr>\<close> show ?thesis by (intro idle [of n]) simp_all
        next
          case (2 k c')
          then show ?thesis using Some \<open>s1 = s\<lparr>awaits_left := n\<rparr>\<close>
            by (intro call [of c c' k]) simp_all
        qed
      qed
    qed
  qed
qed

lemma claim_contracts_step:
  assumes w: "client_contract F cid W" and run: "claim_contracts F fid ccs s = (r, s')"
  shows "wallet_only s s'" and "contract_claimed W f i s \<Longrightarrow> contract_claimed W f i s'"
    and "r = Ok () \<Longrightarrow> cc \<in> set ccs \<Longrightarrow> contract_claimed W fid (cid cc) s'"
proof -
  have "wallet_only s s' \<and> (contract_claimed W f i s \<longrightarrow> contract_claimed W f i s') \<and>
      (r = Ok () \<longrightarrow> cc \<in> set ccs \<longrightarrow> contract_claimed W fid (cid cc) s')"
    using run unfolding claim_contracts_def
  proof (cases rule: on_client_cases [OF fail_same, consumes 1, case_names idle call])
    case (idle n)
    have "s' = s\<lparr>awaits_left := n, clients := clients s\<rparr>" using idle(1) by simp
    then have o: "wallet_only s s'" by (rule wallet_onlyI)
    have "r \<noteq> Ok ()"
      using idle run by (auto simp: claim_contracts_def andThen_Ok_iff fail_def elim!: lock_clients_cases)
    with o idle(1) show ?thesis by (simp add: contract_claimed_def)
  next
    case (call n c c')
    from w call(2) have keep: "\<forall>i. has_claimed W c i \<longrightarrow> has_claimed W c' i"
      and ok: "r = Ok () \<longrightarrow> (\<forall>cc \<in> set ccs. has_claimed W c' (cid cc))"
      unfolding client_contract_def by blast+
    have "wallet_only s s'" using call(3) by (rule wallet_onlyI)
    moreover have "contract_claimed W f i s'" if "contract_claimed W f i s"
      using that keep call(1,3) by (auto simp: contract_claimed_def update_conv)
    moreover have "contract_claimed W fid (cid cc) s'" if "r = Ok ()" "cc \<in> set ccs"
      using that ok call(3) by (auto simp: contract_claimed_def update_conv)
    ultimately show ?thesis by blast
  qed
  then show "wallet_only s s'" and "contract_claimed W f i s \<Longrightarrow> contract_claimed W f i s'"
    and "r = Ok () \<Longrightarrow> cc \<in> set ccs \<Longrightarrow> contract_claimed W fid (cid cc) s'" by blast+
qed

lemma remove_claimed_step:
  assumes w: "client_contract F cid W" and run: "remove_claimed_contracts F fid ids s = (r, s')"
  shows "wallet_only s s'"
    and "contract_held W f i s \<Longrightarrow> f \<noteq> fid \<or> i \<notin> set ids \<Longrightarrow> contract_held W f i s'"
    and "map_of (clients s') f = None \<longleftrightarrow> map_of (clients s) f = None"
proof -
  have "wallet_only s s' \<and> (contract_held W f i s \<longrightarrow> f \<noteq> fid \<or> i \<notin> set ids \<longrightarrow> contract_held W f i s') \<and>
      (map_of (clients s') f = None \<longleftrightarrow> map_of (clients s) f = None)"
    using run unfolding remove_claimed_contracts_def
  proof (cases rule: on_client_cases [OF ret_same, consumes 1, case_names idle call])
    case (idle n)
    have "s' = s\<lparr>awaits_left := n, clients := clients s\<rparr>" using idle(1) by simp
    then have "wallet_only s s'" by (rule wallet_onlyI)
    with idle(1) show ?thesis by (simp add: contract_held_def)
  next
    case (call n c c')
    have c': "c' = ln_remove_claimed F ids c" using call(2) by simp
    have keep: "holds_contract W c' i" if "holds_contract W c i" "i \<notin> set ids"
      using w that unfolding client_contract_def c' by blast
    have "wallet_only s s'" using call(3) by (rule wallet_onlyI)
    moreover have "contract_held W f i s'" if "contract_held W f i s" "f \<noteq> fid \<or> i \<notin> set ids"
      using that keep call(1,3) by (auto simp: contract_held_def update_conv)
    moreover have "map_of (clients s') f = None \<longleftrightarrow> map_of (clients s) f = None"
      using call(1,3) by (simp add: update_conv)
    ultimately show ?thesis by blast
  qed
  then show "wallet_only s s'"
    and "contract_held W f i s \<Longrightarrow> f \<noteq> fid \<or> i \<notin> set ids \<Longrightarrow> contract_held W f i s'"
    and "map_of (clients s') f = None \<longleftrightarrow> map_of (clients s) f = None" by blast+
qed

section \<open>Joining keeps the clients that are there\<close>

text \<open>
  What the federation databases promise: a call on the database in \<open>db\<close> writes only below
  \<open>db\<close>, which stays a directory, and once a database has been opened its directory exists.
\<close>

definition confined :: "path \<Rightarrow> (disk \<Rightarrow> 'a res \<times> disk) \<Rightarrow> bool" where
  "confined db f \<longleftrightarrow> (\<forall>d r d'. dirs_exist d (butlast db) \<longrightarrow> f d = (r, d') \<longrightarrow>
     (\<forall>p. \<not> prefix db p \<longrightarrow> map_of d' p = map_of d p) \<and> (is_dir d db \<longrightarrow> is_dir d' db))"

definition database_contract :: "'c fedimint \<Rightarrow> bool" where
  "database_contract F \<longleftrightarrow>
     (\<forall>db. confined db (rocksdb_open F db)) \<and>
     (\<forall>db d u d'. rocksdb_open F db d = (Ok u, d') \<longrightarrow> is_dir d' db) \<and>
     (\<forall>db rs. confined db (client_open F db rs)) \<and>
     (\<forall>code db rs. confined db (client_join F code db rs))"

lemma database_contractD:
  assumes "database_contract F"
  shows "confined db (rocksdb_open F db)" and "rocksdb_open F db d = (Ok u, d') \<Longrightarrow> is_dir d' db"
    and "confined db (client_open F db rs)" and "confined db (client_join F code db rs)"
  using assms unfolding database_contract_def by blast+

lemma confinedD:
  assumes "confined (dir @ [n]) f" and "dirs_exist d dir" and "f d = (r, d')"
  shows "\<not> prefix (dir @ [n]) p \<Longrightarrow> map_of d' p = map_of d p"
    and "is_dir d (dir @ [n]) \<Longrightarrow> is_dir d' (dir @ [n])"
  using assms unfolding confined_def by auto

text \<open>The data directory exists, and so does the database directory of every client.\<close>

definition wallet_ready :: "'c fedimint \<Rightarrow> path \<Rightarrow> ('d, 'c, 'z) wallet_node_scheme \<Rightarrow> bool" where
  "wallet_ready F dir s \<longleftrightarrow> dirs_exist (disk s) dir \<and>
     (\<forall>fid. map_of (clients s) fid \<noteq> None \<longrightarrow> is_dir (disk s) (dir @ [fid_to_string F fid]))"

text \<open>
  \<open>wallet_grows F dir s0 s\<close>: from \<open>s0\<close> to \<open>s\<close> only the data directory changed, no client was
  replaced, and the wallet is ready.
\<close>

definition wallet_grows ::
    "'c fedimint \<Rightarrow> path \<Rightarrow> ('d, 'c, 'z) wallet_node_scheme \<Rightarrow> ('d, 'c, 'z) wallet_node_scheme \<Rightarrow> bool" where
  "wallet_grows F dir s0 s \<longleftrightarrow> engine s = engine s0 \<and> suffix (io_script s) (io_script s0) \<and>
     (\<forall>p. \<not> strict_prefix dir p \<longrightarrow> map_of (disk s) p = map_of (disk s0) p) \<and>
     map_of (clients s0) \<subseteq>\<^sub>m map_of (clients s) \<and> wallet_ready F dir s"

lemma stable_wallet_grows: "stable (wallet_grows F dir s0)"
  by (auto simp: stable_def wallet_grows_def wallet_ready_def intro: suffix_order.order_trans)

lemma dirs_exist_below:
  assumes "\<And>p. \<not> prefix (dir @ [n]) p \<Longrightarrow> map_of d' p = map_of d p" and "dirs_exist d dir"
  shows "dirs_exist d' dir"
proof (rule dirs_exist_cong [OF _ assms(2)])
  fix q assume "prefix q dir"
  then have "\<not> prefix (dir @ [n]) q" by (meson not_prefix_snoc prefix_order.order_trans)
  then show "map_of d' q = map_of d q" by (rule assms(1))
qed

lemma wallet_grows_disk:
  assumes g: "wallet_grows F dir s0 s"
    and other: "\<And>p. \<not> prefix (dir @ [n]) p \<Longrightarrow> map_of d' p = map_of (disk s) p"
    and own: "is_dir (disk s) (dir @ [n]) \<Longrightarrow> is_dir d' (dir @ [n])"
  shows "wallet_grows F dir s0 (s\<lparr>disk := d'\<rparr>)"
proof -
  have "is_dir d' (dir @ [fid_to_string F fid])" if "map_of (clients s) fid \<noteq> None" for fid
  proof (cases "fid_to_string F fid = n")
    case True
    then show ?thesis using own g that by (auto simp: wallet_grows_def wallet_ready_def)
  next
    case False
    then show ?thesis using other [of "dir @ [fid_to_string F fid]"] g that
      by (auto simp: wallet_grows_def wallet_ready_def is_dir_def)
  qed
  moreover have "dirs_exist d' dir"
    using dirs_exist_below [OF other] g by (simp add: wallet_grows_def wallet_ready_def)
  moreover have "map_of d' p = map_of (disk s0) p" if "\<not> strict_prefix dir p" for p
  proof -
    have "\<not> prefix (dir @ [n]) p" using that by (auto simp: strict_prefix_def dest: append_prefixD)
    then show ?thesis using other that g by (simp add: wallet_grows_def)
  qed
  ultimately show ?thesis using g by (simp add: wallet_grows_def wallet_ready_def)
qed

lemma grows_fs_write: "preserves (wallet_grows F dir s0) (fs_write (dir @ [n]) b)"
  unfolding fs_write_def
proof (rule preserves_fs_op [OF stable_wallet_grows])
  fix s x r d
  assume "wallet_grows F dir s0 s" and run: "write_op (dir @ [n]) b x (disk s) = (r, d)"
  then show "wallet_grows F dir s0 (s\<lparr>disk := d\<rparr>)"
    by (rule_tac wallet_grows_disk [of F dir s0 s n d])
       (auto simp: write_op_def update_conv split: if_splits io_outcome.splits)
qed

text \<open>While a federation is being joined: it has no client yet, and maybe its directory.\<close>

definition joining ::
    "'c fedimint \<Rightarrow> path \<Rightarrow> ('d, 'c, 'z) wallet_node_scheme \<Rightarrow> federation_id \<Rightarrow> bool \<Rightarrow>
     ('d, 'c, 'z) wallet_node_scheme \<Rightarrow> bool" where
  "joining F dir s0 fid made s \<longleftrightarrow> wallet_grows F dir s0 s \<and> map_of (clients s) fid = None \<and>
     (made \<longrightarrow> is_dir (disk s) (dir @ [fid_to_string F fid]))"

lemma stable_joining: "stable (joining F dir s0 fid made)"
  using stable_wallet_grows [of F dir s0] by (auto simp: stable_def joining_def)

lemma joining_disk:
  assumes f: "confined (dir @ [fid_to_string F fid]) f" and j: "joining F dir s0 fid made s"
    and run: "f (disk s) = (r, d')"
  shows "joining F dir s0 fid made (s\<lparr>disk := d'\<rparr>)"
proof -
  have dirs: "dirs_exist (disk s) dir" and g: "wallet_grows F dir s0 s"
    using j by (simp_all add: joining_def wallet_grows_def wallet_ready_def)
  have "wallet_grows F dir s0 (s\<lparr>disk := d'\<rparr>)"
    by (rule wallet_grows_disk [OF g confinedD [OF f dirs run]])
  then show ?thesis using j confinedD(2) [OF f dirs run] by (simp add: joining_def)
qed

lemma joining_disk_call:
  "confined (dir @ [fid_to_string F fid]) f \<Longrightarrow> preserves (joining F dir s0 fid made) (disk_call f)"
  unfolding disk_call_def
  by (intro preserves_await stable_joining) (auto simp: preserves_def split: prod.split intro: joining_disk)

lemma joining_open:
  assumes "database_contract F"
  shows "triple (joining F dir s0 fid False) (disk_call (rocksdb_open F (dir @ [fid_to_string F fid])))
    (\<lambda>_. joining F dir s0 fid True) (joining F dir s0 fid False)"
proof (rule tripleI)
  fix s x s'
  assume j: "joining F dir s0 fid False s"
    and run: "disk_call (rocksdb_open F (dir @ [fid_to_string F fid])) s = (Ok x, s')"
  have "joining F dir s0 fid False s'"
    by (rule preservesD [OF joining_disk_call [OF database_contractD(1) [OF assms]] j run])
  moreover have "is_dir (disk s') (dir @ [fid_to_string F fid])"
    using run by (auto simp: disk_call_def await_Ok split: prod.splits dest: database_contractD(2) [OF assms])
  ultimately show "joining F dir s0 fid True s'" by (simp add: joining_def)
next
  fix s r s'
  assume "joining F dir s0 fid False s"
    and "disk_call (rocksdb_open F (dir @ [fid_to_string F fid])) s = (r, s')"
  then show "joining F dir s0 fid False s'"
    by (rule preservesD [OF joining_disk_call [OF database_contractD(1) [OF assms]]])
qed

lemma joining_build:
  assumes "database_contract F"
  shows "preserves (joining F dir s0 fid made)
    (build_client_from_invite_code F rs code (dir @ [fid_to_string F fid]))"
    and "preserves (joining F dir s0 fid made)
    (build_client_from_federation_id F rs fid' (dir @ [fid_to_string F fid]))"
  unfolding build_client_from_federation_id_def build_client_from_invite_code_def build_client_connectors_def
  by (intro preserves_andThen preserves_await stable_joining preserves_observe preserves_lift_res preserves_if
      joining_disk_call preserves_fail database_contractD [OF assms])+

lemma joining_insert:
  fixes s0 :: "('d, 'c, 'z) wallet_node_scheme"
  shows "triple (joining F dir s0 fid True) (insert_client fid c) (\<lambda>_. wallet_grows F dir s0) E"
proof (rule tripleI)
  fix s s' :: "('d, 'c, 'z) wallet_node_scheme" and x
  assume j: "joining F dir s0 fid True s" and run: "insert_client fid c s = (Ok x, s')"
  then show "wallet_grows F dir s0 s'"
    by (auto simp: insert_client_def joining_def wallet_grows_def wallet_ready_def update_conv map_le_def dom_def
        split: if_splits)
next
  fix s s' :: "('d, 'c, 'z) wallet_node_scheme" and r
  assume "insert_client fid c s = (r, s')" and "\<And>x. r \<noteq> Ok x"
  then show "E s'" by (simp add: insert_client_def)
qed

lemma joining_grows: "joining F dir s0 fid made s \<Longrightarrow> wallet_grows F dir s0 s"
  by (simp add: joining_def)

lemma grows_suspend:
  "preserves (wallet_grows F dir s0) lock_data_dir" "preserves (wallet_grows F dir s0) lock_clients"
  "preserves (wallet_grows F dir s0) force_update_view" "preserves (wallet_grows F dir s0) (path_is_dir p)"
  "preserves (wallet_grows F dir s0) fs_next_entry" "preserves (wallet_grows F dir s0) (fs_read_dir p)"
  unfolding lock_data_dir_def lock_clients_def force_update_view_def fs_next_entry_def fs_read_dir_def
  by (intro preserves_andThen preserves_await preserves_ret preserves_observe preserves_path_is_dir
        preserves_fs_op stable_wallet_grows; auto simp: read_dir_op_def wallet_grows_def wallet_ready_def)+

lemma joining_suspend:
  "preserves (joining F dir s0 fid made) lock_clients"
  unfolding lock_clients_def by (intro preserves_await stable_joining preserves_observe)

lemma join_grows:
  assumes d: "database_contract F"
  shows "triple (joining F dir s0 (invite_id F code) False)
     (andThen (disk_call (rocksdb_open F (dir @ [fid_to_string F (invite_id F code)]))) (\<lambda>_.
      andThen (build_client_from_invite_code F rs code (dir @ [fid_to_string F (invite_id F code)])) (\<lambda>client.
      andThen lock_clients (\<lambda>_.
      andThen (insert_client (invite_id F code) client) (\<lambda>_.
      force_update_view)))))
     (\<lambda>_. wallet_grows F dir s0) (wallet_grows F dir s0)"
  by (rule triple_seq [OF joining_open [OF d]], erule joining_grows,
      rule triple_seq [OF triple_preserves [OF joining_build(1) [OF d]]], assumption, erule joining_grows,
      rule triple_seq [OF triple_preserves [OF joining_suspend]], assumption, erule joining_grows,
      rule triple_seq [OF joining_insert [where E = "wallet_grows F dir s0"]], assumption,
      rule triple_preserves [OF grows_suspend(3)])

lemma triple_not_joined:
  "healthy s0 \<Longrightarrow> triple (wallet_grows F dir s0) (path_is_dir (dir @ [fid_to_string F fid]))
    (\<lambda>b s. if b then wallet_grows F dir s0 s else joining F dir s0 fid False s) (wallet_grows F dir s0)"
proof (rule tripleI)
  fix s b s'
  assume h: "healthy s0" and g: "wallet_grows F dir s0 s"
    and run: "path_is_dir (dir @ [fid_to_string F fid]) s = (Ok b, s')"
  have "healthy s" using h g by (auto simp: wallet_grows_def intro: healthy_suffix)
  with run have b: "b = is_dir (disk s) (dir @ [fid_to_string F fid])" and "disk s' = disk s"
    and "node.more s' = node.more s" by (auto dest: path_is_dir_Ok)
  then have same: "disk s' = disk s" "clients s' = clients s" by (cases s; cases s'; simp)+
  have "wallet_grows F dir s0 s'" using grows_suspend(4) g run by (rule preservesD)
  with b same show "if b then wallet_grows F dir s0 s' else joining F dir s0 fid False s'"
    by (auto simp: joining_def wallet_grows_def wallet_ready_def)
next
  fix s r s'
  assume "wallet_grows F dir s0 s" and "path_is_dir (dir @ [fid_to_string F fid]) s = (r, s')"
  then show "wallet_grows F dir s0 s'" by (rule preservesD [OF grows_suspend(4)])
qed

text \<open>Setting the default federation keeps every client: at most one is added.\<close>

lemma set_default_grows:
  assumes d: "database_contract F" and h: "healthy s" and w: "wallet_ready F dir s"
    and run: "set_default_federation F rs dir code s = (r, s')"
  shows "wallet_grows F dir s s'"
proof -
  have start: "wallet_grows F dir s s" using w by (simp add: wallet_grows_def)
  have "triple (wallet_grows F dir s) (set_default_federation F rs dir code)
      (\<lambda>_. wallet_grows F dir s) (wallet_grows F dir s)"
    unfolding set_default_federation_def Let_def
    by (rule triple_andThen [OF triple_preserves [OF grows_suspend(1)]], assumption,
        rule triple_andThen [OF triple_not_joined [OF h]],
        rule triple_andThen [where Q = "\<lambda>_. wallet_grows F dir s"],
        rule triple_if, rule triple_ret, simp,
        rule triple_weaken [OF join_grows [OF d]], simp, assumption, assumption,
        rule triple_andThen [OF triple_preserves [OF grows_fs_write]], assumption,
        rule triple_ret, assumption)
  from tripleD [OF this start run] show ?thesis by blast
qed

lemma connect_one_grows:
  assumes d: "database_contract F"
  shows "preserves (wallet_grows F dir s0) (connect_one F rs dir fid)"
proof (rule preservesI)
  fix s r s'
  assume g: "wallet_grows F dir s0 s" and run: "connect_one F rs dir fid s = (r, s')"
  let ?join = "andThen (disk_call (rocksdb_open F (dir @ [fid_to_string F fid]))) (\<lambda>_.
      andThen (build_client_from_federation_id F rs fid (dir @ [fid_to_string F fid])) (\<lambda>client.
      insert_client fid client))"
  show "wallet_grows F dir s0 s'"
  proof (cases "map_of (clients s) fid")
    case (Some c)
    with run g show ?thesis by (simp add: connect_one_def ret_def)
  next
    case None
    then have "joining F dir s0 fid False s" and "?join s = (r, s')"
      using g run by (simp_all add: joining_def connect_one_def Let_def)
    moreover have "triple (joining F dir s0 fid False) ?join (\<lambda>_. wallet_grows F dir s0) (wallet_grows F dir s0)"
      by (rule triple_seq [OF joining_open [OF d]], erule joining_grows,
          rule triple_seq [OF triple_preserves [OF joining_build(2) [OF d]]], assumption, erule joining_grows,
          rule joining_insert)
    ultimately show ?thesis by (blast dest: tripleD)
  qed
qed

lemma connect_grows:
  assumes "database_contract F"
  shows "preserves (wallet_grows F dir s0) (connect_to_joined_federations F rs dir)"
  unfolding connect_to_joined_federations_def list_federation_def
  by (intro preserves_andThen preserves_for_fold preserves_for_each grows_suspend preserves_ret connect_one_grows assms)

section \<open>Opening the wallet\<close>

text \<open>The secret that a mnemonic stands for.\<close>

definition secret_of_mnemonic :: "'c fedimint \<Rightarrow> network \<Rightarrow> mnemonic \<Rightarrow> root_secret" where
  "secret_of_mnemonic F net mn =
     (let x = xpriv_new_master F net mn MNEMONIC_PASSWORD in
      entropy_root_secret F (xpriv_derive_hardened F x (coin_type_from_network (xpriv_network F x))))"

lemma wallet_new_parts:
  assumes "wallet_new F dir net fresh s = (Ok rs, s')"
  obtains s1 there s2 s3 str mn s4 u5
  where "fs_create_dir_all dir s = (Ok (), s1)" "fs_try_exists (dir @ [MNEMONIC_PATH]) (s1\<lparr>clients := []\<rparr>) = (Ok there, s2)"
    "(if there then ret () else fs_write (dir @ [MNEMONIC_PATH]) (mnemonic_to_string F fresh)) s2 = (Ok (), s3)"
    "fs_read_to_string (dir @ [MNEMONIC_PATH]) s3 = (Ok str, s4)" "mnemonic_from_string F str = Some mn"
    "rs = secret_of_mnemonic F net mn" "connect_to_joined_federations F rs dir s4 = (Ok u5, s')"
  using assms
  by (auto simp: wallet_new_def Let_def prog_Ok_iffs get_root_secret_eq secret_of_mnemonic_def)

text \<open>A started wallet is ready: its data directory and its clients' directories exist.\<close>

lemma wallet_start_grows:
  assumes parts: "fs_create_dir_all dir s = (Ok (), s1)"
    "fs_try_exists (dir @ [MNEMONIC_PATH]) (s1\<lparr>clients := []\<rparr>) = (Ok there, s2)"
    "(if there then ret () else fs_write (dir @ [MNEMONIC_PATH]) (mnemonic_to_string F fresh)) s2 = (Ok (), s3)"
    "fs_read_to_string (dir @ [MNEMONIC_PATH]) s3 = (Ok str, s4)"
  shows "wallet_grows F dir (s1\<lparr>clients := []\<rparr>) s4"
proof -
  let ?s = "s1\<lparr>clients := []\<rparr>"
  have g1: "wallet_grows F dir ?s ?s"
    using fs_create_dir_all_Ok [OF parts(1)] by (simp add: wallet_grows_def wallet_ready_def)
  have "preserves (wallet_grows F dir ?s) (fs_try_exists (dir @ [MNEMONIC_PATH]))"
    unfolding fs_try_exists_def by (rule preserves_fs_op [OF stable_wallet_grows]) auto
  then have g2: "wallet_grows F dir ?s s2" using g1 parts(2) by (rule preservesD)
  have "wallet_grows F dir ?s s3"
    using preservesD [OF grows_fs_write g2] parts(3) g2 by (cases there) auto
  moreover have "preserves (wallet_grows F dir ?s) (fs_read_to_string (dir @ [MNEMONIC_PATH]))"
    unfolding fs_read_to_string_def fs_read_def
    by (intro preserves_andThen preserves_fs_op stable_wallet_grows preserves_if preserves_ret preserves_fail)
       (auto dest: read_op_disk)
  ultimately show ?thesis using parts(4) by (blast dest: preservesD)
qed

lemma wallet_new_ready:
  assumes d: "database_contract F" and run: "wallet_new F dir net fresh s = (Ok rs, s')"
  shows "wallet_ready F dir s'"
  using run
proof (cases rule: wallet_new_parts)
  case (1 s1 there s2 s3 str mn s4 u5)
  have "wallet_grows F dir (s1\<lparr>clients := []\<rparr>) s'"
    by (rule preservesD [OF connect_grows [OF d] wallet_start_grows [OF 1(1-4)] 1(7)])
  then show ?thesis by (simp add: wallet_grows_def)
qed

text \<open>The root secret depends only on the mnemonic that is stored, not on the one generated now.\<close>

lemma wallet_new_secret:
  assumes "map_of (disk s) (dir @ [MNEMONIC_PATH]) = Some (File b)" and "mnemonic_from_string F b = Some mn"
    and run: "wallet_new F dir net fresh s = (Ok rs, s')"
  shows "rs = secret_of_mnemonic F net mn"
  using run
proof (cases rule: wallet_new_parts)
  case (1 s1 there s2 s3 str mn' s4 u5)
  let ?p = "dir @ [MNEMONIC_PATH]"
  have "map_of (disk s1) ?p = Some (File b)"
    using fs_create_dir_all_keeps [OF 1(1)] assms(1) by simp
  then have there: "there" and f2: "map_of (disk s2) ?p = Some (File b)"
    using 1(2) unfolding fs_try_exists_def by (elim fs_op_cases; auto split: if_splits)+
  with 1(3) have "s3 = s2" by simp
  with f2 1(4) have "str = b" by (auto dest: fs_read_to_string_Ok)
  with assms(2) 1(5,6) show ?thesis by simp
qed

text \<open>A wallet that started left behind a mnemonic from which it starts with the same secret.\<close>

lemma wallet_new_fresh:
  assumes "map_of (disk s) (dir @ [MNEMONIC_PATH]) = None" and "mnemonic_from_string F (mnemonic_to_string F fresh) = Some fresh"
    and h: "healthy s" and run: "wallet_new F dir net fresh s = (Ok rs, s')"
  shows "rs = secret_of_mnemonic F net fresh"
  using run
proof (cases rule: wallet_new_parts)
  case (1 s1 there s2 s3 str mn' s4 u5)
  let ?p = "dir @ [MNEMONIC_PATH]"
  have "map_of (disk s1) ?p = None"
    using fs_create_dir_all_other [OF 1(1), of ?p] assms(1) by simp
  then have "\<not> there"
    using 1(2) unfolding fs_try_exists_def by (elim fs_op_cases; auto split: if_splits)
  with 1(3) have "map_of (disk s3) ?p = Some (File (mnemonic_to_string F fresh))"
    by (auto dest: fs_write_OkD)
  with 1(4) have "str = mnemonic_to_string F fresh" by (auto dest: fs_read_to_string_Ok)
  with assms(2) 1(5,6) show ?thesis by simp
qed

text \<open>Connecting leaves every other entry of the data directory alone.\<close>

definition entry_is :: "path \<Rightarrow> string \<Rightarrow> fs_node option \<Rightarrow> ('d, 'z) node_scheme \<Rightarrow> bool" where
  "entry_is dir n x s \<longleftrightarrow> dirs_exist (disk s) dir \<and> map_of (disk s) (dir @ [n]) = x"

lemma stable_entry_is: "stable (entry_is dir n x)"
  by (simp add: stable_def entry_is_def)

lemma entry_is_disk_call:
  assumes f: "confined (dir @ [k]) f" and n: "k \<noteq> n"
  shows "preserves (entry_is dir n x) (disk_call f)"
  unfolding disk_call_def
proof (intro preserves_await stable_entry_is preservesI)
  fix s r s'
  assume e: "entry_is dir n x s" and run: "(case f (disk s) of (r, d) \<Rightarrow> (r, s\<lparr>disk := d\<rparr>)) = (r, s')"
  obtain r' d where fd: "f (disk s) = (r', d)" by force
  have dirs: "dirs_exist (disk s) dir" using e by (simp add: entry_is_def)
  note other = confinedD(1) [OF f dirs fd]
  have "\<not> prefix (dir @ [k]) (dir @ [n])" using n by simp
  then have "map_of d (dir @ [n]) = map_of (disk s) (dir @ [n])" by (rule other)
  then show "entry_is dir n x s'"
    using e run fd dirs_exist_below [OF other dirs] by (auto simp: entry_is_def)
qed

lemma entry_is_connect_one:
  assumes d: "database_contract F" and n: "fid_to_string F fid \<noteq> n"
  shows "preserves (entry_is dir n x) (connect_one F rs dir fid)"
proof -
  have "preserves (entry_is dir n x) (insert_client fid c)" for c
    by (rule preservesI) (auto simp: insert_client_def entry_is_def)
  then have "preserves (entry_is dir n x) (andThen (disk_call (rocksdb_open F (dir @ [fid_to_string F fid]))) (\<lambda>_.
      andThen (build_client_from_federation_id F rs fid (dir @ [fid_to_string F fid])) (\<lambda>client.
      insert_client fid client)))"
    unfolding build_client_from_federation_id_def build_client_connectors_def
    by (intro preserves_andThen preserves_await stable_entry_is preserves_observe preserves_lift_res preserves_if
        entry_is_disk_call [OF _ n] preserves_fail database_contractD [OF d])
  then show ?thesis
    by (intro preservesI) (auto simp: connect_one_def ret_def Let_def split: if_splits dest: preservesD)
qed

lemma entry_is_connect:
  assumes d: "database_contract F" and n: "\<And>fid. fid_to_string F fid \<noteq> n"
  shows "preserves (entry_is dir n x) (connect_to_joined_federations F rs dir)"
  unfolding connect_to_joined_federations_def list_federation_def lock_data_dir_def lock_clients_def force_update_view_def
    fs_next_entry_def fs_read_dir_def
  by (intro preserves_andThen preserves_for_fold preserves_for_each preserves_await preserves_ret preserves_observe
        preserves_fs_op stable_entry_is entry_is_connect_one d n)
     (auto simp: read_dir_op_def)

text \<open>So a started wallet leaves behind the mnemonic that its root secret comes from.\<close>

lemma wallet_new_stored:
  assumes d: "database_contract F" and n: "\<And>fid. fid_to_string F fid \<noteq> MNEMONIC_PATH"
    and run: "wallet_new F dir net fresh s = (Ok rs, s')"
  obtains b mn where "map_of (disk s') (dir @ [MNEMONIC_PATH]) = Some (File b)" "mnemonic_from_string F b = Some mn"
    "rs = secret_of_mnemonic F net mn"
  using run
proof (cases rule: wallet_new_parts)
  case (1 s1 there s2 s3 str mn s4 u5)
  have "map_of (disk s4) (dir @ [MNEMONIC_PATH]) = Some (File str)"
    using fs_read_to_string_Ok [OF 1(4)] by auto
  moreover have "dirs_exist (disk s4) dir"
    using wallet_start_grows [OF 1(1-4)] by (simp add: wallet_grows_def wallet_ready_def)
  ultimately have "entry_is dir MNEMONIC_PATH (Some (File str)) s4" by (simp add: entry_is_def)
  then have "entry_is dir MNEMONIC_PATH (Some (File str)) s'"
    using 1(7) by (rule preservesD [OF entry_is_connect [OF d n]])
  then show thesis using 1(5,6) that by (simp add: entry_is_def)
qed

text \<open>Every joined federation has a client once the wallet has started.\<close>

lemma wallet_new_connects:
  assumes run: "wallet_new F dir net fresh s = (Ok rs, s')"
    and there: "map_of (disk s) (dir @ [n]) \<noteq> None" and n: "os_into_string n \<noteq> None" "fid_from_string F n = Some fid"
  shows "map_of (clients s') fid \<noteq> None"
  using run
proof (cases rule: wallet_new_parts)
  case (1 s1 there s2 s3 str mn s4 u5)
  obtain x where x: "map_of (disk s) (dir @ [n]) = Some x" using assms(2) by auto
  have "map_of (disk s1) (dir @ [n]) = Some x" using fs_create_dir_all_keeps [OF 1(1) x] .
  moreover have "disk s2 = disk s1" using 1(2) unfolding fs_try_exists_def by (elim fs_op_cases) auto
  ultimately have "map_of (disk s3) (dir @ [n]) \<noteq> None"
    using 1(3) fs_write_OkD [of "dir @ [MNEMONIC_PATH]" _ s2 "()" s3] fs_write_other [of "dir @ [MNEMONIC_PATH]" _ s2 "Ok ()" s3 "dir @ [n]"]
    by (cases "n = MNEMONIC_PATH") (auto split: if_splits)
  then have "map_of (disk s4) (dir @ [n]) \<noteq> None" using fs_read_to_string_Ok [OF 1(4)] by auto
  then show ?thesis using connect_Ok [OF 1(7) _ n] by simp
qed

section \<open>The local balance\<close>

lemma local_balance_loop:
  assumes add: "\<And>a b c. amount_add F a b = Some c \<Longrightarrow> unat c = unat a + unat b"
    and run: "for_fold (\<lambda>balance x. case x of (_, client) \<Rightarrow>
       andThen (await (unwrap (client_balance F client))) (\<lambda>b. unwrap (amount_add F balance b))) t0 cs s = (Ok t, s')"
  shows "unat t = unat t0 + (\<Sum>(fid, c) \<leftarrow> cs. unat (the (client_balance F c))) \<and>
    (\<forall>(fid, c) \<in> set cs. client_balance F c \<noteq> None)"
  using run
proof (induction cs arbitrary: t0 s)
  case (Cons x cs)
  obtain fid c where x: "x = (fid, c)" by (cases x)
  from Cons.prems obtain b t1 s1 where b: "client_balance F c = Some b" and t1: "amount_add F t0 b = Some t1"
    and rest: "for_fold (\<lambda>balance x. case x of (_, client) \<Rightarrow>
       andThen (await (unwrap (client_balance F client))) (\<lambda>b. unwrap (amount_add F balance b))) t1 cs s1 = (Ok t, s')"
    by (auto simp: x andThen_Ok_iff await_Ok unwrap_Ok_iff)
  from Cons.IH [OF rest] add [OF t1] b show ?case by (auto simp: x)
qed (simp add: ret_def)

lemma local_balance_sum:
  assumes "\<And>a b c. amount_add F a b = Some c \<Longrightarrow> unat c = unat a + unat b"
    and "get_local_balance F s = (Ok t, s')"
  shows "unat t = (\<Sum>(fid, c) \<leftarrow> clients s. unat (the (client_balance F c)))"
proof -
  obtain cs s1 where l: "lock_clients s = (Ok cs, s1)"
    and f: "for_fold (\<lambda>balance x. case x of (_, client) \<Rightarrow>
       andThen (await (unwrap (client_balance F client))) (\<lambda>b. unwrap (amount_add F balance b))) 0 cs s1 = (Ok t, s')"
    using assms(2) by (auto simp: get_local_balance_def andThen_Ok_iff)
  have "cs = clients s" using l by (cases rule: lock_clients_cases) simp_all
  with local_balance_loop [OF assms(1) f] show ?thesis by simp
qed

section \<open>The directories of the two applications\<close>

text \<open>\<open>machine.rs\<close> and \<open>manager.rs\<close> lay out their storage in the same way, one partition per network.\<close>

definition PROTOCOL_SUBDIR :: string where "PROTOCOL_SUBDIR = ''protocol''"
definition FEDIMINT_SUBDIR :: string where "FEDIMINT_SUBDIR = ''fedimint''"

definition protocol_dir :: "'c fedimint \<Rightarrow> path \<Rightarrow> network \<Rightarrow> path" where
  "protocol_dir F storage_path net = (storage_path @ [network_to_string F net]) @ [PROTOCOL_SUBDIR]"

definition fedimint_dir :: "'c fedimint \<Rightarrow> path \<Rightarrow> network \<Rightarrow> path" where
  "fedimint_dir F storage_path net = (storage_path @ [network_to_string F net]) @ [FEDIMINT_SUBDIR]"

text \<open>The two directories do not overlap.\<close>

lemma dirs_apart: "\<not> prefix (fedimint_dir F sp net) (protocol_dir F sp net @ p)"
  by (simp add: fedimint_dir_def protocol_dir_def PROTOCOL_SUBDIR_def FEDIMINT_SUBDIR_def)

end
