(* ===== verification/Machine_App.thy ===== *)
theory Machine_App
  imports Machine_Protocol Wallet
begin

text \<open>
  \<open>machine.rs\<close>: the machine application. Its syncer task moves completed payments from
  the wallet to the shared document; \<open>machine_sync_step\<close> is one iteration of its loop.
  The result about it is the one its documentation claims: it can be aborted at any await
  without losing a payment.
\<close>

section \<open>State and operations\<close>

record ('d, 'c) machine_app = "('d, 'c) machine_node" +
  machine_syncer :: bool

text \<open>\<open>Machine::new\<close>; it returns what the handles of the code hold: the app directory and the root secret.\<close>

definition machine_new ::
    "'d platform \<Rightarrow> 'c fedimint \<Rightarrow> path \<Rightarrow> network \<Rightarrow> hash32 \<Rightarrow> mnemonic \<Rightarrow>
     (('d, 'c, 'z) machine_app_scheme, path \<times> root_secret) prog" where
  "machine_new P F storage_path net rng fresh =
     andThen (machine_protocol_new P (protocol_dir F storage_path net) rng) (\<lambda>app_path.
     andThen (wallet_new F (fedimint_dir F storage_path net) net fresh) (\<lambda>root_secret.
     andThen (\<lambda>s. (Ok (), s\<lparr>machine_syncer := True\<rparr>)) (\<lambda>_.
     ret (app_path, root_secret))))"

definition machine_app_shutdown :: "'d platform \<Rightarrow> (('d, 'c, 'z) machine_app_scheme, unit) prog" where
  "machine_app_shutdown P =
     andThen (machine_shutdown P) (\<lambda>_ s.
     if machine_syncer s
     then andThen (ignore (await (ret ()))) (\<lambda>_. ret ()) (s\<lparr>machine_syncer := False\<rparr>)
     else ret () s)"

definition machine_app_is_shutdown :: "'d platform \<Rightarrow> ('d, 'c, 'z) machine_app_scheme \<Rightarrow> bool" where
  "machine_app_is_shutdown P s \<longleftrightarrow> machine_is_shutdown P s \<and> \<not> machine_syncer s"

definition machine_receive_payment ::
    "'d platform \<Rightarrow> 'c fedimint \<Rightarrow> path \<Rightarrow> 64 word \<Rightarrow> 32 word \<Rightarrow> string \<Rightarrow> string option \<Rightarrow>
     (('d, 'c, 'z) machine_node_scheme, bolt11_invoice \<times> operation_id) prog" where
  "machine_receive_payment P F app_path amount expiry_secs description gateway =
     andThen (get_machine_state P app_path) (\<lambda>st.
     case st of
       Unclaimed _ \<Rightarrow> fail (Message ''Machine cannot accept payments as it is not claimed'')
     | Claimed machine_config_or \<Rightarrow> (case machine_config_or of
         None \<Rightarrow> fail (Message ''Machine cannot accept payments as it is not configured'')
       | Some config \<Rightarrow>
           wallet_receive_payment F (invite_id F (federation_invite_code config)) (claimer_pk config)
             amount expiry_secs description gateway))"

text \<open>The operations that forward to the protocol or to the wallet.\<close>

definition machine_app_get_machine_state ::
    "'d platform \<Rightarrow> path \<Rightarrow> (('d, 'c, 'z) machine_node_scheme, machine_state) prog" where
  "machine_app_get_machine_state P app_path = get_machine_state P app_path"

definition machine_app_await_final_state ::
    "'c fedimint \<Rightarrow> operation_id \<Rightarrow> (('d, 'c, 'z) machine_node_scheme, final_state) prog" where
  "machine_app_await_final_state F op = wallet_await_receive_payment_final_state F op"

definition machine_app_get_kv_value ::
    "'d platform \<Rightarrow> path \<Rightarrow> bytes \<Rightarrow> (('d, 'c, 'z) machine_node_scheme, kv_entry option) prog" where
  "machine_app_get_kv_value P app_path key = machine_get_kv_value P app_path key"

definition machine_app_set_kv_value ::
    "'d platform \<Rightarrow> path \<Rightarrow> bytes \<Rightarrow> bytes \<Rightarrow> (('d, 'c, 'z) machine_node_scheme, unit) prog" where
  "machine_app_set_kv_value P app_path key v = machine_set_kv_value P app_path key v"

definition machine_app_get_kv_entries ::
    "'d platform \<Rightarrow> path \<Rightarrow> (('d, 'c, 'z) machine_node_scheme, kv_entry list) prog" where
  "machine_app_get_kv_entries P app_path = machine_get_kv_entries P app_path"

section \<open>The syncer task\<close>

definition make_completed_payments_syncable ::
    "'d platform \<Rightarrow> 'c fedimint \<Rightarrow> path \<Rightarrow> machine_config \<Rightarrow> (('d, 'c, 'z) machine_node_scheme, unit) prog" where
  "make_completed_payments_syncable P F app_path config =
     (let federation_id = invite_id F (federation_invite_code config);
          claimer = claimer_pk config in
      andThen (wallet_get_claimable_contracts F federation_id claimer None) (\<lambda>contracts_or.
      case contracts_or of
        None \<Rightarrow> ret ()
      | Some claimable_contracts \<Rightarrow>
          andThen (collect_ok (write_payment_to_machine_doc P app_path federation_id)
              (contract_id_of P) claimable_contracts) (\<lambda>contract_ids.
          if contract_ids = [] then ret ()
          else andThen (remove_claimed_contracts F federation_id contract_ids) (\<lambda>_. ret ()))))"

text \<open>One iteration; the result says whether it ended with the pause of 100 ms.\<close>

definition machine_sync_step ::
    "'d platform \<Rightarrow> 'c fedimint \<Rightarrow> root_secret \<Rightarrow> path \<Rightarrow> path \<Rightarrow> (('d, 'c, 'z) machine_node_scheme, bool) prog" where
  "machine_sync_step P F root_secret data_dir app_path =
     (let pause = andThen (await (ret ())) (\<lambda>_. ret True) in
      andThen (attempt (get_machine_state P app_path)) (\<lambda>r.
      case r of
        Inr (Claimed (Some config)) \<Rightarrow>
          andThen (attempt (set_default_federation F root_secret data_dir (federation_invite_code config))) (\<lambda>q.
          case q of
            Inl _ \<Rightarrow> ret False
          | Inr _ \<Rightarrow> andThen (make_completed_payments_syncable P F app_path config) (\<lambda>_. pause))
      | _ \<Rightarrow> pause))"

text \<open>The loop runs until it is aborted; this is what its first \<open>n\<close> iterations do.\<close>

fun machine_sync_loop ::
    "'d platform \<Rightarrow> 'c fedimint \<Rightarrow> root_secret \<Rightarrow> path \<Rightarrow> path \<Rightarrow> nat \<Rightarrow> (('d, 'c, 'z) machine_node_scheme, unit) prog" where
  "machine_sync_loop P F root_secret data_dir app_path 0 = ret ()"
| "machine_sync_loop P F root_secret data_dir app_path (Suc n) =
     andThen (machine_sync_step P F root_secret data_dir app_path)
       (\<lambda>_. machine_sync_loop P F root_secret data_dir app_path n)"

section \<open>Payments need a claim and a configuration\<close>

lemma receive_payment_Ok:
  assumes "machine_receive_payment P F app_path amount expiry desc gw s = (Ok x, s')"
  shows "\<exists>config s1 c c'. get_machine_state P app_path s = (Ok (Claimed (Some config)), s1) \<and>
    map_of (clients s1) (invite_id F (federation_invite_code config)) = Some c \<and>
    ln_remote_receive F (claimer_pk config) amount expiry desc gw c = (Ok x, c')"
proof -
  obtain st s1 where g: "get_machine_state P app_path s = (Ok st, s1)"
    and rest: "(case st of
       Unclaimed _ \<Rightarrow> fail (Message ''Machine cannot accept payments as it is not claimed'')
     | Claimed machine_config_or \<Rightarrow> (case machine_config_or of
         None \<Rightarrow> fail (Message ''Machine cannot accept payments as it is not configured'')
       | Some config \<Rightarrow>
           wallet_receive_payment F (invite_id F (federation_invite_code config)) (claimer_pk config)
             amount expiry desc gw)) s1 = (Ok x, s')"
    using assms by (auto simp: machine_receive_payment_def andThen_Ok_iff)
  then obtain config where st: "st = Claimed (Some config)"
    and w: "wallet_receive_payment F (invite_id F (federation_invite_code config)) (claimer_pk config)
             amount expiry desc gw s1 = (Ok x, s')"
    by (auto split: machine_state.splits option.splits)
  let ?fid = "invite_id F (federation_invite_code config)"
  from w obtain cs s2 c u s3 where l: "lock_clients s1 = (Ok cs, s2)" and c: "map_of cs ?fid = Some c"
    and call: "client_call ?fid c (ln_remote_receive F (claimer_pk config) amount expiry desc gw) s3 = (Ok x, s')"
    by (auto simp: wallet_receive_payment_def prog_Ok_iffs)
  have "cs = clients s1" using l by (cases rule: lock_clients_cases) simp_all
  moreover obtain c' where "ln_remote_receive F (claimer_pk config) amount expiry desc gw c = (Ok x, c')"
    using call by (cases rule: client_call_cases) simp_all
  ultimately show ?thesis using g st c by blast
qed

section \<open>Shutting down\<close>

lemma machine_shutdown_stops:
  "router_contract P \<Longrightarrow> machine_shutdown P s = (Ok u, s') \<Longrightarrow> machine_is_shutdown P s'"
  unfolding machine_shutdown_def machine_is_shutdown_def by (rule router_stops)

lemma machine_app_shutdown_Ok:
  assumes r: "router_contract P" and run: "machine_app_shutdown P s = (Ok u, s')"
  shows "machine_app_is_shutdown P s'"
proof -
  obtain u1 s1 where a: "machine_shutdown P s = (Ok u1, s1)"
    and b: "(if machine_syncer s1 then andThen (ignore (await (ret ()))) (\<lambda>_. ret ()) (s1\<lparr>machine_syncer := False\<rparr>)
       else ret () s1) = (Ok u, s')"
    using run by (auto simp: machine_app_shutdown_def andThen_Ok_iff)
  have s1: "machine_is_shutdown P s1" using r a by (rule machine_shutdown_stops)
  have "engine s' = engine s1 \<and> \<not> machine_syncer s'"
  proof (cases "machine_syncer s1")
    case True
    then obtain u2 where "ignore (await (ret ())) (s1\<lparr>machine_syncer := False\<rparr>) = (Ok u2, s')"
      using b by (auto simp: andThen_Ok_iff)
    then obtain r0 where "await (ret ()) (s1\<lparr>machine_syncer := False\<rparr>) = (r0, s')"
      by (meson ignore_run)
    then show ?thesis
    proof (rule suspend_cases)
      assume "s' = s1\<lparr>machine_syncer := False\<rparr>"
      then show ?thesis by simp
    next
      fix n assume "s' = s1\<lparr>machine_syncer := False, awaits_left := n\<rparr>"
      then show ?thesis by simp
    qed
  next
    case False
    with b show ?thesis by simp
  qed
  with s1 show ?thesis by (simp add: machine_app_is_shutdown_def machine_is_shutdown_def)
qed

section \<open>Moving payments to the document\<close>

text \<open>What has to hold for a move: the contracts of the libraries, a machine with a document, a wallet.\<close>

definition machine_move_inv ::
    "'d platform \<Rightarrow> ('d, 'v) docs_view_scheme \<Rightarrow> 'c fedimint \<Rightarrow> 'c client_view \<Rightarrow> path \<Rightarrow> path \<Rightarrow> namespace_id \<Rightarrow>
     ('d, 'c, 'z) machine_node_scheme \<Rightarrow> bool" where
  "machine_move_inv P V F W data_dir app_path ns s \<longleftrightarrow> docs_contract P V \<and> codec_contract P \<and>
     client_contract F (contract_id_of P) W \<and> database_contract F \<and> \<not> prefix data_dir app_path \<and>
     machine_ready P V app_path ns s \<and> wallet_ready F data_dir s"

text \<open>A payment is safe when it is still in the wallet or already in the document.\<close>

definition payment_safe ::
    "'d platform \<Rightarrow> ('d, 'v) docs_view_scheme \<Rightarrow> 'c client_view \<Rightarrow> namespace_id \<Rightarrow> federation_id \<Rightarrow> claimable_contract \<Rightarrow>
     ('d, 'c, 'z) machine_node_scheme \<Rightarrow> bool" where
  "payment_safe P V W ns fid cc s \<longleftrightarrow>
     contract_held W fid (contract_id_of P cc) s \<or> payment_stored P V ns fid cc s"

lemma machine_ready_wallet_only:
  "wallet_only s s' \<Longrightarrow> machine_ready P V app_path ns s \<Longrightarrow> machine_ready P V app_path ns s'"
  by (simp add: machine_ready_def machine_doc_def healthy_def wallet_only_views)

lemma payment_stored_wallet_only:
  "wallet_only s s' \<Longrightarrow> payment_stored P V ns fid cc s \<Longrightarrow> payment_stored P V ns fid cc s'"
  by (simp add: payment_stored_def wallet_only_views)

lemma wallet_ready_keys:
  assumes "wallet_ready F dir s" and "disk s' = disk s"
    and "\<And>fid. map_of (clients s') fid = None \<longleftrightarrow> map_of (clients s) fid = None"
  shows "wallet_ready F dir s'"
  using assms by (simp add: wallet_ready_def)

text \<open>Steps that keep the document writable and the clients as they are.\<close>

lemma machine_move_quiet:
  assumes q: "quiet V s s'" and i: "machine_move_inv P V F W data_dir app_path ns s"
  shows "machine_move_inv P V F W data_dir app_path ns s'"
    and "payment_safe P V W ns fid cc s \<Longrightarrow> payment_safe P V W ns fid cc s'"
proof -
  have c: "clients s' = clients s" and d: "disk s' = disk s"
    using quiet_views [OF q] by (auto intro: clients_of_more)
  have "wallet_ready F data_dir s'"
    using i c d by (auto simp: machine_move_inv_def intro: wallet_ready_keys)
  then show "machine_move_inv P V F W data_dir app_path ns s'"
    using i machine_ready_quiet [OF q] by (simp add: machine_move_inv_def)
  show "payment_safe P V W ns fid cc s \<Longrightarrow> payment_safe P V W ns fid cc s'"
    using payment_stored_quiet [OF q] c by (auto simp: payment_safe_def contract_held_def)
qed

lemma machine_copy_step:
  assumes i: "machine_move_inv P V F W data_dir app_path ns s"
    and run: "write_payment_to_machine_doc P app_path fid cc s = (r, s')"
  shows "machine_move_inv P V F W data_dir app_path ns s'"
    and "contract_held W f x s \<Longrightarrow> contract_held W f x s'"
    and "payment_stored P V ns f cc' s \<Longrightarrow> payment_stored P V ns f cc' s'"
    and "r = Ok () \<Longrightarrow> payment_stored P V ns fid cc s'"
proof -
  have docs: "docs_contract P V" and codec: "codec_contract P" and m: "machine_ready P V app_path ns s"
    using i by (simp_all add: machine_move_inv_def)
  obtain b where w: "wrote V ns (create_claimable_contract_machine_doc_key P fid cc) b s r s'"
    using write_payment_wrote [OF docs m run] by blast
  have c: "clients s' = clients s" using wrote_views(2) [OF w] by (rule clients_of_more)
  have "wallet_ready F data_dir s'"
    using i c wrote_views(1) [OF w] by (auto simp: machine_move_inv_def intro: wallet_ready_keys)
  then show "machine_move_inv P V F W data_dir app_path ns s'"
    using i write_payment_ready(1) [OF docs m run] by (simp add: machine_move_inv_def)
  show "contract_held W f x s \<Longrightarrow> contract_held W f x s'" using c by (simp add: contract_held_def)
  show "payment_stored P V ns f cc' s \<Longrightarrow> payment_stored P V ns f cc' s'"
    by (rule write_payment_keeps [OF docs codec m run])
  show "r = Ok () \<Longrightarrow> payment_stored P V ns fid cc s'"
    using write_payment_stores [OF docs codec m] run by blast
qed

lemma machine_forget_step:
  assumes i: "machine_move_inv P V F W data_dir app_path ns s"
    and run: "remove_claimed_contracts F fid ls s = (r, s')"
  shows "machine_move_inv P V F W data_dir app_path ns s'"
    and "contract_held W f x s \<Longrightarrow> f \<noteq> fid \<or> x \<notin> set ls \<Longrightarrow> contract_held W f x s'"
    and "payment_stored P V ns f cc' s \<Longrightarrow> payment_stored P V ns f cc' s'"
proof -
  have w: "client_contract F (contract_id_of P) W" using i by (simp add: machine_move_inv_def)
  note step = remove_claimed_step [OF w run]
  have "wallet_ready F data_dir s'"
    using i step(3) wallet_only_views(1) [OF step(1)] by (auto simp: machine_move_inv_def intro: wallet_ready_keys)
  moreover have "machine_ready P V app_path ns s'"
    by (rule machine_ready_wallet_only [OF step(1)]) (use i in \<open>simp add: machine_move_inv_def\<close>)
  ultimately show "machine_move_inv P V F W data_dir app_path ns s'"
    using i by (simp add: machine_move_inv_def)
  show "contract_held W f x s \<Longrightarrow> f \<noteq> fid \<or> x \<notin> set ls \<Longrightarrow> contract_held W f x s'" by (rule step(2))
  show "payment_stored P V ns f cc' s \<Longrightarrow> payment_stored P V ns f cc' s'"
    by (rule payment_stored_wallet_only [OF step(1)])
qed

interpretation machine_move: transfer
  "write_payment_to_machine_doc P app_path fid :: claimable_contract \<Rightarrow> (('d, 'c, 'z) machine_node_scheme, unit) prog"
  "contract_id_of P"
  "remove_claimed_contracts F fid"
  "machine_move_inv P V F W data_dir app_path ns"
  "\<lambda>s cc. contract_held W fid (contract_id_of P cc) s"
  "\<lambda>s cc. payment_stored P V ns fid cc s"
  "\<lambda>x y. contract_id_of P x = contract_id_of P y"
  for P :: "'d platform" and V :: "('d, 'v) docs_view_scheme" and F :: "'c fedimint" and W data_dir app_path ns fid
proof (unfold_locales, goal_cases)
  case 1 then show ?case by (rule machine_copy_step(1))
next
  case (2 s x u s')
  then show ?case by (auto intro: machine_copy_step(4))
next
  case 3 then show ?case by (rule machine_copy_step(2))
next
  case 4 then show ?case by (rule machine_copy_step(3))
next
  case 5 then show ?case by (rule machine_forget_step(1))
next
  case 6 then show ?case by (auto intro: machine_forget_step(2))
next
  case 7 then show ?case by (rule machine_forget_step(3))
next
  case 8 then show ?case .
next
  case (9 s x y)
  then show ?case by (auto simp: machine_move_inv_def payment_stored_def contract_key_of_eq)
qed

section \<open>The loop loses no payment\<close>

definition machine_keeps ::
    "'d platform \<Rightarrow> ('d, 'v) docs_view_scheme \<Rightarrow> 'c fedimint \<Rightarrow> 'c client_view \<Rightarrow> path \<Rightarrow> path \<Rightarrow> namespace_id \<Rightarrow>
     federation_id \<Rightarrow> claimable_contract \<Rightarrow> ('d, 'c, 'z) machine_node_scheme \<Rightarrow> bool" where
  "machine_keeps P V F W data_dir app_path ns fid cc s \<longleftrightarrow>
     machine_move_inv P V F W data_dir app_path ns s \<and> payment_safe P V W ns fid cc s"

lemma stable_machine_move_inv: "stable (machine_move_inv P V F W data_dir app_path ns)"
  by (auto simp: stable_def machine_move_inv_def machine_ready_def machine_doc_def wallet_ready_def healthy_def
      dest!: set_mono_suffix)

lemma stable_machine_keeps: "stable (machine_keeps P V F W data_dir app_path ns fid cc)"
  by (auto simp: stable_def machine_keeps_def machine_move_inv_def machine_ready_def machine_doc_def wallet_ready_def
      payment_safe_def payment_stored_def contract_held_def healthy_def dest!: set_mono_suffix)

lemma keeps_move:
  "preserves (machine_keeps P V F W data_dir app_path ns fid cc)
     (andThen (collect_ok (write_payment_to_machine_doc P app_path f) (contract_id_of P) ccs) (\<lambda>ids.
      if ids = [] then ret () else andThen (remove_claimed_contracts F f ids) (\<lambda>_. ret ())))"
proof (cases "f = fid")
  case True
  show ?thesis unfolding machine_keeps_def [abs_def] payment_safe_def True
    by (rule machine_move.transfer_safe [unfolded machine_move.safe_def [abs_def]])
next
  case False
  have "preserves (machine_keeps P V F W data_dir app_path ns fid cc) (write_payment_to_machine_doc P app_path f x)" for x
    by (rule preservesI) (auto simp: machine_keeps_def payment_safe_def intro: machine_copy_step(1-3))
  moreover have "preserves (machine_keeps P V F W data_dir app_path ns fid cc) (remove_claimed_contracts F f ids)" for ids
    using False by (intro preservesI)
      (auto simp: machine_keeps_def payment_safe_def intro: machine_forget_step)
  ultimately show ?thesis
    by (intro preserves_andThen preserves_collect_ok preserves_if preserves_ret)
qed

text \<open>Reading the machine's state touches neither the wallet nor the document.\<close>

lemma get_config_quiet:
  assumes c: "docs_contract P V" and m: "machine_ready P V app_path ns s"
    and run: "machine_get_machine_config P app_path s = (r, s')"
  shows "quiet V s s'"
  using c m run [unfolded machine_get_machine_config_def]
proof (cases rule: with_machine_doc)
  case (opened s1)
  have "reads_only V (andThen (engine_call (doc_get_one P ns (KeyExact MACHINE_CONFIG_KEY))) (\<lambda>entry_or.
     case entry_or of
       None \<Rightarrow> ret None
     | Some entry \<Rightarrow>
         andThen (engine_call (blobs_get_bytes P (entry_hash entry))) (\<lambda>bytes.
         andThen (ok_or Serde (config_from_json P bytes)) (\<lambda>config.
         ret (Some config)))))"
    by (intro reads_rules c)
  then have "quiet V s1 s'" using opened(2) by (rule reads_onlyD)
  with opened(1) show ?thesis by (rule quiet_trans)
qed

text \<open>
  What the loop keeps: whatever survives reading, moving contracts and joining, on a machine
  whose document can be opened.
\<close>

lemma sync_loop_preserves:
  fixes I :: "('d, 'c, 'z) machine_node_scheme \<Rightarrow> bool"
  assumes c: "docs_contract P V" and st: "stable I" and q: "\<And>s s'. quiet V s s' \<Longrightarrow> I s \<Longrightarrow> I s'"
    and ready: "\<And>s. I s \<Longrightarrow> machine_ready P V app_path ns s"
    and move: "\<And>f ccs. preserves I
      (andThen (collect_ok (write_payment_to_machine_doc P app_path f) (contract_id_of P) ccs) (\<lambda>ids.
       if ids = [] then ret () else andThen (remove_claimed_contracts F f ids) (\<lambda>_. ret ())))"
    and join: "\<And>code. preserves I (set_default_federation F rs data_dir code)"
  shows "preserves I (machine_sync_loop P F rs data_dir app_path n)"
proof -
  have claimable: "preserves I (wallet_get_claimable_contracts F f pk lim)" for f pk lim
    unfolding wallet_get_claimable_contracts_def lock_clients_def require_module_def
    by (intro preserves_andThen preserves_await preserves_observe preserves_case_option preserves_if preserves_ret
        preserves_panic st)
  have syncable: "preserves I (make_completed_payments_syncable P F app_path config)" for config
    unfolding make_completed_payments_syncable_def Let_def
    by (intro preserves_andThen [OF claimable] preserves_case_option preserves_ret move)
  have "preserves I (machine_get_machine_config P app_path)"
    by (rule preservesI) (blast intro: q get_config_quiet [OF c ready])
  then have state: "preserves I (get_machine_state P app_path)"
    unfolding get_machine_state_def lock_claimed_def
    by (intro preserves_andThen preserves_await preserves_observe preserves_if preserves_ret st)
  have pause: "preserves I (andThen (await (ret ())) (\<lambda>_. ret True))"
    by (intro preserves_andThen preserves_await preserves_ret st)
  have "preserves I (case r of
        Inr (Claimed (Some config)) \<Rightarrow>
          andThen (attempt (set_default_federation F rs data_dir (federation_invite_code config))) (\<lambda>q.
          case q of
            Inl _ \<Rightarrow> ret False
          | Inr _ \<Rightarrow> andThen (make_completed_payments_syncable P F app_path config) (\<lambda>_.
              andThen (await (ret ())) (\<lambda>_. ret True)))
      | _ \<Rightarrow> andThen (await (ret ())) (\<lambda>_. ret True))" for r
    by (auto split: sum.split machine_state.split option.split
        intro!: pause preserves_andThen preserves_attempt join preserves_ret syncable)
  then have "preserves I (machine_sync_step P F rs data_dir app_path)"
    unfolding machine_sync_step_def Let_def by (intro preserves_andThen preserves_attempt state)
  then show ?thesis by (induction n) (auto intro: preserves_ret preserves_andThen)
qed

text \<open>Joining a federation leaves the document and the held contracts alone.\<close>

lemma join_step:
  assumes i: "machine_move_inv P V F W data_dir app_path ns s"
    and run: "set_default_federation F rs data_dir code s = (r, s')"
  shows "machine_move_inv P V F W data_dir app_path ns s'" and "engine s' = engine s"
    and "map_of (clients s) \<subseteq>\<^sub>m map_of (clients s')"
proof -
  have g: "wallet_grows F data_dir s s'"
    by (rule set_default_grows [OF _ _ _ run])
       (use i in \<open>simp_all add: machine_move_inv_def machine_ready_def\<close>)
  have out: "map_of (disk s') p = map_of (disk s) p" if "prefix p (app_path @ [x])" for p x
  proof -
    have "\<not> strict_prefix data_dir p"
      using i that by (auto simp: machine_move_inv_def strict_prefix_def dest: prefix_order.order_trans)
    then show ?thesis using g by (simp add: wallet_grows_def)
  qed
  have "dirs_exist (disk s') app_path" if "dirs_exist (disk s) app_path"
    by (rule dirs_exist_cong [OF _ that]) (simp add: out)
  then have "machine_ready P V app_path ns s'"
    using i g out [of "app_path @ [MACHINE_DOC_TICKET_PATH]" MACHINE_DOC_TICKET_PATH]
    by (auto simp: machine_move_inv_def machine_ready_def machine_doc_def wallet_grows_def intro: healthy_suffix)
  then show "machine_move_inv P V F W data_dir app_path ns s'"
    using i g by (simp add: machine_move_inv_def wallet_grows_def)
  show "engine s' = engine s" "map_of (clients s) \<subseteq>\<^sub>m map_of (clients s')" using g by (simp_all add: wallet_grows_def)
qed

lemma keeps_set_default:
  "preserves (machine_keeps P V F W data_dir app_path ns fid cc) (set_default_federation F rs data_dir code)"
proof (rule preservesI)
  fix s r s'
  assume k: "machine_keeps P V F W data_dir app_path ns fid cc s"
    and run: "set_default_federation F rs data_dir code s = (r, s')"
  have i: "machine_move_inv P V F W data_dir app_path ns s" using k by (simp add: machine_keeps_def)
  note j = join_step [OF i run]
  have "payment_safe P V W ns fid cc s'"
    using k j(2,3) by (auto simp: machine_keeps_def payment_safe_def payment_stored_def contract_held_def map_le_def dom_def)
  then show "machine_keeps P V F W data_dir app_path ns fid cc s'" using j(1) by (simp add: machine_keeps_def)
qed

lemma keeps_sync_loop:
  assumes "docs_contract P V"
  shows "preserves (machine_keeps P V F W data_dir app_path ns fid cc) (machine_sync_loop P F rs data_dir app_path n)"
proof (rule sync_loop_preserves [where ns = ns, OF assms stable_machine_keeps _ _ keeps_move keeps_set_default])
  show "machine_keeps P V F W data_dir app_path ns fid cc s'"
    if "quiet V s s'" "machine_keeps P V F W data_dir app_path ns fid cc s" for s s' :: "('a, 'c, 'd) machine_node_scheme"
    using that by (auto simp: machine_keeps_def intro: machine_move_quiet)
qed (simp add: machine_keeps_def machine_move_inv_def)

end
