(* ===== verification/Manager_App.thy ===== *)
theory Manager_App
  imports Manager_Protocol Wallet
begin

text \<open>
  \<open>manager.rs\<close>: the manager application. Its syncer task sweeps the payments that the
  machines put into their documents into the wallet, and hands the machines the default
  federation; \<open>manager_sync_step\<close> is one iteration of its loop. The results are that a
  payment stays in the document until it has been claimed, wherever the task is aborted,
  and what the machines' configurations are afterwards.
\<close>

section \<open>State and operations\<close>

record ('d, 'c) manager_app = "('d, 'c) wallet_node" +
  manager_syncer :: bool

definition manager_new ::
    "'d platform \<Rightarrow> 'c fedimint \<Rightarrow> path \<Rightarrow> network \<Rightarrow> hash32 \<Rightarrow> mnemonic \<Rightarrow>
     (('d, 'c, 'z) manager_app_scheme, path \<times> root_secret) prog" where
  "manager_new P F storage_path net rng fresh =
     andThen (manager_protocol_new P (protocol_dir F storage_path net) rng) (\<lambda>app_path.
     andThen (wallet_new F (fedimint_dir F storage_path net) net fresh) (\<lambda>root_secret.
     andThen (\<lambda>s. (Ok (), s\<lparr>manager_syncer := True\<rparr>)) (\<lambda>_.
     ret (app_path, root_secret))))"

definition manager_app_shutdown :: "'d platform \<Rightarrow> (('d, 'c, 'z) manager_app_scheme, unit) prog" where
  "manager_app_shutdown P =
     andThen (manager_shutdown P) (\<lambda>_ s.
     if manager_syncer s
     then andThen (ignore (await (ret ()))) (\<lambda>_. ret ()) (s\<lparr>manager_syncer := False\<rparr>)
     else ret () s)"

definition manager_app_is_shutdown :: "'d platform \<Rightarrow> ('d, 'c, 'z) manager_app_scheme \<Rightarrow> bool" where
  "manager_app_is_shutdown P s \<longleftrightarrow> manager_is_shutdown P s \<and> \<not> manager_syncer s"

definition list_machine_ids ::
    "'d platform \<Rightarrow> path \<Rightarrow> (('d, 'z) node_scheme, endpoint_id list) prog" where
  "list_machine_ids P app_path =
     andThen (list_machines P app_path) (\<lambda>machines. ret (map (\<lambda>(machine_id, _). machine_id) machines))"

text \<open>The operations that forward to the protocol or to the wallet.\<close>

definition manager_app_claim_machine :: "outgoing_connection \<Rightarrow> (('d, 'c, 'z) wallet_node_scheme, claim_pin) prog" where
  "manager_app_claim_machine conn = claim_machine conn"

definition manager_app_get_machine_config ::
    "'d platform \<Rightarrow> path \<Rightarrow> endpoint_id \<Rightarrow> (('d, 'c, 'z) wallet_node_scheme, machine_config option) prog" where
  "manager_app_get_machine_config P app_path machine_id = manager_get_machine_config P app_path machine_id"

definition manager_app_get_local_balance :: "'c fedimint \<Rightarrow> (('d, 'c, 'z) wallet_node_scheme, 64 word) prog" where
  "manager_app_get_local_balance F = get_local_balance F"

definition manager_app_sweep_all_ecash_notes ::
    "'c fedimint \<Rightarrow> federation_id \<Rightarrow> nat \<Rightarrow> bool \<Rightarrow> string \<Rightarrow>
     (('d, 'c, 'z) wallet_node_scheme, oob_notes option) prog" where
  "manager_app_sweep_all_ecash_notes F federation_id try_cancel_after include_invite extra_meta =
     sweep_all_ecash_notes F federation_id try_cancel_after include_invite extra_meta"

definition manager_app_get_kv_value ::
    "'d platform \<Rightarrow> path \<Rightarrow> endpoint_id \<Rightarrow> bytes \<Rightarrow> (('d, 'c, 'z) wallet_node_scheme, kv_entry option) prog" where
  "manager_app_get_kv_value P app_path machine_id key = manager_get_kv_value P app_path machine_id key"

definition manager_app_set_kv_value ::
    "'d platform \<Rightarrow> path \<Rightarrow> endpoint_id \<Rightarrow> bytes \<Rightarrow> bytes \<Rightarrow> (('d, 'c, 'z) wallet_node_scheme, unit) prog" where
  "manager_app_set_kv_value P app_path machine_id key v = manager_set_kv_value P app_path machine_id key v"

definition manager_app_get_kv_entries ::
    "'d platform \<Rightarrow> path \<Rightarrow> endpoint_id \<Rightarrow> (('d, 'c, 'z) wallet_node_scheme, kv_entry list) prog" where
  "manager_app_get_kv_entries P app_path machine_id = manager_get_kv_entries P app_path machine_id"

section \<open>The syncer task\<close>

text \<open>
  \<open>sweep_payments\<close>: \<open>iter\<close> is the iteration order of the \<open>HashMap\<close> that
  \<open>remove_claimable_contracts\<close> folds into.
\<close>

definition sweep_payments ::
    "'d platform \<Rightarrow> 'c fedimint \<Rightarrow> path \<Rightarrow>
     ((endpoint_id \<times> (federation_id \<times> claimable_contract) list) list \<Rightarrow>
      (endpoint_id \<times> (federation_id \<times> claimable_contract) list) list) \<Rightarrow>
     (('d, 'c, 'z) wallet_node_scheme, unit) prog" where
  "sweep_payments P F app_path iter =
     andThen (attempt (manager_get_claimable_contracts P app_path)) (\<lambda>r.
     case r of
       Inl _ \<Rightarrow> ret ()
     | Inr claimable_contracts \<Rightarrow>
         andThen (collect_ok (\<lambda>(machine_id, federation_id, claimable_contract).
             claim_contracts F federation_id [claimable_contract]) (\<lambda>x. x) claimable_contracts) (\<lambda>claimed_contracts.
         if claimed_contracts = [] then ret ()
         else andThen (ignore (remove_claimable_contracts P app_path iter claimed_contracts)) (\<lambda>_. ret ())))"

definition update_one_config ::
    "'d platform \<Rightarrow> 'c fedimint \<Rightarrow> path \<Rightarrow> machine_config \<Rightarrow> endpoint_id \<times> doc_ticket \<Rightarrow>
     (('d, 'c, 'z) wallet_node_scheme, unit) prog" where
  "update_one_config P F app_path new_config m = (case m of (machine_id, _) \<Rightarrow>
     andThen (attempt (manager_get_machine_config P app_path machine_id)) (\<lambda>r.
     case r of
       Inl _ \<Rightarrow> ret ()
     | Inr cfg \<Rightarrow>
         let needs_update = (case cfg of
             Some c \<Rightarrow> invite_id F (federation_invite_code c) \<noteq> invite_id F (federation_invite_code new_config)
           | None \<Rightarrow> True) in
         if needs_update then ignore (manager_set_machine_config P app_path machine_id new_config)
         else ret ()))"

definition update_machine_configs ::
    "'d platform \<Rightarrow> 'c fedimint \<Rightarrow> path \<Rightarrow> path \<Rightarrow> (('d, 'c, 'z) wallet_node_scheme, unit) prog" where
  "update_machine_configs P F data_dir app_path =
     andThen (attempt (get_default_federation F data_dir)) (\<lambda>r.
     case r of
       Inr (Some default_invite) \<Rightarrow>
         let federation_id = invite_id F default_invite in
         andThen (get_lnv2_claim_pubkey F federation_id) (\<lambda>claimer_or.
         case claimer_or of
           None \<Rightarrow> ret ()
         | Some claimer \<Rightarrow>
             andThen (attempt (list_machines P app_path)) (\<lambda>q.
             case q of
               Inl _ \<Rightarrow> ret ()
             | Inr machines \<Rightarrow>
                 let new_config = \<lparr>federation_invite_code = default_invite, claimer_pk = claimer\<rparr> in
                 for_each (update_one_config P F app_path new_config) machines))
     | _ \<Rightarrow> ret ())"

definition manager_sync_step ::
    "'d platform \<Rightarrow> 'c fedimint \<Rightarrow> path \<Rightarrow> path \<Rightarrow>
     ((endpoint_id \<times> (federation_id \<times> claimable_contract) list) list \<Rightarrow>
      (endpoint_id \<times> (federation_id \<times> claimable_contract) list) list) \<Rightarrow>
     (('d, 'c, 'z) wallet_node_scheme, unit) prog" where
  "manager_sync_step P F data_dir app_path iter =
     andThen (sweep_payments P F app_path iter) (\<lambda>_.
     andThen (update_machine_configs P F data_dir app_path) (\<lambda>_.
     await (ret ())))"

text \<open>The first iterations of the loop, one for each iteration order in \<open>iters\<close>.\<close>

fun manager_sync_loop ::
    "'d platform \<Rightarrow> 'c fedimint \<Rightarrow> path \<Rightarrow> path \<Rightarrow>
     ((endpoint_id \<times> (federation_id \<times> claimable_contract) list) list \<Rightarrow>
      (endpoint_id \<times> (federation_id \<times> claimable_contract) list) list) list \<Rightarrow>
     (('d, 'c, 'z) wallet_node_scheme, unit) prog" where
  "manager_sync_loop P F data_dir app_path [] = ret ()"
| "manager_sync_loop P F data_dir app_path (iter # iters) =
     andThen (manager_sync_step P F data_dir app_path iter)
       (\<lambda>_. manager_sync_loop P F data_dir app_path iters)"

definition update_federation ::
    "'d platform \<Rightarrow> 'c fedimint \<Rightarrow> root_secret \<Rightarrow> path \<Rightarrow> path \<Rightarrow> invite_code \<Rightarrow>
     (('d, 'c, 'z) wallet_node_scheme, unit) prog" where
  "update_federation P F root_secret data_dir app_path invite_code =
     andThen (set_default_federation F root_secret data_dir invite_code) (\<lambda>_.
     andThen (update_machine_configs P F data_dir app_path) (\<lambda>_.
     ret ()))"

section \<open>No payment is lost\<close>

text \<open>A payment is kept when it is still pending in the document or has been claimed.\<close>

definition payment_kept ::
    "'d platform \<Rightarrow> ('d, 'v) docs_view_scheme \<Rightarrow> 'c client_view \<Rightarrow> namespace_id \<Rightarrow> federation_id \<Rightarrow> claimable_contract \<Rightarrow>
     ('d, 'c, 'z) wallet_node_scheme \<Rightarrow> bool" where
  "payment_kept P V W ns fid cc s \<longleftrightarrow>
     payment_pending P V ns fid cc s \<or> contract_claimed W fid (contract_id_of P cc) s"

lemma stable_payment_kept: "stable (payment_kept P V W ns fid cc)" "disk_free (payment_kept P V W ns fid cc)"
  by (simp_all add: stable_def disk_free_def payment_kept_def payment_pending_def contract_claimed_def)

lemma stable_contract_claimed: "stable (contract_claimed W fid i)"
  by (simp add: stable_def contract_claimed_def)

lemma quiet_payment_kept: "quiet V s s' \<Longrightarrow> payment_kept P V W ns fid cc s \<Longrightarrow> payment_kept P V W ns fid cc s'"
  using quiet_payment_pending [of V s s' P ns fid cc] clients_of_more [of s' s] quiet_views(2) [of V s s']
  by (auto simp: payment_kept_def contract_claimed_def)

text \<open>Removing contracts from the documents leaves the clients alone.\<close>

lemma more_remove: "preserves (more_is m) (remove_claimable_contracts P app_path iter ps)"
  unfolding remove_claimable_contracts_def remove_of_machine_def remove_contract_def get_machine_def
    open_machine_doc_def Let_def case_prod_unfold
  by (intro preserves_andThen preserves_for_each more_engine_call more_fs preserves_ret preserves_ok_or
      preserves_unwrap)

lemma remove_clients:
  fixes s s' :: "('d, 'c, 'z) wallet_node_scheme"
  assumes "remove_claimable_contracts P app_path iter ps s = (r, s')"
  shows "clients s' = clients s"
  using preservesD [OF more_remove _ assms, of "node.more s"] clients_of_more by (auto simp: more_is_def)

definition sweep_laws ::
    "'d platform \<Rightarrow> ('d, 'v) docs_view_scheme \<Rightarrow> 'c fedimint \<Rightarrow> 'c client_view \<Rightarrow>
     ((endpoint_id \<times> (federation_id \<times> claimable_contract) list) list \<Rightarrow>
      (endpoint_id \<times> (federation_id \<times> claimable_contract) list) list) \<Rightarrow> bool" where
  "sweep_laws P V F W iter \<longleftrightarrow> docs_contract P V \<and> codec_contract P \<and>
     client_contract F (contract_id_of P) W \<and> (\<forall>g. set (iter g) = set g)"

lemma sweep_forget:
  assumes laws: "sweep_laws P V F W iter"
    and run: "ignore (remove_claimable_contracts P app_path iter ls) s = (r, s')"
    and other: "\<And>m f c. (m, f, c) \<in> set ls \<Longrightarrow> f \<noteq> fid \<or> contract_id_of P c \<noteq> contract_id_of P cc"
    and p: "payment_pending P V ns fid cc s"
  shows "payment_pending P V ns fid cc s'"
proof -
  have "preserves (payment_pending P V ns fid cc) (remove_claimable_contracts P app_path iter ls)"
    using laws other by (intro remove_contracts_pending) (auto simp: sweep_laws_def)
  then show ?thesis using p run by (rule preservesD [OF preserves_ignore])
qed

lemma sweep_copy:
  assumes laws: "sweep_laws P V F W iter" and run: "claim_contracts F f [c] s = (r, s')"
  shows "payment_pending P V ns fid cc s \<Longrightarrow> payment_pending P V ns fid cc s'"
    and "contract_claimed W fid i s \<Longrightarrow> contract_claimed W fid i s'"
    and "r = Ok () \<Longrightarrow> contract_claimed W f (contract_id_of P c) s'"
proof -
  have w: "client_contract F (contract_id_of P) W" using laws by (simp add: sweep_laws_def)
  show "payment_pending P V ns fid cc s \<Longrightarrow> payment_pending P V ns fid cc s'"
    using wallet_only_views [OF claim_contracts_step(1) [OF w run]]
    by (simp add: payment_pending_def visible_def)
  show "contract_claimed W fid i s \<Longrightarrow> contract_claimed W fid i s'" by (rule claim_contracts_step(2) [OF w run])
  show "r = Ok () \<Longrightarrow> contract_claimed W f (contract_id_of P c) s'"
    by (rule claim_contracts_step(3) [OF w run]) simp_all
qed

interpretation manager_move: transfer
  "\<lambda>(m, f, c). claim_contracts F f [c] :: (('d, 'c, 'z) wallet_node_scheme, unit) prog"
  "\<lambda>x :: payment. x"
  "\<lambda>ls. ignore (remove_claimable_contracts P app_path iter ls)"
  "\<lambda>_. sweep_laws P V F W iter"
  "\<lambda>s (m, f, c). payment_pending P V ns f c s"
  "\<lambda>s (m, f, c). contract_claimed W f (contract_id_of P c) s"
  "\<lambda>(_, f, c) (_, f', c'). f = f' \<and> contract_id_of P c = contract_id_of P c'"
  for P :: "'d platform" and V :: "('d, 'v) docs_view_scheme" and F :: "'c fedimint" and W app_path iter ns
proof (unfold_locales, goal_cases)
  case (2 s x u s')
  then show ?case by (cases x) (auto intro: sweep_copy(3))
next
  case (3 s x r s' y)
  then show ?case by (cases x; cases y) (auto intro: sweep_copy(1))
next
  case (4 s x r s' y)
  then show ?case by (cases x; cases y) (auto intro: sweep_copy(2))
next
  case (6 s ls r s' y)
  obtain m f c where y: "y = (m, f, c)" by (cases y)
  have "payment_pending P V ns f c s'"
  proof (rule sweep_forget [OF 6(1,2)])
    fix m' f' c' assume "(m', f', c') \<in> set ls"
    then show "f' \<noteq> f \<or> contract_id_of P c' \<noteq> contract_id_of P c" using 6(4) [of "(m', f', c')"] y by auto
  qed (use 6(3) y in simp)
  with y show ?case by simp
next
  case (7 s ls r s' y)
  then have "clients s' = clients s" by (auto dest!: ignore_run remove_clients)
  with 7 show ?case by (cases y) (auto simp: contract_claimed_def)
qed auto

text \<open>What a sweep keeps: whatever survives reading and moving.\<close>

lemma sweep_preserves:
  fixes I :: "('d, 'c, 'z) wallet_node_scheme \<Rightarrow> bool"
  assumes c: "docs_contract P V" and q: "\<And>s s'. quiet V s s' \<Longrightarrow> I s \<Longrightarrow> I s'"
    and move: "\<And>ps. preserves I (andThen (collect_ok (\<lambda>(m, f, c). claim_contracts F f [c]) (\<lambda>x. x) ps) (\<lambda>ls.
       if ls = [] then ret ()
       else andThen (ignore (remove_claimable_contracts P app_path iter ls)) (\<lambda>_. ret ())))"
  shows "preserves I (sweep_payments P F app_path iter)"
proof -
  have "preserves I (manager_get_claimable_contracts P app_path)"
    by (rule reads_preserves [where V = V, OF _ q])
       (use c in \<open>auto simp: manager_get_claimable_contracts_def intro!: reads_rules\<close>)
  then show ?thesis unfolding sweep_payments_def
    by (intro preserves_andThen preserves_attempt preserves_case_sum preserves_ret move)
qed

lemma kept_move:
  assumes laws: "sweep_laws P V F W iter"
  shows "preserves (payment_kept P V W ns fid cc)
     (andThen (collect_ok (\<lambda>(m, f, c). claim_contracts F f [c]) (\<lambda>x. x) ps) (\<lambda>ls.
       if ls = [] then ret ()
       else andThen (ignore (remove_claimable_contracts P app_path iter ls)) (\<lambda>_. ret ())))"
  using manager_move.transfer_safe [unfolded manager_move.safe_def [abs_def],
      of P V F W iter ns "(EndpointId 0, fid, cc)" ps app_path] laws
  by (simp add: payment_kept_def [abs_def])

section \<open>Configurations\<close>

lemma reads_get_default: "reads_only V (get_default_federation F dir)"
  unfolding get_default_federation_def lock_data_dir_def Let_def by (intro reads_rules)

lemma reads_lnv2_pubkey:
  "reads_only V (get_lnv2_claim_pubkey F fid :: (('d, 'c, 'z) wallet_node_scheme, public_key option) prog)"
proof (rule reads_onlyI)
  fix s s' :: "('d, 'c, 'z) wallet_node_scheme" and r assume run: "get_lnv2_claim_pubkey F fid s = (r, s')"
  obtain r1 s1 where l: "lock_clients s = (r1, s1)" by force
  have "s' = s1" using run l
    by (cases rule: lock_clients_cases [OF l])
       (auto simp: get_lnv2_claim_pubkey_def andThen_eval require_module_def split: option.splits if_splits)
  moreover have "\<exists>n. s1 = s\<lparr>awaits_left := n\<rparr>"
    using l by (cases rule: lock_clients_cases) (auto intro: exI [of _ "awaits_left s"])
  ultimately obtain n where "s' = s\<lparr>awaits_left := n, io_script := io_script s, engine := engine s\<rparr>" by auto
  then show "quiet V s s'" by (rule quietI) simp_all
qed

lemma reads_get_config:
  "docs_contract P V \<Longrightarrow> reads_only V (manager_get_machine_config P app_path m)"
  unfolding manager_get_machine_config_def by (intro reads_rules)

text \<open>
  What the distribution of the configuration keeps: whatever survives reading, and writing
  the configuration entry of a document.
\<close>

lemma set_config_preserves:
  assumes c: "docs_contract P V" and st: "stable I" and q: "\<And>s s'. quiet V s s' \<Longrightarrow> I s \<Longrightarrow> I s'"
    and w: "\<And>s d doc a. I s \<Longrightarrow> touches_only V doc a MACHINE_CONFIG_KEY (engine s) d \<Longrightarrow> I (s\<lparr>engine := d\<rparr>)"
  shows "preserves I (manager_set_machine_config P app_path m config)"
proof -
  have put: "preserves I (engine_call (doc_set_bytes P doc a MACHINE_CONFIG_KEY b))" for doc a b
    using st by (rule preserves_engine_call) (auto intro: w dest: doc_set_bytes_contract(1) [OF c])
  show ?thesis unfolding manager_set_machine_config_def
    by (rule open_preserves [OF c q], assumption, assumption)
       (intro preserves_andThen put preserves_ok_or preserves_ret reads_preserves [OF reads_only_engine(1) [OF c]], erule (1) q)
qed

text \<open>The same for a key/value entry.\<close>

lemma set_kv_preserves:
  assumes c: "docs_contract P V" and st: "stable I" and q: "\<And>s s'. quiet V s s' \<Longrightarrow> I s \<Longrightarrow> I s'"
    and w: "\<And>s d doc a. I s \<Longrightarrow> touches_only V doc a (kv_full_key k) (engine s) d \<Longrightarrow> I (s\<lparr>engine := d\<rparr>)"
  shows "preserves I (manager_set_kv_value P app_path m k v)"
proof -
  have put: "preserves I (engine_call (doc_set_bytes P doc a (kv_full_key k) b))" for doc a b
    using st by (rule preserves_engine_call) (auto intro: w dest: doc_set_bytes_contract(1) [OF c])
  show ?thesis unfolding manager_set_kv_value_def Let_def
    by (rule open_preserves [OF c q], assumption, assumption)
       (intro preserves_andThen put preserves_ret reads_preserves [OF reads_only_engine(1) [OF c]], erule (1) q)
qed

lemma update_configs_preserves:
  assumes c: "docs_contract P V" and st: "stable I"
    and q: "\<And>s s'. quiet V s s' \<Longrightarrow> I s \<Longrightarrow> I s'"
    and w: "\<And>s d doc a. I s \<Longrightarrow> touches_only V doc a MACHINE_CONFIG_KEY (engine s) d \<Longrightarrow> I (s\<lparr>engine := d\<rparr>)"
  shows "preserves I (update_machine_configs P F data_dir app_path)"
proof -
  have r: "reads_only V p \<Longrightarrow> preserves I p" for p :: "(_, 'x) prog"
    by (rule reads_preserves) (auto intro: q)
  note set_config = set_config_preserves [OF c st q w]
  have one: "preserves I (update_one_config P F app_path config m)" for config m
    unfolding update_one_config_def Let_def case_prod_unfold
    by (intro preserves_andThen preserves_attempt preserves_case_sum preserves_if preserves_ignore preserves_ret
        set_config reads_preserves [OF reads_get_config [OF c]], erule (1) q)
  show ?thesis unfolding update_machine_configs_def Let_def
    by (intro preserves_andThen preserves_attempt preserves_case_sum preserves_case_option preserves_for_each
        preserves_ret one reads_preserves [OF reads_get_default] reads_preserves [OF reads_lnv2_pubkey]
        reads_preserves [OF reads_list_machines]; (erule (1) q)?)
qed

lemma config_key_apart:
  assumes "codec_contract P"
  shows "\<not> prefix MACHINE_CONFIG_KEY (create_claimable_contract_machine_doc_key P fid cc)"
  using key_spaces_disjoint(5) assms by (simp add: contract_key_of_eq)

text \<open>What the loop keeps.\<close>

lemma manager_loop_preserves:
  fixes I :: "('d, 'c, 'z) wallet_node_scheme \<Rightarrow> bool"
  assumes c: "docs_contract P V" and st: "stable I" and q: "\<And>s s'. quiet V s s' \<Longrightarrow> I s \<Longrightarrow> I s'"
    and w: "\<And>s d doc a. I s \<Longrightarrow> touches_only V doc a MACHINE_CONFIG_KEY (engine s) d \<Longrightarrow> I (s\<lparr>engine := d\<rparr>)"
    and move: "\<And>iter ps. iter \<in> set iters \<Longrightarrow>
      preserves I (andThen (collect_ok (\<lambda>(m, f, c). claim_contracts F f [c]) (\<lambda>x. x) ps) (\<lambda>ls.
       if ls = [] then ret ()
       else andThen (ignore (remove_claimable_contracts P app_path iter ls)) (\<lambda>_. ret ())))"
  shows "preserves I (manager_sync_loop P F data_dir app_path iters)"
proof -
  have "preserves I (manager_sync_step P F data_dir app_path iter)" if "iter \<in> set iters" for iter
    unfolding manager_sync_step_def
    by (intro preserves_andThen sweep_preserves [OF c q move [OF that]] update_configs_preserves [OF c st q w]
        preserves_await preserves_ret st)
  then show ?thesis by (induction iters) (auto intro!: preserves_ret preserves_andThen)
qed

lemma manager_loop_keeps:
  assumes c: "docs_contract P V" and j: "codec_contract P" and laws: "\<forall>iter \<in> set iters. sweep_laws P V F W iter"
  shows "preserves (payment_kept P V W ns fid cc) (manager_sync_loop P F data_dir app_path iters)"
proof (rule manager_loop_preserves [OF c stable_payment_kept(1) quiet_payment_kept])
  fix s d doc a
  assume k: "payment_kept P V W ns fid cc s" and t: "touches_only V doc a MACHINE_CONFIG_KEY (engine s) d"
  have "payment_pending P V ns fid cc (s\<lparr>engine := d\<rparr>)" if "payment_pending P V ns fid cc s"
    using payment_pending_touches [of V doc a MACHINE_CONFIG_KEY s "s\<lparr>engine := d\<rparr>"] t that config_key_apart [OF j] by simp
  with k show "payment_kept P V W ns fid cc (s\<lparr>engine := d\<rparr>)"
    by (auto simp: payment_kept_def contract_claimed_def)
next
  fix iter ps assume "iter \<in> set iters"
  then show "preserves (payment_kept P V W ns fid cc)
     (andThen (collect_ok (\<lambda>(m, f, c). claim_contracts F f [c]) (\<lambda>x. x) ps) (\<lambda>ls.
       if ls = [] then ret ()
       else andThen (ignore (remove_claimable_contracts P app_path iter ls)) (\<lambda>_. ret ())))"
    using laws by (intro kept_move) blast
qed

text \<open>The default federation file survives the distribution, so \<open>update_federation\<close> records its argument.\<close>

lemma update_configs_disk:
  assumes "docs_contract P V"
  shows "preserves (disk_is d) (update_machine_configs P F data_dir app_path)"
  by (rule update_configs_preserves [OF assms stable_disk_is]) (auto simp: disk_is_def quiet_views)

lemma update_federation_Ok:
  assumes c: "docs_contract P V" and run: "update_federation P F rs data_dir app_path code s = (Ok u, s')"
  shows "map_of (disk s') (data_dir @ [DEFAULT_FEDERATION_PATH]) = Some (File (invite_to_string F code))"
proof -
  obtain u1 s1 u2 where sd: "set_default_federation F rs data_dir code s = (Ok u1, s1)"
    and up: "update_machine_configs P F data_dir app_path s1 = (Ok u2, s')"
    using run by (auto simp: update_federation_def andThen_Ok_iff)
  have "disk s' = disk s1"
    using preservesD [OF update_configs_disk [OF c] _ up, of "disk s1"] by (simp add: disk_is_def)
  with set_default_Ok [OF sd] show ?thesis by simp
qed

text \<open>A machine whose configuration names the default federation is left as it is.\<close>

lemma update_one_current:
  assumes "manager_get_machine_config P app_path m s = (Ok (Some c), s1)"
    and "invite_id F (federation_invite_code c) = invite_id F (federation_invite_code new_config)"
  shows "update_one_config P F app_path new_config (m, t) s = (Ok (), s1)"
  using assms by (simp add: update_one_config_def andThen_eval attempt_eval)

text \<open>What was set as a machine's configuration is what is read back.\<close>

lemma config_after_set:
  assumes c: "docs_contract P V" and j: "codec_contract P" and m: "manager_doc P V app_path m ns s"
    and ahead: "clock_ahead V (engine s) ns MACHINE_CONFIG_KEY"
    and set_run: "manager_set_machine_config P app_path m config s = (Ok u, s1)"
    and get_run: "manager_get_machine_config P app_path m s1 = (Ok x, s2)"
  shows "x = Some config"
proof -
  obtain b where w: "wrote V ns MACHINE_CONFIG_KEY b s (Ok u) s1" and b: "config_to_json P config = Some b"
    using set_config_wrote [OF c m set_run] by auto
  have win: "wins V (engine s1) ns MACHINE_CONFIG_KEY b (author_of V (engine s))"
    using w ahead by (simp add: wrote_wins)
  have m1: "manager_doc P V app_path m ns s1" using w m by (rule manager_doc_wrote)
  from c m1 get_run [unfolded manager_get_machine_config_def] show ?thesis
  proof (cases rule: with_manager_doc)
    case (opened s3)
    obtain e s4 where g: "engine_call (doc_get_one P ns (KeyExact MACHINE_CONFIG_KEY)) s3 = (Ok e, s4)"
      and rest: "(case e of None \<Rightarrow> ret None | Some entry \<Rightarrow>
         andThen (engine_call (blobs_get_bytes P (entry_hash entry))) (\<lambda>bytes.
         andThen (ok_or Serde (config_from_json P bytes)) (\<lambda>config. ret (Some config)))) s4 = (Ok x, s2)"
      using opened(2) by (auto simp: andThen_Ok_iff)
    have "wins V (engine s3) ns MACHINE_CONFIG_KEY b (author_of V (engine s))"
      using win quiet_wins [OF opened(1)] by simp
    then obtain en where en: "e = Some en" "blob_of V (engine s4) (entry_hash en) = Some b"
      using get_one_wins [OF c _ g] by blast
    then show ?thesis using rest codec_contractD [OF j] b blobs_get_bytes_contract [OF c]
      by (auto simp: prog_Ok_iffs dest!: engine_call_OkD)
  next
    case failed
    then show ?thesis by (metis)
  qed
qed

section \<open>Shutting down\<close>

lemma manager_app_shutdown_Ok:
  assumes r: "router_contract P" and run: "manager_app_shutdown P s = (Ok u, s')"
  shows "manager_app_is_shutdown P s'"
proof -
  obtain u1 s1 where a: "manager_shutdown P s = (Ok u1, s1)"
    and b: "(if manager_syncer s1 then andThen (ignore (await (ret ()))) (\<lambda>_. ret ()) (s1\<lparr>manager_syncer := False\<rparr>)
       else ret () s1) = (Ok u, s')"
    using run by (auto simp: manager_app_shutdown_def andThen_Ok_iff)
  have s1: "router_is_shutdown P (engine s1)"
    using r a unfolding manager_shutdown_def by (rule router_stops)
  have "engine s' = engine s1 \<and> \<not> manager_syncer s'"
  proof (cases "manager_syncer s1")
    case True
    then obtain u2 where "ignore (await (ret ())) (s1\<lparr>manager_syncer := False\<rparr>) = (Ok u2, s')"
      using b by (auto simp: andThen_Ok_iff)
    then obtain r0 where "await (ret ()) (s1\<lparr>manager_syncer := False\<rparr>) = (r0, s')"
      by (meson ignore_run)
    then show ?thesis
    proof (rule suspend_cases)
      assume "s' = s1\<lparr>manager_syncer := False\<rparr>"
      then show ?thesis by simp
    next
      fix n assume "s' = s1\<lparr>manager_syncer := False, awaits_left := n\<rparr>"
      then show ?thesis by simp
    qed
  next
    case False
    with b show ?thesis by simp
  qed
  with s1 show ?thesis by (simp add: manager_app_is_shutdown_def manager_is_shutdown_def)
qed

end
