(* ===== verification/Reference_Docs.thy ===== *)
theory Reference_Docs
  imports Platform
begin

text \<open>
  A small in-memory document engine that meets the contracts of \<open>Platform\<close>: the
  contracts can hold together, and witnesses run the code's model on it. It keeps one
  entry per (document, author, key), removes the author's own entries below a key that is
  written, and answers a query with an entry of the greatest timestamp. Like the real engine it
  refuses unknown documents, empty values, other authors and writes that are not later than
  what the author has at the key or above it. It stands for no code of the repository.
\<close>

section \<open>The engine\<close>

record ref_docs =
  rd_author :: author_id
  rd_known :: "namespace_id list"
  rd_entries :: "((namespace_id \<times> author_id \<times> bytes) \<times> stored) list"
  rd_blobs :: "bytes list"
  rd_clock :: "64 word"
  rd_shut :: bool
  rd_key :: hash32

definition rd_candidates :: "ref_docs \<Rightarrow> namespace_id \<Rightarrow> bytes \<Rightarrow> (author_id \<times> stored) list" where
  "rd_candidates d ns k =
     map (\<lambda>((_, a, _), _). (a, the (map_of (rd_entries d) (ns, a, k))))
       (filter (\<lambda>((ns', _, k'), _). ns' = ns \<and> k' = k) (rd_entries d))"

definition rd_best :: "ref_docs \<Rightarrow> namespace_id \<Rightarrow> bytes \<Rightarrow> entry option" where
  "rd_best d ns k =
     (case find (\<lambda>(a, st). list_all (\<lambda>(_, st'). st_timestamp st' \<le> st_timestamp st) (rd_candidates d ns k))
        (rd_candidates d ns k) of
       None \<Rightarrow> None
     | Some (a, st) \<Rightarrow> if st_empty st then None
         else Some \<lparr>entry_key = k, entry_author = a, entry_hash = st_hash st, entry_timestamp = st_timestamp st\<rparr>)"

definition rd_keys :: "ref_docs \<Rightarrow> namespace_id \<Rightarrow> bytes \<Rightarrow> bytes list" where
  "rd_keys d ns p = remdups (map (\<lambda>((_, _, k), _). k)
     (filter (\<lambda>((ns', _, k), _). ns' = ns \<and> prefix p k) (rd_entries d)))"

definition rd_tick :: "64 word \<Rightarrow> 64 word" where
  "rd_tick t = max t (t + 1)"

definition rd_put :: "namespace_id \<Rightarrow> author_id \<Rightarrow> bytes \<Rightarrow> stored \<Rightarrow> ref_docs \<Rightarrow> ref_docs" where
  "rd_put ns a k st d = d\<lparr>
     rd_entries := ((ns, a, k), st) #
       filter (\<lambda>((ns', a', k'), _). \<not> (ns' = ns \<and> a' = a \<and> prefix k k')) (rd_entries d),
     rd_clock := rd_tick (rd_clock d)\<rparr>"

definition rd_fresh :: "ref_docs \<Rightarrow> namespace_id" where
  "rd_fresh d = NamespaceId (Suc (foldr (\<lambda>ns m. case ns of NamespaceId n \<Rightarrow> max n m) (rd_known d) 0))"

definition rd_capability_id :: "capability \<Rightarrow> namespace_id" where
  "rd_capability_id c = (case c of CapWrite n \<Rightarrow> NamespaceId n | CapRead ns \<Rightarrow> ns)"

text \<open>Whether the engine takes a write at a key.\<close>

definition rd_accepts :: "namespace_id \<Rightarrow> author_id \<Rightarrow> bytes \<Rightarrow> ref_docs \<Rightarrow> bool" where
  "rd_accepts ns a k d \<longleftrightarrow> ns \<in> set (rd_known d) \<and> a = rd_author d \<and>
     list_all (\<lambda>((_, _, k'), _). case map_of (rd_entries d) (ns, a, k') of
         Some st \<Rightarrow> prefix k' k \<longrightarrow> st_timestamp st < rd_clock d
       | None \<Rightarrow> True) (rd_entries d)"

text \<open>Contents are addressed by an injective code of their bytes.\<close>

definition rd_code :: "bytes \<Rightarrow> nat" where
  "rd_code v = foldr (\<lambda>b n. Suc (unat b) + 257 * n) v 0"

lemma rd_code_simps: "rd_code [] = 0" "rd_code (b # v) = Suc (unat b) + 257 * rd_code v"
  by (simp_all add: rd_code_def)

lemma rd_code_inj [simp]: "rd_code v = rd_code w \<longleftrightarrow> v = w"
proof (induction v arbitrary: w)
  case Nil
  then show ?case by (cases w) (simp_all add: rd_code_simps)
next
  case (Cons b v)
  show ?case
  proof (cases w)
    case Nil
    then show ?thesis by (simp add: rd_code_simps)
  next
    case (Cons c u)
    have small: "Suc (unat x) < 257" for x :: byte
      using unsigned_less [of x] by simp
    have "unat b = unat c \<and> rd_code v = rd_code u" if e: "rd_code (b # v) = rd_code (c # u)"
    proof -
      have "(Suc (unat b) + 257 * rd_code v) mod 257 = (Suc (unat c) + 257 * rd_code u) mod 257"
        using e by (simp only: rd_code_simps)
      then have "unat b = unat c" using small [of b] small [of c] by simp
      then show ?thesis using e by (simp add: rd_code_simps)
    qed
    then show ?thesis using Cons Cons.IH [of u] by (auto simp: word_unat_eq_iff rd_code_simps)
  qed
qed

definition rd_blob :: "ref_docs \<Rightarrow> content_hash \<Rightarrow> bytes option" where
  "rd_blob d h = (case h of ContentHash n \<Rightarrow> find (\<lambda>v. rd_code v = n) (rd_blobs d))"

lemma rd_blob_Some: "rd_blob d h = Some b \<longleftrightarrow> b \<in> set (rd_blobs d) \<and> h = ContentHash (rd_code b)"
proof -
  obtain n where h: "h = ContentHash n" by (cases h)
  have "find (\<lambda>v. rd_code v = n) vs = Some b \<longleftrightarrow> b \<in> set vs \<and> n = rd_code b" for vs
    by (induction vs) auto
  then show ?thesis by (simp add: rd_blob_def h)
qed

lemma rd_blob_update [simp]:
  "rd_blob (d\<lparr>rd_author := a\<rparr>) = rd_blob d" "rd_blob (d\<lparr>rd_known := n\<rparr>) = rd_blob d"
  "rd_blob (d\<lparr>rd_entries := e\<rparr>) = rd_blob d" "rd_blob (d\<lparr>rd_clock := t\<rparr>) = rd_blob d"
  "rd_blob (d\<lparr>rd_shut := s\<rparr>) = rd_blob d" "rd_blob (d\<lparr>rd_key := k\<rparr>) = rd_blob d"
  by (simp_all add: rd_blob_def fun_eq_iff split: content_hash.split)

lemma rd_blob_grows:
  "rd_blob d h = Some b \<Longrightarrow> rd_blob (d\<lparr>rd_blobs := rd_blobs d @ [v]\<rparr>) h = Some b"
  "rd_blob (d\<lparr>rd_blobs := rd_blobs d @ [v]\<rparr>) (ContentHash (rd_code v)) = Some v"
  by (simp_all add: rd_blob_Some)

section \<open>Text formats\<close>

definition unary :: "nat \<Rightarrow> bytes" where "unary n = replicate n 65"

definition unary_json :: "nat \<Rightarrow> bytes" where "unary_json n = unary n @ [34]"

definition unary_of_json :: "bytes \<Rightarrow> nat option" where
  "unary_of_json b = (if b \<noteq> [] \<and> last b = 34 then Some (length b - 1) else None)"

lemma unary_json_inverse [simp]: "unary_of_json (unary_json n) = Some n"
  by (simp add: unary_of_json_def unary_json_def unary_def)

definition rd_ticket_json :: "doc_ticket \<Rightarrow> bytes option" where
  "rd_ticket_json t = (if ticket_nodes t \<noteq> [] then None
     else (case ticket_capability t of
         CapWrite n \<Rightarrow> Some (87 # unary_json n)
       | CapRead (NamespaceId n) \<Rightarrow> Some (82 # unary_json n)))"

definition rd_ticket_of_json :: "bytes \<Rightarrow> doc_ticket option" where
  "rd_ticket_of_json b = (case b of
       [] \<Rightarrow> None
     | c # r \<Rightarrow> map_option (\<lambda>n. \<lparr>ticket_capability = (if c = 87 then CapWrite n else CapRead (NamespaceId n)),
         ticket_nodes = []\<rparr>) (unary_of_json r))"

definition rd_config_json :: "machine_config \<Rightarrow> bytes option" where
  "rd_config_json c = (case federation_invite_code c of InviteCode i \<Rightarrow> case claimer_pk c of PublicKey k \<Rightarrow>
     Some (unary i @ 44 # unary_json k))"

definition rd_config_of_json :: "bytes \<Rightarrow> machine_config option" where
  "rd_config_of_json b = (let i = length (takeWhile (\<lambda>x. x = 65) b) in
     map_option (\<lambda>k. \<lparr>federation_invite_code = InviteCode i, claimer_pk = PublicKey k\<rparr>)
       (unary_of_json (drop (Suc i) b)))"

definition small_hash :: "nat \<Rightarrow> hash32" where
  "small_hash n = Hash32 (replicate 31 0 @ [of_nat n])"

definition rd_key_id :: "hash32 \<Rightarrow> endpoint_id" where
  "rd_key_id key = EndpointId (unat (last (bytes_of_hash key)))"

section \<open>The platform\<close>

definition ref_platform :: "ref_docs platform" where
  "ref_platform = \<lparr>
     author_default = (\<lambda>d. (Ok (rd_author d), d)),
     docs_create = (\<lambda>d. let ns = rd_fresh d in (Ok ns, d\<lparr>rd_known := ns # rd_known d,
        rd_entries := filter (\<lambda>((ns', _, _), _). ns' \<noteq> ns) (rd_entries d)\<rparr>)),
     docs_open = (\<lambda>ns d. (Ok (if ns \<in> set (rd_known d) then Some ns else None), d)),
     docs_import = (\<lambda>t d. let ns = rd_capability_id (ticket_capability t) in
        (Ok ns, d\<lparr>rd_known := ns # rd_known d, rd_entries := (if ns \<in> set (rd_known d) then rd_entries d
           else filter (\<lambda>((ns', _, _), _). ns' \<noteq> ns) (rd_entries d))\<rparr>)),
     doc_share = (\<lambda>ns m ao d. (if ns \<notin> set (rd_known d) then Err External else Ok \<lparr>ticket_capability =
          (case m of ShareWrite \<Rightarrow> (case ns of NamespaceId n \<Rightarrow> CapWrite n) | ShareRead \<Rightarrow> CapRead ns),
        ticket_nodes = []\<rparr>, d)),
     doc_set_bytes = (\<lambda>ns a k v d. let h = ContentHash (rd_code v) in
        if v = [] \<or> \<not> rd_accepts ns a k d then (Err External, d)
        else (Ok h, (rd_put ns a k \<lparr>st_hash = h, st_timestamp = rd_clock d, st_empty = False\<rparr> d)
           \<lparr>rd_blobs := rd_blobs d @ [v]\<rparr>)),
     doc_del = (\<lambda>ns a k d. if \<not> rd_accepts ns a k d then (Err External, d)
        else (Ok 1, rd_put ns a k \<lparr>st_hash = ContentHash 0, st_timestamp = rd_clock d, st_empty = True\<rparr> d)),
     doc_get_one = (\<lambda>ns q d. case q of
         KeyExact k \<Rightarrow> (if ns \<notin> set (rd_known d) then Err External else Ok (rd_best d ns k), d)
       | KeyPrefix p \<Rightarrow> (Err External, d)),
     doc_get_many = (\<lambda>ns q d. case q of
         KeyExact k \<Rightarrow> (Err External, d)
       | KeyPrefix p \<Rightarrow> (if ns \<notin> set (rd_known d) then Err External else Ok (concat (map (\<lambda>k. case rd_best d ns k of None \<Rightarrow> [] | Some e \<Rightarrow> [Inr e]) (rd_keys d ns p))), d)),
     blobs_get_bytes = (\<lambda>h d. (case rd_blob d h of Some b \<Rightarrow> Ok b | None \<Rightarrow> Err External, d)),
     endpoint_bind = (\<lambda>key d. (Ok (), d\<lparr>rd_key := key, rd_shut := False\<rparr>)),
     blobs_load = (\<lambda>_ d. (Ok (), d)),
     docs_persistent = (\<lambda>_ d. (Ok (), d)),
     router_spawn = (\<lambda>d. (Ok (), d)),
     endpoint_addr_of = (\<lambda>d. \<lparr>addr_id = rd_key_id (rd_key d), addr_hints = []\<rparr>),
     router_shutdown = (\<lambda>d. (Ok (), d\<lparr>rd_shut := True\<rparr>)),
     router_is_shutdown = rd_shut,
     blobs_shutdown = (\<lambda>d. (Ok (), d)),
     docs_shutdown = (\<lambda>d. (Ok (), d)),
     capability_id = rd_capability_id,
     endpoint_to_string = (\<lambda>x. case x of EndpointId n \<Rightarrow> replicate n (CHR ''A'')),
     endpoint_from_str = (\<lambda>s. Some (EndpointId (length s))),
     endpoint_to_json = (\<lambda>x. case x of EndpointId n \<Rightarrow> Some (unary_json n)),
     endpoint_from_json = (\<lambda>b. map_option EndpointId (unary_of_json b)),
     ticket_to_json = rd_ticket_json,
     ticket_from_json = rd_ticket_of_json,
     config_to_json = rd_config_json,
     config_from_json = rd_config_of_json,
     contract_to_json = (\<lambda>x. case x of ClaimableContract n \<Rightarrow> Some (unary_json n)),
     contract_from_json = (\<lambda>b. map_option ClaimableContract (unary_of_json b)),
     contract_id_of = (\<lambda>x. case x of ClaimableContract n \<Rightarrow> ContractId (small_hash n)),
     invite_federation_id = (\<lambda>x. case x of InviteCode n \<Rightarrow> FederationId (small_hash n)),
     hash_database_bytes = bytes_of_hash\<rparr>"

definition ref_view :: "ref_docs docs_view" where
  "ref_view = \<lparr>
     author_of = rd_author,
     known = (\<lambda>d ns. ns \<in> set (rd_known d)),
     stored_of = (\<lambda>d ns a k. map_of (rd_entries d) (ns, a, k)),
     blob_of = rd_blob,
     clock_of = rd_clock\<rparr>"

section \<open>It meets the contracts\<close>

lemma rd_tick_le: "t \<le> rd_tick t"
  by (simp add: rd_tick_def)

lemma map_of_filter_key:
  "map_of (filter (\<lambda>(k, _). Q k) xs) k = (if Q k then map_of xs k else None)"
  by (induction xs) auto

lemma rd_put_lookup:
  "map_of (rd_entries (rd_put ns a k st d)) (ns', a', k') =
     (if (ns', a', k') = (ns, a, k) then Some st
      else if ns' = ns \<and> a' = a \<and> prefix k k' then None
      else map_of (rd_entries d) (ns', a', k'))"
proof -
  have "filter (\<lambda>((ns', a', k'), _). \<not> (ns' = ns \<and> a' = a \<and> prefix k k')) xs =
    filter (\<lambda>(x, _). \<not> (fst x = ns \<and> fst (snd x) = a \<and> prefix k (snd (snd x)))) xs" for xs :: "((namespace_id \<times> author_id \<times> bytes) \<times> stored) list"
    by (rule filter_cong) auto
  then show ?thesis by (simp add: rd_put_def map_of_filter_key)
qed

lemma set_rd_candidates:
  "(a, st) \<in> set (rd_candidates d ns k) \<longleftrightarrow> map_of (rd_entries d) (ns, a, k) = Some st"
  (is "?l \<longleftrightarrow> ?r")
proof
  assume ?l
  then obtain st0 where "((ns, a, k), st0) \<in> set (rd_entries d)"
    and st: "st = the (map_of (rd_entries d) (ns, a, k))"
    by (auto simp: rd_candidates_def)
  then have "map_of (rd_entries d) (ns, a, k) \<noteq> None" by (auto dest: weak_map_of_SomeI)
  with st show ?r by auto
next
  assume r: ?r
  then have "((ns, a, k), st) \<in> set (rd_entries d)" by (rule map_of_SomeD)
  with r show ?l by (auto simp: rd_candidates_def intro!: image_eqI [of _ _ "((ns, a, k), st)"])
qed

lemma rd_best_Some:
  assumes "rd_best d ns k = Some e"
  shows "entry_key e = k" and "visible ref_view d ns e"
proof -
  obtain a st where f: "find (\<lambda>(a, st). list_all (\<lambda>(_, st'). st_timestamp st' \<le> st_timestamp st)
      (rd_candidates d ns k)) (rd_candidates d ns k) = Some (a, st)" and st: "\<not> st_empty st"
    and e: "e = \<lparr>entry_key = k, entry_author = a, entry_hash = st_hash st, entry_timestamp = st_timestamp st\<rparr>"
    using assms by (auto simp: rd_best_def split: option.splits if_splits)
  have "(a, st) \<in> set (rd_candidates d ns k)"
    and "\<forall>(a', st') \<in> set (rd_candidates d ns k). st_timestamp st' \<le> st_timestamp st"
    using f by (auto simp: find_Some_iff list_all_iff dest: nth_mem)
  then show "entry_key e = k" and "visible ref_view d ns e"
    using st by (auto simp: e visible_def ref_view_def set_rd_candidates)
qed

lemma rd_best_newest:
  assumes "newest ref_view d ns a k st"
  shows "rd_best d ns k = (if st_empty st then None
     else Some \<lparr>entry_key = k, entry_author = a, entry_hash = st_hash st, entry_timestamp = st_timestamp st\<rparr>)"
proof -
  let ?P = "\<lambda>(a, st). list_all (\<lambda>(_, st'). st_timestamp st' \<le> st_timestamp st) (rd_candidates d ns k)"
  have own: "(a, st) \<in> set (rd_candidates d ns k)"
    and other: "\<And>a' st'. (a', st') \<in> set (rd_candidates d ns k) \<Longrightarrow> a' \<noteq> a \<Longrightarrow> st_timestamp st' < st_timestamp st"
    using assms by (auto simp: newest_def ref_view_def set_rd_candidates)
  have uniq: "st' = st" if "(a, st') \<in> set (rd_candidates d ns k)" for st'
    using that own by (simp add: set_rd_candidates)
  have good: "?P (a, st)"
    using other uniq by (fastforce simp: list_all_iff)
  have "find ?P (rd_candidates d ns k) = Some (a, st)"
  proof (cases "find ?P (rd_candidates d ns k)")
    case None
    with own good show ?thesis by (auto simp: find_None_iff)
  next
    case (Some y)
    obtain b st' where y: "y = (b, st')" by (cases y)
    have mem: "(b, st') \<in> set (rd_candidates d ns k)" and "?P (b, st')"
      using Some y by (auto simp: find_Some_iff dest: nth_mem)
    then have "st_timestamp st \<le> st_timestamp st'" using own by (auto simp: list_all_iff)
    then have "b = a" using other [OF mem] by fastforce
    then show ?thesis using Some y mem uniq by simp
  qed
  then show ?thesis by (simp add: rd_best_def)
qed


lemma set_rd_keys:
  "k \<in> set (rd_keys d ns p) \<longleftrightarrow> prefix p k \<and> (\<exists>a. map_of (rd_entries d) (ns, a, k) \<noteq> None)"
proof -
  have "k \<in> set (rd_keys d ns p) \<longleftrightarrow> prefix p k \<and> (\<exists>a st. ((ns, a, k), st) \<in> set (rd_entries d))"
    by (force simp: rd_keys_def)
  also have "(\<exists>a st. ((ns, a, k), st) \<in> set (rd_entries d)) \<longleftrightarrow> (\<exists>a. map_of (rd_entries d) (ns, a, k) \<noteq> None)"
    by (metis map_of_SomeD not_None_eq weak_map_of_SomeI)
  finally show ?thesis .
qed

lemma ref_get_many:
  fixes es :: "(error + entry) list"
  assumes es: "es = concat (map (\<lambda>k. case rd_best d ns k of None \<Rightarrow> [] | Some e \<Rightarrow> [Inr e]) (rd_keys d ns p))"
  shows "Inr e \<in> set es \<Longrightarrow> prefix p (entry_key e) \<and> visible ref_view d ns e"
    and "newest ref_view d ns a k st \<Longrightarrow> prefix p k \<Longrightarrow> \<not> st_empty st \<Longrightarrow> \<exists>e. Inr e \<in> set es \<and> entry_key e = k"
    and "distinct [entry_key e. Inr e \<leftarrow> es]"
proof -
  show "prefix p (entry_key e) \<and> visible ref_view d ns e" if "Inr e \<in> set es"
    using that rd_best_Some by (fastforce simp: es set_rd_keys split: option.splits)
  show "\<exists>e. Inr e \<in> set es \<and> entry_key e = k"
    if n: "newest ref_view d ns a k st" and "prefix p k" "\<not> st_empty st"
  proof -
    have "k \<in> set (rd_keys d ns p)"
      using that by (auto simp: set_rd_keys newest_def ref_view_def)
    then show ?thesis using rd_best_newest [OF n] that(3)
      by (intro exI [of _ "\<lparr>entry_key = k, entry_author = a, entry_hash = st_hash st,
            entry_timestamp = st_timestamp st\<rparr>"]) (auto simp: es intro!: bexI [of _ k])
  qed
  have "[entry_key e. Inr e \<leftarrow> concat (map (\<lambda>k. case rd_best d ns k of None \<Rightarrow> [] | Some e \<Rightarrow> [Inr e :: error + entry]) ks)] =
      filter (\<lambda>k. rd_best d ns k \<noteq> None) ks" for ks
    by (induction ks) (auto split: option.splits dest: rd_best_Some(1))
  moreover have "distinct (rd_keys d ns p)" by (simp add: rd_keys_def)
  ultimately show "distinct [entry_key e. Inr e \<leftarrow> es]" by (simp add: es)
qed

lemma rd_put_touches:
  "touches_only ref_view ns a k d (rd_put ns a k st d)"
  "touches_only ref_view ns a k d ((rd_put ns a k st d)\<lparr>rd_blobs := rd_blobs d @ [v]\<rparr>)"
  using rd_tick_le
  by (auto simp: touches_only_def ref_view_def rd_put_lookup)
     (simp_all add: rd_put_def rd_blob_Some)

lemma ref_touches_refl: "touches_only ref_view ns a k d d"
  by (simp add: touches_only_def)

lemma rd_fresh_unknown: "rd_fresh d \<notin> set (rd_known d)"
proof -
  have "n \<le> foldr (\<lambda>ns m. case ns of NamespaceId n \<Rightarrow> max n m) xs 0"
    if "NamespaceId n \<in> set xs" for n xs
    using that by (induction xs) (auto split: namespace_id.splits)
  from this [of _ "rd_known d"] show ?thesis
    using Suc_n_not_le_n unfolding rd_fresh_def by blast
qed


lemma ref_ticket_json:
  assumes "rd_ticket_json t = Some b"
  shows "rd_ticket_of_json b = Some t" and "utf8_valid b"
  using assms
  by (auto simp: rd_ticket_json_def rd_ticket_of_json_def unary_json_def unary_def intro!: utf8_valid_ascii
      split: if_splits capability.splits namespace_id.splits)
     (simp_all flip: unary_def unary_json_def)

lemma takeWhile_unary: "takeWhile (\<lambda>x. x = 65) (unary i @ 44 # r) = unary i"
  by (induction i) (simp_all add: unary_def)

lemma ref_config_json:
  assumes "rd_config_json c = Some b"
  shows "rd_config_of_json b = Some c" and "utf8_valid b"
proof -
  obtain i k where c: "c = \<lparr>federation_invite_code = InviteCode i, claimer_pk = PublicKey k\<rparr>"
    by (cases c; cases "federation_invite_code c"; cases "claimer_pk c") simp
  have b: "b = unary i @ 44 # unary_json k" using assms by (simp add: c rd_config_json_def)
  have "length (unary i) = i" by (simp add: unary_def)
  then show "rd_config_of_json b = Some c"
    by (simp add: rd_config_of_json_def Let_def b c takeWhile_unary)
  show "utf8_valid b" by (auto simp: b unary_json_def unary_def intro!: utf8_valid_ascii)
qed

lemma utf8_unary_json: "utf8_valid (unary_json n)"
  by (auto simp: unary_json_def unary_def intro!: utf8_valid_ascii)

lemma ref_codec_contract: "codec_contract ref_platform"
  unfolding codec_contract_def
  by (auto simp: ref_platform_def utf8_unary_json ref_ticket_json ref_config_json
      split: endpoint_id.splits claimable_contract.splits)

lemma ref_router_contract: "router_contract ref_platform"
  by (simp add: router_contract_def ref_platform_def)

lemma ref_read_laws:
  "author_default_law ref_platform ref_view" "docs_open_law ref_platform ref_view"
  "doc_share_law ref_platform ref_view" "get_bytes_law ref_platform ref_view"
proof -
  show "author_default_law ref_platform ref_view"
    by (auto simp: author_default_law_def ref_platform_def ref_view_def)
  show "docs_open_law ref_platform ref_view"
    by (auto simp: docs_open_law_def ref_platform_def ref_view_def)
  show "doc_share_law ref_platform ref_view"
    by (auto simp: doc_share_law_def ref_platform_def rd_capability_id_def split: namespace_id.splits share_mode.splits if_splits)
  show "get_bytes_law ref_platform ref_view"
    by (auto simp: get_bytes_law_def ref_platform_def ref_view_def split: option.splits)
qed

lemma ref_query_laws: "get_one_law ref_platform ref_view" "get_many_law ref_platform ref_view"
proof -
  show "get_one_law ref_platform ref_view"
    unfolding get_one_law_def
  proof (intro allI impI)
    fix ns k d r d'
    assume "doc_get_one ref_platform ns (KeyExact k) d = (r, d')"
    then have "r = Err External \<or> r = Ok (rd_best d ns k)" "d' = d" by (auto simp: ref_platform_def)
    then show "same_store ref_view d d' \<and>
     (\<forall>e. r = Ok (Some e) \<longrightarrow> entry_key e = k \<and> visible ref_view d ns e) \<and>
     (r = Ok None \<longrightarrow> (\<forall>a st. newest ref_view d ns a k st \<longrightarrow> st_empty st))"
      using rd_best_Some [of d ns k] by (auto dest: rd_best_newest split: if_splits)
  qed
  show "get_many_law ref_platform ref_view"
    unfolding get_many_law_def
  proof (intro allI impI)
    fix ns p d r d'
    assume "doc_get_many ref_platform ns (KeyPrefix p) d = (r, d')"
    then have r: "r = Err External \<or> r = Ok (concat (map (\<lambda>k. case rd_best d ns k of None \<Rightarrow> [] | Some e \<Rightarrow> [Inr e]) (rd_keys d ns p)))"
      (is "_ \<or> _ = Ok ?es") and d': "d' = d"
      by (auto simp: ref_platform_def)
    note laws = ref_get_many [OF refl, where d = d and ns = ns and p = p]
    have "(\<forall>e. Inr e \<in> set ?es \<longrightarrow> prefix p (entry_key e) \<and> visible ref_view d ns e) \<and>
        (\<forall>a k st. newest ref_view d ns a k st \<longrightarrow> prefix p k \<longrightarrow> \<not> st_empty st \<longrightarrow>
           (\<exists>x. Inl x \<in> set ?es) \<or> (\<exists>e. Inr e \<in> set ?es \<and> entry_key e = k)) \<and>
        distinct [entry_key e. Inr e \<leftarrow> ?es]"
      using laws by blast
    then show "same_store ref_view d d' \<and>
     (\<forall>es. r = Ok es \<longrightarrow>
        (\<forall>e. Inr e \<in> set es \<longrightarrow> prefix p (entry_key e) \<and> visible ref_view d ns e) \<and>
        (\<forall>a k st. newest ref_view d ns a k st \<longrightarrow> prefix p k \<longrightarrow> \<not> st_empty st \<longrightarrow>
           (\<exists>x. Inl x \<in> set es) \<or> (\<exists>e. Inr e \<in> set es \<and> entry_key e = k)) \<and>
        distinct [entry_key e. Inr e \<leftarrow> es])"
      using r unfolding d' by auto
  qed
qed

lemma ref_write_laws: "set_bytes_law ref_platform ref_view" "del_law ref_platform ref_view"
proof -
  show "set_bytes_law ref_platform ref_view"
    using rd_put_touches(2) ref_touches_refl
    by (auto simp: set_bytes_law_def ref_platform_def Let_def split: if_splits)
       (auto simp: ref_view_def rd_put_lookup, simp_all add: rd_blob_Some rd_put_def)
  show "del_law ref_platform ref_view"
    using rd_put_touches(1) ref_touches_refl
    by (auto simp: del_law_def ref_platform_def Let_def split: if_splits)
       (auto simp: ref_view_def rd_put_lookup)
qed

lemma rd_forget:
  "map_of (filter (\<lambda>((ns', _, _), _). ns' \<noteq> ns) xs) (ns', a, k) = (if ns' = ns then None else map_of xs (ns', a, k))"
  for xs :: "((namespace_id \<times> author_id \<times> bytes) \<times> stored) list"
  by (induction xs) auto

lemma ref_document_laws: "create_law ref_platform ref_view" "import_law ref_platform ref_view"
proof -
  show "create_law ref_platform ref_view"
    using rd_fresh_unknown
    by (auto simp: create_law_def ref_platform_def ref_view_def Let_def rd_forget fun_eq_iff)
  show "import_law ref_platform ref_view"
    by (auto simp: import_law_def ref_platform_def ref_view_def Let_def rd_forget fun_eq_iff)
qed

lemma ref_docs_contract: "docs_contract ref_platform ref_view"
  by (simp add: docs_contract_def ref_read_laws ref_query_laws ref_write_laws ref_document_laws)

end
