(* ===== verification/Reference_Wallet.thy ===== *)
theory Reference_Wallet
  imports Wallet Reference_Docs
begin

text \<open>
  A small concrete federation client and its API, on which \<open>client_contract\<close> and
  \<open>database_contract\<close> hold: the properties about the wallet are applied to it in their
  witnesses. A client keeps the contracts it holds, the ones it has claimed and a balance;
  a database directory holds the file \<open>CURRENT\<close> once a federation has been joined.
\<close>

record ref_client =
  rc_held :: "claimable_contract list"
  rc_claimed :: "contract_id list"
  rc_balance :: "64 word"

definition rc_new :: ref_client where
  "rc_new = \<lparr>rc_held = [], rc_claimed = [], rc_balance = 0\<rparr>"

definition rc_cid :: "claimable_contract \<Rightarrow> contract_id" where
  "rc_cid = contract_id_of ref_platform"

definition rc_fid_string :: "federation_id \<Rightarrow> string" where
  "rc_fid_string fid = (case fid of FederationId h \<Rightarrow> replicate (unat (last (bytes_of_hash h))) (CHR ''F''))"

definition rc_open :: "path \<Rightarrow> disk \<Rightarrow> unit res \<times> disk" where
  "rc_open db d = (case map_of d db of
       None \<Rightarrow> if db \<noteq> [] \<and> is_dir d (butlast db) then (Ok (), AList.update db Dir d) else (Err External, d)
     | Some Dir \<Rightarrow> (Ok (), d)
     | Some (File _) \<Rightarrow> (Err External, d))"

definition ref_fedimint :: "ref_client fedimint" where
  "ref_fedimint = \<lparr>
     fid_to_string = rc_fid_string,
     fid_from_string = (\<lambda>s. if s \<noteq> [] \<and> list_all (\<lambda>c. c = CHR ''F'') s
        then Some (FederationId (small_hash (length s))) else None),
     invite_id = (\<lambda>x. case x of InviteCode n \<Rightarrow> FederationId (small_hash n)),
     invite_to_string = (\<lambda>x. case x of InviteCode n \<Rightarrow> unary_json n),
     invite_from_string = (\<lambda>b. map_option InviteCode (unary_of_json b)),
     rocksdb_open = rc_open,
     client_is_initialized = (\<lambda>db d. map_of d (db @ [''CURRENT'']) \<noteq> None),
     client_builder = Ok (),
     client_connectors = Ok (),
     client_open = (\<lambda>db rs d. (Ok rc_new, d)),
     client_preview = (\<lambda>_. Ok ()),
     client_join = (\<lambda>code db rs d. (Ok rc_new, AList.update (db @ [''CURRENT'']) (File []) d)),
     client_name = (\<lambda>_. None),
     client_balance = (\<lambda>c. Some (rc_balance c)),
     amount_add = (\<lambda>a b. if unat a + unat b < 2 ^ 64 then Some (a + b) else None),
     has_lightning = (\<lambda>_. True),
     has_mint = (\<lambda>_. True),
     ln_public_key = (\<lambda>_. PublicKey 1),
     ln_remote_receive = (\<lambda>_ _ _ _ _ c. (Ok (Bolt11Invoice 1, OperationId 1), c)),
     operation_exists = (\<lambda>op _. op = OperationId 1),
     ln_await_remote_receive = (\<lambda>_ c. (Ok (FinalState 1), c)),
     ln_claimable = (\<lambda>_ lim c. case lim of None \<Rightarrow> rc_held c | Some n \<Rightarrow> take n (rc_held c)),
     ln_remove_claimed = (\<lambda>ids c. c\<lparr>rc_held := filter (\<lambda>cc. rc_cid cc \<notin> set ids) (rc_held c)\<rparr>),
     ln_claim = (\<lambda>ccs c. (Ok (), c\<lparr>rc_claimed := map rc_cid ccs @ rc_claimed c\<rparr>)),
     mint_total = rc_balance,
     mint_spend_exact = (\<lambda>a _ _ _ c. (Ok (OOBNotes (unat a)), c\<lparr>rc_balance := 0\<rparr>)),
     network_to_string = (\<lambda>net. case net of Bitcoin \<Rightarrow> ''bitcoin'' | Testnet \<Rightarrow> ''testnet''
        | Testnet4 \<Rightarrow> ''testnet4'' | Signet \<Rightarrow> ''signet'' | Regtest \<Rightarrow> ''regtest''),
     mnemonic_to_string = (\<lambda>x. case x of Mnemonic n \<Rightarrow> unary_json n),
     mnemonic_from_string = (\<lambda>b. map_option Mnemonic (unary_of_json b)),
     xpriv_new_master = (\<lambda>net m _. case m of Mnemonic n \<Rightarrow> Xpriv (if net = Bitcoin then 2 * n else 2 * n + 1)),
     xpriv_network = (\<lambda>x. case x of Xpriv n \<Rightarrow> if even n then NetMain else NetTest),
     xpriv_derive_hardened = (\<lambda>x i. case x of Xpriv n \<Rightarrow> small_hash (n + unat i)),
     entropy_root_secret = (\<lambda>h. RootSecret (unat (last (bytes_of_hash h))))\<rparr>"

definition ref_client_view :: "ref_client client_view" where
  "ref_client_view = \<lparr>holds_contract = (\<lambda>c i. i \<in> rc_cid ` set (rc_held c)),
     has_claimed = (\<lambda>c i. i \<in> set (rc_claimed c))\<rparr>"

lemma ref_client_contract: "client_contract ref_fedimint (contract_id_of ref_platform) ref_client_view"
  unfolding client_contract_def rc_cid_def [symmetric]
  by (simp add: ref_fedimint_def ref_client_view_def) blast

lemma rc_open_confined: "confined db (rc_open db)"
  by (auto simp: confined_def rc_open_def update_conv is_dir_def split: option.splits fs_node.splits if_splits)

lemma ref_database_contract: "database_contract ref_fedimint"
  unfolding database_contract_def
proof (intro conjI allI impI)
  show "confined db (rocksdb_open ref_fedimint db)" for db
    using rc_open_confined by (simp add: ref_fedimint_def)
  show "is_dir d' db" if "rocksdb_open ref_fedimint db d = (Ok u, d')" for db d u d'
    using that by (auto simp: ref_fedimint_def rc_open_def is_dir_def update_conv split: option.splits fs_node.splits if_splits)
  show "confined db (client_open ref_fedimint db rs)" for db rs
    by (simp add: confined_def ref_fedimint_def)
  show "confined db (client_join ref_fedimint code db rs)" for code db rs
    by (auto simp: confined_def ref_fedimint_def update_conv is_dir_def)
qed

end
