(* ===== verification/Examples.thy ===== *)
theory Examples
  imports Liveness Machine_App Manager_App Reference_Wallet
begin

text \<open>
  Concrete devices on the reference engine and the reference federation client, on which the
  properties' hypotheses hold: a machine and a manager that both hold a ticket of document 1,
  the two ends of a claim, a machine with a contract to move and a manager with one to sweep.
\<close>

definition ex_docs :: ref_docs where
  "ex_docs = \<lparr>rd_author = AuthorId 1, rd_known = [NamespaceId 1], rd_entries = [], rd_blobs = [],
     rd_clock = 1, rd_shut = False, rd_key = small_hash 0\<rparr>"

definition ex_app :: path where "ex_app = [''s'', ''app'']"

definition ex_ticket :: bytes where "ex_ticket = 87 # unary_json 1"

definition ex_machine :: "(ref_docs, ref_client) machine_node" where
  "ex_machine = \<lparr>awaits_left = None, io_script = [],
     disk = [([''s''], Dir), (ex_app, Dir), (ex_app @ [MACHINE_DOC_TICKET_PATH], File ex_ticket)],
     engine = ex_docs, clients = [], claimed_manager_pubkey = None, conn_log = []\<rparr>"

definition ex_conn :: connection where
  "ex_conn = \<lparr>remote_id = EndpointId 7, exporter = (\<lambda>_ _. small_hash 5), request_channel = Ok (),
     decision = Some True, accept_bi = Ok (), recv_read_to_end = (\<lambda>_. Ok PING_MAGIC_BYTES),
     send_write_all = Ok (), send_finish = Ok (), send_stopped = Ok (), send_shutdown = Ok ()\<rparr>"

definition ex_claimed :: "(ref_docs, ref_client) machine_node" where
  "ex_claimed = ex_machine\<lparr>
     disk := disk ex_machine @ [(manager_key_file ex_app, File (unary_json 7))],
     claimed_manager_pubkey := Some (EndpointId 7),
     conn_log := [(EndpointId 7, ClaimRequested (claim_pin_from_keying_material (exporter ex_conn))),
       (EndpointId 7, TicketSent ex_ticket), (EndpointId 7, ConnClosed ''finished'')]\<rparr>"

lemmas ex_defs = ex_docs_def ex_app_def ex_ticket_def ex_machine_def

lemma utf8_ticket: "utf8_valid ex_ticket" "rd_ticket_of_json ex_ticket = Some \<lparr>ticket_capability = CapWrite 1, ticket_nodes = []\<rparr>"
  by (simp_all add: ex_ticket_def rd_ticket_of_json_def utf8_unary_json)

lemma ex_ticket_json [simp]:
  "rd_ticket_json \<lparr>ticket_capability = CapWrite (Suc 0), ticket_nodes = []\<rparr> = Some ex_ticket"
  by (simp add: rd_ticket_json_def ex_ticket_def)

lemmas run_simps = await_def andThen_def ret_def attempt_def lift_res_def engine_call_def fs_op_def next_io_def
  fs_read_to_string_def fs_read_def read_op_def fs_write_def write_op_def fs_create_dir_all_def create_dir_all_op_def
  is_dir_def

lemma ex_accept: "accept_claim ref_platform ex_app ex_conn ex_machine = (Ok (), ex_claimed)"
  by (simp add: accept_claim_def lock_claimed_def accept_agreed_def get_or_create_machine_doc_def Let_def
      log_event_def set_claimed_def run_simps ex_machine_def ex_conn_def ex_claimed_def ex_docs_def utf8_ticket
      ref_platform_def ex_app_def MACHINE_DOC_TICKET_PATH_def MACHINE_MANAGER_PUBLIC_KEY_PATH_def
      PING_MAGIC_BYTES_def rd_capability_id_def)

section \<open>Devices with a wallet\<close>

definition ex_fid :: federation_id where "ex_fid = FederationId (small_hash 3)"

definition ex_contract :: claimable_contract where "ex_contract = ClaimableContract 5"

definition ex_data :: path where "ex_data = [''w'']"

lemma last_small_hash: "last (bytes_of_hash (small_hash n)) = of_nat n"
  by (simp add: small_hash_def bytes_of_Hash32)

lemma replicate_few: "replicate 2 x = [x, x]" "replicate 3 x = [x, x, x]"
  by (simp_all add: eval_nat_numeral)

lemma ex_fid_string [simp]: "fid_to_string ref_fedimint ex_fid = ''FFF''"
  by (simp add: ref_fedimint_def rc_fid_string_def ex_fid_def last_small_hash replicate_few)

text \<open>A claimed machine whose wallet holds a contract.\<close>

definition ex_paying :: "(ref_docs, ref_client) machine_node" where
  "ex_paying = ex_claimed\<lparr>
     disk := disk ex_claimed @ [(ex_data, Dir), (ex_data @ [''FFF''], Dir)],
     clients := [(ex_fid, rc_new\<lparr>rc_held := [ex_contract]\<rparr>)]\<rparr>"

lemma ex_paying_doc: "machine_doc ref_platform ref_view ex_app ex_paying (NamespaceId 1)"
  by (rule machine_doc_of_ticket [of ex_paying ex_app ref_view "NamespaceId 1" ex_ticket ref_platform
        "\<lparr>ticket_capability = CapWrite 1, ticket_nodes = []\<rparr>"])
     (auto simp: ex_paying_def ex_claimed_def ex_defs dirs_exist_def is_dir_def ref_view_def ref_platform_def
        prefix_Cons rd_ticket_of_json_def rd_capability_id_def MACHINE_DOC_TICKET_PATH_def utf8_unary_json)

lemma ex_paying_ready: "machine_ready ref_platform ref_view ex_app (NamespaceId 1) ex_paying"
  using ex_paying_doc by (simp add: machine_ready_def healthy_def ex_paying_def ex_claimed_def ex_machine_def)

lemma ex_paying_wallet: "wallet_ready ref_fedimint ex_data ex_paying"
proof -
  have "map_of (clients ex_paying) fid \<noteq> None \<Longrightarrow> fid = ex_fid" for fid
    by (simp add: ex_paying_def split: if_splits)
  moreover have "is_dir (disk ex_paying) (ex_data @ [''FFF''])"
    by (simp add: ex_paying_def ex_claimed_def ex_machine_def is_dir_def ex_data_def ex_app_def
        MACHINE_DOC_TICKET_PATH_def MACHINE_MANAGER_PUBLIC_KEY_PATH_def)
  moreover have "dirs_exist (disk ex_paying) ex_data"
    by (auto simp: ex_paying_def ex_claimed_def ex_machine_def dirs_exist_def is_dir_def ex_data_def ex_app_def prefix_Cons
        MACHINE_DOC_TICKET_PATH_def MACHINE_MANAGER_PUBLIC_KEY_PATH_def)
  ultimately show ?thesis unfolding wallet_ready_def by (metis ex_fid_string)
qed

lemma ex_paying_held: "contract_held ref_client_view ex_fid (contract_id_of ref_platform ex_contract) ex_paying"
  by (simp add: contract_held_def ex_paying_def ref_client_view_def rc_new_def rc_cid_def)

text \<open>A manager that has the ticket of machine 2, whose document holds a pending contract.\<close>

definition ex_mid :: endpoint_id where "ex_mid = EndpointId 2"

definition ex_key :: bytes where
  "ex_key = create_claimable_contract_machine_doc_key ref_platform ex_fid ex_contract"

definition ex_hash :: "bytes \<Rightarrow> content_hash" where "ex_hash v = ContentHash (rd_code v)"

definition ex_pending_docs :: ref_docs where
  "ex_pending_docs = \<lparr>rd_author = AuthorId 2, rd_known = [NamespaceId 1],
     rd_entries = [((NamespaceId 1, AuthorId 1, ex_key), \<lparr>st_hash = ex_hash (unary_json 5), st_timestamp = 1, st_empty = False\<rparr>)],
     rd_blobs = [unary_json 5], rd_clock = 2, rd_shut = False, rd_key = small_hash 0\<rparr>"

definition ex_manager :: "(ref_docs, ref_client) wallet_node" where
  "ex_manager = \<lparr>awaits_left = None, io_script = [],
     disk = [([''s''], Dir), (ex_app, Dir), (machine_doc_ticket_path ex_app, Dir),
       (machine_doc_ticket_path ex_app @ [''AA''], File ex_ticket), (ex_data, Dir), (ex_data @ [''FFF''], Dir)],
     engine = ex_pending_docs, clients = [(ex_fid, rc_new)]\<rparr>"

lemma ex_mid_string [simp]: "endpoint_to_string ref_platform ex_mid = ''AA''"
  by (simp add: ref_platform_def ex_mid_def replicate_few)

lemma ex_manager_doc: "manager_doc ref_platform ref_view ex_app ex_mid (NamespaceId 1) ex_manager"
  by (simp add: manager_doc_def ex_manager_def ex_app_def machine_doc_ticket_path_def MACHINE_DOC_TICKETS_SUBDIR_def
      ref_view_def ex_pending_docs_def utf8_ticket)
     (simp add: ref_platform_def utf8_ticket rd_capability_id_def)

lemma ex_manager_pending: "payment_pending ref_platform ref_view (NamespaceId 1) ex_fid ex_contract ex_manager"
  unfolding payment_pending_def
  by (rule exI [of _ "\<lparr>entry_key = ex_key, entry_author = AuthorId 1, entry_hash = ex_hash (unary_json 5), entry_timestamp = 1\<rparr>"])
     (auto simp: visible_def ex_manager_def ref_view_def ex_pending_docs_def ex_key_def ex_contract_def ref_platform_def ex_hash_def rd_blob_def
        intro!: exI [of _ "unary_json 5"] exI [of _ "ClaimableContract 5"])

lemma ex_sweep_laws: "sweep_laws ref_platform ref_view ref_fedimint ref_client_view rev"
  by (simp add: sweep_laws_def ref_docs_contract ref_codec_contract ref_client_contract)

section \<open>A claim, from both sides\<close>

definition ex_out :: outgoing_connection where
  "ex_out = \<lparr>out_connect = Ok (), out_exporter = (\<lambda>_ _. small_hash 5), out_decision = Some True, out_open_bi = Ok (),
     out_write_all = (\<lambda>_. Ok ()), out_finish = Ok (), out_stopped = Ok (), out_read_to_end = (\<lambda>_. Ok ex_ticket),
     out_shutdown = Ok ()\<rparr>"

definition ex_claimer :: "ref_docs node" where
  "ex_claimer = \<lparr>awaits_left = None, io_script = [],
     disk = [([''s''], Dir), (ex_app, Dir), (machine_doc_ticket_path ex_app, Dir)], engine = ex_docs\<rparr>"

definition ex_claimer_done :: "ref_docs node" where
  "ex_claimer_done = ex_claimer\<lparr>engine := ex_docs\<lparr>rd_known := [NamespaceId 1, NamespaceId 1]\<rparr>,
     disk := AList.update (machine_doc_ticket_path ex_app @ [''AA'']) (File ex_ticket) (disk ex_claimer)\<rparr>"

lemma ex_task: "manager_claim_task ref_platform ex_app ex_out ex_mid ex_claimer = (Ok (Some ''done''), ex_claimer_done)"
  unfolding ex_claimer_done_def ex_mid_string [symmetric]
  by (rule manager_claim_completes [where t = "\<lparr>ticket_capability = CapWrite 1, ticket_nodes = []\<rparr>"
        and tb = ex_ticket and r = "Ok (NamespaceId 1)" and ns = "NamespaceId 1" and e = External])
     (simp_all add: running_def ex_claimer_def out_cooperates_def ex_out_def ref_platform_def utf8_ticket is_write_capability_def
        ex_docs_def rd_capability_id_def is_dir_def ex_app_def machine_doc_ticket_path_def MACHINE_DOC_TICKETS_SUBDIR_def Let_def)

definition ex_before :: "(ref_docs, ref_client) claim_system" where
  "ex_before = \<lparr>the_machine = ex_machine, the_manager = (\<lambda>_. ex_claimer)\<rparr>"

definition ex_after :: "(ref_docs, ref_client) claim_system" where
  "ex_after = \<lparr>the_machine = ex_claimed, the_manager = (\<lambda>_. ex_claimer)(EndpointId 7 := ex_claimer_done)\<rparr>"

lemma ex_no_ticket: "\<not> has_ticket ref_platform ex_app ex_mid ex_claimer"
  by (simp add: has_ticket_def ex_claimer_def ex_app_def machine_doc_ticket_path_def MACHINE_DOC_TICKETS_SUBDIR_def)

lemma ex_reach_before: "claim_reach ref_platform [''s''] (\<lambda>_. ex_app) ex_mid ex_before"
  by (rule claim_reach.init)
     (simp add: claim_start_def ex_before_def ex_no_ticket, simp add: ex_machine_def healthy_def)

lemma ex_reach_served: "claim_reach ref_platform [''s''] (\<lambda>_. ex_app) ex_mid (ex_before\<lparr>the_machine := ex_claimed\<rparr>)"
proof (rule claim_reach.step [OF ex_reach_before claim_step.serve])
  have "(the_machine ex_before)\<lparr>awaits_left := None\<rparr> = ex_machine" "app_storage_path [''s''] = ex_app"
    by (simp_all add: ex_before_def ex_machine_def app_storage_path_def APP_SUBDIR_def ex_app_def)
  then show "accept_claim ref_platform (app_storage_path [''s'']) ex_conn ((the_machine ex_before)\<lparr>awaits_left := None\<rparr>) =
      (Ok (), ex_claimed)"
    using ex_accept by simp
qed

lemma ex_reach_after: "claim_reach ref_platform [''s''] (\<lambda>_. ex_app) ex_mid ex_after"
proof -
  let ?x = "ex_before\<lparr>the_machine := ex_claimed\<rparr>"
  have a: "authentic (EndpointId 7) (conn_log (the_machine ?x)) ex_out"
    by (simp add: authentic_def ex_out_def ex_claimed_def)
  have "(the_manager ?x (EndpointId 7))\<lparr>awaits_left := None, io_script := []\<rparr> = ex_claimer"
    by (simp add: ex_before_def ex_claimer_def)
  then have "claim_step ref_platform [''s''] (\<lambda>_. ex_app) ex_mid ?x
      (?x\<lparr>the_manager := (the_manager ?x)(EndpointId 7 := ex_claimer_done)\<rparr>)"
    using ex_task by (intro claim_step.claim [OF a, where n = None and os = "[]"]) simp
  then have "claim_reach ref_platform [''s''] (\<lambda>_. ex_app) ex_mid
      (?x\<lparr>the_manager := (the_manager ?x)(EndpointId 7 := ex_claimer_done)\<rparr>)"
    by (rule claim_reach.step [OF ex_reach_served])
  then show ?thesis by (simp add: ex_after_def ex_before_def)
qed

lemma ex_has_ticket: "has_ticket ref_platform ex_app ex_mid (the_manager ex_after (EndpointId 7))"
  by (simp add: has_ticket_def ex_after_def ex_claimer_done_def update_conv)

section \<open>Sweeping, evaluated\<close>

definition ex_write_ticket :: doc_ticket where
  "ex_write_ticket = \<lparr>ticket_capability = CapWrite 1, ticket_nodes = []\<rparr>"

lemma ex_dir_names: "dir_names (disk ex_manager) (machine_doc_ticket_path ex_app) = [''AA'']"
  by (simp add: dir_names_def ex_manager_def ex_app_def ex_data_def machine_doc_ticket_path_def MACHINE_DOC_TICKETS_SUBDIR_def)

lemma ex_running: "running ex_manager"
  by (simp add: running_def ex_manager_def)

lemma ex_ticket_read:
  "fs_read_to_string (machine_doc_ticket_path ex_app @ [''AA'']) ex_manager = (Ok ex_ticket, ex_manager)"
  by (rule running_fs_read_to_string [OF ex_running])
     (simp_all add: utf8_ticket ex_manager_def ex_app_def machine_doc_ticket_path_def MACHINE_DOC_TICKETS_SUBDIR_def)

lemma ex_ticket_decodes: "ticket_from_json ref_platform ex_ticket = Some ex_write_ticket"
  by (simp add: ref_platform_def utf8_ticket ex_write_ticket_def)

lemma ex_list: "list_machines ref_platform ex_app ex_manager = (Ok [(ex_mid, ex_write_ticket)], ex_manager)"
proof -
  have dir: "fs_read_dir (machine_doc_ticket_path ex_app) ex_manager = (Ok [''AA''], ex_manager)"
    unfolding fs_read_dir_def
    by (subst running_fs_op [OF ex_running, where r = "Ok [''AA'']" and d = "disk ex_manager"])
       (simp_all add: read_dir_op_def ex_dir_names,
        simp add: is_dir_def ex_manager_def ex_app_def machine_doc_ticket_path_def MACHINE_DOC_TICKETS_SUBDIR_def)
  have nx: "fs_next_entry ex_manager = (Ok (), ex_manager)"
    unfolding fs_next_entry_def
    by (subst running_fs_op [OF ex_running, where r = "Ok ()" and d = "disk ex_manager"]) simp_all
  have f: "fs_is_file (machine_doc_ticket_path ex_app @ [''AA'']) ex_manager = (Ok True, ex_manager)"
    unfolding fs_is_file_def
    by (subst running_fs_op [OF ex_running, where r = "Ok True" and d = "disk ex_manager"])
       (simp_all, simp add: ex_manager_def ex_app_def machine_doc_ticket_path_def MACHINE_DOC_TICKETS_SUBDIR_def)
  have "endpoint_from_str ref_platform ''AA'' = Some ex_mid" "os_into_string ''AA'' = Some ''AA''"
    by (simp_all add: ref_platform_def ex_mid_def os_into_string_def)
  then have "list_one ref_platform (machine_doc_ticket_path ex_app) [] ''AA'' ex_manager =
      (Ok [(ex_mid, ex_write_ticket)], ex_manager)"
    using nx f ex_ticket_read ex_ticket_decodes by (simp add: list_one_def andThen_eval)
  with dir nx show ?thesis by (simp add: list_machines_def Let_def andThen_eval)
qed

lemma ex_open: "open_machine_doc ref_platform ex_write_ticket ex_manager = (Ok (NamespaceId 1), ex_manager)"
  by (simp add: open_machine_doc_def andThen_def engine_call_def running_await [OF ex_running])
     (simp add: ref_platform_def ex_write_ticket_def rd_capability_id_def ex_manager_def ex_pending_docs_def ret_def)

definition ex_entry :: entry where
  "ex_entry = \<lparr>entry_key = ex_key, entry_author = AuthorId 1, entry_hash = ex_hash (unary_json 5), entry_timestamp = 1\<rparr>"

lemma ex_key_prefix: "prefix CLAIMABLE_CONTRACT_PREFIX ex_key"
  unfolding ex_key_def by (rule prefix_contract_key)

lemma ex_get_many: "doc_get_many ref_platform (NamespaceId 1) (KeyPrefix CLAIMABLE_CONTRACT_PREFIX) ex_pending_docs =
    (Ok [Inr ex_entry], ex_pending_docs)"
  using ex_key_prefix
  by (simp add: ref_platform_def ex_pending_docs_def rd_keys_def rd_best_def rd_candidates_def ex_entry_def)

lemma ex_claimable:
  "manager_get_claimable_contracts ref_platform ex_app ex_manager = (Ok [(ex_mid, ex_fid, ex_contract)], ex_manager)"
proof -
  have gm: "engine_call (doc_get_many ref_platform (NamespaceId 1) (KeyPrefix CLAIMABLE_CONTRACT_PREFIX)) ex_manager =
      (Ok [Inr ex_entry], ex_manager)"
    using running_engine_call [where f = "doc_get_many ref_platform (NamespaceId 1) (KeyPrefix CLAIMABLE_CONTRACT_PREFIX)",
        OF ex_running] ex_get_many by (simp add: ex_manager_def)
  have p: "parse_incoming_contract_machine_doc_key (entry_key ex_entry) = Inr (ex_fid, contract_id_of ref_platform ex_contract)"
    using parse_contract_key [OF ref_codec_contract] by (simp add: ex_entry_def ex_key_def)
  have b: "engine_call (blobs_get_bytes ref_platform (entry_hash ex_entry)) ex_manager = (Ok (unary_json 5), ex_manager)"
    using running_engine_call [where f = "blobs_get_bytes ref_platform (entry_hash ex_entry)", OF ex_running]
    by (simp add: ref_platform_def ex_entry_def ex_manager_def ex_pending_docs_def ex_hash_def rd_blob_def)
  have d: "contract_from_json ref_platform (unary_json 5) = Some ex_contract" "unary_json 5 \<noteq> []"
    by (simp_all add: ref_platform_def ex_contract_def) (simp add: unary_json_def)
  have "collect_contract ref_platform ex_mid [] (Inr ex_entry) ex_manager = (Ok [(ex_mid, ex_fid, ex_contract)], ex_manager)"
    using p b d by (simp add: collect_contract_def running_await [OF ex_running] andThen_def ret_def)
  then have "collect_machine ref_platform [] (ex_mid, ex_write_ticket) ex_manager = (Ok [(ex_mid, ex_fid, ex_contract)], ex_manager)"
    using ex_open gm by (simp add: collect_machine_def andThen_eval)
  then show ?thesis using ex_list by (simp add: manager_get_claimable_contracts_def andThen_eval)
qed

lemma ex_get_machine: "get_machine ref_platform ex_app ex_mid ex_manager = (Ok ex_write_ticket, ex_manager)"
  using ex_ticket_read ex_ticket_decodes by (simp add: get_machine_def andThen_eval)

lemma ex_accepts:
  "rd_accepts (NamespaceId 1) (AuthorId 1) k ex_docs" "rd_accepts (NamespaceId 1) (AuthorId 2) k ex_pending_docs"
  by (simp_all add: rd_accepts_def ex_docs_def ex_pending_docs_def)

definition ex_swept :: "(ref_docs, ref_client) wallet_node" where
  "ex_swept = ex_manager\<lparr>engine := snd (doc_del ref_platform (NamespaceId 1) (AuthorId 2) ex_key ex_pending_docs)\<rparr>"

lemma ex_remove:
  "remove_claimable_contracts ref_platform ex_app rev [(ex_mid, ex_fid, ex_contract)] ex_manager = (Ok (), ex_swept)"
proof -
  have a: "engine_call (author_default ref_platform) ex_manager = (Ok (AuthorId 2), ex_manager)"
    using running_engine_call [where f = "author_default ref_platform", OF ex_running]
    by (simp add: ref_platform_def ex_manager_def ex_pending_docs_def)
  have "engine_call (doc_del ref_platform (NamespaceId 1) (AuthorId 2) ex_key) ex_manager = (Ok 1, ex_swept)"
    using running_engine_call [where f = "doc_del ref_platform (NamespaceId 1) (AuthorId 2) ex_key", OF ex_running]
    using ex_accepts(2) by (simp add: ref_platform_def ex_manager_def ex_swept_def)
  then have "remove_contract ref_platform (AuthorId 2) (NamespaceId 1) (ex_fid, ex_contract) ex_manager = (Ok (), ex_swept)"
    by (simp add: remove_contract_def ex_key_def [symmetric] andThen_eval)
  then show ?thesis using a ex_get_machine ex_open
    by (simp add: remove_claimable_contracts_def group_by_machine_def push_contract_def remove_of_machine_def
        for_each_def andThen_eval)
qed

section \<open>Key/value entries and configurations, evaluated\<close>

lemma ex_key_apart:
  "kv_full_key [7] \<noteq> ex_key" "ex_key \<noteq> kv_full_key [7]" "MACHINE_CONFIG_KEY \<noteq> ex_key" "ex_key \<noteq> MACHINE_CONFIG_KEY"
proof -
  have x: "ex_key = contract_key_of (ex_fid, contract_id_of ref_platform ex_contract)"
    by (simp add: ex_key_def contract_key_of_eq [OF ref_codec_contract])
  have n: "\<not> prefix (kv_full_key [7]) ex_key" "\<not> prefix MACHINE_CONFIG_KEY ex_key"
    unfolding x by (rule key_spaces_disjoint)+
  show "kv_full_key [7] \<noteq> ex_key" "ex_key \<noteq> kv_full_key [7]" "MACHINE_CONFIG_KEY \<noteq> ex_key" "ex_key \<noteq> MACHINE_CONFIG_KEY"
    using n by (metis prefix_order.refl)+
qed

text \<open>What writing the value of a key leaves in the engine, and what reading it finds.\<close>

definition ex_put :: "bytes \<Rightarrow> bytes \<Rightarrow> ref_docs \<Rightarrow> ref_docs" where
  "ex_put k v d = (rd_put (NamespaceId 1) (rd_author d) k
     \<lparr>st_hash = ContentHash (rd_code v), st_timestamp = rd_clock d, st_empty = False\<rparr> d)\<lparr>rd_blobs := rd_blobs d @ [v]\<rparr>"

lemma ex_set_bytes:
  "v \<noteq> [] \<Longrightarrow> rd_accepts (NamespaceId 1) (rd_author d) k d \<Longrightarrow>
   doc_set_bytes ref_platform (NamespaceId 1) (rd_author d) k v d = (Ok (ex_hash v), ex_put k v d)"
  by (simp add: ex_put_def ref_platform_def ex_hash_def Let_def)

lemma ex_put_docs: "doc_get_one ref_platform (NamespaceId 1) (KeyExact k) (ex_put k v ex_docs) =
    (Ok (Some \<lparr>entry_key = k, entry_author = AuthorId 1, entry_hash = ex_hash v, entry_timestamp = 1\<rparr>), ex_put k v ex_docs)"
  "blobs_get_bytes ref_platform (ex_hash v) (ex_put k v ex_docs) = (Ok v, ex_put k v ex_docs)"
  "rd_author (ex_put k v d) = rd_author d"
  by (simp_all add: ex_put_def ref_platform_def rd_put_def rd_best_def rd_candidates_def ex_docs_def Let_def ex_hash_def rd_blob_def)

lemma ex_put_pending:
  assumes "\<not> prefix k ex_key" and "k \<noteq> ex_key"
  shows "doc_get_one ref_platform (NamespaceId 1) (KeyExact k) (ex_put k v ex_pending_docs) =
    (Ok (Some \<lparr>entry_key = k, entry_author = AuthorId 2, entry_hash = ex_hash v, entry_timestamp = 2\<rparr>),
     ex_put k v ex_pending_docs)"
    and "blobs_get_bytes ref_platform (ex_hash v) (ex_put k v ex_pending_docs) = (Ok v, ex_put k v ex_pending_docs)"
  using assms by (simp_all add: ex_put_def ref_platform_def rd_put_def rd_best_def rd_candidates_def ex_pending_docs_def Let_def ex_hash_def rd_blob_def)

lemma ex_author: "author_default ref_platform d = (Ok (rd_author d), d)"
  by (simp add: ref_platform_def)

lemma ex_docs_author: "rd_author ex_docs = AuthorId 1"
  by (simp add: ex_docs_def)

definition ex_paying_kv :: "(ref_docs, ref_client) machine_node" where
  "ex_paying_kv = ex_paying\<lparr>engine := ex_put (kv_full_key [7]) [1, 2] ex_docs\<rparr>"

lemma ex_paying_runs: "running ex_paying" "running ex_paying_kv" "engine ex_paying = ex_docs"
  by (simp_all add: running_def ex_paying_kv_def ex_paying_def ex_claimed_def ex_machine_def)

lemma ex_paying_opens:
  "get_or_create_machine_doc ref_platform ex_app ex_paying = (Ok (NamespaceId 1), ex_paying)"
  "get_or_create_machine_doc ref_platform ex_app ex_paying_kv = (Ok (NamespaceId 1), ex_paying_kv)"
proof -
  have o: "NamespaceId 1 \<in> set (rd_known d) \<Longrightarrow> docs_open ref_platform (NamespaceId 1) d = (Ok (Some (NamespaceId 1)), d)" for d
    by (simp add: ref_platform_def)
  have k: "NamespaceId 1 \<in> set (rd_known (engine ex_paying))" "NamespaceId 1 \<in> set (rd_known (engine ex_paying_kv))"
    by (simp_all add: ex_paying_runs ex_docs_def ex_paying_kv_def ex_put_def ref_platform_def rd_put_def Let_def)
  show "get_or_create_machine_doc ref_platform ex_app ex_paying = (Ok (NamespaceId 1), ex_paying)"
    using running_get_or_create [OF ex_paying_runs(1) ex_paying_doc o [OF k(1)]] by simp
  have "machine_doc ref_platform ref_view ex_app ex_paying_kv (NamespaceId 1)"
    using ex_paying_doc k(2) by (simp add: machine_doc_def ex_paying_kv_def ref_view_def)
  then show "get_or_create_machine_doc ref_platform ex_app ex_paying_kv = (Ok (NamespaceId 1), ex_paying_kv)"
    using running_get_or_create [OF ex_paying_runs(2) _ o [OF k(2)]] by simp
qed

lemma ex_set_kv: "machine_set_kv_value ref_platform ex_app [7] [1, 2] ex_paying = (Ok (), ex_paying_kv)"
  using ex_set_bytes [of "[1, 2]" ex_docs "kv_full_key [7]"] ex_accepts(1) [of "kv_full_key [7]", folded ex_docs_author]
  by (simp add: machine_set_kv_value_def andThen_eval ex_paying_opens Let_def)
     (simp add: andThen_def engine_call_def running_await [OF ex_paying_runs(1)] ex_author ex_paying_runs(3) ret_def ex_paying_kv_def)

lemma ex_from_entry:
  assumes "running s" and "blobs_get_bytes ref_platform (entry_hash e) (engine s) = (Ok v, engine s)"
    and "entry_key e = kv_full_key k" and "entry_author e = rd_author (engine s)"
  shows "from_iroh_entry ref_platform e dev s =
    (Ok \<lparr>kv_key = k, kv_value = v, kv_author = dev, kv_timestamp = entry_timestamp e\<rparr>, s)"
  using assms(2-4)
  by (simp add: from_iroh_entry_def Let_def andThen_def engine_call_def running_await [OF assms(1)] ex_author ret_def kv_full_key_def)

lemma ex_get_kv: "machine_get_kv_value ref_platform ex_app [7] ex_paying_kv =
    (Ok (Some \<lparr>kv_key = [7], kv_value = [1, 2], kv_author = Machine, kv_timestamp = 1\<rparr>), ex_paying_kv)"
proof -
  let ?e = "\<lparr>entry_key = kv_full_key [7], entry_author = AuthorId 1, entry_hash = ex_hash [1, 2], entry_timestamp = 1\<rparr>"
  have "engine ex_paying_kv = ex_put (kv_full_key [7]) [1, 2] ex_docs" by (simp add: ex_paying_kv_def)
  then have g: "engine_call (doc_get_one ref_platform (NamespaceId 1) (KeyExact (kv_full_key [7]))) ex_paying_kv = (Ok (Some ?e), ex_paying_kv)"
    and f: "from_iroh_entry ref_platform ?e Machine ex_paying_kv =
      (Ok \<lparr>kv_key = [7], kv_value = [1, 2], kv_author = Machine, kv_timestamp = 1\<rparr>, ex_paying_kv)"
    using ex_from_entry [OF ex_paying_runs(2), of ?e "[1, 2]" "[7]" Machine]
    by (simp_all del: One_nat_def add: engine_call_def running_await [OF ex_paying_runs(2)] ex_put_docs ex_docs_author)
  then show ?thesis
    by (simp add: machine_get_kv_value_def andThen_eval ex_paying_opens Let_def)
qed

definition ex_manager_put :: "bytes \<Rightarrow> bytes \<Rightarrow> (ref_docs, ref_client) wallet_node" where
  "ex_manager_put k v = ex_manager\<lparr>engine := ex_put k v ex_pending_docs\<rparr>"

lemma ex_manager_put_simps:
  "running (ex_manager_put k v)" "engine (ex_manager_put k v) = ex_put k v ex_pending_docs"
  "get_machine ref_platform ex_app ex_mid (ex_manager_put k v) = (Ok ex_write_ticket, ex_manager_put k v)"
  "open_machine_doc ref_platform ex_write_ticket (ex_manager_put k v) = (Ok (NamespaceId 1), ex_manager_put k v)"
proof -
  show r: "running (ex_manager_put k v)" and e: "engine (ex_manager_put k v) = ex_put k v ex_pending_docs"
    by (simp_all add: running_def ex_manager_put_def ex_manager_def)
  have "fs_read_to_string (machine_doc_ticket_path ex_app @ [''AA'']) (ex_manager_put k v) = (Ok ex_ticket, ex_manager_put k v)"
    by (rule running_fs_read_to_string [OF r])
       (simp_all add: utf8_ticket ex_manager_put_def ex_manager_def ex_app_def machine_doc_ticket_path_def MACHINE_DOC_TICKETS_SUBDIR_def)
  then show "get_machine ref_platform ex_app ex_mid (ex_manager_put k v) = (Ok ex_write_ticket, ex_manager_put k v)"
    using ex_ticket_decodes by (simp add: get_machine_def andThen_eval)
  show "open_machine_doc ref_platform ex_write_ticket (ex_manager_put k v) = (Ok (NamespaceId 1), ex_manager_put k v)"
    by (simp add: open_machine_doc_def andThen_def engine_call_def running_await [OF r] e)
       (simp add: ref_platform_def ex_write_ticket_def rd_capability_id_def ex_put_def ex_pending_docs_def rd_put_def Let_def ret_def
         ex_manager_put_def)
qed

lemma ex_manager_engine: "engine ex_manager = ex_pending_docs" "rd_author ex_pending_docs = AuthorId 2"
  by (simp_all add: ex_manager_def ex_pending_docs_def)

lemma ex_manager_writes:
  "engine_call (author_default ref_platform) ex_manager = (Ok (AuthorId 2), ex_manager)"
  "v \<noteq> [] \<Longrightarrow> engine_call (doc_set_bytes ref_platform (NamespaceId 1) (AuthorId 2) k v) ex_manager =
     (Ok (ex_hash v), ex_manager_put k v)"
  using ex_set_bytes [of v ex_pending_docs k] ex_accepts(2) [of k] ex_author [of ex_pending_docs]
  by (simp_all add: engine_call_def running_await [OF ex_running] ex_manager_engine ex_manager_put_def)

lemma ex_manager_set_kv: "manager_set_kv_value ref_platform ex_app ex_mid [7] [1, 2] ex_manager =
    (Ok (), ex_manager_put (kv_full_key [7]) [1, 2])"
  by (simp del: One_nat_def add: manager_set_kv_value_def andThen_eval ex_get_machine ex_open Let_def ex_manager_writes)

lemma ex_manager_get_kv: "manager_get_kv_value ref_platform ex_app ex_mid [7] (ex_manager_put (kv_full_key [7]) [1, 2]) =
    (Ok (Some \<lparr>kv_key = [7], kv_value = [1, 2], kv_author = Manager, kv_timestamp = 2\<rparr>), ex_manager_put (kv_full_key [7]) [1, 2])"
proof -
  let ?s = "ex_manager_put (kv_full_key [7]) [1, 2]"
  let ?e = "\<lparr>entry_key = kv_full_key [7], entry_author = AuthorId 2, entry_hash = ex_hash [1, 2], entry_timestamp = 2\<rparr>"
  have np: "\<not> prefix (kv_full_key [7]) ex_key" "kv_full_key [7] \<noteq> ex_key"
    using key_spaces_disjoint(3) ex_key_apart by (simp_all add: ex_key_def contract_key_of_eq [OF ref_codec_contract])
  have g: "engine_call (doc_get_one ref_platform (NamespaceId 1) (KeyExact (kv_full_key [7]))) ?s = (Ok (Some ?e), ?s)"
    using ex_put_pending(1) [OF np]
    by (simp del: One_nat_def add: engine_call_def running_await [OF ex_manager_put_simps(1)] ex_manager_put_simps(2))
  have f: "from_iroh_entry ref_platform ?e Manager ?s =
      (Ok \<lparr>kv_key = [7], kv_value = [1, 2], kv_author = Manager, kv_timestamp = 2\<rparr>, ?s)"
    using ex_from_entry [OF ex_manager_put_simps(1), of ?e "kv_full_key [7]" "[1, 2]" "[1, 2]" "[7]" Manager] ex_put_pending(2) [OF np]
    by (simp add: ex_manager_put_simps(2) ex_put_docs(3) ex_manager_engine)
  show ?thesis using g f
    by (simp add: manager_get_kv_value_def andThen_eval ex_manager_put_simps Let_def)
qed

definition ex_config :: machine_config where
  "ex_config = \<lparr>federation_invite_code = InviteCode 3, claimer_pk = PublicKey 4\<rparr>"

definition ex_config_json :: bytes where
  "ex_config_json = unary 3 @ 44 # unary_json 4"

lemma ex_config_encodes:
  "config_to_json ref_platform ex_config = Some ex_config_json" "config_from_json ref_platform ex_config_json = Some ex_config"
  "ex_config_json \<noteq> []"
proof -
  show e: "config_to_json ref_platform ex_config = Some ex_config_json"
    by (simp add: ref_platform_def rd_config_json_def ex_config_def ex_config_json_def)
  show "config_from_json ref_platform ex_config_json = Some ex_config"
    using codec_contractD(3) [OF ref_codec_contract e] by simp
  show "ex_config_json \<noteq> []" by (simp add: ex_config_json_def)
qed

lemma ex_set_config: "manager_set_machine_config ref_platform ex_app ex_mid ex_config ex_manager =
    (Ok (), ex_manager_put MACHINE_CONFIG_KEY ex_config_json)"
  by (simp del: One_nat_def add: manager_set_machine_config_def andThen_eval ex_get_machine ex_open ex_manager_writes ex_config_encodes)

lemma ex_get_config: "manager_get_machine_config ref_platform ex_app ex_mid (ex_manager_put MACHINE_CONFIG_KEY ex_config_json) =
    (Ok (Some ex_config), ex_manager_put MACHINE_CONFIG_KEY ex_config_json)"
proof -
  let ?s = "ex_manager_put MACHINE_CONFIG_KEY ex_config_json"
  let ?e = "\<lparr>entry_key = MACHINE_CONFIG_KEY, entry_author = AuthorId 2, entry_hash = ex_hash ex_config_json, entry_timestamp = 2\<rparr>"
  have np: "\<not> prefix MACHINE_CONFIG_KEY ex_key" "MACHINE_CONFIG_KEY \<noteq> ex_key"
    using key_spaces_disjoint(5) ex_key_apart by (simp_all add: ex_key_def contract_key_of_eq [OF ref_codec_contract])
  have "engine_call (doc_get_one ref_platform (NamespaceId 1) (KeyExact MACHINE_CONFIG_KEY)) ?s = (Ok (Some ?e), ?s)"
    "engine_call (blobs_get_bytes ref_platform (ex_hash ex_config_json)) ?s = (Ok ex_config_json, ?s)"
    using ex_put_pending [OF np]
    by (simp_all del: One_nat_def add: engine_call_def running_await [OF ex_manager_put_simps(1)] ex_manager_put_simps(2))
  then show ?thesis
    by (simp add: manager_get_machine_config_def andThen_eval ex_manager_put_simps ex_config_encodes)
qed

end
