(* ===== verification/Examples_Wallet.thy ===== *)
theory Examples_Wallet
  imports Examples
begin

text \<open>
  Runs of the wallet operations on the reference federation client: starting a wallet that
  has joined a federation, setting the default federation, leaving, receiving a payment.
\<close>

section \<open>Starting a wallet\<close>

lemma running_fs_try_exists: "running s \<Longrightarrow> fs_try_exists p s = (Ok (map_of (disk s) p \<noteq> None \<or> p = []), s)"
  unfolding fs_try_exists_def
  by (subst running_fs_op [where r = "Ok (map_of (disk s) p \<noteq> None \<or> p = [])" and d = "disk s"]) (auto simp: running_def)

lemma running_force_update: "running s \<Longrightarrow> force_update_view s = (Ok (), s)"
  by (simp add: force_update_view_def running_await andThen_def ret_def)

lemma running_locks: "running s \<Longrightarrow> lock_data_dir s = (Ok (), s)" "running s \<Longrightarrow> lock_clients s = (Ok (clients s), s)"
  by (simp_all add: lock_data_dir_def lock_clients_def running_await ret_def)

definition ex_boot :: "(ref_docs, ref_client) wallet_node" where
  "ex_boot = \<lparr>awaits_left = None, io_script = [],
     disk = [(ex_data, Dir), (ex_data @ [''FFF''], Dir), (ex_data @ [''FFF'', ''CURRENT''], File []),
       (ex_data @ [MNEMONIC_PATH], File (unary_json 8))],
     engine = ex_docs, clients = []\<rparr>"

definition ex_booted :: "(ref_docs, ref_client) wallet_node" where
  "ex_booted = ex_boot\<lparr>clients := [(ex_fid, rc_new)]\<rparr>"

definition ex_root :: root_secret where
  "ex_root = secret_of_mnemonic ref_fedimint Bitcoin (Mnemonic 8)"

lemma ex_boot_running: "running ex_boot" "running (ex_boot\<lparr>clients := cs\<rparr>)" "running ex_booted" "clients ex_boot = []"
  "ex_boot\<lparr>clients := []\<rparr> = ex_boot"
  by (simp_all add: running_def ex_boot_def ex_booted_def)

lemma ex_boot_names: "dir_names (disk ex_boot) ex_data = [''FFF'', MNEMONIC_PATH]"
  by (simp add: dir_names_def ex_boot_def ex_data_def MNEMONIC_PATH_def)

lemma ex_boot_dir: "is_dir (disk ex_boot) ex_data" "dirs_exist (disk ex_boot) ex_data"
  by (auto simp: is_dir_def dirs_exist_def ex_boot_def ex_data_def prefix_Cons)

lemma ex_ids: "for_fold (list_federation ref_fedimint) [] [''FFF'', MNEMONIC_PATH] ex_boot = (Ok [ex_fid], ex_boot)"
proof -
  have "list_federation ref_fedimint ids ''FFF'' ex_boot = (Ok (ids @ [ex_fid]), ex_boot)" for ids
    by (simp add: list_federation_def andThen_def running_next_entry [OF ex_boot_running(1)] ret_def os_into_string_def)
       (simp add: ref_fedimint_def ex_fid_def numeral_3_eq_3)
  moreover have "list_federation ref_fedimint ids MNEMONIC_PATH ex_boot = (Ok ids, ex_boot)" for ids
    by (simp add: list_federation_def andThen_def running_next_entry [OF ex_boot_running(1)] ret_def os_into_string_def MNEMONIC_PATH_def)
       (simp add: ref_fedimint_def)
  ultimately show ?thesis by (simp add: andThen_def ret_def)
qed

lemma ex_api: "client_builder ref_fedimint = Ok ()" "client_connectors ref_fedimint = Ok ()"
  "client_is_initialized ref_fedimint db d \<longleftrightarrow> map_of d (db @ [''CURRENT'']) \<noteq> None"
  by (simp_all add: ref_fedimint_def)

lemma ex_connect_one: "connect_one ref_fedimint rs ex_data ex_fid ex_boot = (Ok (), ex_booted)"
proof -
  have o: "disk_call (rocksdb_open ref_fedimint (ex_data @ [''FFF''])) ex_boot = (Ok (), ex_boot)"
    by (simp add: disk_call_def running_await [OF ex_boot_running(1)])
       (simp add: ref_fedimint_def rc_open_def ex_boot_def ex_data_def)
  have "build_client_from_federation_id ref_fedimint rs ex_fid (ex_data @ [''FFF'']) ex_boot = (Ok rc_new, ex_boot)"
    by (simp add: build_client_from_federation_id_def build_client_connectors_def disk_call_def andThen_def
        running_await [OF ex_boot_running(1)] lift_res_def ex_api)
       (simp add: ref_fedimint_def ex_boot_def ex_data_def)
  with o show ?thesis
    by (simp add: connect_one_def ex_boot_running Let_def andThen_def insert_client_def ex_booted_def)
qed

lemma ex_wallet_new: "wallet_new ref_fedimint ex_data Bitcoin fresh ex_boot = (Ok ex_root, ex_booted)"
proof -
  have t: "fs_try_exists (ex_data @ [MNEMONIC_PATH]) ex_boot = (Ok True, ex_boot)"
    using running_fs_try_exists [OF ex_boot_running(1)] by (simp add: ex_boot_def ex_data_def MNEMONIC_PATH_def)
  have r: "fs_read_to_string (ex_data @ [MNEMONIC_PATH]) ex_boot = (Ok (unary_json 8), ex_boot)"
    by (rule running_fs_read_to_string [OF ex_boot_running(1)])
       (simp_all add: ex_boot_def ex_data_def MNEMONIC_PATH_def utf8_unary_json)
  have m: "mnemonic_from_string ref_fedimint (unary_json 8) = Some (Mnemonic 8)"
    by (simp add: ref_fedimint_def)
  have e: "for_each (connect_one ref_fedimint rs ex_data) [ex_fid] ex_boot = (Ok (), ex_booted)" for rs
    by (simp add: for_each_def andThen_eval ex_connect_one)
  have c: "connect_to_joined_federations ref_fedimint rs ex_data ex_boot = (Ok (), ex_booted)" for rs
    using running_locks [OF ex_boot_running(1)] running_read_dir [OF ex_boot_running(1) ex_boot_dir(1)]
      running_next_entry [OF ex_boot_running(1)] running_force_update [OF ex_boot_running(3)] e
    by (simp add: connect_to_joined_federations_def andThen_eval ex_boot_names ex_ids ex_connect_one del: for_fold.simps)
  show ?thesis
    by (simp add: wallet_new_def Let_def andThen_eval running_create_dir_all [OF ex_boot_running(1) ex_boot_dir(2)]
        ex_boot_running t r m c get_root_secret_eq)
       (simp add: ex_root_def secret_of_mnemonic_def Let_def)
qed

text \<open>A later start of the same device.\<close>

definition ex_rebooted :: "(ref_docs, ref_client) wallet_node" where
  "ex_rebooted = ex_booted"

lemma ex_wallet_again: "wallet_new ref_fedimint ex_data Bitcoin fresh ex_rebooted = (Ok ex_root, ex_booted)"
  using ex_wallet_new [of fresh] running_create_dir_all [OF ex_boot_running(1) ex_boot_dir(2)]
    running_create_dir_all [of ex_booted ex_data, OF ex_boot_running(3)] ex_boot_dir(2)
  by (simp add: ex_rebooted_def ex_booted_def wallet_new_def andThen_eval ex_boot_running)

lemma ex_fid_not_mnemonic: "fid_to_string ref_fedimint fid \<noteq> MNEMONIC_PATH"
proof
  assume e: "fid_to_string ref_fedimint fid = MNEMONIC_PATH"
  have "hd (fid_to_string ref_fedimint fid) = CHR ''F'' \<or> fid_to_string ref_fedimint fid = []"
    by (cases fid; cases "unat (last (bytes_of_hash (fid_hash fid)))") (simp_all add: ref_fedimint_def rc_fid_string_def fid_hash_def)
  then show False unfolding e by (simp add: MNEMONIC_PATH_def)
qed

section \<open>The default federation\<close>

definition ex_invite :: invite_code where "ex_invite = InviteCode 3"

lemma ex_invite_simps: "invite_id ref_fedimint ex_invite = ex_fid" "invite_to_string ref_fedimint ex_invite = unary_json 3"
  "invite_from_string ref_fedimint (unary_json 3) = Some ex_invite"
  by (simp_all add: ref_fedimint_def ex_invite_def ex_fid_def)

lemma unary_json_trimmed: "str_trim (unary_json 3) = unary_json 3"
proof -
  have "trim_start whitespace [65, 65, 65, 34] = [65, 65, 65, 34]"
    by (subst trim_start.simps) (simp add: whitespace_def)
  moreover have "trim_start (map rev whitespace) [34, 65, 65, 65] = [34, 65, 65, 65]"
    by (subst trim_start.simps) (simp add: whitespace_def)
  ultimately show ?thesis by (simp add: str_trim_def unary_json_def unary_def replicate_few)
qed

definition ex_defaulted :: "(ref_docs, ref_client) wallet_node" where
  "ex_defaulted = ex_booted\<lparr>disk := AList.update (ex_data @ [DEFAULT_FEDERATION_PATH]) (File (unary_json 3)) (disk ex_booted)\<rparr>"

lemma ex_set_default: "set_default_federation ref_fedimint ex_root ex_data ex_invite ex_booted = (Ok (), ex_defaulted)"
proof -
  have d: "is_dir (disk ex_booted) ex_data" "is_dir (disk ex_booted) (ex_data @ [''FFF''])"
    "\<not> is_dir (disk ex_booted) (ex_data @ [DEFAULT_FEDERATION_PATH])"
    by (simp_all add: ex_booted_def ex_boot_def is_dir_def ex_data_def MNEMONIC_PATH_def DEFAULT_FEDERATION_PATH_def)
  have p: "path_is_dir (ex_data @ [''FFF'']) ex_booted = (Ok True, ex_booted)"
    using ex_boot_running(3) d(2) by (simp add: path_is_dir_def next_io_def andThen_def running_def ret_def)
  show ?thesis
    using running_fs_write [OF ex_boot_running(3) d(1,3), of "unary_json 3"]
    by (simp add: set_default_federation_def Let_def andThen_eval running_locks [OF ex_boot_running(3)] ex_invite_simps p ex_defaulted_def)
qed

section \<open>Payments and the end of a machine\<close>

definition ex_configured :: "(ref_docs, ref_client) machine_node" where
  "ex_configured = ex_paying\<lparr>engine := ex_put MACHINE_CONFIG_KEY ex_config_json ex_docs\<rparr>"

lemma ex_configured_runs: "running ex_configured" "engine ex_configured = ex_put MACHINE_CONFIG_KEY ex_config_json ex_docs"
  "claimed_manager_pubkey ex_configured = Some (EndpointId 7)" "clients ex_configured = [(ex_fid, rc_new\<lparr>rc_held := [ex_contract]\<rparr>)]"
  by (simp_all add: running_def ex_configured_def ex_paying_def ex_claimed_def ex_machine_def)

lemma ex_configured_opens: "get_or_create_machine_doc ref_platform ex_app ex_configured = (Ok (NamespaceId 1), ex_configured)"
proof -
  have k: "NamespaceId 1 \<in> set (rd_known (engine ex_configured))"
    by (simp add: ex_configured_runs ex_put_def ref_platform_def rd_put_def ex_docs_def Let_def)
  have o: "docs_open ref_platform (NamespaceId 1) (engine ex_configured) = (Ok (Some (NamespaceId 1)), engine ex_configured)"
    using k by (simp add: ref_platform_def)
  have "machine_doc ref_platform ref_view ex_app ex_configured (NamespaceId 1)"
    using ex_paying_doc k by (simp add: machine_doc_def ex_configured_def ref_view_def)
  then show ?thesis using running_get_or_create [OF ex_configured_runs(1) _ o] by simp
qed

lemma ex_state: "get_machine_state ref_platform ex_app ex_configured = (Ok (Claimed (Some ex_config)), ex_configured)"
proof -
  let ?e = "\<lparr>entry_key = MACHINE_CONFIG_KEY, entry_author = AuthorId 1, entry_hash = ex_hash ex_config_json, entry_timestamp = 1\<rparr>"
  have "engine_call (doc_get_one ref_platform (NamespaceId 1) (KeyExact MACHINE_CONFIG_KEY)) ex_configured = (Ok (Some ?e), ex_configured)"
    "engine_call (blobs_get_bytes ref_platform (ex_hash ex_config_json)) ex_configured = (Ok ex_config_json, ex_configured)"
    by (simp_all del: One_nat_def add: engine_call_def running_await [OF ex_configured_runs(1)] ex_configured_runs(2) ex_put_docs)
  then have "machine_get_machine_config ref_platform ex_app ex_configured = (Ok (Some ex_config), ex_configured)"
    by (simp add: machine_get_machine_config_def andThen_eval ex_configured_opens ex_config_encodes)
  then show ?thesis
    by (simp add: get_machine_state_def lock_claimed_def andThen_eval running_await [OF ex_configured_runs(1)] ex_configured_runs(3))
qed

lemma ex_receive: "machine_receive_payment ref_platform ref_fedimint ex_app 1000 60 ''tea'' None ex_configured =
    (Ok (Bolt11Invoice 1, OperationId 1), ex_configured)"
proof -
  have i: "invite_id ref_fedimint (federation_invite_code ex_config) = ex_fid"
    by (simp add: ref_fedimint_def ex_config_def ex_fid_def)
  have r: "ln_remote_receive ref_fedimint pk a e d g c = (Ok (Bolt11Invoice 1, OperationId 1), c)" "has_lightning ref_fedimint c"
    for pk a e d g c by (simp_all add: ref_fedimint_def)
  show ?thesis
    by (simp add: machine_receive_payment_def andThen_eval ex_state i wallet_receive_payment_def running_locks [OF ex_configured_runs(1)]
        ex_configured_runs(4) require_module_def client_call_def running_await [OF ex_configured_runs(1)] r)
qed

definition ex_serving :: "(ref_docs, ref_client) machine_app" where
  "ex_serving = \<lparr>awaits_left = None, io_script = [], disk = [], engine = ex_docs, clients = [],
     claimed_manager_pubkey = None, conn_log = [], machine_syncer = True\<rparr>"

definition ex_stopped :: "(ref_docs, ref_client) machine_app" where
  "ex_stopped = ex_serving\<lparr>engine := ex_docs\<lparr>rd_shut := True\<rparr>, machine_syncer := False\<rparr>"

lemma ex_shutdown: "machine_app_shutdown ref_platform ex_serving = (Ok (), ex_stopped)"
  by (simp add: machine_app_shutdown_def machine_shutdown_def andThen_def engine_call_def await_def ignore_def attempt_def ret_def
      ex_serving_def ex_stopped_def)
     (simp add: ref_platform_def andThen_def ignore_def attempt_def await_def ret_def)

section \<open>Balances\<close>

definition ex_rich :: "(ref_docs, ref_client) wallet_node" where
  "ex_rich = ex_boot\<lparr>clients := [(ex_fid, rc_new\<lparr>rc_balance := 5\<rparr>), (FederationId (small_hash 4), rc_new\<lparr>rc_balance := 7\<rparr>)]\<rparr>"

lemma ex_balance: "get_local_balance ref_fedimint ex_rich = (Ok 12, ex_rich)"
proof -
  have r: "running ex_rich" "clients ex_rich = [(ex_fid, rc_new\<lparr>rc_balance := 5\<rparr>), (FederationId (small_hash 4), rc_new\<lparr>rc_balance := 7\<rparr>)]"
    by (simp_all add: ex_rich_def ex_boot_running)
  have "client_balance ref_fedimint c = Some (rc_balance c)" "amount_add ref_fedimint 0 5 = Some 5" "amount_add ref_fedimint 5 7 = Some 12"
    for c by (simp_all add: ref_fedimint_def)
  then show ?thesis
    by (simp add: get_local_balance_def andThen_eval running_locks [OF r(1)] r(2) running_await [OF r(1)])
qed

end
