(* ===== verification/Payment_Path.thy ===== *)
theory Payment_Path
  imports Machine_App Manager_App
begin

text \<open>
  The way of a payment through the two applications: the machine's syncer moves a contract
  from its wallet into the shared document, the engines of the two devices exchange their
  entries, and the manager's syncer claims the contract and deletes it from the document.
  The system interleaves runs of both syncers (each aborted anywhere), writes of either
  side, and sessions of the exchange in both directions; the exchange is the only thing
  that is assumed, as \<open>replicated\<close>.
\<close>

section \<open>The exchange of entries\<close>

text \<open>
  What a session of the exchange leaves in the receiving engine (iroh-docs): entries of
  the document \<open>ns\<close> only, each of them the sender's or the receiver's; an entry of the
  receiver goes only when a newer one of the same author with the same key or a prefix
  of it has come.
\<close>

definition replicated :: "('d, 'v) docs_view_scheme \<Rightarrow> namespace_id \<Rightarrow> 'd \<Rightarrow> 'd \<Rightarrow> 'd \<Rightarrow> bool" where
  "replicated V ns src dst d \<longleftrightarrow> author_of V d = author_of V dst \<and> known V d = known V dst \<and>
     (\<forall>h b. blob_of V dst h = Some b \<longrightarrow> blob_of V d h = Some b) \<and>
     (\<forall>ns'. ns' \<noteq> ns \<longrightarrow> stored_of V d ns' = stored_of V dst ns') \<and>
     (\<forall>a k st. stored_of V d ns a k = Some st \<longrightarrow> stored_of V dst ns a k = Some st \<or> stored_of V src ns a k = Some st) \<and>
     (\<forall>a k st. stored_of V dst ns a k = Some st \<longrightarrow> stored_of V d ns a k = Some st \<or>
        (\<exists>k' st'. prefix k' k \<and> st_timestamp st \<le> st_timestamp st' \<and> stored_of V src ns a k' = Some st' \<and>
           stored_of V d ns a k' = Some st'))"

text \<open>A session that ran to its end also brought every entry of the sender, or a newer one, and the contents.\<close>

definition fully_replicated :: "('d, 'v) docs_view_scheme \<Rightarrow> namespace_id \<Rightarrow> 'd \<Rightarrow> 'd \<Rightarrow> 'd \<Rightarrow> bool" where
  "fully_replicated V ns src dst d \<longleftrightarrow> replicated V ns src dst d \<and>
     (\<forall>a k st. stored_of V src ns a k = Some st \<longrightarrow> stored_of V d ns a k = Some st \<or>
        (\<exists>k' st'. prefix k' k \<and> st_timestamp st \<le> st_timestamp st' \<and> stored_of V d ns a k' = Some st')) \<and>
     (\<forall>a k st b. stored_of V d ns a k = Some st \<longrightarrow> blob_of V src (st_hash st) = Some b \<longrightarrow>
        blob_of V d (st_hash st) = Some b)"

section \<open>The entries of one payment\<close>

text \<open>The hashes under which an engine has the content of a contract with the id \<open>i\<close>.\<close>

definition contract_blobs ::
    "'d platform \<Rightarrow> ('d, 'v) docs_view_scheme \<Rightarrow> contract_id \<Rightarrow> 'd \<Rightarrow> content_hash set" where
  "contract_blobs P V i d = {h. \<exists>b cc. blob_of V d h = Some b \<and> contract_from_json P b = Some cc \<and> contract_id_of P cc = i}"

text \<open>
  All entries that could shadow or delete the key \<open>K\<close> are the author \<open>a0\<close>'s entries of that
  key, no tombstones, with a content in \<open>H\<close>.
\<close>

definition genuine ::
    "('d, 'v) docs_view_scheme \<Rightarrow> namespace_id \<Rightarrow> author_id \<Rightarrow> bytes \<Rightarrow> content_hash set \<Rightarrow> 'd \<Rightarrow> bool" where
  "genuine V ns a0 K H d \<longleftrightarrow> (\<forall>a k st. prefix k K \<longrightarrow> stored_of V d ns a k = Some st \<longrightarrow>
     a = a0 \<and> k = K \<and> \<not> st_empty st \<and> st_hash st \<in> H)"

lemma genuineD:
  assumes "genuine V ns a0 K H d" and "prefix k K" and "stored_of V d ns a k = Some st"
  shows "a = a0" "k = K" "\<not> st_empty st" "st_hash st \<in> H"
  using assms unfolding genuine_def by blast+

lemma genuine_mono: "genuine V ns a0 K H d \<Longrightarrow> H \<subseteq> H' \<Longrightarrow> genuine V ns a0 K H' d"
  unfolding genuine_def by blast

lemma genuine_same: "stored_of V d' = stored_of V d \<Longrightarrow> genuine V ns a0 K H d' \<longleftrightarrow> genuine V ns a0 K H d"
  by (simp add: genuine_def)

lemma genuine_touches:
  assumes t: "touches_only V ns' a k d d'" and k: "\<not> prefix k K" and g: "genuine V ns a0 K H d"
  shows "genuine V ns a0 K H d'"
proof -
  have "stored_of V d' ns a' k' = stored_of V d ns a' k'" if "prefix k' K" for a' k'
  proof (rule touches_only_views(5) [OF t])
    show "ns \<noteq> ns' \<or> a' \<noteq> a \<or> \<not> prefix k k'" using k that prefix_order.order_trans by blast
  qed
  then show ?thesis using g by (simp add: genuine_def)
qed

lemma genuine_replicated:
  assumes "replicated V ns src dst d" and "genuine V ns a0 K H src" and "genuine V ns a0 K H dst"
  shows "genuine V ns a0 K H d"
  using assms unfolding replicated_def genuine_def by blast

lemma contract_blobs_mono:
  "(\<And>h b. blob_of V d h = Some b \<Longrightarrow> blob_of V d' h = Some b) \<Longrightarrow> contract_blobs P V i d \<subseteq> contract_blobs P V i d'"
  by (force simp: contract_blobs_def)

section \<open>The machine's side\<close>

text \<open>
  The document part of the invariant: the payment's entries, on both sides, are the
  machine's own, and the machine has their contents.
\<close>

definition payer_doc ::
    "'d platform \<Rightarrow> ('d, 'v) docs_view_scheme \<Rightarrow> namespace_id \<Rightarrow> federation_id \<Rightarrow> claimable_contract \<Rightarrow> 'd \<Rightarrow>
     ('d, 'z) node_scheme \<Rightarrow> bool" where
  "payer_doc P V ns fid cc other s \<longleftrightarrow>
     (let d = engine s; a0 = author_of V d; K = create_claimable_contract_machine_doc_key P fid cc;
          H = contract_blobs P V (contract_id_of P cc) d in
      genuine V ns a0 K H d \<and> genuine V ns a0 K H other)"

lemma payer_doc_stable: "stable (payer_doc P V ns fid cc other)"
  by (simp add: stable_def payer_doc_def)

lemma payer_doc_same_engine: "engine s' = engine s \<Longrightarrow> payer_doc P V ns fid cc other s' \<longleftrightarrow> payer_doc P V ns fid cc other s"
  by (simp add: payer_doc_def)

lemma payer_doc_quiet: "quiet V s s' \<Longrightarrow> payer_doc P V ns fid cc other s \<Longrightarrow> payer_doc P V ns fid cc other s'"
  by (simp add: payer_doc_def Let_def genuine_def contract_blobs_def quiet_engine_views)

lemma payer_doc_wrote_apart:
  assumes w: "wrote V ns k v s r s'" and k: "\<not> prefix k (create_claimable_contract_machine_doc_key P fid cc)"
    and p: "payer_doc P V ns fid cc other s"
  shows "payer_doc P V ns fid cc other s'"
proof -
  have t: "touches_only V ns (author_of V (engine s)) k (engine s) (engine s')" using w by (simp add: wrote_def)
  have m: "contract_blobs P V i (engine s) \<subseteq> contract_blobs P V i (engine s')" for i
    by (rule contract_blobs_mono) (rule wrote_views(6) [OF w])
  show ?thesis
    using p unfolding payer_doc_def Let_def wrote_views(4) [OF w]
    by (auto intro: genuine_mono [OF _ m] genuine_touches [OF t k])
qed

text \<open>Writing the payment itself puts a genuine entry there.\<close>

lemma payer_doc_wrote_same:
  assumes w: "wrote V ns (create_claimable_contract_machine_doc_key P fid cc) v s r s'"
    and v: "r = Ok () \<Longrightarrow> \<exists>x. contract_from_json P v = Some x \<and> contract_id_of P x = contract_id_of P cc"
    and p: "payer_doc P V ns fid cc other s"
  shows "payer_doc P V ns fid cc other s'"
proof -
  let ?K = "create_claimable_contract_machine_doc_key P fid cc" and ?a = "author_of V (engine s)"
  let ?H = "contract_blobs P V (contract_id_of P cc)"
  have m: "?H (engine s) \<subseteq> ?H (engine s')"
    by (rule contract_blobs_mono) (rule wrote_views(6) [OF w])
  note wv = wrote_views [OF w]
  have g: "genuine V ns ?a ?K (?H (engine s')) (engine s)" and o: "genuine V ns ?a ?K (?H (engine s')) other"
    using p unfolding payer_doc_def Let_def by (auto intro: genuine_mono [OF _ m])
  have "genuine V ns ?a ?K (?H (engine s')) (engine s')"
  proof (cases "r = Ok ()")
    case True
    with w obtain h t where b: "blob_of V (engine s') h = Some v"
      and e: "stored_of V (engine s') ns ?a ?K = Some \<lparr>st_hash = h, st_timestamp = t, st_empty = False\<rparr>"
      by (auto elim: wrote_OkD)
    have h: "h \<in> ?H (engine s')" using b v [OF True] by (auto simp: contract_blobs_def)
    show ?thesis unfolding genuine_def
    proof (intro allI impI)
      fix a k st assume k: "prefix k ?K" and st: "stored_of V (engine s') ns a k = Some st"
      show "a = ?a \<and> k = ?K \<and> \<not> st_empty st \<and> st_hash st \<in> ?H (engine s')"
      proof (cases "a = ?a \<and> k = ?K")
        case True
        with st e have "st = \<lparr>st_hash = h, st_timestamp = t, st_empty = False\<rparr>" by simp
        with True h show ?thesis by simp
      next
        case False
        have "\<not> prefix ?K k \<or> a \<noteq> ?a" using k False by (auto dest: prefix_order.antisym)
        then have "stored_of V (engine s) ns a k = Some st" using wv(7) [of ns a k] st by auto
        then show ?thesis using genuineD [OF g k] by blast
      qed
    qed
  next
    case False
    then show ?thesis using g genuine_same [OF wv(8)] by simp
  qed
  then show ?thesis using o wv(4) by (simp add: payer_doc_def Let_def)
qed

lemma payer_doc_write_payment:
  assumes c: "docs_contract P V" and j: "codec_contract P" and m: "machine_ready P V app_path ns s"
    and run: "write_payment_to_machine_doc P app_path f x s = (r, s')" and p: "payer_doc P V ns fid cc other s"
  shows "payer_doc P V ns fid cc other s'"
proof -
  obtain b where w: "wrote V ns (create_claimable_contract_machine_doc_key P f x) b s r s'"
    and b: "r = Ok () \<Longrightarrow> contract_to_json P x = Some b"
    using write_payment_wrote [OF c m run] by blast
  show ?thesis
  proof (cases "prefix (create_claimable_contract_machine_doc_key P f x) (create_claimable_contract_machine_doc_key P fid cc)")
    case True
    note same = contract_keys_prefix [OF j True]
    then have "create_claimable_contract_machine_doc_key P f x = create_claimable_contract_machine_doc_key P fid cc"
      by (simp add: contract_key_of_eq [OF j])
    with w have "wrote V ns (create_claimable_contract_machine_doc_key P fid cc) b s r s'" by simp
    then show ?thesis
      by (rule payer_doc_wrote_same [OF _ _ p]) (use codec_contractD(4) [OF j b] same(2) in auto)
  next
    case False
    show ?thesis by (rule payer_doc_wrote_apart [OF w False p])
  qed
qed

text \<open>The machine's part of the invariant, and what keeps it.\<close>

definition payer_inv ::
    "'d platform \<Rightarrow> ('d, 'v) docs_view_scheme \<Rightarrow> 'c fedimint \<Rightarrow> 'c client_view \<Rightarrow> path \<Rightarrow> path \<Rightarrow> namespace_id \<Rightarrow>
     federation_id \<Rightarrow> claimable_contract \<Rightarrow> 'd \<Rightarrow> ('d, 'c, 'z) machine_node_scheme \<Rightarrow> bool" where
  "payer_inv P V F W data_dir app_path ns fid cc other s \<longleftrightarrow>
     machine_keeps P V F W data_dir app_path ns fid cc s \<and> payer_doc P V ns fid cc other s"

lemma payer_loop:
  assumes c: "docs_contract P V" and i: "payer_inv P V F W data_dir app_path ns fid cc other s"
    and run: "machine_sync_loop P F rs data_dir app_path n s = (r, s')"
  shows "payer_inv P V F W data_dir app_path ns fid cc other s'"
proof -
  let ?M = "machine_move_inv P V F W data_dir app_path ns" and ?D = "payer_doc P V ns fid cc other"
  let ?I = "\<lambda>s. ?M s \<and> ?D s"
  have "preserves ?I (machine_sync_loop P F rs data_dir app_path n)"
  proof (rule sync_loop_preserves [where ns = ns, OF c])
    show "stable ?I"
      by (intro stable_conj stable_machine_move_inv payer_doc_stable)
    show "?I s'" if "quiet V s s'" "?I s" for s s'
      using that by (simp add: machine_move_quiet(1) [OF that(1)] payer_doc_quiet [OF that(1)])
    show "machine_ready P V app_path ns s" if "?I s" for s using that by (simp add: machine_move_inv_def)
    fix f ccs
    have "preserves ?I (write_payment_to_machine_doc P app_path f x)" for x
    proof (rule preservesI)
      fix s r s' assume "?I s" and run: "write_payment_to_machine_doc P app_path f x s = (r, s')"
      then have i: "?M s" "?D s" "codec_contract P" "machine_ready P V app_path ns s" by (simp_all add: machine_move_inv_def)
      show "?I s'" using machine_copy_step(1) [OF i(1) run] payer_doc_write_payment [OF c i(3,4) run i(2)] by simp
    qed
    moreover have "preserves ?I (remove_claimed_contracts F f ids)" for ids
    proof (rule preservesI)
      fix s r s' assume i: "?I s" and run: "remove_claimed_contracts F f ids s = (r, s')"
      have w: "client_contract F (contract_id_of P) W" using i by (simp add: machine_move_inv_def)
      have "engine s' = engine s" using wallet_only_views [OF remove_claimed_step(1) [OF w run]] by simp
      then have "?D s'" using i by (simp add: payer_doc_same_engine [of s' s])
      moreover have "?M s'" by (rule machine_forget_step(1) [OF conjunct1 [OF i] run])
      ultimately show "?I s'" by (rule conjI [rotated])
    qed
    ultimately show "preserves ?I (andThen (collect_ok (write_payment_to_machine_doc P app_path f) (contract_id_of P) ccs) (\<lambda>ids.
       if ids = [] then ret () else andThen (remove_claimed_contracts F f ids) (\<lambda>_. ret ())))"
      by (intro preserves_andThen preserves_collect_ok preserves_if preserves_ret)
  next
    fix code
    show "preserves ?I (set_default_federation F rs data_dir code)"
    proof (rule preservesI)
      fix s r s' assume i: "?I s" and run: "set_default_federation F rs data_dir code s = (r, s')"
      note j = join_step [OF conjunct1 [OF i] run]
      show "?I s'" using i j(1) by (simp add: payer_doc_same_engine [OF j(2)])
    qed
  qed
  moreover have "preserves (machine_keeps P V F W data_dir app_path ns fid cc) (machine_sync_loop P F rs data_dir app_path n)"
    by (rule keeps_sync_loop [OF c])
  ultimately show ?thesis using i run by (auto simp: payer_inv_def machine_keeps_def dest: preservesD)
qed

section \<open>The manager's side\<close>

text \<open>
  The manager deletes the payment's key only after it has claimed the contract. \<open>H\<close> are
  the contents that the machine has.
\<close>

definition payee_doc ::
    "'d platform \<Rightarrow> ('d, 'v) docs_view_scheme \<Rightarrow> namespace_id \<Rightarrow> author_id \<Rightarrow> content_hash set \<Rightarrow> federation_id \<Rightarrow>
     claimable_contract \<Rightarrow> ('d, 'z) node_scheme \<Rightarrow> bool" where
  "payee_doc P V ns a0 H fid cc s \<longleftrightarrow>
     genuine V ns a0 (create_claimable_contract_machine_doc_key P fid cc) H (engine s)"

lemma payee_doc_stable: "stable (payee_doc P V ns a0 H fid cc)"
  by (simp add: stable_def payee_doc_def)

lemma payee_doc_quiet: "quiet V s s' \<Longrightarrow> payee_doc P V ns a0 H fid cc s \<Longrightarrow> payee_doc P V ns a0 H fid cc s'"
  by (simp add: payee_doc_def genuine_same [OF quiet_engine_views(3)])

lemma payee_doc_touches:
  "touches_only V doc a k (engine s) d \<Longrightarrow> \<not> prefix k (create_claimable_contract_machine_doc_key P fid cc) \<Longrightarrow>
   payee_doc P V ns a0 H fid cc s \<Longrightarrow> payee_doc P V ns a0 H fid cc (s\<lparr>engine := d\<rparr>)"
  by (simp add: payee_doc_def genuine_touches)

lemma payee_doc_forget:
  fixes s s' :: "('d, 'z) node_scheme"
  assumes laws: "sweep_laws P V F W iter"
    and run: "ignore (remove_claimable_contracts P app_path iter ls) s = (r, s')"
    and other: "\<And>m f c. (m, f, c) \<in> set ls \<Longrightarrow> f \<noteq> fid \<or> contract_id_of P c \<noteq> contract_id_of P cc"
    and p: "payee_doc P V ns a0 H fid cc s"
  shows "payee_doc P V ns a0 H fid cc s'"
proof -
  have c: "docs_contract P V" and j: "codec_contract P" and it: "set (iter (group_by_machine ls)) \<subseteq> set (group_by_machine ls)"
    using laws by (simp_all add: sweep_laws_def)
  have "preserves (payee_doc P V ns a0 H fid cc :: ('d, 'z) node_scheme \<Rightarrow> bool) (remove_claimable_contracts P app_path iter ls)"
  proof (rule remove_contracts_preserves [where I = "payee_doc P V ns a0 H fid cc" and V = V, OF c payee_doc_stable])
    show "set (iter (group_by_machine ls)) \<subseteq> set (group_by_machine ls)" by (rule it)
    show "payee_doc P V ns a0 H fid cc s \<Longrightarrow> payee_doc P V ns a0 H fid cc s'" if "quiet V s s'"
      for s s' :: "('d, 'z) node_scheme" by (rule payee_doc_quiet [OF that])
    fix m f x s d doc a
    assume x: "(m, f, x) \<in> set ls" and p: "payee_doc P V ns a0 H fid cc s"
      and t: "touches_only V doc a (create_claimable_contract_machine_doc_key P f x) (engine s) d"
    show "payee_doc P V ns a0 H fid cc (s\<lparr>engine := d\<rparr>)"
      by (rule payee_doc_touches [OF t _ p]) (use contract_keys_prefix [OF j] other [OF x] in blast)
  qed
  then show ?thesis using p run by (rule preservesD [OF preserves_ignore])
qed

interpretation manager_path: transfer
  "\<lambda>(m, f, c). claim_contracts F f [c] :: (('d, 'c, 'z) wallet_node_scheme, unit) prog"
  "\<lambda>x :: payment. x"
  "\<lambda>ls. ignore (remove_claimable_contracts P app_path iter ls)"
  "\<lambda>_. sweep_laws P V F W iter"
  "\<lambda>s (m, f, c). payee_doc P V ns a0 H f c s"
  "\<lambda>s (m, f, c). contract_claimed W f (contract_id_of P c) s"
  "\<lambda>(_, f, c) (_, f', c'). f = f' \<and> contract_id_of P c = contract_id_of P c'"
  for P :: "'d platform" and V :: "('d, 'v) docs_view_scheme" and F :: "'c fedimint" and W app_path iter ns a0 H
proof (unfold_locales, goal_cases)
  case (2 s x u s')
  then show ?case by (cases x) (auto intro: sweep_copy(3))
next
  case (3 s x r s' y)
  obtain m f c where x: "x = (m, f, c)" by (cases x)
  have w: "client_contract F (contract_id_of P) W" using 3(1) by (simp add: sweep_laws_def)
  have "engine s' = engine s" using wallet_only_views [OF claim_contracts_step(1) [OF w]] 3(2) x by auto
  with 3 show ?case by (cases y) (simp add: payee_doc_def)
next
  case (4 s x r s' y)
  then show ?case by (cases x; cases y) (auto intro: sweep_copy(2))
next
  case (6 s ls r s' y)
  obtain m f c where y: "y = (m, f, c)" by (cases y)
  have "payee_doc P V ns a0 H f c s'"
  proof (rule payee_doc_forget [OF 6(1,2)])
    fix m' f' c' assume "(m', f', c') \<in> set ls"
    then show "f' \<noteq> f \<or> contract_id_of P c' \<noteq> contract_id_of P c" using 6(4) [of "(m', f', c')"] y by auto
  qed (use 6(3) y in simp)
  with y show ?case by simp
next
  case (7 s ls r s' y)
  then have "clients s' = clients s" by (auto dest!: ignore_run remove_clients)
  with 7 show ?case by (cases y) (auto simp: contract_claimed_def)
qed auto

definition payee_inv ::
    "'d platform \<Rightarrow> ('d, 'v) docs_view_scheme \<Rightarrow> 'c client_view \<Rightarrow> namespace_id \<Rightarrow> author_id \<Rightarrow> content_hash set \<Rightarrow>
     federation_id \<Rightarrow> claimable_contract \<Rightarrow> ('d, 'c, 'z) wallet_node_scheme \<Rightarrow> bool" where
  "payee_inv P V W ns a0 H fid cc s \<longleftrightarrow>
     payee_doc P V ns a0 H fid cc s \<or> contract_claimed W fid (contract_id_of P cc) s"

lemma claimed_same_clients: "clients s' = clients s \<Longrightarrow> contract_claimed W fid i s' \<longleftrightarrow> contract_claimed W fid i s"
  by (simp add: contract_claimed_def)

lemma quiet_claimed: "quiet V s s' \<Longrightarrow> contract_claimed W fid i s' \<longleftrightarrow> contract_claimed W fid i s"
  by (rule claimed_same_clients [OF clients_of_more [OF quiet_views(2)]])

lemma payee_loop:
  fixes P :: "'d platform" and s s' :: "('d, 'c, 'z) wallet_node_scheme"
  assumes c: "docs_contract P V" and j: "codec_contract P" and w: "client_contract F (contract_id_of P) W"
    and iters: "\<forall>iter \<in> set iters. \<forall>g. set (iter g) = set g"
    and run: "manager_sync_loop P F data_dir app_path iters s = (r, s')"
  shows "payee_inv P V W ns a0 H fid cc s \<Longrightarrow> payee_inv P V W ns a0 H fid cc s'"
    and "contract_claimed W fid (contract_id_of P cc) s \<Longrightarrow> contract_claimed W fid (contract_id_of P cc) s'"
proof -
  have laws: "sweep_laws P V F W iter" if "iter \<in> set iters" for iter
    using that c j w iters by (simp add: sweep_laws_def)
  have inv: "preserves (payee_inv P V W ns a0 H fid cc) (manager_sync_loop P F data_dir app_path iters)"
  proof (rule manager_loop_preserves [OF c])
    show "stable (payee_inv P V W ns a0 H fid cc)"
      by (simp add: stable_def payee_inv_def payee_doc_def contract_claimed_def)
    show "payee_inv P V W ns a0 H fid cc s'" if "quiet V s s'" "payee_inv P V W ns a0 H fid cc s" for s s'
      using that by (auto simp: payee_inv_def payee_doc_quiet quiet_claimed)
    show "payee_inv P V W ns a0 H fid cc (s\<lparr>engine := d\<rparr>)"
      if "payee_inv P V W ns a0 H fid cc s" "touches_only V doc a MACHINE_CONFIG_KEY (engine s) d" for s d doc a
      using that(1) payee_doc_touches [OF that(2) config_key_apart [OF j]] by (auto simp: payee_inv_def contract_claimed_def)
    fix iter ps assume "iter \<in> set iters"
    then show "preserves (payee_inv P V W ns a0 H fid cc)
       (andThen (collect_ok (\<lambda>(m, f, c). claim_contracts F f [c]) (\<lambda>x. x) ps) (\<lambda>ls.
         if ls = [] then ret ()
         else andThen (ignore (remove_claimable_contracts P app_path iter ls)) (\<lambda>_. ret ())))"
      using manager_path.transfer_safe [unfolded manager_path.safe_def [abs_def],
          of P V F W iter ns a0 H "(EndpointId 0, fid, cc)" ps app_path] laws
      by (simp add: payee_inv_def [abs_def])
  qed
  show "payee_inv P V W ns a0 H fid cc s \<Longrightarrow> payee_inv P V W ns a0 H fid cc s'"
    by (rule preservesD [OF inv _ run])
  let ?C = "contract_claimed W fid (contract_id_of P cc) :: ('d, 'c, 'z) wallet_node_scheme \<Rightarrow> bool"
  have claimed: "preserves ?C (manager_sync_loop P F data_dir app_path iters)"
  proof (rule manager_loop_preserves [OF c stable_contract_claimed])
    show "?C s'" if "quiet V s s'" "?C s" for s s' using that by (simp add: quiet_claimed)
    show "?C (s\<lparr>engine := d\<rparr>)" if "?C s" for s d using that by (simp add: contract_claimed_def)
    fix iter ps assume "iter \<in> set iters"
    note l = laws [OF this]
    have "preserves ?C (claim_contracts F f [x])" for f x
      by (rule preservesI, rule sweep_copy(2) [OF l])
    moreover have "preserves ?C (ignore (remove_claimable_contracts P app_path iter ls))" for ls
      by (rule preserves_ignore, rule preservesI) (simp add: claimed_same_clients [OF remove_clients])
    ultimately show "preserves ?C
       (andThen (collect_ok (\<lambda>(m, f, c). claim_contracts F f [c]) (\<lambda>x. x) ps) (\<lambda>ls.
         if ls = [] then ret ()
         else andThen (ignore (remove_claimable_contracts P app_path iter ls)) (\<lambda>_. ret ())))"
      by (auto intro!: preserves_andThen preserves_collect_ok preserves_if preserves_ret split: prod.split)
  qed
  show "?C s \<Longrightarrow> ?C s'" by (rule preservesD [OF claimed _ run])
qed

section \<open>The system\<close>

record ('d, 'c) payment_system =
  payer :: "('d, 'c) machine_node"
  payee :: "('d, 'c) wallet_node"

text \<open>
  The steps: runs of the two syncer tasks (any number of iterations, aborted after any number
  of awaits; file operations may fail on the manager's side), writes of key/value entries and
  of configurations, exchanges in both directions, and whatever the federation clients do in
  the background, short of dropping what the wallets hold or have claimed.
\<close>

inductive payment_step ::
    "'d platform \<Rightarrow> ('d, 'v) docs_view_scheme \<Rightarrow> 'c fedimint \<Rightarrow> 'c client_view \<Rightarrow> namespace_id \<Rightarrow> path \<Rightarrow> path \<Rightarrow>
     path \<Rightarrow> path \<Rightarrow> ('d, 'c) payment_system \<Rightarrow> ('d, 'c) payment_system \<Rightarrow> bool"
  for P V F W ns payer_data payer_app payee_data payee_app where
  payer_syncs: "machine_sync_loop P F rs payer_data payer_app n ((payer x)\<lparr>awaits_left := k\<rparr>) = (r, s') \<Longrightarrow>
    payment_step P V F W ns payer_data payer_app payee_data payee_app x (x\<lparr>payer := s'\<rparr>)"
| payer_writes: "machine_set_kv_value P payer_app key v ((payer x)\<lparr>awaits_left := k\<rparr>) = (r, s') \<Longrightarrow>
    payment_step P V F W ns payer_data payer_app payee_data payee_app x (x\<lparr>payer := s'\<rparr>)"
| payee_syncs: "\<forall>iter \<in> set iters. \<forall>g. set (iter g) = set g \<Longrightarrow>
    manager_sync_loop P F payee_data payee_app iters ((payee x)\<lparr>awaits_left := k, io_script := os\<rparr>) = (r, t') \<Longrightarrow>
    payment_step P V F W ns payer_data payer_app payee_data payee_app x (x\<lparr>payee := t'\<rparr>)"
| payee_writes: "manager_set_kv_value P payee_app m key v ((payee x)\<lparr>awaits_left := k, io_script := os\<rparr>) = (r, t') \<Longrightarrow>
    payment_step P V F W ns payer_data payer_app payee_data payee_app x (x\<lparr>payee := t'\<rparr>)"
| payee_configures: "manager_set_machine_config P payee_app m config ((payee x)\<lparr>awaits_left := k, io_script := os\<rparr>) = (r, t') \<Longrightarrow>
    payment_step P V F W ns payer_data payer_app payee_data payee_app x (x\<lparr>payee := t'\<rparr>)"
| upload: "replicated V ns (engine (payer x)) (engine (payee x)) d \<Longrightarrow>
    payment_step P V F W ns payer_data payer_app payee_data payee_app x (x\<lparr>payee := (payee x)\<lparr>engine := d\<rparr>\<rparr>)"
| download: "replicated V ns (engine (payee x)) (engine (payer x)) d \<Longrightarrow>
    payment_step P V F W ns payer_data payer_app payee_data payee_app x (x\<lparr>payer := (payer x)\<lparr>engine := d\<rparr>\<rparr>)"
| payer_clients: "\<forall>f. map_of cs f = None \<longleftrightarrow> map_of (clients (payer x)) f = None \<Longrightarrow>
    \<forall>f i. contract_held W f i (payer x) \<longrightarrow> contract_held W f i ((payer x)\<lparr>clients := cs\<rparr>) \<Longrightarrow>
    payment_step P V F W ns payer_data payer_app payee_data payee_app x (x\<lparr>payer := (payer x)\<lparr>clients := cs\<rparr>\<rparr>)"
| payee_clients: "\<forall>f i. contract_claimed W f i (payee x) \<longrightarrow> contract_claimed W f i ((payee x)\<lparr>clients := cs\<rparr>) \<Longrightarrow>
    payment_step P V F W ns payer_data payer_app payee_data payee_app x (x\<lparr>payee := (payee x)\<lparr>clients := cs\<rparr>\<rparr>)"

inductive_cases payment_stepE:
  "payment_step P V F W ns payer_data payer_app payee_data payee_app x y"

inductive payment_reach ::
    "'d platform \<Rightarrow> ('d, 'v) docs_view_scheme \<Rightarrow> 'c fedimint \<Rightarrow> 'c client_view \<Rightarrow> namespace_id \<Rightarrow> path \<Rightarrow> path \<Rightarrow>
     path \<Rightarrow> path \<Rightarrow> ('d, 'c) payment_system \<Rightarrow> ('d, 'c) payment_system \<Rightarrow> bool"
  for P V F W ns payer_data payer_app payee_data payee_app x where
  start: "payment_reach P V F W ns payer_data payer_app payee_data payee_app x x"
| step: "payment_reach P V F W ns payer_data payer_app payee_data payee_app x y \<Longrightarrow>
    payment_step P V F W ns payer_data payer_app payee_data payee_app y z \<Longrightarrow>
    payment_reach P V F W ns payer_data payer_app payee_data payee_app x z"

text \<open>Where a payment is: in the machine's wallet, in the machine's document, or in the manager's wallet.\<close>

definition payment_somewhere ::
    "'d platform \<Rightarrow> ('d, 'v) docs_view_scheme \<Rightarrow> 'c client_view \<Rightarrow> namespace_id \<Rightarrow> federation_id \<Rightarrow> claimable_contract \<Rightarrow>
     ('d, 'c) payment_system \<Rightarrow> bool" where
  "payment_somewhere P V W ns fid cc x \<longleftrightarrow> contract_held W fid (contract_id_of P cc) (payer x) \<or>
     payment_stored P V ns fid cc (payer x) \<or> contract_claimed W fid (contract_id_of P cc) (payee x)"

text \<open>The start: the machine's wallet holds the contract, and neither engine has entries that concern its key.\<close>

definition payment_new ::
    "'d platform \<Rightarrow> ('d, 'v) docs_view_scheme \<Rightarrow> 'c fedimint \<Rightarrow> 'c client_view \<Rightarrow> namespace_id \<Rightarrow> path \<Rightarrow> path \<Rightarrow>
     federation_id \<Rightarrow> claimable_contract \<Rightarrow> ('d, 'c) payment_system \<Rightarrow> bool" where
  "payment_new P V F W ns data_dir app_path fid cc x \<longleftrightarrow>
     machine_ready P V app_path ns (payer x) \<and> wallet_ready F data_dir (payer x) \<and>
     contract_held W fid (contract_id_of P cc) (payer x) \<and>
     (\<forall>d \<in> {engine (payer x), engine (payee x)}. \<forall>a k.
        prefix k (create_claimable_contract_machine_doc_key P fid cc) \<longrightarrow> stored_of V d ns a k = None)"

definition path_inv ::
    "'d platform \<Rightarrow> ('d, 'v) docs_view_scheme \<Rightarrow> 'c fedimint \<Rightarrow> 'c client_view \<Rightarrow> namespace_id \<Rightarrow> path \<Rightarrow> path \<Rightarrow>
     federation_id \<Rightarrow> claimable_contract \<Rightarrow> ('d, 'c) payment_system \<Rightarrow> bool" where
  "path_inv P V F W ns data_dir app_path fid cc x \<longleftrightarrow>
     contract_claimed W fid (contract_id_of P cc) (payee x) \<or>
     payer_inv P V F W data_dir app_path ns fid cc (engine (payee x)) (payer x)"

section \<open>The invariant\<close>

lemma payer_inv_awaits:
  "payer_inv P V F W data_dir app_path ns fid cc other s \<Longrightarrow>
   payer_inv P V F W data_dir app_path ns fid cc other (s\<lparr>awaits_left := k\<rparr>)"
  by (simp add: payer_inv_def machine_keeps_def machine_move_inv_def machine_ready_def machine_doc_def healthy_def
      wallet_ready_def payment_safe_def payment_stored_def contract_held_def payer_doc_def)

text \<open>A step of the manager that satisfies the manager's part.\<close>

lemma payee_step:
  assumes i: "path_inv P V F W ns data_dir app_path fid cc x"
    and doc: "\<And>a0 H. payee_inv P V W ns a0 H fid cc (payee x) \<Longrightarrow> payee_inv P V W ns a0 H fid cc t"
    and claimed: "contract_claimed W fid (contract_id_of P cc) (payee x) \<Longrightarrow> contract_claimed W fid (contract_id_of P cc) t"
  shows "path_inv P V F W ns data_dir app_path fid cc (x\<lparr>payee := t\<rparr>)"
proof (cases "contract_claimed W fid (contract_id_of P cc) (payee x)")
  case True
  then show ?thesis using claimed by (simp add: path_inv_def)
next
  case False
  then have p: "payer_inv P V F W data_dir app_path ns fid cc (engine (payee x)) (payer x)"
    using i by (simp add: path_inv_def)
  let ?d = "engine (payer x)"
  let ?H = "contract_blobs P V (contract_id_of P cc) ?d"
  have "payee_inv P V W ns (author_of V ?d) ?H fid cc (payee x)"
    using p by (simp add: payee_inv_def payee_doc_def payer_inv_def payer_doc_def Let_def)
  then have "payee_inv P V W ns (author_of V ?d) ?H fid cc t" by (rule doc)
  then show ?thesis using p
    by (auto simp: path_inv_def payee_inv_def payee_doc_def payer_inv_def payer_doc_def Let_def)
qed

text \<open>A step of the machine that keeps the machine's part.\<close>

lemma payer_step:
  assumes i: "path_inv P V F W ns data_dir app_path fid cc x"
    and keep: "\<And>other. payer_inv P V F W data_dir app_path ns fid cc other (payer x) \<Longrightarrow>
      payer_inv P V F W data_dir app_path ns fid cc other s"
  shows "path_inv P V F W ns data_dir app_path fid cc (x\<lparr>payer := s\<rparr>)"
  using i keep by (auto simp: path_inv_def)

lemma kv_key_apart: "codec_contract P \<Longrightarrow> \<not> prefix (kv_full_key k) (create_claimable_contract_machine_doc_key P fid cc)"
  by (simp add: contract_key_of_eq key_spaces_disjoint)

lemma payer_set_kv:
  assumes i: "payer_inv P V F W data_dir app_path ns fid cc other s"
    and run: "machine_set_kv_value P app_path key v s = (r, s')"
  shows "payer_inv P V F W data_dir app_path ns fid cc other s'"
proof -
  let ?K = "create_claimable_contract_machine_doc_key P fid cc"
  have c: "docs_contract P V" and j: "codec_contract P" and m: "machine_ready P V app_path ns s"
    and wr: "wallet_ready F data_dir s" and safe: "payment_safe P V W ns fid cc s" and d: "payer_doc P V ns fid cc other s"
    using i by (simp_all add: payer_inv_def machine_keeps_def machine_move_inv_def)
  have w: "wrote V ns (kv_full_key key) v s r s'" by (rule machine_set_kv_wrote [OF c m run])
  note wv = wrote_views [OF w]
  have cl: "clients s' = clients s" using wv(2) by (rule clients_of_more)
  have "stored_of V (engine s') ns a ?K = stored_of V (engine s) ns a ?K" for a
    by (rule wv(7)) (use kv_key_apart [OF j] in blast)
  then have "payment_safe P V W ns fid cc s'"
    using safe wv(4,6) cl by (auto simp: payment_safe_def payment_stored_def contract_held_def)
  moreover have "machine_ready P V app_path ns s'" by (rule machine_ready_wrote [OF w m])
  moreover have "wallet_ready F data_dir s'" by (rule wallet_ready_keys [OF wr wv(1)]) (simp add: cl)
  moreover have "payer_doc P V ns fid cc other s'" by (rule payer_doc_wrote_apart [OF w kv_key_apart [OF j] d])
  ultimately show ?thesis using i by (simp add: payer_inv_def machine_keeps_def machine_move_inv_def)
qed

lemma payer_download:
  assumes i: "payer_inv P V F W data_dir app_path ns fid cc src s"
    and rep: "replicated V ns src (engine s) d"
  shows "payer_inv P V F W data_dir app_path ns fid cc src (s\<lparr>engine := d\<rparr>)"
proof -
  let ?K = "create_claimable_contract_machine_doc_key P fid cc" and ?a = "author_of V (engine s)"
  let ?H = "contract_blobs P V (contract_id_of P cc)"
  have author: "author_of V d = ?a" and known: "known V d = known V (engine s)"
    and blobs: "\<And>h b. blob_of V (engine s) h = Some b \<Longrightarrow> blob_of V d h = Some b"
    using rep by (auto simp: replicated_def)
  have mono: "?H (engine s) \<subseteq> ?H d" by (rule contract_blobs_mono) (rule blobs)
  have own: "genuine V ns ?a ?K (?H (engine s)) (engine s)" and other: "genuine V ns ?a ?K (?H (engine s)) src"
    using i by (simp_all add: payer_inv_def payer_doc_def Let_def)
  have new: "genuine V ns ?a ?K (?H (engine s)) d" by (rule genuine_replicated [OF rep other own])
  have "payment_stored P V ns fid cc (s\<lparr>engine := d\<rparr>)" if p: "payment_stored P V ns fid cc s"
  proof -
    obtain st where st: "stored_of V (engine s) ns ?a ?K = Some st" using p by (auto simp: payment_stored_def)
    have "\<exists>st'. stored_of V d ns ?a ?K = Some st'"
    proof (cases "stored_of V d ns ?a ?K = Some st")
      case False
      then obtain k' st' where k': "prefix k' ?K" and s': "stored_of V d ns ?a k' = Some st'"
        using rep st unfolding replicated_def by blast
      then show ?thesis using genuineD(2) [OF new k' s'] by auto
    qed simp
    then obtain st' where s': "stored_of V d ns ?a ?K = Some st'" ..
    have "\<not> st_empty st'" "st_hash st' \<in> ?H d" using genuineD(3,4) [OF new _ s'] mono by auto
    with s' show ?thesis by (auto simp: payment_stored_def contract_blobs_def author)
  qed
  then have "payment_safe P V W ns fid cc (s\<lparr>engine := d\<rparr>)"
    using i by (auto simp: payer_inv_def machine_keeps_def payment_safe_def contract_held_def)
  moreover have "payer_doc P V ns fid cc src (s\<lparr>engine := d\<rparr>)"
    using genuine_mono [OF new mono] genuine_mono [OF other mono] by (simp add: payer_doc_def Let_def author)
  ultimately show ?thesis using i known
    by (simp add: payer_inv_def machine_keeps_def machine_move_inv_def machine_ready_def machine_doc_def healthy_def wallet_ready_def)
qed

lemma payer_clients_kept:
  assumes i: "payer_inv P V F W data_dir app_path ns fid cc other s"
    and keys: "\<forall>f. map_of cs f = None \<longleftrightarrow> map_of (clients s) f = None"
    and held: "\<forall>f i. contract_held W f i s \<longrightarrow> contract_held W f i (s\<lparr>clients := cs\<rparr>)"
  shows "payer_inv P V F W data_dir app_path ns fid cc other (s\<lparr>clients := cs\<rparr>)"
proof -
  have "wallet_ready F data_dir (s\<lparr>clients := cs\<rparr>)"
    by (rule wallet_ready_keys [of F data_dir s]) (use i keys in \<open>simp_all add: payer_inv_def machine_keeps_def machine_move_inv_def\<close>)
  then show ?thesis using i held
    by (auto simp: payer_inv_def machine_keeps_def machine_move_inv_def machine_ready_def machine_doc_def healthy_def
        payment_safe_def payment_stored_def payer_doc_def)
qed

text \<open>A write of the manager to a key that does not concern the payment.\<close>

lemma payee_put:
  assumes i: "path_inv P V F W ns data_dir app_path fid cc x"
    and p: "\<And>I. stable I \<Longrightarrow> (\<And>s s'. quiet V s s' \<Longrightarrow> I s \<Longrightarrow> I s') \<Longrightarrow>
      (\<And>s d doc a. I s \<Longrightarrow> touches_only V doc a key (engine s) d \<Longrightarrow> I (s\<lparr>engine := d\<rparr>)) \<Longrightarrow> preserves I m"
    and k: "\<not> prefix key (create_claimable_contract_machine_doc_key P fid cc)"
    and run: "m ((payee x)\<lparr>awaits_left := n, io_script := os\<rparr>) = (r, t)"
  shows "path_inv P V F W ns data_dir app_path fid cc (x\<lparr>payee := t\<rparr>)"
proof (rule payee_step [OF i])
  fix a0 H assume j: "payee_inv P V W ns a0 H fid cc (payee x)"
  have pr: "preserves (payee_inv P V W ns a0 H fid cc) m"
  proof (rule p)
    show "stable (payee_inv P V W ns a0 H fid cc)"
      by (simp add: stable_def payee_inv_def payee_doc_def contract_claimed_def)
    show "payee_inv P V W ns a0 H fid cc s'" if "quiet V s s'" "payee_inv P V W ns a0 H fid cc s" for s s'
      using that by (auto simp: payee_inv_def payee_doc_quiet quiet_claimed)
    show "payee_inv P V W ns a0 H fid cc (s\<lparr>engine := d\<rparr>)"
      if "payee_inv P V W ns a0 H fid cc s" "touches_only V doc a key (engine s) d" for s d doc a
      using that(1) payee_doc_touches [OF that(2) k] by (auto simp: payee_inv_def contract_claimed_def)
  qed
  show "payee_inv P V W ns a0 H fid cc t"
    by (rule preservesD [OF pr _ run]) (use j in \<open>simp add: payee_inv_def payee_doc_def contract_claimed_def\<close>)
next
  assume j: "contract_claimed W fid (contract_id_of P cc) (payee x)"
  have pr: "preserves (contract_claimed W fid (contract_id_of P cc)) m"
    by (rule p [OF stable_contract_claimed]) (simp add: quiet_claimed, simp add: contract_claimed_def)
  show "contract_claimed W fid (contract_id_of P cc) t"
    by (rule preservesD [OF pr _ run]) (use j in \<open>simp add: contract_claimed_def\<close>)
qed

lemma path_inv_start:
  assumes "docs_contract P V" and "codec_contract P" and "client_contract F (contract_id_of P) W" and "database_contract F"
    and "\<not> prefix data_dir app_path" and new: "payment_new P V F W ns data_dir app_path fid cc x"
  shows "path_inv P V F W ns data_dir app_path fid cc x"
proof -
  have "payer_doc P V ns fid cc (engine (payee x)) (payer x)"
    using new by (simp add: payer_doc_def payment_new_def genuine_def Let_def)
  then show ?thesis using assms
    by (simp add: path_inv_def payer_inv_def machine_keeps_def machine_move_inv_def payment_safe_def payment_new_def)
qed

lemma path_inv_step:
  assumes c: "docs_contract P V" and j: "codec_contract P" and w: "client_contract F (contract_id_of P) W"
    and st: "payment_step P V F W ns payer_data payer_app payee_data payee_app x y"
    and i: "path_inv P V F W ns payer_data payer_app fid cc x"
  shows "path_inv P V F W ns payer_data payer_app fid cc y"
  using st
proof cases
  case (payer_syncs rs n k r s')
  show ?thesis unfolding payer_syncs(1)
    by (rule payer_step [OF i], rule payer_loop [OF c payer_inv_awaits payer_syncs(2)])
next
  case (payer_writes key v k r s')
  show ?thesis unfolding payer_writes(1)
    by (rule payer_step [OF i], rule payer_set_kv [OF payer_inv_awaits payer_writes(2)])
next
  case (payee_syncs iters os k r t')
  let ?t = "(payee x)\<lparr>awaits_left := k, io_script := os\<rparr>"
  note loop = payee_loop [OF c j w payee_syncs(2,3)]
  show ?thesis unfolding payee_syncs(1)
  proof (rule payee_step [OF i])
    show "payee_inv P V W ns a0 H fid cc t'" if "payee_inv P V W ns a0 H fid cc (payee x)" for a0 H
      by (rule loop(1)) (use that in \<open>simp add: payee_inv_def payee_doc_def contract_claimed_def\<close>)
    show "contract_claimed W fid (contract_id_of P cc) t'" if "contract_claimed W fid (contract_id_of P cc) (payee x)"
      by (rule loop(2)) (use that in \<open>simp add: contract_claimed_def\<close>)
  qed
next
  case (payee_writes m key v os k r t')
  show ?thesis unfolding payee_writes(1)
    by (rule payee_put [OF i set_kv_preserves [OF c] kv_key_apart [OF j] payee_writes(2)])
next
  case (payee_configures m config os k r t')
  show ?thesis unfolding payee_configures(1)
    by (rule payee_put [OF i set_config_preserves [OF c] config_key_apart [OF j] payee_configures(2)])
next
  case (upload d)
  show ?thesis unfolding upload(1) using i genuine_replicated [OF upload(2)]
    by (auto simp: path_inv_def payer_inv_def payer_doc_def Let_def contract_claimed_def)
next
  case (download d)
  show ?thesis unfolding download(1) using i payer_download [OF _ download(2)] by (auto simp: path_inv_def)
next
  case (payer_clients cs)
  show ?thesis unfolding payer_clients(1)
    by (rule payer_step [OF i], rule payer_clients_kept [OF _ payer_clients(2,3)])
next
  case (payee_clients cs)
  show ?thesis unfolding payee_clients(1)
    by (rule payee_step [OF i]) (use payee_clients(2) in \<open>auto simp: payee_inv_def payee_doc_def\<close>)
qed

lemma path_inv_reach:
  assumes "docs_contract P V" and "codec_contract P" and "client_contract F (contract_id_of P) W" and "database_contract F"
    and "\<not> prefix payer_data payer_app"
    and "payment_reach P V F W ns payer_data payer_app payee_data payee_app x y"
    and "payment_new P V F W ns payer_data payer_app fid cc x"
  shows "path_inv P V F W ns payer_data payer_app fid cc y"
  using assms(6)
proof (induction rule: payment_reach.induct)
  case start
  show ?case by (rule path_inv_start [OF assms(1-5,7)])
next
  case (step y z)
  show ?case by (rule path_inv_step [OF assms(1-3) step(2,3)])
qed

lemma path_inv_somewhere: "path_inv P V F W ns data_dir app_path fid cc x \<Longrightarrow> payment_somewhere P V W ns fid cc x"
  by (auto simp: path_inv_def payment_somewhere_def payer_inv_def machine_keeps_def payment_safe_def)

section \<open>A payment arrives\<close>

text \<open>
  A payment that the machine has stored and the manager has not yet claimed is offered to
  the manager once a session of the exchange has run to its end.
\<close>

lemma path_inv_arrives:
  assumes i: "path_inv P V F W ns data_dir app_path fid cc x"
    and open_payment: "\<not> contract_claimed W fid (contract_id_of P cc) (payee x)"
    and stored: "payment_stored P V ns fid cc (payer x)"
    and rep: "fully_replicated V ns (engine (payer x)) (engine (payee x)) d"
  shows "payment_pending P V ns fid cc ((payee x)\<lparr>engine := d\<rparr>)"
proof -
  let ?K = "create_claimable_contract_machine_doc_key P fid cc" and ?m = "engine (payer x)"
  let ?a = "author_of V ?m" and ?H = "contract_blobs P V (contract_id_of P cc)"
  have g: "genuine V ns ?a ?K (?H ?m) ?m" "genuine V ns ?a ?K (?H ?m) (engine (payee x))"
    using i open_payment by (simp_all add: path_inv_def payer_inv_def payer_doc_def Let_def)
  have new: "genuine V ns ?a ?K (?H ?m) d"
    by (rule genuine_replicated [OF _ g]) (use rep in \<open>simp add: fully_replicated_def\<close>)
  obtain st where st: "stored_of V ?m ns ?a ?K = Some st" using stored by (auto simp: payment_stored_def)
  have "\<exists>st'. stored_of V d ns ?a ?K = Some st'"
  proof (cases "stored_of V d ns ?a ?K = Some st")
    case False
    then obtain k' st' where k': "prefix k' ?K" and s': "stored_of V d ns ?a k' = Some st'"
      using rep st unfolding fully_replicated_def by blast
    then show ?thesis using genuineD(2) [OF new k' s'] by auto
  qed simp
  then obtain st' where s': "stored_of V d ns ?a ?K = Some st'" ..
  have live: "\<not> st_empty st'" and "st_hash st' \<in> ?H ?m" using genuineD(3,4) [OF new _ s'] by auto
  then obtain b cc' where b: "blob_of V ?m (st_hash st') = Some b" "contract_from_json P b = Some cc'"
    "contract_id_of P cc' = contract_id_of P cc" by (auto simp: contract_blobs_def)
  have "blob_of V d (st_hash st') = Some b" using rep s' b(1) unfolding fully_replicated_def by blast
  moreover have "visible V d ns \<lparr>entry_key = ?K, entry_author = ?a, entry_hash = st_hash st', entry_timestamp = st_timestamp st'\<rparr>"
    using s' live genuineD(1) [OF new, of ?K] by (fastforce simp: visible_def)
  ultimately show ?thesis using b(2,3) unfolding payment_pending_def by fastforce
qed

end
