(* ===== verification/Claim_Requests.thy ===== *)
theory Claim_Requests
  imports Machine_Protocol
begin

text \<open>
  The requests of \<open>ClaimHandler::accept\<close> to the machine's user, with the handlers of several
  connections running at once: the lock on the claim, which a handler keeps from its start
  until it is done with its request, the channel of capacity one to
  \<open>await_next_incoming_claim_request\<close>, and the one-shot answers. The handlers are numbered;
  \<open>conn h\<close> is the connection of handler \<open>h\<close>. The lock, the channel and the answers behave as
  tokio documents them: one owner, first in first out and never over capacity, at most one
  answer. What a handler does once both sides agreed is \<open>accept_agreed\<close> of
  \<open>Machine_Protocol\<close>; here it ends with the claim made or not. The step \<open>aborted\<close> stands for a
  handler whose task is dropped or that ends with an error.
\<close>

section \<open>State\<close>

datatype claim_phase = Arrived | Requesting | Waiting | Answered bool | Done

record request_system =
  lock_owner :: "nat option"
  request_queue :: "(nat \<times> claim_pin) list"
  handed_out :: "nat set"
  claim_phase_of :: "nat \<Rightarrow> claim_phase"
  claimed_by :: "endpoint_id option"

definition request_capacity :: nat where "request_capacity = 1"

definition request_pin :: "connection \<Rightarrow> claim_pin" where
  "request_pin conn = claim_pin_from_keying_material (exporter conn)"

text \<open>
  \<open>await_next_incoming_claim_request\<close>: the next request, with the sender of its answer; while
  there is none the caller waits.
\<close>

definition await_next_incoming_claim_request :: "request_system \<Rightarrow> ((nat \<times> claim_pin) \<times> request_system) option" where
  "await_next_incoming_claim_request x = (case request_queue x of
       [] \<Rightarrow> None
     | r # rs \<Rightarrow> Some (r, x\<lparr>request_queue := rs, handed_out := insert (fst r) (handed_out x)\<rparr>))"

text \<open>\<open>Machine::await_next_incoming_claim_request\<close> forwards to it.\<close>

definition machine_app_await_next_claim :: "request_system \<Rightarrow> ((nat \<times> claim_pin) \<times> request_system) option" where
  "machine_app_await_next_claim x = await_next_incoming_claim_request x"

text \<open>\<open>get_machine_state\<close> and \<open>get_manager_pubkey\<close> start by locking the claim.\<close>

definition can_lock_claim :: "request_system \<Rightarrow> bool" where
  "can_lock_claim x \<longleftrightarrow> lock_owner x = None"

definition set_phase :: "nat \<Rightarrow> claim_phase \<Rightarrow> request_system \<Rightarrow> request_system" where
  "set_phase h p x = x\<lparr>claim_phase_of := (claim_phase_of x)(h := p)\<rparr>"

text \<open>The end of a handler releases the lock if the handler has it.\<close>

definition end_handler :: "nat \<Rightarrow> request_system \<Rightarrow> request_system" where
  "end_handler h x = (set_phase h Done x)\<lparr>lock_owner := (if lock_owner x = Some h then None else lock_owner x)\<rparr>"

section \<open>Steps\<close>

inductive request_step :: "(nat \<Rightarrow> connection) \<Rightarrow> request_system \<Rightarrow> request_system \<Rightarrow> bool" for conn where
  already_claimed: "claim_phase_of x h = Arrived \<Longrightarrow> can_lock_claim x \<Longrightarrow>
    claimed_by x = Some k \<Longrightarrow> k \<noteq> remote_id (conn h) \<Longrightarrow> request_step conn x (end_handler h x)"
| locked: "claim_phase_of x h = Arrived \<Longrightarrow> can_lock_claim x \<Longrightarrow>
    claimed_by x \<in> {None, Some (remote_id (conn h))} \<Longrightarrow>
    request_step conn x ((set_phase h Requesting x)\<lparr>lock_owner := Some h\<rparr>)"
| requested: "claim_phase_of x h = Requesting \<Longrightarrow> length (request_queue x) < request_capacity \<Longrightarrow>
    request_step conn x ((set_phase h Waiting x)\<lparr>request_queue := request_queue x @ [(h, request_pin (conn h))]\<rparr>)"
| received: "await_next_incoming_claim_request x = Some (r, y) \<Longrightarrow> request_step conn x y"
| answered: "h \<in> handed_out x \<Longrightarrow>
    request_step conn x ((if claim_phase_of x h = Waiting then set_phase h (Answered b) x else x)
      \<lparr>handed_out := handed_out x - {h}\<rparr>)"
| rejected: "claim_phase_of x h = Answered False \<Longrightarrow> request_step conn x (end_handler h x)"
| agreed: "claim_phase_of x h = Answered True \<Longrightarrow> c \<in> {claimed_by x, Some (remote_id (conn h))} \<Longrightarrow>
    request_step conn x ((end_handler h x)\<lparr>claimed_by := c\<rparr>)"
| aborted: "request_step conn x (end_handler h x)"

definition request_start :: "endpoint_id option \<Rightarrow> request_system" where
  "request_start c = \<lparr>lock_owner = None, request_queue = [], handed_out = {}, claim_phase_of = (\<lambda>_. Arrived), claimed_by = c\<rparr>"

inductive request_reach :: "(nat \<Rightarrow> connection) \<Rightarrow> request_system \<Rightarrow> bool" for conn where
  start: "request_reach conn (request_start c)"
| step: "request_reach conn x \<Longrightarrow> request_step conn x y \<Longrightarrow> request_reach conn y"

section \<open>The lock and the queue\<close>

text \<open>Between taking the lock and the end of the handler.\<close>

definition in_request :: "claim_phase \<Rightarrow> bool" where
  "in_request p \<longleftrightarrow> p \<noteq> Arrived \<and> p \<noteq> Done"

lemma in_request_simps [simp]:
  "in_request Requesting" "in_request Waiting" "in_request (Answered b)" "\<not> in_request Arrived" "\<not> in_request Done"
  by (simp_all add: in_request_def)

definition request_inv :: "(nat \<Rightarrow> connection) \<Rightarrow> request_system \<Rightarrow> bool" where
  "request_inv conn x \<longleftrightarrow> (\<forall>h. in_request (claim_phase_of x h) \<longleftrightarrow> lock_owner x = Some h) \<and>
     length (request_queue x) \<le> request_capacity \<and> (\<forall>(h, p) \<in> set (request_queue x). p = request_pin (conn h))"

lemma end_handler_inv: "request_inv conn x \<Longrightarrow> request_inv conn (end_handler h x)"
  by (auto simp: request_inv_def end_handler_def set_phase_def)

lemma request_inv_step: "request_step conn x y \<Longrightarrow> request_inv conn x \<Longrightarrow> request_inv conn y"
proof (induction rule: request_step.induct)
  case (agreed x h c)
  then have "request_inv conn (end_handler h x)" by (intro end_handler_inv)
  then show ?case by (simp add: request_inv_def)
next
  case (received x r y)
  then show ?case by (auto simp: await_next_incoming_claim_request_def request_inv_def split: list.splits)
next
  case (answered h x b)
  have "in_request (Answered b) = in_request Waiting" by simp
  with answered(2) show ?case by (auto simp: request_inv_def set_phase_def)
next
  case (locked x h)
  then show ?case by (auto simp: request_inv_def set_phase_def can_lock_claim_def)
next
  case (requested x h)
  then have "in_request (claim_phase_of x h)" by simp
  with requested show ?case by (auto simp: request_inv_def set_phase_def)
qed (rule end_handler_inv, assumption)+

lemma request_inv_reach: "request_reach conn x \<Longrightarrow> request_inv conn x"
proof (induction rule: request_reach.induct)
  case (start c)
  show ?case by (simp add: request_start_def request_inv_def)
next
  case (step x y)
  show ?case by (rule request_inv_step [OF step(2,3)])
qed

text \<open>Only an answer to it, or an abort, ends the wait of a request.\<close>

lemma request_step_waiting:
  assumes "request_step conn x y" and "claim_phase_of x h = Waiting"
  shows "claim_phase_of y h = Waiting \<or> (h \<in> handed_out x \<and> h \<notin> handed_out y) \<or> y = end_handler h x"
  using assms
  by (cases rule: request_step.cases)
     (auto simp: set_phase_def end_handler_def await_next_incoming_claim_request_def split: list.splits if_splits)

text \<open>The lock is free again only when the handler that waits is aborted, or after its answer.\<close>

lemma request_step_frees:
  assumes st: "request_step conn x y" and inv: "request_inv conn x" and w: "claim_phase_of x h = Waiting"
    and free: "can_lock_claim y"
  shows "y = end_handler h x"
proof -
  have owner: "lock_owner x = Some h" and only: "in_request (claim_phase_of x g) \<Longrightarrow> g = h" for g
    using inv w by (auto simp: request_inv_def dest: spec [of _ h] spec [of _ g])
  from st show ?thesis
  proof cases
    case (rejected g)
    with only [of g] w show ?thesis by simp
  next
    case (agreed g c)
    with only [of g] w show ?thesis by simp
  next
    case (already_claimed g k)
    with owner show ?thesis by (simp add: can_lock_claim_def)
  next
    case (locked g)
    with owner show ?thesis by (simp add: can_lock_claim_def)
  next
    case (requested g)
    with owner free show ?thesis by (simp add: can_lock_claim_def set_phase_def)
  next
    case (received r)
    with owner free show ?thesis
      by (auto simp: can_lock_claim_def await_next_incoming_claim_request_def split: list.splits)
  next
    case (answered g b)
    with owner free show ?thesis by (simp add: can_lock_claim_def set_phase_def split: if_splits)
  next
    case (aborted g)
    with free owner show ?thesis by (auto simp: can_lock_claim_def end_handler_def set_phase_def split: if_splits)
  qed
qed

end
