(* ===== verification/Examples_Path.thy ===== *)
theory Examples_Path
  imports Examples_Wallet Payment_Path Claim_Requests
begin

text \<open>
  A payment on its way, on the reference engine: one iteration of the machine's syncer moves
  the contract into the document, and a full exchange brings it to the manager.
\<close>

definition ex_joined :: "(ref_docs, ref_client) machine_node" where
  "ex_joined = ex_configured\<lparr>disk :=
     AList.update (ex_data @ [DEFAULT_FEDERATION_PATH]) (File (unary_json 3)) (disk ex_configured)\<rparr>"

definition ex_copied :: "(ref_docs, ref_client) machine_node" where
  "ex_copied = ex_joined\<lparr>engine := ex_put ex_key (unary_json 5) (engine ex_joined)\<rparr>"

definition ex_moved :: "(ref_docs, ref_client) machine_node" where
  "ex_moved = ex_copied\<lparr>clients := [(ex_fid, rc_new)]\<rparr>"

lemma ex_moving_runs: "running ex_joined" "running ex_copied" "running ex_moved"
  using ex_configured_runs(1) by (simp_all add: running_def ex_joined_def ex_copied_def ex_moved_def)

lemma ex_moving_views: "engine ex_joined = engine ex_configured" "clients ex_joined = clients ex_configured"
  "clients ex_copied = clients ex_configured" "engine ex_moved = ex_put ex_key (unary_json 5) (engine ex_configured)"
  by (simp_all add: ex_joined_def ex_copied_def ex_moved_def)

lemma ex_configured_disk: "is_dir (disk ex_configured) ex_data" "is_dir (disk ex_configured) (ex_data @ [''FFF''])"
  "\<not> is_dir (disk ex_configured) (ex_data @ [DEFAULT_FEDERATION_PATH])"
  by (simp_all add: ex_configured_def ex_paying_def ex_claimed_def ex_machine_def is_dir_def ex_data_def ex_app_def
      MACHINE_DOC_TICKET_PATH_def MACHINE_MANAGER_PUBLIC_KEY_PATH_def DEFAULT_FEDERATION_PATH_def)

lemma ex_join: "set_default_federation ref_fedimint rs ex_data (federation_invite_code ex_config) ex_configured = (Ok (), ex_joined)"
proof -
  have p: "path_is_dir (ex_data @ [''FFF'']) ex_configured = (Ok True, ex_configured)"
    using ex_configured_runs(1) ex_configured_disk(2) by (simp add: path_is_dir_def next_io_def andThen_def running_def ret_def)
  have i: "federation_invite_code ex_config = ex_invite" by (simp add: ex_config_def ex_invite_def)
  show ?thesis
    using running_fs_write [OF ex_configured_runs(1) ex_configured_disk(1,3), of "unary_json 3"]
    by (simp add: set_default_federation_def Let_def andThen_eval running_locks [OF ex_configured_runs(1)] i ex_invite_simps p ex_joined_def)
qed

lemma ex_joined_doc: "get_or_create_machine_doc ref_platform ex_app ex_joined = (Ok (NamespaceId 1), ex_joined)"
proof -
  have k: "NamespaceId 1 \<in> set (rd_known (engine ex_joined))"
    by (simp add: ex_moving_views ex_configured_runs ex_put_def ref_platform_def rd_put_def ex_docs_def Let_def)
  have o: "docs_open ref_platform (NamespaceId 1) (engine ex_joined) = (Ok (Some (NamespaceId 1)), engine ex_joined)"
    using k by (simp add: ref_platform_def)
  have "map_of (disk ex_joined) (ex_app @ [MACHINE_DOC_TICKET_PATH]) = map_of (disk ex_paying) (ex_app @ [MACHINE_DOC_TICKET_PATH])"
    "dirs_exist (disk ex_joined) ex_app"
    using ex_paying_doc by (auto simp: ex_joined_def ex_configured_def update_conv ex_data_def ex_app_def machine_doc_def
        dirs_exist_def is_dir_def prefix_Cons)
  then have "machine_doc ref_platform ref_view ex_app ex_joined (NamespaceId 1)"
    using ex_paying_doc k by (simp add: machine_doc_def ref_view_def)
  then show ?thesis using running_get_or_create [OF ex_moving_runs(1) _ o] by simp
qed

lemma ex_write: "write_payment_to_machine_doc ref_platform ex_app ex_fid ex_contract ex_joined = (Ok (), ex_copied)"
proof -
  have a: "engine_call (author_default ref_platform) ex_joined = (Ok (AuthorId 1), ex_joined)"
    by (simp add: engine_call_def running_await [OF ex_moving_runs(1)] ex_author ex_moving_views ex_configured_runs(2) ex_put_docs(3))
       (simp add: ex_docs_def ex_joined_def)
  have j: "contract_to_json ref_platform ex_contract = Some (unary_json 5)"
    by (simp add: ref_platform_def ex_contract_def)
  have "rd_author (engine ex_joined) = AuthorId 1"
    by (simp add: ex_moving_views ex_configured_runs(2) ex_put_docs(3) ex_docs_def)
  moreover have acc: "rd_accepts (NamespaceId 1) (AuthorId 1) ex_key (engine ex_joined)" "unary_json 5 \<noteq> []"
    by (simp_all add: ex_moving_views ex_configured_runs(2) ex_put_def rd_put_def rd_accepts_def ex_docs_def rd_tick_def) (simp add: unary_json_def)
  ultimately have "\<exists>h. engine_call (doc_set_bytes ref_platform (NamespaceId 1) (AuthorId 1) ex_key (unary_json 5)) ex_joined = (Ok h, ex_copied)"
    using ex_set_bytes [of "unary_json 5" "engine ex_joined" ex_key] acc
    by (simp add: engine_call_def running_await [OF ex_moving_runs(1)] ex_copied_def)
  then obtain h where s: "engine_call (doc_set_bytes ref_platform (NamespaceId 1) (AuthorId 1) ex_key (unary_json 5)) ex_joined = (Ok h, ex_copied)" ..
  show ?thesis
    using s a by (simp del: One_nat_def add: write_payment_to_machine_doc_def Let_def andThen_eval ex_joined_doc ex_key_def [symmetric] j)
qed

lemma ex_syncable: "make_completed_payments_syncable ref_platform ref_fedimint ex_app ex_config ex_joined = (Ok (), ex_moved)"
proof -
  have i: "invite_id ref_fedimint (federation_invite_code ex_config) = ex_fid"
    by (simp add: ref_fedimint_def ex_config_def ex_fid_def)
  have c: "wallet_get_claimable_contracts ref_fedimint ex_fid pk None ex_joined = (Ok (Some [ex_contract]), ex_joined)" for pk
    by (simp add: wallet_get_claimable_contracts_def andThen_eval running_locks [OF ex_moving_runs(1)] ex_moving_views
        ex_configured_runs(4) require_module_def running_await [OF ex_moving_runs(1)])
       (simp add: ref_fedimint_def)
  have w: "collect_ok (write_payment_to_machine_doc ref_platform ex_app ex_fid) (contract_id_of ref_platform) [ex_contract] ex_joined =
      (Ok [contract_id_of ref_platform ex_contract], ex_copied)"
    by (simp add: collect_ok_def andThen_eval attempt_eval ex_write)
  have "ln_remove_claimed ref_fedimint [contract_id_of ref_platform ex_contract] (rc_new\<lparr>rc_held := [ex_contract]\<rparr>) = rc_new"
    by (simp add: ref_fedimint_def rc_cid_def rc_new_def)
  then have "remove_claimed_contracts ref_fedimint ex_fid [contract_id_of ref_platform ex_contract] ex_copied = (Ok (), ex_moved)"
    by (simp add: remove_claimed_contracts_def andThen_eval running_locks [OF ex_moving_runs(2)] ex_moving_views ex_configured_runs(4)
        require_module_def client_call_def running_await [OF ex_moving_runs(2)] ex_moved_def)
       (simp add: ref_fedimint_def)
  with c w show ?thesis by (simp add: make_completed_payments_syncable_def Let_def andThen_eval i)
qed

lemma ex_sync: "machine_sync_loop ref_platform ref_fedimint rs ex_data ex_app 1 ex_configured = (Ok (), ex_moved)"
proof -
  have "machine_sync_step ref_platform ref_fedimint rs ex_data ex_app ex_configured = (Ok True, ex_moved)"
    by (simp add: machine_sync_step_def Let_def andThen_eval attempt_eval ex_state ex_join ex_syncable running_await [OF ex_moving_runs(3)])
  then show ?thesis by (simp add: andThen_eval)
qed

section \<open>The system\<close>

definition ex_far_docs :: ref_docs where
  "ex_far_docs = ex_docs\<lparr>rd_author := AuthorId 2\<rparr>"

definition ex_path :: "(ref_docs, ref_client) payment_system" where
  "ex_path = \<lparr>payer = ex_configured, payee = ex_manager\<lparr>engine := ex_far_docs\<rparr>\<rparr>"

definition ex_path_moved :: "(ref_docs, ref_client) payment_system" where
  "ex_path_moved = ex_path\<lparr>payer := ex_moved\<rparr>"

lemma ex_path_new: "payment_new ref_platform ref_view ref_fedimint ref_client_view (NamespaceId 1) ex_data ex_app ex_fid ex_contract ex_path"
proof -
  have key: "\<not> prefix MACHINE_CONFIG_KEY (create_claimable_contract_machine_doc_key ref_platform ex_fid ex_contract)"
    "prefix k (create_claimable_contract_machine_doc_key ref_platform ex_fid ex_contract) \<Longrightarrow> k \<noteq> MACHINE_CONFIG_KEY" for k
    using config_key_apart [OF ref_codec_contract, of ex_fid ex_contract] by auto
  have "machine_ready ref_platform ref_view ex_app (NamespaceId 1) ex_configured"
    using ex_paying_ready by (simp add: machine_ready_def machine_doc_def healthy_def ex_configured_def ref_view_def ex_put_def
        ref_platform_def rd_put_def ex_docs_def ex_paying_def ex_claimed_def ex_machine_def Let_def)
  moreover have "wallet_ready ref_fedimint ex_data ex_configured"
    using ex_paying_wallet by (simp add: wallet_ready_def ex_configured_def)
  moreover have "contract_held ref_client_view ex_fid (contract_id_of ref_platform ex_contract) ex_configured"
    using ex_paying_held by (simp add: contract_held_def ex_configured_def)
  moreover have "stored_of ref_view (engine ex_configured) (NamespaceId 1) a k = None" "stored_of ref_view ex_far_docs (NamespaceId 1) a k = None"
    if "prefix k (create_claimable_contract_machine_doc_key ref_platform ex_fid ex_contract)" for a k
    using key(2) [OF that] by (simp_all add: ex_configured_runs(2) ex_far_docs_def ref_view_def ex_put_def ref_platform_def rd_put_def
        ex_docs_def Let_def)
  ultimately show ?thesis by (simp add: payment_new_def ex_path_def)
qed

lemma ex_path_reach: "payment_reach ref_platform ref_view ref_fedimint ref_client_view (NamespaceId 1) ex_data ex_app ex_data ex_app
    ex_path ex_path_moved"
proof (rule payment_reach.step [OF payment_reach.start])
  have "(payer ex_path)\<lparr>awaits_left := None\<rparr> = ex_configured"
    using ex_configured_runs(1) by (simp add: ex_path_def running_def)
  then show "payment_step ref_platform ref_view ref_fedimint ref_client_view (NamespaceId 1) ex_data ex_app ex_data ex_app ex_path ex_path_moved"
    using ex_sync unfolding ex_path_moved_def by (intro payment_step.payer_syncs [where n = 1 and k = None]) simp
qed

definition ex_arrived :: ref_docs where
  "ex_arrived = (engine ex_moved)\<lparr>rd_author := AuthorId 2\<rparr>"

lemma ex_full: "fully_replicated ref_view (NamespaceId 1) (engine (payer ex_path_moved)) (engine (payee ex_path_moved)) ex_arrived"
  by (simp add: fully_replicated_def replicated_def ex_path_moved_def ex_path_def ex_arrived_def ex_far_docs_def ex_moving_views
      ex_configured_runs(2) ref_view_def ex_put_def ref_platform_def rd_put_def ex_docs_def Let_def fun_eq_iff rd_blob_Some)

lemma ex_moved_stored: "payment_stored ref_platform ref_view (NamespaceId 1) ex_fid ex_contract (payer ex_path_moved)"
  "\<not> contract_held ref_client_view ex_fid (contract_id_of ref_platform ex_contract) (payer ex_path_moved)"
  "\<not> contract_claimed ref_client_view ex_fid (contract_id_of ref_platform ex_contract) (payee ex_path_moved)"
proof -
  show "\<not> contract_held ref_client_view ex_fid (contract_id_of ref_platform ex_contract) (payer ex_path_moved)"
    "\<not> contract_claimed ref_client_view ex_fid (contract_id_of ref_platform ex_contract) (payee ex_path_moved)"
    by (simp_all add: contract_held_def contract_claimed_def ex_path_moved_def ex_path_def ex_moved_def ex_manager_def ref_client_view_def rc_new_def)
  show "payment_stored ref_platform ref_view (NamespaceId 1) ex_fid ex_contract (payer ex_path_moved)"
    unfolding payment_stored_def ex_key_def [symmetric]
    by (simp add: ex_path_moved_def ex_moving_views ex_configured_runs(2) ref_view_def ex_put_def)
       (simp add: ref_platform_def rd_put_def ex_docs_def ex_contract_def Let_def rd_blob_Some)
qed

section \<open>A claim request that waits\<close>

definition ex_requesting :: request_system where
  "ex_requesting = (set_phase 0 Requesting (request_start (Some (EndpointId 7))))\<lparr>lock_owner := Some 0\<rparr>"

definition ex_waiting :: request_system where
  "ex_waiting = (set_phase 0 Waiting ex_requesting)\<lparr>request_queue := [(0, request_pin ex_conn)]\<rparr>"

lemma ex_waiting_reach: "request_reach (\<lambda>_. ex_conn) ex_waiting"
proof -
  have "request_step (\<lambda>_. ex_conn) (request_start (Some (EndpointId 7))) ex_requesting"
    unfolding ex_requesting_def by (rule request_step.locked) (simp_all add: request_start_def can_lock_claim_def ex_conn_def)
  then have "request_reach (\<lambda>_. ex_conn) ex_requesting" by (rule request_reach.step [OF request_reach.start])
  moreover have "request_step (\<lambda>_. ex_conn) ex_requesting ex_waiting"
    using request_step.requested [of ex_requesting 0 "\<lambda>_. ex_conn"]
    by (simp add: ex_waiting_def ex_requesting_def set_phase_def request_start_def request_capacity_def)
  ultimately show ?thesis by (rule request_reach.step)
qed

end
