(* ===== verification/Working_Engine.thy ===== *)
theory Working_Engine
  imports Liveness
begin

text \<open>
  Runs in which the engine answers every call it documents to answer: the laws
  \<open>working_engine\<close>, and what the operations of both protocols then return, in full. Reads
  and writes are for documents the engine has, a write is by the engine's own author with a
  value that is not empty (iroh-docs refuses empty entries) at a time past that author's
  entries, and an engine is started when it is not running, on the directory it stands for.
  The abstract document (\<open>content\<close>, of \<open>Replica\<close>) is a map from keys to the winning value, its
  author and its timestamp; every operation is shown to return what the map says and to change
  the map as it should, so that the results no longer depend on a call succeeding.
\<close>

section \<open>An engine that works\<close>

text \<open>
  The part of an engine that no document call changes: the address of its endpoint and
  whether it was shut down. \<open>room\<close> bounds how often the clock can still be read before it
  reaches the end of its range.
\<close>

definition same_device :: "'d platform \<Rightarrow> ('d, 'v) docs_view_scheme \<Rightarrow> ('d \<Rightarrow> nat) \<Rightarrow> 'd \<Rightarrow> 'd \<Rightarrow> bool" where
  "same_device P V room d d' \<longleftrightarrow> same_store V d d' \<and> endpoint_addr_of P d' = endpoint_addr_of P d \<and>
     router_is_shutdown P d' = router_is_shutdown P d \<and> room d \<le> room d'"

definition wrote_device :: "'d platform \<Rightarrow> ('d \<Rightarrow> nat) \<Rightarrow> 'd \<Rightarrow> 'd \<Rightarrow> bool" where
  "wrote_device P room d d' \<longleftrightarrow> endpoint_addr_of P d' = endpoint_addr_of P d \<and>
     router_is_shutdown P d' = router_is_shutdown P d \<and> room d \<le> Suc (room d')"

definition reads_work :: "'d platform \<Rightarrow> ('d, 'v) docs_view_scheme \<Rightarrow> ('d \<Rightarrow> nat) \<Rightarrow> bool" where
  "reads_work P V room \<longleftrightarrow> (\<forall>d. \<not> router_is_shutdown P d \<longrightarrow>
     (\<exists>x d'. author_default P d = (Ok x, d') \<and> same_device P V room d d') \<and>
     (\<forall>ns. known V d ns \<longrightarrow>
        (\<exists>x d'. docs_open P ns d = (Ok x, d') \<and> same_device P V room d d') \<and>
        (\<forall>m ao. \<exists>t d'. doc_share P ns m ao d = (Ok t, d') \<and> same_device P V room d d' \<and> ticket_to_json P t \<noteq> None) \<and>
        (\<forall>k. \<exists>x d'. doc_get_one P ns (KeyExact k) d = (Ok x, d') \<and> same_device P V room d d') \<and>
        (\<forall>p. \<exists>es d'. doc_get_many P ns (KeyPrefix p) d = (Ok (map Inr es), d') \<and> same_device P V room d d')) \<and>
     (\<forall>h b. blob_of V d h = Some b \<longrightarrow> (\<exists>x d'. blobs_get_bytes P h d = (Ok x, d') \<and> same_device P V room d d')))"

text \<open>
  The local author can write to a document the engine has once the clock is past that
  author's entries. A write removes entries below its key, adds none but its own, and takes
  time: the next one is later, as long as the clock has room.
\<close>

definition writable :: "('d, 'v) docs_view_scheme \<Rightarrow> namespace_id \<Rightarrow> 'd \<Rightarrow> bool" where
  "writable V ns d \<longleftrightarrow> known V d ns \<and>
     (\<forall>k st. stored_of V d ns (author_of V d) k = Some st \<longrightarrow> st_timestamp st < clock_of V d)"

definition changed_only ::
    "'d platform \<Rightarrow> ('d, 'v) docs_view_scheme \<Rightarrow> ('d \<Rightarrow> nat) \<Rightarrow> namespace_id \<Rightarrow> bytes \<Rightarrow> 'd \<Rightarrow> 'd \<Rightarrow> bool" where
  "changed_only P V room ns k d d' \<longleftrightarrow> wrote_device P room d d' \<and>
     (\<forall>k' st. k' \<noteq> k \<longrightarrow> stored_of V d' ns (author_of V d) k' = Some st \<longrightarrow> stored_of V d ns (author_of V d) k' = Some st) \<and>
     (0 < room d \<longrightarrow> clock_of V d < clock_of V d')"

definition writes_work :: "'d platform \<Rightarrow> ('d, 'v) docs_view_scheme \<Rightarrow> ('d \<Rightarrow> nat) \<Rightarrow> bool" where
  "writes_work P V room \<longleftrightarrow> (\<forall>d. \<not> router_is_shutdown P d \<longrightarrow>
     (\<forall>ns. writable V ns d \<longrightarrow>
        (\<forall>k v. v \<noteq> [] \<longrightarrow> (\<exists>h d'. doc_set_bytes P ns (author_of V d) k v d = (Ok h, d') \<and> changed_only P V room ns k d d')) \<and>
        (\<forall>k. \<exists>n d'. doc_del P ns (author_of V d) k d = (Ok n, d') \<and> changed_only P V room ns k d d')) \<and>
     (\<exists>ns d'. docs_create P d = (Ok ns, d') \<and> wrote_device P room d d' \<and> clock_of V d \<le> clock_of V d') \<and>
     (\<forall>t. \<exists>ns d'. docs_import P t d = (Ok ns, d') \<and> wrote_device P room d d' \<and> clock_of V d \<le> clock_of V d' \<and>
        (\<not> known V d (capability_id P (ticket_capability t)) \<longrightarrow>
           (\<forall>a k. stored_of V d' (capability_id P (ticket_capability t)) a k = None))))"

text \<open>
  A state of the engine stands for the persistent store in the device's own directory
  \<open>dir\<close>, and for what runs on it. An engine that is not running can be started on that
  directory, and only there: it then has what was stored, and so has one that was stopped.
  The endpoint's address follows from the secret key.
\<close>

definition starts_work ::
    "'d platform \<Rightarrow> ('d, 'v) docs_view_scheme \<Rightarrow> ('d \<Rightarrow> nat) \<Rightarrow> path \<Rightarrow> (hash32 \<Rightarrow> endpoint_id) \<Rightarrow> bool" where
  "starts_work P V room dir public_of \<longleftrightarrow> (\<forall>d.
     (\<forall>key. router_is_shutdown P d \<longrightarrow> (\<exists>d'. endpoint_bind P key d = (Ok (), d') \<and> same_store V d d' \<and> room d \<le> room d' \<and>
        addr_id (endpoint_addr_of P d') = public_of key \<and> \<not> router_is_shutdown P d')) \<and>
     (\<exists>d'. blobs_load P (dir @ [IROH_SUBDIR]) d = (Ok (), d') \<and> same_device P V room d d') \<and>
     (\<exists>d'. docs_persistent P (dir @ [IROH_SUBDIR]) d = (Ok (), d') \<and> same_device P V room d d') \<and>
     (\<exists>d'. router_spawn P d = (Ok (), d') \<and> same_device P V room d d') \<and>
     (\<exists>d'. router_shutdown P d = (Ok (), d') \<and> same_store V d d' \<and> room d \<le> room d' \<and>
        endpoint_addr_of P d' = endpoint_addr_of P d \<and> router_is_shutdown P d') \<and>
     (\<exists>r d'. blobs_shutdown P d = (r, d') \<and> (r = Ok () \<or> (\<exists>e. r = Err e)) \<and> same_device P V room d d') \<and>
     (\<exists>r d'. docs_shutdown P d = (r, d') \<and> (r = Ok () \<or> (\<exists>e. r = Err e)) \<and> same_device P V room d d'))"

text \<open>The serialisers accept every value of the code's types, and an identifier is a file name.\<close>

definition encoders_total :: "'d platform \<Rightarrow> bool" where
  "encoders_total P \<longleftrightarrow> (\<forall>x. endpoint_to_json P x \<noteq> None) \<and> (\<forall>x. config_to_json P x \<noteq> None \<and> config_to_json P x \<noteq> Some []) \<and>
     (\<forall>x. contract_to_json P x \<noteq> None \<and> contract_to_json P x \<noteq> Some []) \<and>
     (\<forall>x. os_into_string (endpoint_to_string P x) = Some (endpoint_to_string P x))"

definition working_engine :: "'d platform \<Rightarrow> ('d, 'v) docs_view_scheme \<Rightarrow> ('d \<Rightarrow> nat) \<Rightarrow> bool" where
  "working_engine P V room \<longleftrightarrow> docs_contract P V \<and> codec_contract P \<and> reads_work P V room \<and>
     writes_work P V room \<and> encoders_total P"

lemma working_engineD:
  assumes "working_engine P V room"
  shows "docs_contract P V" "codec_contract P" "reads_work P V room" "writes_work P V room" "encoders_total P"
  using assms by (simp_all add: working_engine_def)

lemma encoders_totalD:
  assumes "working_engine P V room"
  obtains e c x where "endpoint_to_json P i = Some e" "config_to_json P f = Some c" "c \<noteq> []" "contract_to_json P cc = Some x" "x \<noteq> []"
    "os_into_string (endpoint_to_string P i) = Some (endpoint_to_string P i)"
  using working_engineD(5) [OF assms] unfolding encoders_total_def by (metis not_None_eq)

lemma same_device_refl [simp]: "same_device P V room d d"
  by (simp add: same_device_def)

lemma same_device_trans: "same_device P V room a b \<Longrightarrow> same_device P V room b c \<Longrightarrow> same_device P V room a c"
  by (auto simp: same_device_def intro: same_store_trans)

lemma same_device_views:
  assumes "same_device P V room d d'"
  shows "author_of V d' = author_of V d" "known V d' = known V d" "stored_of V d' = stored_of V d"
    "blob_of V d' = blob_of V d" "clock_of V d \<le> clock_of V d'" "endpoint_addr_of P d' = endpoint_addr_of P d"
    "router_is_shutdown P d' = router_is_shutdown P d" "room d \<le> room d'"
  using assms by (auto simp: same_device_def dest: same_store_views)

text \<open>What no operation on an existing document changes.\<close>

definition same_frame :: "'d platform \<Rightarrow> ('d, 'v) docs_view_scheme \<Rightarrow> 'd \<Rightarrow> 'd \<Rightarrow> bool" where
  "same_frame P V d d' \<longleftrightarrow> author_of V d' = author_of V d \<and> known V d' = known V d \<and>
     endpoint_addr_of P d' = endpoint_addr_of P d \<and> router_is_shutdown P d' = router_is_shutdown P d"

lemma same_frame_refl [simp]: "same_frame P V d d"
  by (simp add: same_frame_def)

lemma same_frame_trans: "same_frame P V a b \<Longrightarrow> same_frame P V b c \<Longrightarrow> same_frame P V a c"
  by (simp add: same_frame_def)

lemma same_device_frame: "same_device P V room d d' \<Longrightarrow> same_frame P V d d'"
  by (simp add: same_frame_def same_device_views)

text \<open>
  \<open>running\<close> nodes: a call of the engine changes nothing but the engine.
\<close>

lemma running_engine [simp]: "running (s\<lparr>engine := d\<rparr>) \<longleftrightarrow> running s"
  by (simp add: running_def)

lemma running_disk [simp]: "running (s\<lparr>disk := d\<rparr>) \<longleftrightarrow> running s"
  by (simp add: running_def)

definition alive :: "'d platform \<Rightarrow> ('d, 'z) node_scheme \<Rightarrow> bool" where
  "alive P s \<longleftrightarrow> running s \<and> \<not> router_is_shutdown P (engine s)"

lemma alive_running: "alive P s \<Longrightarrow> running s"
  by (simp add: alive_def)

lemma alive_up: "alive P s \<Longrightarrow> \<not> router_is_shutdown P (engine s)"
  by (simp add: alive_def)

lemma alive_same: "alive P s \<Longrightarrow> same_device P V room (engine s) d \<Longrightarrow> alive P (s\<lparr>engine := d\<rparr>)"
  by (simp add: alive_def same_device_def)

lemma alive_wrote: "alive P s \<Longrightarrow> wrote_device P room (engine s) d \<Longrightarrow> alive P (s\<lparr>engine := d\<rparr>)"
  by (simp add: alive_def wrote_device_def)

lemma alive_frame: "alive P s \<Longrightarrow> same_frame P V (engine s) d \<Longrightarrow> alive P (s\<lparr>engine := d\<rparr>)"
  by (simp add: alive_def same_frame_def)

lemma alive_disk [simp]: "alive P (s\<lparr>disk := d\<rparr>) \<longleftrightarrow> alive P s"
  by (simp add: alive_def)

lemma run_author:
  assumes w: "working_engine P V room" and run: "alive P s"
  obtains d where "engine_call (author_default P) s = (Ok (author_of V (engine s)), s\<lparr>engine := d\<rparr>)"
    "same_device P V room (engine s) d"
proof -
  obtain x d where x: "author_default P (engine s) = (Ok x, d)" "same_device P V room (engine s) d"
    using working_engineD(3) [OF w] alive_up [OF run] unfolding reads_work_def by blast
  have "x = author_of V (engine s)" by (rule author_default_contract(2) [OF working_engineD(1) [OF w] x(1) refl])
  then show thesis using that x running_engine_call [where f = "author_default P", OF alive_running [OF run] x(1)] by simp
qed

lemma run_open:
  assumes w: "working_engine P V room" and run: "alive P s" and known: "known V (engine s) ns"
  obtains d where "engine_call (docs_open P ns) s = (Ok (Some ns), s\<lparr>engine := d\<rparr>)" "docs_open P ns (engine s) = (Ok (Some ns), d)"
    "same_device P V room (engine s) d"
proof -
  obtain x d where x: "docs_open P ns (engine s) = (Ok x, d)" "same_device P V room (engine s) d"
    using working_engineD(3) [OF w] alive_up [OF run] known unfolding reads_work_def by blast
  have "x = Some ns" using docs_open_contract(2) [OF working_engineD(1) [OF w] x(1) refl] known by simp
  then show thesis using that x running_engine_call [where f = "docs_open P ns", OF alive_running [OF run] x(1)] by simp
qed

lemma run_share:
  assumes w: "working_engine P V room" and run: "alive P s" and known: "known V (engine s) ns"
  obtains t b d where "engine_call (doc_share P ns ShareWrite ao) s = (Ok t, s\<lparr>engine := d\<rparr>)"
    "doc_share P ns ShareWrite ao (engine s) = (Ok t, d)" "same_device P V room (engine s) d" "ticket_to_json P t = Some b"
    "ticket_from_json P b = Some t" "utf8_valid b" "capability_id P (ticket_capability t) = ns" "is_write_capability (ticket_capability t)"
proof -
  obtain t d where x: "doc_share P ns ShareWrite ao (engine s) = (Ok t, d)" "same_device P V room (engine s) d" "ticket_to_json P t \<noteq> None"
    using working_engineD(3) [OF w] alive_up [OF run] known unfolding reads_work_def by blast
  obtain b where b: "ticket_to_json P t = Some b" using x(3) by blast
  note law = doc_share_contract [OF working_engineD(1) [OF w] x(1)]
  show thesis
  proof (rule that [OF _ x(1,2) b])
    show "engine_call (doc_share P ns ShareWrite ao) s = (Ok t, s\<lparr>engine := d\<rparr>)"
      by (rule running_engine_call [where f = "doc_share P ns ShareWrite ao", OF alive_running [OF run] x(1)])
    show "ticket_from_json P b = Some t" "utf8_valid b" using codec_contractD(2) [OF working_engineD(2) [OF w] b] by simp_all
    show "capability_id P (ticket_capability t) = ns" using law(2) by simp
    show "is_write_capability (ticket_capability t)" using law(3) by (simp add: is_write_capability_iff)
  qed
qed

lemma run_get_bytes:
  assumes w: "working_engine P V room" and run: "alive P s" and blob: "blob_of V (engine s) h = Some b"
  obtains d where "engine_call (blobs_get_bytes P h) s = (Ok b, s\<lparr>engine := d\<rparr>)" "same_device P V room (engine s) d"
proof -
  obtain x d where x: "blobs_get_bytes P h (engine s) = (Ok x, d)" "same_device P V room (engine s) d"
    using working_engineD(3) [OF w] alive_up [OF run] blob unfolding reads_work_def by blast
  have "x = b" using blobs_get_bytes_contract(2) [OF working_engineD(1) [OF w] x(1) refl] blob by simp
  then show thesis using that x running_engine_call [where f = "blobs_get_bytes P h", OF alive_running [OF run] x(1)] by simp
qed

lemma same_device_writable: "same_device P V room d d' \<Longrightarrow> writable V ns d \<Longrightarrow> writable V ns d'"
  unfolding writable_def using same_device_views [of P V room d d'] by (metis less_le_trans)

lemma run_set_bytes:
  assumes w: "working_engine P V room" and run: "alive P s" and ok: "writable V ns (engine s)" "v \<noteq> []" and a: "a = author_of V (engine s)"
  obtains h d where "engine_call (doc_set_bytes P ns a k v) s = (Ok h, s\<lparr>engine := d\<rparr>)"
    "doc_set_bytes P ns a k v (engine s) = (Ok h, d)" "changed_only P V room ns k (engine s) d"
proof -
  obtain h d where x: "doc_set_bytes P ns a k v (engine s) = (Ok h, d)" "changed_only P V room ns k (engine s) d"
    using working_engineD(4) [OF w] alive_up [OF run] ok a unfolding writes_work_def by blast
  show thesis
    by (rule that [OF running_engine_call [where f = "doc_set_bytes P ns a k v", OF alive_running [OF run] x(1)] x])
qed

lemma run_del:
  assumes w: "working_engine P V room" and run: "alive P s" and ok: "writable V ns (engine s)" and a: "a = author_of V (engine s)"
  obtains n d where "engine_call (doc_del P ns a k) s = (Ok n, s\<lparr>engine := d\<rparr>)"
    "doc_del P ns a k (engine s) = (Ok n, d)" "changed_only P V room ns k (engine s) d"
proof -
  obtain n d where x: "doc_del P ns a k (engine s) = (Ok n, d)" "changed_only P V room ns k (engine s) d"
    using working_engineD(4) [OF w] alive_up [OF run] ok a unfolding writes_work_def by blast
  show thesis
    by (rule that [OF running_engine_call [where f = "doc_del P ns a k", OF alive_running [OF run] x(1)] x])
qed

end
