(* ===== verification/Replica.thy ===== *)
theory Replica
  imports Working_Engine
begin

text \<open>
  One engine's copy of a document as a map from keys to the winning value, with its author
  and timestamp: \<open>content\<close>. \<open>replica\<close> adds what makes every write of the local author win
  (the local clock is ahead of the other authors' entries) and keeps writes of one key from
  reaching another (\<open>prefix_free\<close> keys): then the engine refines the map, a write is a map
  update, a deletion removes a key, and queries return what the map says. \<open>synced\<close> is one
  exchange between two engines that runs to its end, and \<open>merge\<close> its effect on the maps.
\<close>

type_synonym doc_map = "bytes \<Rightarrow> (bytes \<times> author_id \<times> 64 word) option"

definition content_at :: "('d, 'v) docs_view_scheme \<Rightarrow> namespace_id \<Rightarrow> 'd \<Rightarrow> bytes \<Rightarrow> (bytes \<times> author_id \<times> 64 word) option \<Rightarrow> bool" where
  "content_at V ns d k y \<longleftrightarrow> (case y of
       Some (v, a, t) \<Rightarrow> \<exists>st. newest V d ns a k st \<and> \<not> st_empty st \<and> blob_of V d (st_hash st) = Some v \<and> st_timestamp st = t
     | None \<Rightarrow> \<forall>e. visible V d ns e \<longrightarrow> entry_key e \<noteq> k)"

definition content :: "('d, 'v) docs_view_scheme \<Rightarrow> namespace_id \<Rightarrow> 'd \<Rightarrow> doc_map \<Rightarrow> bool" where
  "content V ns d M \<longleftrightarrow> (\<forall>k. content_at V ns d k (M k))"

definition prefix_free :: "bytes set \<Rightarrow> bool" where
  "prefix_free U \<longleftrightarrow> (\<forall>k \<in> U. \<forall>k' \<in> U. prefix k k' \<longrightarrow> k = k')"

text \<open>\<open>n\<close> more writes fit before the clock ends.\<close>

definition replica ::
    "('d, 'v) docs_view_scheme \<Rightarrow> ('d \<Rightarrow> nat) \<Rightarrow> namespace_id \<Rightarrow> bytes set \<Rightarrow> nat \<Rightarrow> 'd \<Rightarrow> doc_map \<Rightarrow> bool" where
  "replica V room ns U n d M \<longleftrightarrow> known V d ns \<and> content V ns d M \<and> (\<forall>k. clock_ahead V d ns k) \<and>
     (\<forall>a k st. stored_of V d ns a k = Some st \<longrightarrow> k \<in> U \<and> st_timestamp st < clock_of V d) \<and> n \<le> room d"

lemma replica_writable: "replica V room ns U n d M \<Longrightarrow> writable V ns d"
  by (simp add: replica_def writable_def)

lemma contentD:
  assumes "content V ns d M"
  shows "M k = Some (v, a, t) \<Longrightarrow> \<exists>st. newest V d ns a k st \<and> \<not> st_empty st \<and> blob_of V d (st_hash st) = Some v \<and> st_timestamp st = t"
    and "M k = None \<Longrightarrow> visible V d ns e \<Longrightarrow> entry_key e \<noteq> k"
  using spec [OF assms [unfolded content_def], of k] by (simp_all add: content_at_def)

lemma content_at_cong:
  assumes s: "\<And>a. stored_of V d' ns a k = stored_of V d ns a k"
    and b: "\<And>a st b. stored_of V d ns a k = Some st \<Longrightarrow> blob_of V d (st_hash st) = Some b \<Longrightarrow> blob_of V d' (st_hash st) = Some b"
    and c: "content_at V ns d k y"
  shows "content_at V ns d' k y"
proof -
  have n: "newest V d' ns a k st \<longleftrightarrow> newest V d ns a k st" for a st by (simp add: newest_def s)
  have v: "visible V d' ns e \<longleftrightarrow> visible V d ns e" if "entry_key e = k" for e by (simp add: visible_def that s)
  have h: "blob_of V d' (st_hash st) = Some b" if "newest V d ns a k st" "blob_of V d (st_hash st) = Some b" for a st b
    using b [of a st b] that by (simp add: newest_def)
  show ?thesis using c h v by (fastforce simp: content_at_def n split: option.splits)
qed

lemma newest_visible:
  assumes "newest V d ns a k st" and "\<not> st_empty st"
  shows "visible V d ns \<lparr>entry_key = k, entry_author = a, entry_hash = st_hash st, entry_timestamp = st_timestamp st\<rparr>"
  using assms unfolding newest_def visible_def by (fastforce intro: less_imp_le)

text \<open>A visible entry is the one of the map.\<close>

lemma content_visible:
  assumes c: "content V ns d M" and e: "visible V d ns e"
  obtains v where "M (entry_key e) = Some (v, entry_author e, entry_timestamp e)" "blob_of V d (entry_hash e) = Some v"
proof -
  have "M (entry_key e) \<noteq> None" using contentD(2) [OF c _ e] by blast
  then obtain v a t where m: "M (entry_key e) = Some (v, a, t)" by auto
  obtain st where st: "newest V d ns a (entry_key e) st" "blob_of V d (st_hash st) = Some v" "st_timestamp st = t"
    using contentD(1) [OF c m] by blast
  note u = newest_visible_unique [OF st(1) e refl]
  show thesis using that [of v] m st u by simp
qed

lemma content_cong:
  assumes "\<And>a k. stored_of V d' ns a k = stored_of V d ns a k" and "\<And>h b. blob_of V d h = Some b \<Longrightarrow> blob_of V d' h = Some b"
    and "content V ns d M"
  shows "content V ns d' M"
  unfolding content_def
proof
  fix k
  show "content_at V ns d' k (M k)"
    by (rule content_at_cong [where d = d]) (use assms in \<open>simp_all add: content_def\<close>)
qed

lemma replica_same:
  assumes "same_device P V room d d'" and "replica V room ns U n d M"
  shows "replica V room ns U n d' M"
proof -
  note s = same_device_views [OF assms(1)]
  have "content V ns d' M" by (rule content_cong [where d = d]) (use assms(2) s in \<open>simp_all add: replica_def\<close>)
  moreover have "clock_ahead V d' ns k" for k
    using assms(2) s(5) unfolding replica_def clock_ahead_def s by (meson less_le_trans)
  moreover have "k \<in> U \<and> st_timestamp st < clock_of V d'" if "stored_of V d' ns a k = Some st" for a k st
    using assms(2) s(5) that unfolding replica_def s by (meson less_le_trans)
  ultimately show ?thesis using assms(2) s by (simp add: replica_def)
qed

section \<open>Writing\<close>

text \<open>What one write changes: only the key itself.\<close>

lemma write_only_key:
  assumes t: "touches_only V ns a k d d'" and U: "prefix_free U" "k \<in> U" "\<And>a k st. stored_of V d ns a k = Some st \<Longrightarrow> k \<in> U"
    and exact: "\<And>k' st. k' \<noteq> k \<Longrightarrow> stored_of V d' ns a k' = Some st \<Longrightarrow> stored_of V d ns a k' = Some st"
    and ne: "a' \<noteq> a \<or> k' \<noteq> k"
  shows "stored_of V d' ns a' k' = stored_of V d ns a' k'"
proof (cases "a' = a \<and> prefix k k'")
  case True
  then have k': "k' \<noteq> k" using ne by blast
  have "stored_of V d ns a k' = None"
    using U True k' unfolding prefix_free_def by (metis not_None_eq)
  moreover have "stored_of V d' ns a k' = None" using exact [OF k'] calculation by (metis not_None_eq option.distinct(1))
  ultimately show ?thesis using True by simp
next
  case False
  then show ?thesis using touches_only_views(5) [OF t] by blast
qed

lemma replica_write:
  assumes r: "replica V room ns U (Suc n) d M" and U: "prefix_free U" "k \<in> U"
    and t: "touches_only V ns (author_of V d) k d d'" and only: "changed_only P V room ns k d d'"
    and st: "stored_of V d' ns (author_of V d) k = Some st" "st_timestamp st = clock_of V d"
    and own: "(\<not> st_empty st \<and> blob_of V d' (st_hash st) = Some v \<and> y = Some (v, author_of V d, clock_of V d)) \<or> (st_empty st \<and> y = None)"
  shows "replica V room ns U n d' (M(k := y))"
proof -
  let ?a = "author_of V d"
  have exact: "\<And>k' st. k' \<noteq> k \<Longrightarrow> stored_of V d' ns ?a k' = Some st \<Longrightarrow> stored_of V d ns ?a k' = Some st"
    and dev: "wrote_device P room d d'" using only by (simp_all add: changed_only_def)
  have later: "clock_of V d < clock_of V d'" using only r by (simp add: changed_only_def replica_def)
  have keep: "a' \<noteq> ?a \<or> k' \<noteq> k \<Longrightarrow> stored_of V d' ns a' k' = stored_of V d ns a' k'" for a' k'
    using write_only_key [OF t U _ exact] r unfolding replica_def by blast
  have ahead: "clock_ahead V d ns k'" for k' using r by (simp add: replica_def)
  have new: "newest V d' ns ?a k st"
    using st keep ahead [of k] by (auto simp: newest_def clock_ahead_def)
  have "content V ns d' (M(k := y))"
    unfolding content_def
  proof
    fix k'
    show "content_at V ns d' k' ((M(k := y)) k')"
    proof (cases "k' = k")
      case True
      have "entry_key e \<noteq> k" if "st_empty st" "visible V d' ns e" for e
        using newest_visible_unique(4) [OF new that(2)] that(1) by blast
      then show ?thesis using own new st(2) True by (auto simp: content_at_def)
    next
      case False
      have "content_at V ns d' k' (M k')"
        by (rule content_at_cong [of V d' ns k' d]) (use keep False touches_only_views(4) [OF t] r in \<open>auto simp: replica_def content_def\<close>)
      then show ?thesis using False by simp
    qed
  qed
  moreover have "clock_ahead V d' ns k'" for k'
    using ahead [of k'] touches_only_views(1,3) [OF t] keep unfolding clock_ahead_def by (metis less_le_trans)
  moreover have "k' \<in> U \<and> st_timestamp st' < clock_of V d'" if s': "stored_of V d' ns a' k' = Some st'" for a' k' st'
  proof (cases "a' = ?a \<and> k' = k")
    case True
    then show ?thesis using s' st U(2) later by simp
  next
    case False
    then have "stored_of V d ns a' k' = Some st'" using keep s' by auto
    then have "k' \<in> U" "st_timestamp st' < clock_of V d" using r by (auto simp: replica_def)
    then show ?thesis using later by auto
  qed
  moreover have "n \<le> room d'" using dev r by (simp add: wrote_device_def replica_def)
  ultimately show ?thesis using r touches_only_views(2) [OF t] by (simp add: replica_def)
qed

lemma replica_set:
  assumes w: "working_engine P V room" and r: "replica V room ns U (Suc n) d M" and U: "prefix_free U" "k \<in> U"
    and run: "doc_set_bytes P ns (author_of V d) k v d = (Ok h, d')" and only: "changed_only P V room ns k d d'"
  shows "replica V room ns U n d' (M(k \<mapsto> (v, author_of V d, clock_of V d)))"
proof -
  note law = doc_set_bytes_contract [OF working_engineD(1) [OF w] run]
  show ?thesis
    by (rule replica_write [OF r U law(1) only law(3) [OF refl]]) (simp_all add: law(2))
qed

lemma replica_del:
  assumes w: "working_engine P V room" and r: "replica V room ns U (Suc n) d M" and U: "prefix_free U" "k \<in> U"
    and run: "doc_del P ns (author_of V d) k d = (Ok m, d')" and only: "changed_only P V room ns k d d'"
  shows "replica V room ns U n d' (M(k := None))"
proof -
  note law = doc_del_contract [OF working_engineD(1) [OF w] run]
  obtain st where st: "stored_of V d' ns (author_of V d) k = Some st" "st_timestamp st = clock_of V d" "st_empty st"
    using law(2) by blast
  show ?thesis by (rule replica_write [OF r U law(1) only st(1,2)]) (simp_all add: st(3))
qed

section \<open>Reading\<close>

lemma run_get_one:
  assumes w: "working_engine P V room" and run: "alive P s" and known: "known V (engine s) ns" and c: "content V ns (engine s) M"
  obtains x d where "engine_call (doc_get_one P ns (KeyExact k)) s = (Ok x, s\<lparr>engine := d\<rparr>)" "same_device P V room (engine s) d"
    "case x of None \<Rightarrow> M k = None | Some e \<Rightarrow> entry_key e = k \<and>
       (\<exists>v. M k = Some (v, entry_author e, entry_timestamp e) \<and> blob_of V d (entry_hash e) = Some v)"
proof -
  obtain x d where x: "doc_get_one P ns (KeyExact k) (engine s) = (Ok x, d)" "same_device P V room (engine s) d"
    using working_engineD(3) [OF w] alive_up [OF run] known unfolding reads_work_def by blast
  note law = doc_get_one_contract [OF working_engineD(1) [OF w] x(1)]
  have "case x of None \<Rightarrow> M k = None | Some e \<Rightarrow> entry_key e = k \<and>
       (\<exists>v. M k = Some (v, entry_author e, entry_timestamp e) \<and> blob_of V d (entry_hash e) = Some v)"
  proof (cases x)
    case None
    have "M k = None"
    proof (rule ccontr)
      assume "M k \<noteq> None"
      then obtain v a t where "M k = Some (v, a, t)" by auto
      then obtain st where "newest V (engine s) ns a k st" "\<not> st_empty st" using contentD(1) [OF c] by blast
      then show False using law(3) None by blast
    qed
    with None show ?thesis by simp
  next
    case (Some e)
    then have e: "entry_key e = k" "visible V (engine s) ns e" using law(2) by blast+
    then show ?thesis using content_visible [OF c e(2)] Some same_device_views(4) [OF x(2)] by auto
  qed
  then show thesis by (rule that [OF running_engine_call [where f = "doc_get_one P ns (KeyExact k)", OF alive_running [OF run] x(1)] x(2)])
qed

text \<open>A query by prefix lists the keys of the map with that prefix, each once.\<close>

definition lists_map :: "('d, 'v) docs_view_scheme \<Rightarrow> 'd \<Rightarrow> doc_map \<Rightarrow> bytes \<Rightarrow> entry list \<Rightarrow> bool" where
  "lists_map V d M p es \<longleftrightarrow> distinct (map entry_key es) \<and> set (map entry_key es) = {k. prefix p k \<and> M k \<noteq> None} \<and>
     (\<forall>e \<in> set es. \<exists>v. M (entry_key e) = Some (v, entry_author e, entry_timestamp e) \<and> blob_of V d (entry_hash e) = Some v)"

lemma run_get_many:
  assumes w: "working_engine P V room" and run: "alive P s" and known: "known V (engine s) ns" and c: "content V ns (engine s) M"
  obtains es d where "engine_call (doc_get_many P ns (KeyPrefix p)) s = (Ok (map Inr es), s\<lparr>engine := d\<rparr>)"
    "same_device P V room (engine s) d" "lists_map V d M p es"
proof -
  obtain es d where x: "doc_get_many P ns (KeyPrefix p) (engine s) = (Ok (map Inr es), d)" "same_device P V room (engine s) d"
    using working_engineD(3) [OF w] alive_up [OF run] known unfolding reads_work_def by blast
  note law = doc_get_many_contract [OF working_engineD(1) [OF w] x(1)]
  have vis: "prefix p (entry_key e)" "visible V (engine s) ns e" if "e \<in> set es" for e
    using law(2) [OF refl, of e] that by auto
  have "[entry_key e. Inr e \<leftarrow> map Inr es :: (error + entry) list] = map entry_key es"
    by (induction es) simp_all
  then have dist: "distinct (map entry_key es)" using law(4) by simp
  have entry: "\<exists>v. M (entry_key e) = Some (v, entry_author e, entry_timestamp e) \<and> blob_of V d (entry_hash e) = Some v"
    if "e \<in> set es" for e
    using content_visible [OF c vis(2) [OF that]] same_device_views(4) [OF x(2)] by metis
  have "k \<in> set (map entry_key es)" if k: "prefix p k" "M k \<noteq> None" for k
  proof -
    obtain v a t where "M k = Some (v, a, t)" using k(2) by auto
    then obtain st where "newest V (engine s) ns a k st" "\<not> st_empty st" using contentD(1) [OF c] by blast
    then have "\<exists>e. Inr e \<in> set (map Inr es :: (error + entry) list) \<and> entry_key e = k"
      using law(3) [OF refl _ k(1)] by auto
    then show ?thesis by auto
  qed
  then have "set (map entry_key es) = {k. prefix p k \<and> M k \<noteq> None}"
    using vis(1) entry by fastforce
  then show thesis
    using dist entry by (intro that [OF running_engine_call [where f = "doc_get_many P ns (KeyPrefix p)", OF alive_running [OF run] x(1)] x(2)])
      (simp add: lists_map_def)
qed

section \<open>An exchange that runs to its end\<close>

text \<open>
  Two engines that hold the document \<open>ns\<close> and exchange all their entries. They can be
  merged when nobody else wrote to it and what either has of the other's author is, key by
  key, the author's latest entry or an older one. Both then end with the entries that each
  author has in its own engine, with their contents, and (clocks in step, as long as they have
  not run out) with a clock ahead of all of them.
\<close>

definition has_copies :: "('d, 'v) docs_view_scheme \<Rightarrow> namespace_id \<Rightarrow> 'd \<Rightarrow> 'd \<Rightarrow> bool" where
  "has_copies V ns d e \<longleftrightarrow> (\<forall>k st. stored_of V e ns (author_of V d) k = Some st \<longrightarrow>
     (\<exists>st'. stored_of V d ns (author_of V d) k = Some st' \<and> (st' = st \<or> st_timestamp st < st_timestamp st')))"

definition mergeable :: "('d, 'v) docs_view_scheme \<Rightarrow> namespace_id \<Rightarrow> 'd \<Rightarrow> 'd \<Rightarrow> bool" where
  "mergeable V ns d1 d2 \<longleftrightarrow> author_of V d1 \<noteq> author_of V d2 \<and>
     (\<forall>a k. a \<noteq> author_of V d1 \<longrightarrow> a \<noteq> author_of V d2 \<longrightarrow> stored_of V d1 ns a k = None \<and> stored_of V d2 ns a k = None) \<and>
     has_copies V ns d1 d2 \<and> has_copies V ns d2 d1"

definition synced ::
    "'d platform \<Rightarrow> ('d, 'v) docs_view_scheme \<Rightarrow> ('d \<Rightarrow> nat) \<Rightarrow> namespace_id \<Rightarrow> 'd \<Rightarrow> 'd \<Rightarrow> 'd \<Rightarrow> 'd \<Rightarrow> bool" where
  "synced P V room ns d1 d2 e1 e2 \<longleftrightarrow>
     author_of V e1 = author_of V d1 \<and> author_of V e2 = author_of V d2 \<and>
     (\<forall>x. known V d1 x \<longrightarrow> known V e1 x) \<and> (\<forall>x. known V d2 x \<longrightarrow> known V e2 x) \<and>
     endpoint_addr_of P e1 = endpoint_addr_of P d1 \<and> endpoint_addr_of P e2 = endpoint_addr_of P d2 \<and>
     router_is_shutdown P e1 = router_is_shutdown P d1 \<and> router_is_shutdown P e2 = router_is_shutdown P d2 \<and>
     (\<forall>a k. stored_of V e1 ns a k = stored_of V e2 ns a k) \<and>
     (\<forall>a k. stored_of V e1 ns a k = (if a = author_of V d2 then stored_of V d2 ns a k else stored_of V d1 ns a k)) \<and>
     (\<forall>a k st b. stored_of V e1 ns a k = Some st \<longrightarrow> blob_of V d1 (st_hash st) = Some b \<or> blob_of V d2 (st_hash st) = Some b \<longrightarrow>
        blob_of V e1 (st_hash st) = Some b \<and> blob_of V e2 (st_hash st) = Some b) \<and>
     (0 < room d1 \<and> 0 < room d2 \<and> (\<forall>a k st. stored_of V d1 ns a k = Some st \<longrightarrow> st_timestamp st < clock_of V d1) \<and>
        (\<forall>a k st. stored_of V d2 ns a k = Some st \<longrightarrow> st_timestamp st < clock_of V d2) \<longrightarrow>
      (\<forall>a k st. stored_of V e1 ns a k = Some st \<longrightarrow> st_timestamp st < clock_of V e1 \<and> st_timestamp st < clock_of V e2) \<and>
      min (room d1) (room d2) \<le> Suc (room e1) \<and> min (room d1) (room d2) \<le> Suc (room e2))"

definition merge :: "bytes set \<Rightarrow> doc_map \<Rightarrow> doc_map \<Rightarrow> doc_map" where
  "merge W M1 M2 = (\<lambda>k. if k \<in> W then M2 k else M1 k)"

text \<open>
  Two replicas of one document: the author of each engine has its latest entries there, the
  other engine has them except at the keys of \<open>W1\<close> and \<open>W2\<close>.
\<close>

definition replicas ::
    "('d, 'v) docs_view_scheme \<Rightarrow> ('d \<Rightarrow> nat) \<Rightarrow> namespace_id \<Rightarrow> bytes set \<Rightarrow> nat \<Rightarrow> 'd \<Rightarrow> doc_map \<Rightarrow> bytes set \<Rightarrow>
     'd \<Rightarrow> doc_map \<Rightarrow> bytes set \<Rightarrow> bool" where
  "replicas V room ns U n d1 M1 W1 d2 M2 W2 \<longleftrightarrow>
     replica V room ns U n d1 M1 \<and> replica V room ns U n d2 M2 \<and> mergeable V ns d1 d2 \<and>
     (\<forall>k. k \<notin> W1 \<longrightarrow> stored_of V d1 ns (author_of V d1) k = stored_of V d2 ns (author_of V d1) k) \<and>
     (\<forall>k. k \<notin> W2 \<longrightarrow> stored_of V d2 ns (author_of V d2) k = stored_of V d1 ns (author_of V d2) k)"

lemma replicas_sym: "replicas V room ns U n d1 M1 W1 d2 M2 W2 \<Longrightarrow> replicas V room ns U n d2 M2 W2 d1 M1 W1"
  by (auto simp: replicas_def mergeable_def)

lemma replicas_authors: "replicas V room ns U n d1 M1 W1 d2 M2 W2 \<Longrightarrow> author_of V d1 \<noteq> author_of V d2"
  by (simp add: replicas_def mergeable_def)

lemma replicas_writable: "replicas V room ns U n d1 M1 W1 d2 M2 W2 \<Longrightarrow> writable V ns d1"
  unfolding replicas_def by (blast intro: replica_writable)

lemma replica_less: "replica V room ns U (Suc n) d M \<Longrightarrow> replica V room ns U n d M"
  by (simp add: replica_def)

lemma replicas_same:
  assumes "same_device P V room d1 d1'" and "replicas V room ns U n d1 M1 W1 d2 M2 W2"
  shows "replicas V room ns U n d1' M1 W1 d2 M2 W2"
  using assms(2) replica_same [OF assms(1)] by (simp add: replicas_def mergeable_def has_copies_def same_device_views [OF assms(1)])

lemma replicas_write:
  assumes r: "replicas V room ns U (Suc n) d1 M1 W1 d2 M2 W2" and new: "replica V room ns U n d1' M1'"
    and t: "touches_only V ns (author_of V d1) k d1 d1'" and U: "prefix_free U" "k \<in> U" and only: "changed_only P V room ns k d1 d1'"
    and st: "stored_of V d1' ns (author_of V d1) k = Some st" "st_timestamp st = clock_of V d1"
  shows "replicas V room ns U n d1' M1' (insert k W1) d2 M2 W2"
proof -
  have keep: "stored_of V d1' ns a' k' = stored_of V d1 ns a' k'" if "a' \<noteq> author_of V d1 \<or> k' \<noteq> k" for a' k'
    by (rule write_only_key [OF t U _ _ that]) (use r only in \<open>auto simp: replicas_def replica_def changed_only_def\<close>)
  note au = touches_only_views(1) [OF t] and ne = replicas_authors [OF r]
  have m: "mergeable V ns d1 d2" and old: "replica V room ns U (Suc n) d1 M1" using r by (simp_all add: replicas_def)
  have own: "has_copies V ns d1' d2" unfolding has_copies_def au
  proof (intro allI impI)
    fix k' st' assume s: "stored_of V d2 ns (author_of V d1) k' = Some st'"
    then obtain st0 where st0: "stored_of V d1 ns (author_of V d1) k' = Some st0" "st0 = st' \<or> st_timestamp st' < st_timestamp st0"
      using m unfolding mergeable_def has_copies_def by metis
    have "st_timestamp st0 < clock_of V d1" using old st0(1) by (simp add: replica_def)
    then have "st_timestamp st' < clock_of V d1" using st0(2) by auto
    then show "\<exists>st''. stored_of V d1' ns (author_of V d1) k' = Some st'' \<and> (st'' = st' \<or> st_timestamp st' < st_timestamp st'')"
      using st st0 keep by (cases "k' = k") auto
  qed
  have "has_copies V ns d2 d1'" using m ne keep by (simp add: mergeable_def has_copies_def)
  then have "mergeable V ns d1' d2" using m own keep by (simp add: mergeable_def au)
  then show ?thesis using r new keep ne by (auto simp: replicas_def au intro: replica_less)
qed

lemma replicas_sync:
  assumes r: "replicas V room ns U (Suc n) d1 M1 W1 d2 M2 W2" and s: "synced P V room ns d1 d2 e1 e2" and W: "W1 \<inter> W2 = {}"
  shows "replicas V room ns U n e1 (merge W2 M1 M2) {} e2 (merge W2 M1 M2) {}"
proof -
  let ?M = "merge W2 M1 M2"
  have r1: "replica V room ns U (Suc n) d1 M1" and r2: "replica V room ns U (Suc n) d2 M2" using r by (simp_all add: replicas_def)
  have same: "stored_of V e2 ns a k = stored_of V e1 ns a k" for a k using s by (simp add: synced_def)
  have e1: "stored_of V e1 ns a k = (if a = author_of V d2 then stored_of V d2 ns a k else stored_of V d1 ns a k)" for a k
    using s unfolding synced_def by blast
  have late: "stored_of V e1 ns a k = stored_of V d2 ns a k" if "k \<in> W2" for a k
    using r W that unfolding e1 replicas_def mergeable_def by (metis disjoint_iff)
  have early: "stored_of V e1 ns a k = stored_of V d1 ns a k" if "k \<notin> W2" for a k
    using r that unfolding e1 replicas_def by metis
  have blobs: "stored_of V e1 ns a k = Some st \<Longrightarrow> blob_of V d1 (st_hash st) = Some b \<or> blob_of V d2 (st_hash st) = Some b \<Longrightarrow>
      blob_of V e1 (st_hash st) = Some b \<and> blob_of V e2 (st_hash st) = Some b" for a k st b
    using s unfolding synced_def by blast
  have at: "content_at V ns e k (?M k)" if e: "e \<in> {e1, e2}" for e k
  proof -
    have "\<exists>d. content_at V ns d k (?M k) \<and> d \<in> {d1, d2} \<and> (\<forall>a. stored_of V e1 ns a k = stored_of V d ns a k)"
    proof (cases "k \<in> W2")
      case True
      then show ?thesis using r2 late by (intro exI [of _ d2]) (simp add: replica_def content_def merge_def)
    next
      case False
      then show ?thesis using r1 early by (intro exI [of _ d1]) (simp add: replica_def content_def merge_def)
    qed
    then obtain d where d: "content_at V ns d k (?M k)" "d \<in> {d1, d2}" "\<And>a. stored_of V e1 ns a k = stored_of V d ns a k" by blast
    have "blob_of V e (st_hash st) = Some b" if "stored_of V d ns a k = Some st" "blob_of V d (st_hash st) = Some b" for a st b
      using blobs [of a k st b] that e d(2,3) by auto
    moreover have "stored_of V e ns a k = stored_of V d ns a k" for a using e d(3) same by auto
    ultimately show ?thesis by (intro content_at_cong [OF _ _ d(1)])
  qed
  have old: "\<exists>d \<in> {d1, d2}. stored_of V d ns a k = Some st" if "stored_of V e1 ns a k = Some st" for a k st
    using that unfolding e1 by (auto split: if_splits)
  have clocks: "(\<forall>a k st. stored_of V e1 ns a k = Some st \<longrightarrow> st_timestamp st < clock_of V e1 \<and> st_timestamp st < clock_of V e2) \<and>
      min (room d1) (room d2) \<le> Suc (room e1) \<and> min (room d1) (room d2) \<le> Suc (room e2)"
  proof -
    have "0 < room d1" "0 < room d2" using r1 r2 by (simp_all add: replica_def)
    moreover have "\<forall>a k st. stored_of V d1 ns a k = Some st \<longrightarrow> st_timestamp st < clock_of V d1"
      "\<forall>a k st. stored_of V d2 ns a k = Some st \<longrightarrow> st_timestamp st < clock_of V d2" using r1 r2 by (auto simp: replica_def)
    ultimately show ?thesis using s unfolding synced_def by blast
  qed
  have rep: "replica V room ns U n e ?M" if "e \<in> {e1, e2}" for e
  proof -
    have st: "stored_of V e ns a k = stored_of V e1 ns a k" for a k using that same by auto
    have "content V ns e ?M" using at that by (auto simp: content_def)
    moreover have "st_timestamp st < clock_of V e" if "stored_of V e1 ns a k = Some st" for a k st
      using clocks that \<open>e \<in> {e1, e2}\<close> by auto
    moreover have "k \<in> U" if "stored_of V e1 ns a k = Some st" for a k st
      using old [OF that] r1 r2 by (auto simp: replica_def)
    moreover have "known V e ns" using that s r1 r2 by (auto simp: synced_def replica_def)
    moreover have "n \<le> room e" using clocks that r1 r2 by (auto simp: replica_def)
    ultimately show ?thesis unfolding replica_def clock_ahead_def st by auto
  qed
  have authors: "author_of V e1 = author_of V d1" "author_of V e2 = author_of V d2" using s by (simp_all add: synced_def)
  have none: "stored_of V e1 ns a k = None" if "a \<noteq> author_of V d1" "a \<noteq> author_of V d2" for a k
    using that r unfolding e1 by (simp add: replicas_def mergeable_def)
  then have "mergeable V ns e1 e2" using replicas_authors [OF r] by (simp add: mergeable_def has_copies_def authors same)
  then show ?thesis using rep by (simp add: replicas_def same)
qed

end
