(* ===== verification/Reference_Working.thy ===== *)
theory Reference_Working
  imports Reference_Docs Replica
begin

text \<open>
  The reference engine of \<open>Reference_Docs\<close> always answers, starts and stops, and two of
  them can exchange their documents: the laws of runs in which nothing fails hold together.
\<close>

text \<open>Every reading of the clock moves it on until it reaches the end of its range.\<close>

definition ref_room :: "ref_docs \<Rightarrow> nat" where
  "ref_room d = unat (- 1 - rd_clock d)"

lemma ref_room_max: "ref_room d = 2 ^ 64 - 1 - unat (rd_clock d)"
proof -
  have "unat (- 1 - rd_clock d) = unat (- 1 :: 64 word) - unat (rd_clock d)"
    by (rule unat_sub) simp
  moreover have "unat (- 1 :: 64 word) = 2 ^ 64 - 1" by (simp add: unsigned_minus_1_eq_mask mask_eq_exp_minus_1)
  ultimately show ?thesis by (simp only: ref_room_def)
qed

lemma ref_room_tick: "ref_room d \<le> Suc (ref_room (d\<lparr>rd_clock := rd_tick (rd_clock d)\<rparr>))"
proof -
  have "unat (rd_tick t) \<le> Suc (unat t)" for t :: "64 word"
    by (cases "t \<le> t + 1") (auto simp: rd_tick_def max_def unat_word_ariths word_le_nat_alt mod_Suc)
  from this [of "rd_clock d"] show ?thesis by (simp add: ref_room_max)
qed

lemma rd_tick_room:
  assumes "unat t < 2 ^ 64 - 1"
  shows "unat (rd_tick t) = Suc (unat t)"
proof -
  have "unat (t + 1) = Suc (unat t)" using assms by (simp add: unat_word_ariths)
  then show ?thesis by (simp add: rd_tick_def max_def word_le_nat_alt)
qed

lemma ref_many_entries:
  "\<exists>es. concat (map (\<lambda>k. case rd_best d ns k of None \<Rightarrow> [] | Some e \<Rightarrow> [Inr e :: error + entry]) ks) = map Inr es"
proof (induction ks)
  case (Cons k ks)
  then obtain es where "concat (map (\<lambda>k. case rd_best d ns k of None \<Rightarrow> [] | Some e \<Rightarrow> [Inr e :: error + entry]) ks) = map Inr es" by blast
  then show ?case
    by (cases "rd_best d ns k") (auto intro: exI [of _ es] exI [of _ "the (rd_best d ns k) # es"])
qed simp

lemma ref_reads_work: "reads_work ref_platform ref_view ref_room"
  unfolding reads_work_def
  by (auto simp: ref_platform_def ref_many_entries ref_view_def rd_ticket_json_def
      split: share_mode.splits namespace_id.splits capability.splits query.splits)

lemma ref_wrote:
  "wrote_device ref_platform ref_room d (rd_put ns a k st d)"
  "wrote_device ref_platform ref_room d ((rd_put ns a k st d)\<lparr>rd_blobs := v\<rparr>)"
  using ref_room_tick [of d] by (simp_all add: wrote_device_def ref_platform_def rd_put_def ref_room_max)

lemma ref_later: "0 < ref_room d \<Longrightarrow> rd_clock d < rd_clock (rd_put ns a k st d)"
  using rd_tick_room [of "rd_clock d"] by (simp add: rd_put_def ref_room_max word_less_nat_alt)

lemma ref_writes_work: "writes_work ref_platform ref_view ref_room"
proof -
  have ok: "rd_accepts ns (rd_author d) k d" if "writable ref_view ns d" for ns k d
    using that by (auto simp: writable_def ref_view_def rd_accepts_def list_all_iff split: option.split)
  have p: "changed_only ref_platform ref_view ref_room ns k d (rd_put ns (rd_author d) k st d)" for ns k st d
    using ref_wrote(1) ref_later by (auto simp: changed_only_def ref_view_def rd_put_lookup)
  have q: "changed_only ref_platform ref_view ref_room ns k d ((rd_put ns (rd_author d) k st d)\<lparr>rd_blobs := vs\<rparr>)" for ns k st d vs
    using ref_wrote(2) ref_later by (auto simp: changed_only_def ref_view_def rd_put_lookup)
  have a: "author_of ref_view d = rd_author d" for d by (simp add: ref_view_def)
  have s: "\<exists>h d'. doc_set_bytes ref_platform ns (author_of ref_view d) k v d = (Ok h, d') \<and> changed_only ref_platform ref_view ref_room ns k d d'"
    if "writable ref_view ns d" "v \<noteq> []" for ns k v d
    using ok [OF that(1)] that(2) q by (simp add: a) (simp add: ref_platform_def Let_def)
  have r: "\<exists>n d'. doc_del ref_platform ns (author_of ref_view d) k d = (Ok n, d') \<and> changed_only ref_platform ref_view ref_room ns k d d'"
    if "writable ref_view ns d" for ns k d
    using ok [OF that(1)] p by (simp add: a) (simp add: ref_platform_def)
  have c: "\<exists>ns d'. docs_create ref_platform d = (Ok ns, d') \<and> wrote_device ref_platform ref_room d d' \<and> clock_of ref_view d \<le> clock_of ref_view d'" for d
    by (simp add: ref_platform_def ref_view_def Let_def wrote_device_def ref_room_def)
  have i: "\<exists>ns d'. docs_import ref_platform t d = (Ok ns, d') \<and> wrote_device ref_platform ref_room d d' \<and> clock_of ref_view d \<le> clock_of ref_view d' \<and>
        (\<not> known ref_view d (capability_id ref_platform (ticket_capability t)) \<longrightarrow>
           (\<forall>a k. stored_of ref_view d' (capability_id ref_platform (ticket_capability t)) a k = None))" for t d
    by (simp add: ref_platform_def ref_view_def Let_def wrote_device_def ref_room_def rd_forget)
  show ?thesis unfolding writes_work_def using s r c i by blast
qed

lemma ref_encoders_total: "encoders_total ref_platform"
  by (auto simp: encoders_total_def ref_platform_def rd_config_json_def unary_json_def os_into_string_def
      intro!: utf8_valid_ascii split: endpoint_id.splits invite_code.splits public_key.splits claimable_contract.splits)

lemma ref_working: "working_engine ref_platform ref_view ref_room"
  by (simp add: working_engine_def ref_docs_contract ref_codec_contract ref_reads_work ref_writes_work ref_encoders_total)

lemma ref_starts_work: "starts_work ref_platform ref_view ref_room dir rd_key_id"
  by (auto simp: starts_work_def ref_platform_def ref_view_def same_store_def same_device_def ref_room_def)

section \<open>The exchange of two engines\<close>

text \<open>
  Of the documents both know, each engine's author has the latest entries there; the other
  engine takes them over. Contents are copied, and both clocks move past all timestamps.
\<close>

definition rd_merged :: "ref_docs \<Rightarrow> ref_docs \<Rightarrow> ((namespace_id \<times> author_id \<times> bytes) \<times> stored) list" where
  "rd_merged d1 d2 = filter (\<lambda>((_, a, _), _). a \<noteq> rd_author d2) (rd_entries d1) @
     filter (\<lambda>((_, a, _), _). a = rd_author d2) (rd_entries d2)"

definition rd_common :: "ref_docs \<Rightarrow> ref_docs \<Rightarrow> namespace_id \<Rightarrow> bool" where
  "rd_common d1 d2 ns \<longleftrightarrow> ns \<in> set (rd_known d1) \<and> ns \<in> set (rd_known d2)"

definition rd_take :: "(namespace_id \<Rightarrow> bool) \<Rightarrow> ((namespace_id \<times> author_id \<times> bytes) \<times> stored) list \<Rightarrow> bytes list \<Rightarrow> 64 word \<Rightarrow>
    ref_docs \<Rightarrow> ref_docs" where
  "rd_take Q es bs t d = d\<lparr>rd_entries := filter (\<lambda>((ns, _, _), _). Q ns) es @ filter (\<lambda>((ns, _, _), _). \<not> Q ns) (rd_entries d),
     rd_blobs := bs, rd_clock := t\<rparr>"

definition rd_exchange :: "ref_docs \<Rightarrow> ref_docs \<Rightarrow> ref_docs \<times> ref_docs" where
  "rd_exchange d1 d2 =
     (let t = rd_tick (max (rd_clock d1) (rd_clock d2)); es = rd_merged d1 d2; bs = rd_blobs d1 @ rd_blobs d2 in
      (rd_take (rd_common d1 d2) es bs t d1, rd_take (rd_common d1 d2) es bs t d2))"

lemma map_of_filter_author:
  "map_of (filter (\<lambda>((_, a, _), _). Q a) xs) (ns, a, k) = (if Q a then map_of xs (ns, a, k) else None)"
  for xs :: "((namespace_id \<times> author_id \<times> bytes) \<times> stored) list"
  by (induction xs) auto

lemma rd_merged_lookup:
  "map_of (rd_merged d1 d2) (ns, a, k) = map_of (rd_entries (if a = rd_author d2 then d2 else d1)) (ns, a, k)"
  using map_of_filter_author [of "\<lambda>a. a \<noteq> rd_author d2" "rd_entries d1" ns a k]
    map_of_filter_author [of "\<lambda>a. a = rd_author d2" "rd_entries d2" ns a k]
  by (auto simp add: rd_merged_def map_add_def split: option.split)

lemma rd_take_lookup:
  "map_of (rd_entries (rd_take Q es bs t d)) (ns, a, k) = map_of (if Q ns then es else rd_entries d) (ns, a, k)"
proof -
  have f: "filter (\<lambda>((ns, _, _), _). Q ns) xs = filter (\<lambda>(x, _). Q (fst x)) xs" for Q
    and xs :: "((namespace_id \<times> author_id \<times> bytes) \<times> stored) list"
    by (rule filter_cong) auto
  have "map_of (filter (\<lambda>((ns, _, _), _). Q ns) xs) (ns, a, k) = (if Q ns then map_of xs (ns, a, k) else None)" for Q
    and xs :: "((namespace_id \<times> author_id \<times> bytes) \<times> stored) list"
    unfolding f by (subst map_of_filter_key) simp
  then show ?thesis by (simp add: rd_take_def map_add_def split: option.split)
qed

lemma rd_take_frame [simp]:
  "rd_author (rd_take Q es bs t d) = rd_author d" "rd_known (rd_take Q es bs t d) = rd_known d"
  "rd_shut (rd_take Q es bs t d) = rd_shut d" "rd_key (rd_take Q es bs t d) = rd_key d"
  "rd_clock (rd_take Q es bs t d) = t" "rd_blobs (rd_take Q es bs t d) = bs"
  by (simp_all add: rd_take_def)

lemma rd_exchange_synced:
  assumes "rd_common d1 d2 ns" and x: "rd_exchange d1 d2 = (e1, e2)"
  shows "synced ref_platform ref_view ref_room ns d1 d2 e1 e2"
proof -
  let ?t = "rd_tick (max (rd_clock d1) (rd_clock d2))" and ?es = "rd_merged d1 d2" and ?bs = "rd_blobs d1 @ rd_blobs d2"
  have e: "e1 = rd_take (rd_common d1 d2) ?es ?bs ?t d1" "e2 = rd_take (rd_common d1 d2) ?es ?bs ?t d2"
    using x by (simp_all add: rd_exchange_def Let_def)
  have look: "map_of (rd_entries e) (ns, a, k) = map_of (rd_entries (if a = rd_author d2 then d2 else d1)) (ns, a, k)"
    if "e \<in> {e1, e2}" for e a k
    using that assms(1) by (auto simp: e rd_take_lookup rd_merged_lookup)
  have blobs: "rd_blob e h = Some b" if "rd_blob d1 h = Some b \<or> rd_blob d2 h = Some b" "e \<in> {e1, e2}" for h b e
    using that by (auto simp: e rd_blob_Some)
  have late: "(\<forall>a k st. map_of (rd_entries e1) (ns, a, k) = Some st \<longrightarrow> st_timestamp st < rd_clock e1 \<and> st_timestamp st < rd_clock e2) \<and>
      min (ref_room d1) (ref_room d2) \<le> Suc (ref_room e1) \<and> min (ref_room d1) (ref_room d2) \<le> Suc (ref_room e2)"
    if r: "0 < ref_room d1" "0 < ref_room d2" and t1: "\<forall>a k st. map_of (rd_entries d1) (ns, a, k) = Some st \<longrightarrow> st_timestamp st < rd_clock d1"
      and t2: "\<forall>a k st. map_of (rd_entries d2) (ns, a, k) = Some st \<longrightarrow> st_timestamp st < rd_clock d2"
  proof -
    have m: "unat (max (rd_clock d1) (rd_clock d2)) = max (unat (rd_clock d1)) (unat (rd_clock d2))"
      by (simp add: max_def word_le_nat_alt)
    then have t: "unat ?t = Suc (max (unat (rd_clock d1)) (unat (rd_clock d2)))"
      using rd_tick_room [of "max (rd_clock d1) (rd_clock d2)"] r by (simp add: ref_room_max)
    have c: "rd_clock e1 = ?t" "rd_clock e2 = ?t" by (simp_all add: e)
    have "st_timestamp st < ?t" if "map_of (rd_entries e1) (ns, a, k) = Some st" for a k st
    proof -
      have "st_timestamp st < rd_clock d1 \<or> st_timestamp st < rd_clock d2"
        using that t1 t2 by (auto simp: look split: if_splits)
      then show ?thesis using t by (auto simp: word_le_nat_alt word_less_nat_alt)
    qed
    then show ?thesis using c t r by (auto simp: ref_room_max)
  qed
  have v: "author_of ref_view = rd_author" "known ref_view = (\<lambda>d ns. ns \<in> set (rd_known d))" "blob_of ref_view = rd_blob"
    "clock_of ref_view = rd_clock" "stored_of ref_view = (\<lambda>d ns a k. map_of (rd_entries d) (ns, a, k))"
    "endpoint_addr_of ref_platform = (\<lambda>d. \<lparr>addr_id = rd_key_id (rd_key d), addr_hints = []\<rparr>)" "router_is_shutdown ref_platform = rd_shut"
    by (simp_all add: ref_view_def ref_platform_def)
  have f: "rd_author e1 = rd_author d1" "rd_author e2 = rd_author d2" "rd_known e1 = rd_known d1" "rd_known e2 = rd_known d2"
    "rd_key e1 = rd_key d1" "rd_key e2 = rd_key d2" "rd_shut e1 = rd_shut d1" "rd_shut e2 = rd_shut d2"
    by (simp_all add: e)
  show ?thesis
    unfolding synced_def v f
  proof (intro conjI allI impI; (elim conjE)?)
    show "map_of (rd_entries e1) (ns, a, k) = map_of (rd_entries e2) (ns, a, k)" for a k
      by (simp only: look [of e1] look [of e2] insert_iff simp_thms)
    show "map_of (rd_entries e1) (ns, a, k) =
        (if a = rd_author d2 then map_of (rd_entries d2) (ns, a, k) else map_of (rd_entries d1) (ns, a, k))" for a k
      by (simp add: look [of e1])
    show "rd_blob e1 (st_hash st) = Some b" if "rd_blob d1 (st_hash st) = Some b \<or> rd_blob d2 (st_hash st) = Some b" for st b
      using blobs that by blast
    show "rd_blob e2 (st_hash st) = Some b" if "rd_blob d1 (st_hash st) = Some b \<or> rd_blob d2 (st_hash st) = Some b" for st b
      using blobs that by blast
  qed (use late in blast)+
qed

end
