(* ===== verification/Settled_Ops.thy ===== *)
theory Settled_Ops
  imports Replica
begin

text \<open>
  The operations of both protocols on a document, in runs in which nothing fails: each
  returns exactly what the document's map says, or makes one write (\<open>put_key\<close>) or deletion
  (\<open>del_key\<close>), and leaves the rest of the device alone.
\<close>

section \<open>Writes of one key\<close>

definition put_key ::
    "'d platform \<Rightarrow> ('d, 'v) docs_view_scheme \<Rightarrow> ('d \<Rightarrow> nat) \<Rightarrow> namespace_id \<Rightarrow> bytes \<Rightarrow> bytes \<Rightarrow> 'd \<Rightarrow> 'd \<Rightarrow> bool" where
  "put_key P V room ns k v d d' \<longleftrightarrow> (\<exists>d0 h. same_device P V room d d0 \<and>
     doc_set_bytes P ns (author_of V d0) k v d0 = (Ok h, d') \<and> changed_only P V room ns k d0 d')"

definition del_key ::
    "'d platform \<Rightarrow> ('d, 'v) docs_view_scheme \<Rightarrow> ('d \<Rightarrow> nat) \<Rightarrow> namespace_id \<Rightarrow> bytes \<Rightarrow> 'd \<Rightarrow> 'd \<Rightarrow> bool" where
  "del_key P V room ns k d d' \<longleftrightarrow> (\<exists>d0 n. same_device P V room d d0 \<and>
     doc_del P ns (author_of V d0) k d0 = (Ok n, d') \<and> changed_only P V room ns k d0 d')"

lemma put_key_same: "same_device P V room d d0 \<Longrightarrow> put_key P V room ns k v d0 d' \<Longrightarrow> put_key P V room ns k v d d'"
  unfolding put_key_def by (blast intro: same_device_trans)

lemma put_key_frame:
  assumes w: "working_engine P V room" and p: "put_key P V room ns k v d d'"
  shows "same_frame P V d d'"
proof -
  obtain d0 h where s: "same_device P V room d d0" and run: "doc_set_bytes P ns (author_of V d0) k v d0 = (Ok h, d')"
    and dev: "wrote_device P room d0 d'" using p by (auto simp: put_key_def changed_only_def)
  note t = touches_only_views [OF doc_set_bytes_contract(1) [OF working_engineD(1) [OF w] run]]
  show ?thesis using t(1,2) dev same_device_views [OF s] by (simp add: wrote_device_def same_frame_def)
qed

lemma del_key_frame:
  assumes w: "working_engine P V room" and p: "del_key P V room ns k d d'"
  shows "same_frame P V d d'"
proof -
  obtain d0 n where s: "same_device P V room d d0" and run: "doc_del P ns (author_of V d0) k d0 = (Ok n, d')"
    and dev: "wrote_device P room d0 d'" using p by (auto simp: del_key_def changed_only_def)
  note t = touches_only_views [OF doc_del_contract(1) [OF working_engineD(1) [OF w] run]]
  show ?thesis using t(1,2) dev same_device_views [OF s] by (simp add: wrote_device_def same_frame_def)
qed

text \<open>A write is a map update, for one replica and for both.\<close>

lemma put_key_replica:
  assumes w: "working_engine P V room" and r: "replica V room ns U (Suc n) d M" and U: "prefix_free U" "k \<in> U"
    and p: "put_key P V room ns k v d d'"
  shows "\<exists>t. replica V room ns U n d' (M(k \<mapsto> (v, author_of V d, t)))"
proof -
  obtain d0 h where s: "same_device P V room d d0" and run: "doc_set_bytes P ns (author_of V d0) k v d0 = (Ok h, d')"
    and only: "changed_only P V room ns k d0 d'"
    using p unfolding put_key_def by blast
  show ?thesis using replica_set [OF w replica_same [OF s r] U run only] same_device_views(1) [OF s] by auto
qed

lemma put_key_replicas:
  assumes w: "working_engine P V room" and r: "replicas V room ns U (Suc n) d1 M1 W1 d2 M2 W2" and U: "prefix_free U" "k \<in> U"
    and p: "put_key P V room ns k v d1 d1'"
  obtains t where "replicas V room ns U n d1' (M1(k \<mapsto> (v, author_of V d1, t))) (insert k W1) d2 M2 W2"
proof -
  obtain d0 h where s: "same_device P V room d1 d0" and run: "doc_set_bytes P ns (author_of V d0) k v d0 = (Ok h, d1')"
    and only: "changed_only P V room ns k d0 d1'"
    using p unfolding put_key_def by blast
  have r0: "replicas V room ns U (Suc n) d0 M1 W1 d2 M2 W2" by (rule replicas_same [OF s r])
  then have m: "replica V room ns U (Suc n) d0 M1" by (simp add: replicas_def)
  note new = replica_set [OF w m U run only]
  show thesis
    using replicas_write [OF r0 new doc_set_bytes_contract(1) [OF working_engineD(1) [OF w] run] U only
        doc_set_bytes_contract(3) [OF working_engineD(1) [OF w] run refl]] that same_device_views(1) [OF s] by simp
qed

lemma del_key_replicas:
  assumes w: "working_engine P V room" and r: "replicas V room ns U (Suc n) d1 M1 W1 d2 M2 W2" and U: "prefix_free U" "k \<in> U"
    and p: "del_key P V room ns k d1 d1'"
  shows "replicas V room ns U n d1' (M1(k := None)) (insert k W1) d2 M2 W2"
proof -
  obtain d0 m where s: "same_device P V room d1 d0" and run: "doc_del P ns (author_of V d0) k d0 = (Ok m, d1')"
    and only: "changed_only P V room ns k d0 d1'"
    using p unfolding del_key_def by blast
  have r0: "replicas V room ns U (Suc n) d0 M1 W1 d2 M2 W2" by (rule replicas_same [OF s r])
  then have m: "replica V room ns U (Suc n) d0 M1" by (simp add: replicas_def)
  note new = replica_del [OF w m U run only]
  obtain st where st: "stored_of V d1' ns (author_of V d0) k = Some st" "st_timestamp st = clock_of V d0"
    using doc_del_contract(2) [OF working_engineD(1) [OF w] run refl] by blast
  show ?thesis by (rule replicas_write [OF r0 new doc_del_contract(1) [OF working_engineD(1) [OF w] run] U only st])
qed

text \<open>The tail of every writing operation.\<close>

lemma run_put:
  fixes s :: "('d, 'z) node_scheme"
  assumes w: "working_engine P V room" and s: "alive P s" and ok: "writable V ns (engine s)" "v \<noteq> []"
  obtains d where "andThen (engine_call (author_default P)) (\<lambda>author.
      andThen (engine_call (doc_set_bytes P ns author k v)) (\<lambda>_. ret ())) s = (Ok (), s\<lparr>engine := d\<rparr>)"
    "put_key P V room ns k v (engine s) d"
proof -
  obtain d0 where a: "engine_call (author_default P) s = (Ok (author_of V (engine s)), s\<lparr>engine := d0\<rparr>)"
    and same: "same_device P V room (engine s) d0" by (rule run_author [OF w s])
  let ?s = "s\<lparr>engine := d0\<rparr>"
  have s0: "alive P ?s" by (rule alive_same [OF s same])
  obtain h d where b: "engine_call (doc_set_bytes P ns (author_of V (engine s)) k v) ?s = (Ok h, ?s\<lparr>engine := d\<rparr>)"
    "doc_set_bytes P ns (author_of V (engine s)) k v d0 = (Ok h, d)" "changed_only P V room ns k d0 d"
    using run_set_bytes [OF w s0, of ns v "author_of V (engine s)" k] same_device_writable [OF same ok(1)] ok(2) same_device_views(1) [OF same] by auto
  have au: "author_of V d0 = author_of V (engine s)" by (rule same_device_views(1) [OF same])
  show thesis
  proof (rule that)
    show "andThen (engine_call (author_default P)) (\<lambda>author.
      andThen (engine_call (doc_set_bytes P ns author k v)) (\<lambda>_. ret ())) s = (Ok (), s\<lparr>engine := d\<rparr>)"
      using a b(1) by (simp add: andThen_eval)
    show "put_key P V room ns k v (engine s) d"
      using same b(2,3) unfolding put_key_def au [symmetric] by blast
  qed
qed

section \<open>The machine\<close>

lemma run_machine_doc:
  assumes w: "working_engine P V room" and s: "alive P s" and doc: "machine_doc P V app_path s ns"
  obtains d where "get_or_create_machine_doc P app_path s = (Ok ns, s\<lparr>engine := d\<rparr>)" "same_device P V room (engine s) d"
proof -
  have "known V (engine s) ns" using doc by (simp add: machine_doc_def)
  then obtain d where d: "docs_open P ns (engine s) = (Ok (Some ns), d)" "same_device P V room (engine s) d"
    using run_open [OF w s] by metis
  show thesis by (rule that [OF running_get_or_create [OF alive_running [OF s] doc d(1)] d(2)])
qed

lemma machine_doc_device:
  "machine_doc P V app_path s ns \<Longrightarrow> known V d = known V (engine s) \<Longrightarrow> machine_doc P V app_path (s\<lparr>engine := d\<rparr>) ns"
  by (simp add: machine_doc_def)

lemma run_machine_put:
  fixes s :: "('d, 'z) node_scheme"
  assumes w: "working_engine P V room" and s: "alive P s" and doc: "machine_doc P V app_path s ns" and ok: "writable V ns (engine s)"
  shows "v \<noteq> [] \<Longrightarrow> \<exists>d. machine_set_kv_value P app_path key v s = (Ok (), s\<lparr>engine := d\<rparr>) \<and> put_key P V room ns (kv_full_key key) v (engine s) d"
    and "\<exists>d b. write_payment_to_machine_doc P app_path fid cc s = (Ok (), s\<lparr>engine := d\<rparr>) \<and> contract_to_json P cc = Some b \<and>
      put_key P V room ns (create_claimable_contract_machine_doc_key P fid cc) b (engine s) d"
proof -
  obtain d0 where g: "get_or_create_machine_doc P app_path s = (Ok ns, s\<lparr>engine := d0\<rparr>)" and same: "same_device P V room (engine s) d0"
    by (rule run_machine_doc [OF w s doc])
  let ?s = "s\<lparr>engine := d0\<rparr>"
  have s0: "alive P ?s" "writable V ns (engine ?s)" using alive_same [OF s same] same_device_writable [OF same ok] by simp_all
  show "\<exists>d. machine_set_kv_value P app_path key v s = (Ok (), s\<lparr>engine := d\<rparr>) \<and> put_key P V room ns (kv_full_key key) v (engine s) d"
    if v: "v \<noteq> []"
  proof -
    obtain d where d: "andThen (engine_call (author_default P)) (\<lambda>author.
        andThen (engine_call (doc_set_bytes P ns author (kv_full_key key) v)) (\<lambda>_. ret ())) ?s = (Ok (), ?s\<lparr>engine := d\<rparr>)"
      "put_key P V room ns (kv_full_key key) v (engine ?s) d" by (rule run_put [OF w s0 v])
    then show ?thesis using g put_key_same [OF same] by (auto simp: machine_set_kv_value_def andThen_eval Let_def)
  qed
  obtain b where b: "contract_to_json P cc = Some b" "b \<noteq> []"
    by (rule encoders_totalD [OF w])
  obtain d where d: "andThen (engine_call (author_default P)) (\<lambda>author.
      andThen (engine_call (doc_set_bytes P ns author (create_claimable_contract_machine_doc_key P fid cc) b)) (\<lambda>_. ret ())) ?s = (Ok (), ?s\<lparr>engine := d\<rparr>)"
    "put_key P V room ns (create_claimable_contract_machine_doc_key P fid cc) b (engine ?s) d" by (rule run_put [OF w s0 b(2)])
  then show "\<exists>d b. write_payment_to_machine_doc P app_path fid cc s = (Ok (), s\<lparr>engine := d\<rparr>) \<and> contract_to_json P cc = Some b \<and>
      put_key P V room ns (create_claimable_contract_machine_doc_key P fid cc) b (engine s) d"
    using g b put_key_same [OF same] by (auto simp: write_payment_to_machine_doc_def andThen_eval Let_def)
qed

section \<open>Reading entries\<close>

text \<open>The entry of the key/value store that the device \<open>dev\<close> with author \<open>me\<close> reads.\<close>

definition kv_of :: "kv_entry_author \<Rightarrow> author_id \<Rightarrow> bytes \<Rightarrow> bytes \<times> author_id \<times> 64 word \<Rightarrow> kv_entry" where
  "kv_of dev me k y = (case y of (v, a, t) \<Rightarrow>
     \<lparr>kv_key = k, kv_value = v, kv_author = (if a = me then dev else opposite_author dev), kv_timestamp = t\<rparr>)"

lemma kv_of_key [simp]: "kv_key (kv_of dev me k y) = k"
  by (simp add: kv_of_def split: prod.split)

definition kv_lists :: "kv_entry_author \<Rightarrow> author_id \<Rightarrow> doc_map \<Rightarrow> kv_entry list \<Rightarrow> bool" where
  "kv_lists dev me M kvs \<longleftrightarrow> distinct (map kv_key kvs) \<and> set kvs = {kv_of dev me k y |k y. M (kv_full_key k) = Some y}"

lemma run_from_entry:
  assumes w: "working_engine P V room" and s: "alive P s" and b: "blob_of V (engine s) (entry_hash e) = Some v"
    and k: "entry_key e = kv_full_key k"
  obtains d where "from_iroh_entry P e dev s = (Ok (kv_of dev (author_of V (engine s)) k (v, entry_author e, entry_timestamp e)), s\<lparr>engine := d\<rparr>)"
    "same_device P V room (engine s) d"
proof -
  obtain d0 where g: "engine_call (blobs_get_bytes P (entry_hash e)) s = (Ok v, s\<lparr>engine := d0\<rparr>)"
    and same: "same_device P V room (engine s) d0" by (rule run_get_bytes [OF w s b])
  let ?s = "s\<lparr>engine := d0\<rparr>"
  have s0: "alive P ?s" by (rule alive_same [OF s same])
  obtain d where a: "engine_call (author_default P) ?s = (Ok (author_of V (engine ?s)), ?s\<lparr>engine := d\<rparr>)"
    "same_device P V room (engine ?s) d" by (rule run_author [OF w s0])
  have "from_iroh_entry P e dev s = (Ok (kv_of dev (author_of V (engine s)) k (v, entry_author e, entry_timestamp e)), s\<lparr>engine := d\<rparr>)"
    using g a(1) k same_device_views(1) [OF same] by (simp add: from_iroh_entry_def andThen_eval Let_def kv_of_def kv_full_key_def)
  then show thesis using that a(2) same by (auto intro: same_device_trans)
qed

lemma run_kv_get:
  assumes w: "working_engine P V room" and s: "alive P s" and kn: "known V (engine s) ns" and c: "content V ns (engine s) M"
  obtains d where "kv_get_tail P dev k ns s = (Ok (map_option (kv_of dev (author_of V (engine s)) k) (M (kv_full_key k))), s\<lparr>engine := d\<rparr>)"
    "same_device P V room (engine s) d"
proof -
  obtain x d0 where g: "engine_call (doc_get_one P ns (KeyExact (kv_full_key k))) s = (Ok x, s\<lparr>engine := d0\<rparr>)"
    and same: "same_device P V room (engine s) d0"
    and x: "case x of None \<Rightarrow> M (kv_full_key k) = None | Some e \<Rightarrow> entry_key e = kv_full_key k \<and>
       (\<exists>v. M (kv_full_key k) = Some (v, entry_author e, entry_timestamp e) \<and> blob_of V d0 (entry_hash e) = Some v)"
    by (rule run_get_one [OF w s kn c])
  let ?s = "s\<lparr>engine := d0\<rparr>"
  have s0: "alive P ?s" by (rule alive_same [OF s same])
  show thesis
  proof (cases x)
    case None
    then show thesis using that [of d0] g same x by (simp add: kv_get_tail_def andThen_eval)
  next
    case (Some e)
    then obtain v where v: "entry_key e = kv_full_key k" "M (kv_full_key k) = Some (v, entry_author e, entry_timestamp e)"
      "blob_of V (engine ?s) (entry_hash e) = Some v" using x by auto
    obtain d where d: "from_iroh_entry P e dev ?s = (Ok (kv_of dev (author_of V (engine ?s)) k (v, entry_author e, entry_timestamp e)), ?s\<lparr>engine := d\<rparr>)"
      "same_device P V room (engine ?s) d" by (rule run_from_entry [OF w s0 v(3,1)])
    show thesis
    proof (rule that [of d])
      show "kv_get_tail P dev k ns s = (Ok (map_option (kv_of dev (author_of V (engine s)) k) (M (kv_full_key k))), s\<lparr>engine := d\<rparr>)"
        using g Some d(1) v(2) same_device_views(1) [OF same] by (simp add: kv_get_tail_def andThen_eval)
      show "same_device P V room (engine s) d" using same d(2) by (auto intro: same_device_trans)
    qed
  qed
qed

text \<open>The loop over the stream of entries collects one key/value entry per entry.\<close>

definition kv_step :: "'d platform \<Rightarrow> kv_entry_author \<Rightarrow> kv_entry list \<Rightarrow> error + entry \<Rightarrow> (('d, 'z) node_scheme, kv_entry list) prog" where
  "kv_step P dev entries entry_result = andThen (await (ret entry_result)) (\<lambda>entry_result.
       case entry_result of
         Inl e \<Rightarrow> fail e
       | Inr entry \<Rightarrow>
           andThen (from_iroh_entry P entry dev) (\<lambda>kv. ret (entries @ [kv])))"

lemma collect_kv_entries_steps: "collect_kv_entries P dev = for_fold (kv_step P dev) []"
  by (simp add: collect_kv_entries_def [abs_def] kv_step_def [abs_def])

lemma for_fold_step: "f acc x s = (Ok acc', s') \<Longrightarrow> for_fold f acc (x # xs) s = for_fold f acc' xs s'"
  by (simp add: andThen_eval)

lemma run_collect_entries:
  assumes w: "working_engine P V room" and s: "alive P s"
    and es: "\<forall>e \<in> set es. prefix KV_PREFIX (entry_key e) \<and> (\<exists>v. M (entry_key e) = Some (v, entry_author e, entry_timestamp e) \<and>
      blob_of V (engine s) (entry_hash e) = Some v)"
  shows "\<exists>d. for_fold (kv_step P dev) acc (map Inr es) s =
      (Ok (acc @ map (\<lambda>e. kv_of dev (author_of V (engine s)) (drop 2 (entry_key e)) (the (M (entry_key e)))) es), s\<lparr>engine := d\<rparr>) \<and>
      same_device P V room (engine s) d"
  using s es
proof (induction es arbitrary: acc s)
  case Nil
  show ?case by (intro exI [of _ "engine s"]) (simp add: ret_def)
next
  case (Cons e es)
  obtain v where v: "prefix KV_PREFIX (entry_key e)" "M (entry_key e) = Some (v, entry_author e, entry_timestamp e)"
    "blob_of V (engine s) (entry_hash e) = Some v" using Cons.prems(2) by auto
  have k: "entry_key e = kv_full_key (drop 2 (entry_key e))"
    using v(1) by (auto simp: kv_full_key_def KV_PREFIX_def elim: prefixE)
  let ?kv = "kv_of dev (author_of V (engine s)) (drop 2 (entry_key e)) (v, entry_author e, entry_timestamp e)"
  obtain d0 where d0: "from_iroh_entry P e dev s = (Ok ?kv, s\<lparr>engine := d0\<rparr>)"
    "same_device P V room (engine s) d0" by (rule run_from_entry [OF w Cons.prems(1) v(3) k])
  have s0: "alive P (s\<lparr>engine := d0\<rparr>)" by (rule alive_same [OF Cons.prems(1) d0(2)])
  note sv = same_device_views [OF d0(2)]
  have es: "\<forall>e \<in> set es. prefix KV_PREFIX (entry_key e) \<and> (\<exists>v. M (entry_key e) = Some (v, entry_author e, entry_timestamp e) \<and>
      blob_of V (engine (s\<lparr>engine := d0\<rparr>)) (entry_hash e) = Some v)" using Cons.prems(2) sv(4) by simp
  have step: "kv_step P dev acc (Inr e) s = (Ok (acc @ [?kv]), s\<lparr>engine := d0\<rparr>)"
    using d0(1) by (simp add: kv_step_def andThen_eval running_await [OF alive_running [OF Cons.prems(1)]] ret_def)
  obtain d where d: "for_fold (kv_step P dev) (acc @ [?kv]) (map Inr es) (s\<lparr>engine := d0\<rparr>) =
      (Ok ((acc @ [?kv]) @ map (\<lambda>e. kv_of dev (author_of V (engine (s\<lparr>engine := d0\<rparr>))) (drop 2 (entry_key e)) (the (M (entry_key e)))) es),
       (s\<lparr>engine := d0\<rparr>)\<lparr>engine := d\<rparr>)" "same_device P V room (engine (s\<lparr>engine := d0\<rparr>)) d"
    using Cons.IH [OF s0 es] by blast
  have "same_device P V room (engine s) d" using d0(2) d(2) by (auto intro: same_device_trans)
  then show ?case
    using d(1) v(2) sv(1) by (intro exI [of _ d] conjI) (simp_all only: list.map for_fold_step [where f = "kv_step P dev", OF step], simp_all)
qed

lemma run_collect_kv:
  assumes w: "working_engine P V room" and s: "alive P s" and es: "lists_map V (engine s) M KV_PREFIX es"
  obtains kvs d where "collect_kv_entries P dev (map Inr es) s = (Ok kvs, s\<lparr>engine := d\<rparr>)" "same_device P V room (engine s) d"
    "kv_lists dev (author_of V (engine s)) M kvs"
proof -
  let ?me = "author_of V (engine s)"
  let ?kvs = "map (\<lambda>e. kv_of dev ?me (drop 2 (entry_key e)) (the (M (entry_key e)))) es"
  have keys: "set (map entry_key es) = {k. prefix KV_PREFIX k \<and> M k \<noteq> None}" and dist: "distinct (map entry_key es)"
    and all: "\<forall>e \<in> set es. \<exists>v. M (entry_key e) = Some (v, entry_author e, entry_timestamp e) \<and> blob_of V (engine s) (entry_hash e) = Some v"
    using es by (simp_all add: lists_map_def)
  have pre: "prefix KV_PREFIX (entry_key e)" if "e \<in> set es" for e using keys that by auto
  have full: "kv_full_key (drop 2 k) = k" if "prefix KV_PREFIX k" for k
    using that by (auto simp: kv_full_key_def KV_PREFIX_def elim: prefixE)
  obtain d where d: "collect_kv_entries P dev (map Inr es) s = (Ok ([] @ ?kvs), s\<lparr>engine := d\<rparr>)" "same_device P V room (engine s) d"
  proof -
    have "\<forall>e \<in> set es. prefix KV_PREFIX (entry_key e) \<and> (\<exists>v. M (entry_key e) = Some (v, entry_author e, entry_timestamp e) \<and>
      blob_of V (engine s) (entry_hash e) = Some v)" using all pre by blast
    from run_collect_entries [OF w s this, of dev "[]"] show thesis
      by (elim exE conjE) (rule that, simp_all only: collect_kv_entries_steps)
  qed
  have "inj_on (drop 2) (set (map entry_key es))"
  proof (rule inj_onI)
    fix x y assume "x \<in> set (map entry_key es)" "y \<in> set (map entry_key es)" and eq: "drop 2 x = drop 2 y"
    then have "prefix KV_PREFIX x" "prefix KV_PREFIX y" using pre by auto
    then have "kv_full_key (drop 2 x) = x" "kv_full_key (drop 2 y) = y" by (simp_all only: full)
    then show "x = y" unfolding eq by (rule trans [OF sym])
  qed
  then have "distinct (map (drop 2) (map entry_key es))" using dist by (simp only: distinct_map)
  then have "distinct (map kv_key ?kvs)" by (simp add: o_def)
  moreover have "set ?kvs = {kv_of dev ?me k y |k y. M (kv_full_key k) = Some y}"
  proof (intro equalityI subsetI)
    fix x assume "x \<in> set ?kvs"
    then obtain e where e: "e \<in> set es" "x = kv_of dev ?me (drop 2 (entry_key e)) (the (M (entry_key e)))" by auto
    then show "x \<in> {kv_of dev ?me k y |k y. M (kv_full_key k) = Some y}"
      using all pre full by (intro CollectI exI [of _ "drop 2 (entry_key e)"] exI [of _ "the (M (entry_key e))"]) force
  next
    fix x assume "x \<in> {kv_of dev ?me k y |k y. M (kv_full_key k) = Some y}"
    then obtain k y where ky: "x = kv_of dev ?me k y" "M (kv_full_key k) = Some y" by blast
    then have "kv_full_key k \<in> set (map entry_key es)" unfolding keys by (cases y) (simp add: kv_full_key_def)
    then obtain e where "e \<in> set es" "entry_key e = kv_full_key k" by auto
    then show "x \<in> set ?kvs" using ky by (auto simp: kv_full_key_def KV_PREFIX_def intro!: image_eqI [of _ _ e])
  qed
  ultimately show thesis using that [OF d(1) [simplified] d(2)] by (simp add: kv_lists_def)
qed

text \<open>What a configuration read from the map is.\<close>

definition config_at :: "'d platform \<Rightarrow> doc_map \<Rightarrow> machine_config option res" where
  "config_at P M = (case M MACHINE_CONFIG_KEY of None \<Rightarrow> Ok None
     | Some (v, _, _) \<Rightarrow> (case config_from_json P v of None \<Rightarrow> Err Serde | Some c \<Rightarrow> Ok (Some c)))"

definition get_config_tail :: "'d platform \<Rightarrow> namespace_id \<Rightarrow> (('d, 'z) node_scheme, machine_config option) prog" where
  "get_config_tail P doc =
     andThen (engine_call (doc_get_one P doc (KeyExact MACHINE_CONFIG_KEY))) (\<lambda>entry_or.
     case entry_or of
       None \<Rightarrow> ret None
     | Some entry \<Rightarrow>
         andThen (engine_call (blobs_get_bytes P (entry_hash entry))) (\<lambda>bytes.
         andThen (ok_or Serde (config_from_json P bytes)) (\<lambda>config.
         ret (Some config))))"

lemma run_get_config:
  assumes w: "working_engine P V room" and s: "alive P s" and kn: "known V (engine s) ns" and c: "content V ns (engine s) M"
  obtains d where "get_config_tail P ns s = (config_at P M, s\<lparr>engine := d\<rparr>)" "same_device P V room (engine s) d"
proof -
  obtain x d0 where g: "engine_call (doc_get_one P ns (KeyExact MACHINE_CONFIG_KEY)) s = (Ok x, s\<lparr>engine := d0\<rparr>)"
    and same: "same_device P V room (engine s) d0"
    and x: "case x of None \<Rightarrow> M MACHINE_CONFIG_KEY = None | Some e \<Rightarrow> entry_key e = MACHINE_CONFIG_KEY \<and>
       (\<exists>v. M MACHINE_CONFIG_KEY = Some (v, entry_author e, entry_timestamp e) \<and> blob_of V d0 (entry_hash e) = Some v)"
    by (rule run_get_one [OF w s kn c])
  let ?s = "s\<lparr>engine := d0\<rparr>"
  have s0: "alive P ?s" by (rule alive_same [OF s same])
  show thesis
  proof (cases x)
    case None
    then show thesis using that [of d0] g same x by (simp add: get_config_tail_def andThen_eval config_at_def)
  next
    case (Some e)
    then obtain v where v: "M MACHINE_CONFIG_KEY = Some (v, entry_author e, entry_timestamp e)"
      "blob_of V (engine ?s) (entry_hash e) = Some v" using x by auto
    obtain d where d: "engine_call (blobs_get_bytes P (entry_hash e)) ?s = (Ok v, ?s\<lparr>engine := d\<rparr>)"
      "same_device P V room (engine ?s) d" by (rule run_get_bytes [OF w s0 v(2)])
    show thesis
    proof (rule that [of d])
      show "get_config_tail P ns s = (config_at P M, s\<lparr>engine := d\<rparr>)"
        using g Some d(1) v(1) by (cases "config_from_json P v") (simp_all add: get_config_tail_def andThen_eval config_at_def fail_def)
      show "same_device P V room (engine s) d" using same d(2) by (auto intro: same_device_trans)
    qed
  qed
qed

lemma run_machine_reads:
  assumes w: "working_engine P V room" and s: "alive P s" and doc: "machine_doc P V app_path s ns" and c: "content V ns (engine s) M"
  shows "\<exists>d. machine_get_kv_value P app_path k s =
      (Ok (map_option (kv_of Machine (author_of V (engine s)) k) (M (kv_full_key k))), s\<lparr>engine := d\<rparr>) \<and> same_device P V room (engine s) d"
    and "\<exists>d kvs. machine_get_kv_entries P app_path s = (Ok kvs, s\<lparr>engine := d\<rparr>) \<and> same_device P V room (engine s) d \<and>
      kv_lists Machine (author_of V (engine s)) M kvs"
    and "\<exists>d. machine_get_machine_config P app_path s = (config_at P M, s\<lparr>engine := d\<rparr>) \<and> same_device P V room (engine s) d"
proof -
  obtain d0 where g: "get_or_create_machine_doc P app_path s = (Ok ns, s\<lparr>engine := d0\<rparr>)" and same: "same_device P V room (engine s) d0"
    by (rule run_machine_doc [OF w s doc])
  let ?s = "s\<lparr>engine := d0\<rparr>"
  note sv = same_device_views [OF same]
  have s0: "alive P ?s" by (rule alive_same [OF s same])
  have c0: "content V ns (engine ?s) M" by (rule content_cong [OF _ _ c]) (simp_all add: sv)
  have k0: "known V (engine ?s) ns" using doc sv(2) by (simp add: machine_doc_def)
  obtain d where d: "kv_get_tail P Machine k ns ?s = (Ok (map_option (kv_of Machine (author_of V (engine ?s)) k) (M (kv_full_key k))), ?s\<lparr>engine := d\<rparr>)"
    "same_device P V room (engine ?s) d" by (rule run_kv_get [OF w s0 k0 c0])
  have "machine_get_kv_value P app_path k s = andThen (get_or_create_machine_doc P app_path) (kv_get_tail P Machine k) s"
    by (simp add: machine_get_kv_value_def kv_get_tail_def [abs_def] Let_def)
  then show "\<exists>d. machine_get_kv_value P app_path k s =
      (Ok (map_option (kv_of Machine (author_of V (engine s)) k) (M (kv_full_key k))), s\<lparr>engine := d\<rparr>) \<and> same_device P V room (engine s) d"
    using g d same sv(1) by (auto simp: andThen_eval intro: same_device_trans)
  obtain es d where es: "engine_call (doc_get_many P ns (KeyPrefix KV_PREFIX)) ?s = (Ok (map Inr es), ?s\<lparr>engine := d\<rparr>)"
    "same_device P V room (engine ?s) d" "lists_map V d M KV_PREFIX es" by (rule run_get_many [OF w s0 k0 c0])
  let ?t = "s\<lparr>engine := d\<rparr>"
  have t: "alive P ?t" "lists_map V (engine ?t) M KV_PREFIX es" using alive_same [OF s0 es(2)] es(3) by simp_all
  obtain kvs e where kvs: "collect_kv_entries P Machine (map Inr es) ?t = (Ok kvs, ?t\<lparr>engine := e\<rparr>)"
    "same_device P V room (engine ?t) e" "kv_lists Machine (author_of V (engine ?t)) M kvs" by (rule run_collect_kv [OF w t])
  have "same_device P V room (engine s) e" using same es(2) kvs(2) by (auto intro: same_device_trans)
  moreover have "author_of V d = author_of V (engine s)" using sv(1) same_device_views(1) [OF es(2)] by simp
  ultimately show "\<exists>d kvs. machine_get_kv_entries P app_path s = (Ok kvs, s\<lparr>engine := d\<rparr>) \<and> same_device P V room (engine s) d \<and>
      kv_lists Machine (author_of V (engine s)) M kvs"
    using g es(1) kvs by (intro exI [of _ e] exI [of _ kvs]) (simp add: machine_get_kv_entries_def andThen_eval)
  obtain d where d: "get_config_tail P ns ?s = (config_at P M, ?s\<lparr>engine := d\<rparr>)"
    "same_device P V room (engine ?s) d" by (rule run_get_config [OF w s0 k0 c0])
  have "machine_get_machine_config P app_path s = andThen (get_or_create_machine_doc P app_path) (get_config_tail P) s"
    by (simp add: machine_get_machine_config_def get_config_tail_def [abs_def])
  then show "\<exists>d. machine_get_machine_config P app_path s = (config_at P M, s\<lparr>engine := d\<rparr>) \<and> same_device P V room (engine s) d"
    using g d same by (auto simp: andThen_eval intro: same_device_trans)
qed

section \<open>The manager\<close>

lemma run_open_machine:
  assumes w: "working_engine P V room" and s: "alive P s" and doc: "manager_doc P V app_path m ns s"
  obtains t d where "get_machine P app_path m s = (Ok t, s)" "open_machine_doc P t s = (Ok ns, s\<lparr>engine := d\<rparr>)"
    "same_device P V room (engine s) d"
proof -
  obtain b t where b: "map_of (disk s) (machine_doc_ticket_path app_path @ [endpoint_to_string P m]) = Some (File b)"
    "utf8_valid b" "ticket_from_json P b = Some t" "capability_id P (ticket_capability t) = ns"
    using doc by (auto simp: manager_doc_def)
  have "known V (engine s) ns" using doc by (simp add: manager_doc_def)
  then obtain d where d: "engine_call (docs_open P ns) s = (Ok (Some ns), s\<lparr>engine := d\<rparr>)" "same_device P V room (engine s) d"
    using run_open [OF w s] by metis
  show thesis
  proof (rule that [OF _ _ d(2)])
    show "get_machine P app_path m s = (Ok t, s)"
      using running_fs_read_to_string [OF alive_running [OF s] b(1,2)] b(3) by (simp add: get_machine_def andThen_eval)
    show "open_machine_doc P t s = (Ok ns, s\<lparr>engine := d\<rparr>)"
      unfolding open_machine_doc_def b(4) using d(1) by (simp add: andThen_eval)
  qed
qed

lemma manager_doc_device:
  "manager_doc P V app_path m ns s \<Longrightarrow> known V d = known V (engine s) \<Longrightarrow> manager_doc P V app_path m ns (s\<lparr>engine := d\<rparr>)"
  by (simp add: manager_doc_def)

lemma run_manager_put:
  fixes s :: "('d, 'z) node_scheme"
  assumes w: "working_engine P V room" and s: "alive P s" and doc: "manager_doc P V app_path m ns s" and ok: "writable V ns (engine s)"
  shows "v \<noteq> [] \<Longrightarrow> \<exists>d. manager_set_kv_value P app_path m key v s = (Ok (), s\<lparr>engine := d\<rparr>) \<and> put_key P V room ns (kv_full_key key) v (engine s) d"
    and "\<exists>d b. manager_set_machine_config P app_path m config s = (Ok (), s\<lparr>engine := d\<rparr>) \<and> config_to_json P config = Some b \<and>
      put_key P V room ns MACHINE_CONFIG_KEY b (engine s) d"
proof -
  obtain t d0 where g: "get_machine P app_path m s = (Ok t, s)" "open_machine_doc P t s = (Ok ns, s\<lparr>engine := d0\<rparr>)"
    and same: "same_device P V room (engine s) d0" by (rule run_open_machine [OF w s doc])
  let ?s = "s\<lparr>engine := d0\<rparr>"
  have s0: "alive P ?s" "writable V ns (engine ?s)" using alive_same [OF s same] same_device_writable [OF same ok] by simp_all
  show "\<exists>d. manager_set_kv_value P app_path m key v s = (Ok (), s\<lparr>engine := d\<rparr>) \<and> put_key P V room ns (kv_full_key key) v (engine s) d"
    if v: "v \<noteq> []"
  proof -
    obtain d where d: "andThen (engine_call (author_default P)) (\<lambda>author.
        andThen (engine_call (doc_set_bytes P ns author (kv_full_key key) v)) (\<lambda>_. ret ())) ?s = (Ok (), ?s\<lparr>engine := d\<rparr>)"
      "put_key P V room ns (kv_full_key key) v (engine ?s) d" by (rule run_put [OF w s0 v])
    then show ?thesis using g put_key_same [OF same] by (auto simp: manager_set_kv_value_def andThen_eval Let_def)
  qed
  obtain b where b: "config_to_json P config = Some b" "b \<noteq> []"
    by (rule encoders_totalD [OF w])
  obtain d where d: "andThen (engine_call (author_default P)) (\<lambda>author.
      andThen (engine_call (doc_set_bytes P ns author MACHINE_CONFIG_KEY b)) (\<lambda>_. ret ())) ?s = (Ok (), ?s\<lparr>engine := d\<rparr>)"
    "put_key P V room ns MACHINE_CONFIG_KEY b (engine ?s) d" by (rule run_put [OF w s0 b(2)])
  have "andThen (ok_or Serde (config_to_json P config)) f = f b" for f :: "bytes \<Rightarrow> (('d, 'z) node_scheme, unit) prog"
    by (rule ext) (simp add: b andThen_def ret_def)
  then have "andThen (engine_call (author_default P)) (\<lambda>author. andThen (ok_or Serde (config_to_json P config)) (\<lambda>bytes.
      andThen (engine_call (doc_set_bytes P ns author MACHINE_CONFIG_KEY bytes)) (\<lambda>_. ret ()))) ?s = (Ok (), ?s\<lparr>engine := d\<rparr>)"
    using d(1) by simp
  then show "\<exists>d b. manager_set_machine_config P app_path m config s = (Ok (), s\<lparr>engine := d\<rparr>) \<and> config_to_json P config = Some b \<and>
      put_key P V room ns MACHINE_CONFIG_KEY b (engine s) d"
    using g b(1) d(2) put_key_same [OF same] by (intro exI [of _ d] exI [of _ b]) (simp add: manager_set_machine_config_def andThen_eval)
qed

lemma run_manager_reads:
  assumes w: "working_engine P V room" and s: "alive P s" and doc: "manager_doc P V app_path m ns s" and c: "content V ns (engine s) M"
  shows "\<exists>d. manager_get_kv_value P app_path m k s =
      (Ok (map_option (kv_of Manager (author_of V (engine s)) k) (M (kv_full_key k))), s\<lparr>engine := d\<rparr>) \<and> same_device P V room (engine s) d"
    and "\<exists>d kvs. manager_get_kv_entries P app_path m s = (Ok kvs, s\<lparr>engine := d\<rparr>) \<and> same_device P V room (engine s) d \<and>
      kv_lists Manager (author_of V (engine s)) M kvs"
    and "\<exists>d. manager_get_machine_config P app_path m s = (config_at P M, s\<lparr>engine := d\<rparr>) \<and> same_device P V room (engine s) d"
proof -
  obtain t d0 where g: "get_machine P app_path m s = (Ok t, s)" "open_machine_doc P t s = (Ok ns, s\<lparr>engine := d0\<rparr>)"
    and same: "same_device P V room (engine s) d0" by (rule run_open_machine [OF w s doc])
  let ?s = "s\<lparr>engine := d0\<rparr>"
  note sv = same_device_views [OF same]
  have s0: "alive P ?s" by (rule alive_same [OF s same])
  have c0: "content V ns (engine ?s) M" by (rule content_cong [OF _ _ c]) (simp_all add: sv)
  have k0: "known V (engine ?s) ns" using doc sv(2) by (simp add: manager_doc_def)
  obtain d where d: "kv_get_tail P Manager k ns ?s = (Ok (map_option (kv_of Manager (author_of V (engine ?s)) k) (M (kv_full_key k))), ?s\<lparr>engine := d\<rparr>)"
    "same_device P V room (engine ?s) d" by (rule run_kv_get [OF w s0 k0 c0])
  have "manager_get_kv_value P app_path m k s = andThen (get_machine P app_path m) (\<lambda>t. andThen (open_machine_doc P t) (kv_get_tail P Manager k)) s"
    by (simp add: manager_get_kv_value_def kv_get_tail_def [abs_def] Let_def)
  then show "\<exists>d. manager_get_kv_value P app_path m k s =
      (Ok (map_option (kv_of Manager (author_of V (engine s)) k) (M (kv_full_key k))), s\<lparr>engine := d\<rparr>) \<and> same_device P V room (engine s) d"
    using g d same sv(1) by (auto simp: andThen_eval intro: same_device_trans)
  obtain es d where es: "engine_call (doc_get_many P ns (KeyPrefix KV_PREFIX)) ?s = (Ok (map Inr es), ?s\<lparr>engine := d\<rparr>)"
    "same_device P V room (engine ?s) d" "lists_map V d M KV_PREFIX es" by (rule run_get_many [OF w s0 k0 c0])
  let ?t = "s\<lparr>engine := d\<rparr>"
  have t: "alive P ?t" "lists_map V (engine ?t) M KV_PREFIX es" using alive_same [OF s0 es(2)] es(3) by simp_all
  obtain kvs e where kvs: "collect_kv_entries P Manager (map Inr es) ?t = (Ok kvs, ?t\<lparr>engine := e\<rparr>)"
    "same_device P V room (engine ?t) e" "kv_lists Manager (author_of V (engine ?t)) M kvs" by (rule run_collect_kv [OF w t])
  have "same_device P V room (engine s) e" using same es(2) kvs(2) by (auto intro: same_device_trans)
  moreover have "author_of V d = author_of V (engine s)" using sv(1) same_device_views(1) [OF es(2)] by simp
  ultimately show "\<exists>d kvs. manager_get_kv_entries P app_path m s = (Ok kvs, s\<lparr>engine := d\<rparr>) \<and> same_device P V room (engine s) d \<and>
      kv_lists Manager (author_of V (engine s)) M kvs"
    using g es(1) kvs by (intro exI [of _ e] exI [of _ kvs]) (simp add: manager_get_kv_entries_def andThen_eval)
  obtain d where d: "get_config_tail P ns ?s = (config_at P M, ?s\<lparr>engine := d\<rparr>)"
    "same_device P V room (engine ?s) d" by (rule run_get_config [OF w s0 k0 c0])
  have "manager_get_machine_config P app_path m s = andThen (get_machine P app_path m) (\<lambda>t. andThen (open_machine_doc P t) (get_config_tail P)) s"
    by (simp add: manager_get_machine_config_def get_config_tail_def [abs_def])
  then show "\<exists>d. manager_get_machine_config P app_path m s = (config_at P M, s\<lparr>engine := d\<rparr>) \<and> same_device P V room (engine s) d"
    using g d same by (auto simp: andThen_eval intro: same_device_trans)
qed

end
