(* ===== verification/Settled_Payments.thy ===== *)
theory Settled_Payments
  imports Settled_Ops "HOL-Library.Multiset"
begin

text \<open>
  Listing the machines of a manager and moving payments through a machine's document, in
  runs in which nothing fails: the machines are those of the ticket directory, the payments
  are those of the document's map, each once, and removing payments deletes their keys.
\<close>

section \<open>The machines of a manager\<close>

definition ticket_dir :: "'d platform \<Rightarrow> path \<Rightarrow> disk \<Rightarrow> (endpoint_id \<times> doc_ticket) list \<Rightarrow> bool" where
  "ticket_dir P app_path d ms \<longleftrightarrow> is_dir d (machine_doc_ticket_path app_path) \<and>
     dir_names d (machine_doc_ticket_path app_path) = map (\<lambda>x. endpoint_to_string P (fst x)) ms \<and>
     (\<forall>x \<in> set ms. \<exists>b. map_of d (machine_doc_ticket_path app_path @ [endpoint_to_string P (fst x)]) = Some (File b) \<and>
        utf8_valid b \<and> ticket_from_json P b = Some (snd x))"

lemma running_is_file: "running s \<Longrightarrow> map_of (disk s) p = Some (File b) \<Longrightarrow> fs_is_file p s = (Ok True, s)"
  unfolding fs_is_file_def by (subst running_fs_op [where r = "Ok True" and d = "disk s"]) simp_all

lemma run_list_machines:
  assumes w: "working_engine P V room" and s: "running s" and dir: "ticket_dir P app_path (disk s) ms"
  shows "list_machines P app_path s = (Ok ms, s)"
proof -
  let ?dir = "machine_doc_ticket_path app_path"
  have one: "list_one P ?dir acc (endpoint_to_string P (fst x)) s = (Ok (acc @ [x]), s)" if x: "x \<in> set ms" for acc x
  proof -
    obtain b where b: "map_of (disk s) (?dir @ [endpoint_to_string P (fst x)]) = Some (File b)" "utf8_valid b"
      "ticket_from_json P b = Some (snd x)" using dir x by (auto simp: ticket_dir_def)
    have "os_into_string (endpoint_to_string P (fst x)) = Some (endpoint_to_string P (fst x))"
      by (rule encoders_totalD [OF w])
    then show ?thesis
      using running_next_entry [OF s] running_is_file [OF s b(1)] running_fs_read_to_string [OF s b(1,2)] b(3)
        codec_contractD(5) [OF working_engineD(2) [OF w], of "fst x"]
      by (simp add: list_one_def andThen_eval)
  qed
  have "for_fold (list_one P ?dir) acc (map (\<lambda>x. endpoint_to_string P (fst x)) xs) s = (Ok (acc @ xs), s)"
    if "set xs \<subseteq> set ms" for acc xs
    using that
  proof (induction xs arbitrary: acc)
    case Nil
    show ?case by (simp add: ret_def)
  next
    case (Cons x xs)
    show ?case
      using Cons.prems Cons.IH [of "acc @ [x]"] one [of x acc] by (simp add: andThen_eval)
  qed
  from this [of ms "[]"] show ?thesis
    using dir running_read_dir [OF s, of ?dir] running_next_entry [OF s]
    by (simp add: list_machines_def Let_def andThen_eval ticket_dir_def)
qed

section \<open>Reading payments\<close>

text \<open>Whatever the document holds at a payment key is a payment of that key.\<close>

definition contracts_ok :: "'d platform \<Rightarrow> doc_map \<Rightarrow> bool" where
  "contracts_ok P M \<longleftrightarrow> (\<forall>k v a t. prefix CLAIMABLE_CONTRACT_PREFIX k \<longrightarrow> M k = Some (v, a, t) \<longrightarrow>
     (\<exists>fid cc. k = create_claimable_contract_machine_doc_key P fid cc \<and> contract_to_json P cc = Some v))"

definition pay_lists :: "'d platform \<Rightarrow> endpoint_id \<Rightarrow> doc_map \<Rightarrow> payment list \<Rightarrow> bool" where
  "pay_lists P m M ps \<longleftrightarrow> distinct ps \<and> set ps = {(m, fid, cc) |fid cc. \<exists>v a t.
     M (create_claimable_contract_machine_doc_key P fid cc) = Some (v, a, t) \<and> contract_to_json P cc = Some v}"

lemma run_collect_contract:
  assumes w: "working_engine P V room" and s: "alive P s" and b: "blob_of V (engine s) (entry_hash e) = Some v"
    and k: "entry_key e = create_claimable_contract_machine_doc_key P fid cc" and v: "contract_to_json P cc = Some v"
  obtains d where "collect_contract P m ps (Inr e) s = (Ok (ps @ [(m, fid, cc)]), s\<lparr>engine := d\<rparr>)" "same_device P V room (engine s) d"
proof -
  obtain d where d: "engine_call (blobs_get_bytes P (entry_hash e)) s = (Ok v, s\<lparr>engine := d\<rparr>)" "same_device P V room (engine s) d"
    by (rule run_get_bytes [OF w s b])
  have "v \<noteq> []" using working_engineD(5) [OF w] v unfolding encoders_total_def by auto
  moreover have "contract_from_json P v = Some cc" using codec_contractD(4) [OF working_engineD(2) [OF w] v] by simp
  ultimately have "collect_contract P m ps (Inr e) s = (Ok (ps @ [(m, fid, cc)]), s\<lparr>engine := d\<rparr>)"
    using d(1) k by (simp add: collect_contract_def andThen_eval running_await [OF alive_running [OF s]] ret_def
        parse_contract_key [OF working_engineD(2) [OF w]])
  then show thesis using that d(2) by blast
qed

definition pays :: "'d platform \<Rightarrow> endpoint_id \<Rightarrow> doc_map \<Rightarrow> entry \<Rightarrow> payment \<Rightarrow> bool" where
  "pays P m M e x \<longleftrightarrow> (\<exists>fid cc. x = (m, fid, cc) \<and> entry_key e = create_claimable_contract_machine_doc_key P fid cc \<and>
     (\<exists>v a t. M (entry_key e) = Some (v, a, t) \<and> contract_to_json P cc = Some v))"

lemma run_collect_contracts:
  assumes w: "working_engine P V room" and s: "alive P s"
    and es: "\<forall>e \<in> set es. \<exists>v fid cc. M (entry_key e) = Some (v, entry_author e, entry_timestamp e) \<and>
      blob_of V (engine s) (entry_hash e) = Some v \<and>
      entry_key e = create_claimable_contract_machine_doc_key P fid cc \<and> contract_to_json P cc = Some v"
  shows "\<exists>d xs. for_fold (collect_contract P m) ps (map Inr es) s = (Ok (ps @ xs), s\<lparr>engine := d\<rparr>) \<and>
      same_device P V room (engine s) d \<and> list_all2 (pays P m M) es xs"
  using s es
proof (induction es arbitrary: ps s)
  case Nil
  show ?case by (intro exI [of _ "engine s"] exI [of _ "[]"]) (simp add: ret_def)
next
  case (Cons e es)
  obtain v fid cc where e: "M (entry_key e) = Some (v, entry_author e, entry_timestamp e)"
    "blob_of V (engine s) (entry_hash e) = Some v" "entry_key e = create_claimable_contract_machine_doc_key P fid cc"
    "contract_to_json P cc = Some v" using Cons.prems(2) by auto
  obtain d0 where step: "collect_contract P m ps (Inr e) s = (Ok (ps @ [(m, fid, cc)]), s\<lparr>engine := d0\<rparr>)"
    and same: "same_device P V room (engine s) d0" by (rule run_collect_contract [OF w Cons.prems(1) e(2-4)])
  let ?s = "s\<lparr>engine := d0\<rparr>"
  have s0: "alive P ?s" by (rule alive_same [OF Cons.prems(1) same])
  have "\<forall>e \<in> set es. \<exists>v fid cc. M (entry_key e) = Some (v, entry_author e, entry_timestamp e) \<and>
      blob_of V (engine ?s) (entry_hash e) = Some v \<and>
      entry_key e = create_claimable_contract_machine_doc_key P fid cc \<and> contract_to_json P cc = Some v"
    using Cons.prems(2) same_device_views(4) [OF same] by simp
  from Cons.IH [OF s0 this, of "ps @ [(m, fid, cc)]"] obtain d xs where
    d: "for_fold (collect_contract P m) (ps @ [(m, fid, cc)]) (map Inr es) ?s = (Ok ((ps @ [(m, fid, cc)]) @ xs), ?s\<lparr>engine := d\<rparr>)"
      "same_device P V room (engine ?s) d" "list_all2 (pays P m M) es xs" by blast
  have "pays P m M e (m, fid, cc)" using e by (auto simp: pays_def)
  moreover have "same_device P V room (engine s) d" using same d(2) by (auto intro: same_device_trans)
  ultimately show ?case
    using d(1,3) step by (intro exI [of _ d] exI [of _ "(m, fid, cc) # xs"]) (simp add: andThen_eval)
qed

lemma pays_lists:
  assumes c: "codec_contract P" and es: "lists_map V d M CLAIMABLE_CONTRACT_PREFIX es" and p: "list_all2 (pays P m M) es xs"
  shows "pay_lists P m M xs"
proof -
  let ?key = "\<lambda>(m, fid, cc). create_claimable_contract_machine_doc_key P fid cc"
  have keys: "map ?key xs = map entry_key es"
    using p by (induction rule: list_all2_induct) (auto simp: pays_def)
  have dist: "distinct xs"
  proof -
    have "distinct (map ?key xs)" using es by (simp add: keys lists_map_def)
    then show ?thesis by (simp only: distinct_map)
  qed
  have "set xs = {(m, fid, cc) |fid cc. \<exists>v a t.
     M (create_claimable_contract_machine_doc_key P fid cc) = Some (v, a, t) \<and> contract_to_json P cc = Some v}" (is "_ = ?R")
  proof (intro equalityI subsetI)
    fix x assume "x \<in> set xs"
    then obtain e where "pays P m M e x" using p by (auto simp: list_all2_conv_all_nth in_set_conv_nth)
    then show "x \<in> ?R" by (auto simp: pays_def)
  next
    fix x assume "x \<in> ?R"
    then obtain fid cc v a t where x: "x = (m, fid, cc)" "M (create_claimable_contract_machine_doc_key P fid cc) = Some (v, a, t)"
      "contract_to_json P cc = Some v" by auto
    have "create_claimable_contract_machine_doc_key P fid cc \<in> set (map entry_key es)"
      using es x(2) prefix_contract_key [of P fid cc] by (simp add: lists_map_def)
    then obtain y where y: "y \<in> set xs" "?key y = create_claimable_contract_machine_doc_key P fid cc" "\<exists>e. pays P m M e y"
      using p unfolding keys [symmetric] by (fastforce simp: list_all2_conv_all_nth in_set_conv_nth)
    obtain fid' cc' where y': "y = (m, fid', cc')" "contract_to_json P cc' = Some v"
      using y(2,3) x(2) by (auto simp: pays_def)
    have "fid' = fid" using y(2) y'(1) parse_contract_key [OF c, of fid cc] parse_contract_key [OF c, of fid' cc'] by simp
    moreover have "cc' = cc" using codec_contractD(4) [OF c x(3)] codec_contractD(4) [OF c y'(2)] by simp
    ultimately show "x \<in> set xs" using y(1) y'(1) x(1) by simp
  qed
  with dist show ?thesis by (simp add: pay_lists_def)
qed

lemma run_get_claimable_contracts:
  assumes w: "working_engine P V room" and s: "alive P s" and dir: "ticket_dir P app_path (disk s) [(m, t)]"
    and doc: "capability_id P (ticket_capability t) = ns" "known V (engine s) ns"
    and c: "content V ns (engine s) M" and ok: "contracts_ok P M"
  obtains ps d where "manager_get_claimable_contracts P app_path s = (Ok ps, s\<lparr>engine := d\<rparr>)" "same_device P V room (engine s) d"
    "pay_lists P m M ps"
proof -
  obtain d0 where op: "engine_call (docs_open P ns) s = (Ok (Some ns), s\<lparr>engine := d0\<rparr>)"
    and same: "same_device P V room (engine s) d0" using run_open [OF w s doc(2)] by metis
  let ?s = "s\<lparr>engine := d0\<rparr>"
  note sv = same_device_views [OF same]
  have s0: "alive P ?s" by (rule alive_same [OF s same])
  have c0: "content V ns (engine ?s) M" by (rule content_cong [OF _ _ c]) (simp_all add: sv)
  have k0: "known V (engine ?s) ns" using doc(2) sv(2) by simp
  obtain es d1 where es: "engine_call (doc_get_many P ns (KeyPrefix CLAIMABLE_CONTRACT_PREFIX)) ?s = (Ok (map Inr es), ?s\<lparr>engine := d1\<rparr>)"
    "same_device P V room (engine ?s) d1" "lists_map V d1 M CLAIMABLE_CONTRACT_PREFIX es" by (rule run_get_many [OF w s0 k0 c0])
  let ?t = "s\<lparr>engine := d1\<rparr>"
  have t: "alive P ?t" using alive_same [OF s0 es(2)] by simp
  have all: "\<exists>v fid cc. M (entry_key e) = Some (v, entry_author e, entry_timestamp e) \<and>
      blob_of V (engine ?t) (entry_hash e) = Some v \<and>
      entry_key e = create_claimable_contract_machine_doc_key P fid cc \<and> contract_to_json P cc = Some v"
    if mem: "e \<in> set es" for e
  proof -
    obtain v where v: "M (entry_key e) = Some (v, entry_author e, entry_timestamp e)" "blob_of V d1 (entry_hash e) = Some v"
      using es(3) mem by (auto simp: lists_map_def)
    have "prefix CLAIMABLE_CONTRACT_PREFIX (entry_key e)"
      using es(3) mem unfolding lists_map_def by (metis (mono_tags, lifting) image_eqI list.set_map mem_Collect_eq)
    then show ?thesis using ok v by (simp add: contracts_ok_def)
  qed
  obtain d xs where d: "for_fold (collect_contract P m) [] (map Inr es) ?t = (Ok ([] @ xs), ?t\<lparr>engine := d\<rparr>)"
      "same_device P V room (engine ?t) d" "list_all2 (pays P m M) es xs"
    using run_collect_contracts [OF w t, of es M m "[]"] all by blast
  have "open_machine_doc P t s = (Ok ns, ?s)"
    unfolding open_machine_doc_def doc(1) using op by (simp add: andThen_eval)
  then have "manager_get_claimable_contracts P app_path s = (Ok xs, s\<lparr>engine := d\<rparr>)"
    using run_list_machines [OF w alive_running [OF s] dir] es(1) d(1)
    by (simp add: manager_get_claimable_contracts_def andThen_eval collect_machine_def)
  moreover have "same_device P V room (engine s) d" using same es(2) d(2) by (auto intro: same_device_trans)
  ultimately show thesis using that pays_lists [OF working_engineD(2) [OF w] es(3) d(3)] by blast
qed

section \<open>Removing payments\<close>

definition remove_keys :: "bytes set \<Rightarrow> doc_map \<Rightarrow> doc_map" where
  "remove_keys ks M = (\<lambda>k. if k \<in> ks then None else M k)"

definition payment_keys :: "'d platform \<Rightarrow> (federation_id \<times> claimable_contract) list \<Rightarrow> bytes set" where
  "payment_keys P xs = (\<lambda>(fid, cc). create_claimable_contract_machine_doc_key P fid cc) ` set xs"

lemma run_remove_contracts:
  fixes s :: "('d, 'z) node_scheme"
  assumes w: "working_engine P V room" and U: "prefix_free U" "payment_keys P xs \<subseteq> U" and s: "alive P s"
    and r: "replicas V room ns U (length xs + n) (engine s) M1 W1 d2 M2 W2"
  shows "\<exists>d. for_each (remove_contract P (author_of V (engine s)) ns) xs s = (Ok (), s\<lparr>engine := d\<rparr>) \<and>
    same_frame P V (engine s) d \<and>
    replicas V room ns U n d (remove_keys (payment_keys P xs) M1) (payment_keys P xs \<union> W1) d2 M2 W2"
  using U(2) s r
proof (induction xs arbitrary: s M1 W1)
  case Nil
  then show ?case by (intro exI [of _ "engine s"]) (simp add: for_each_def ret_def remove_keys_def payment_keys_def)
next
  case (Cons x xs)
  obtain fid cc where x: "x = (fid, cc)" by (cases x)
  let ?k = "create_claimable_contract_machine_doc_key P fid cc" and ?a = "author_of V (engine s)"
  have keys: "payment_keys P (x # xs) = insert ?k (payment_keys P xs)" by (simp add: payment_keys_def x)
  have wr: "writable V ns (engine s)" by (rule replicas_writable [OF Cons.prems(3)])
  obtain m d0 where del: "engine_call (doc_del P ns ?a ?k) s = (Ok m, s\<lparr>engine := d0\<rparr>)" "doc_del P ns ?a ?k (engine s) = (Ok m, d0)"
    "changed_only P V room ns ?k (engine s) d0"
    by (rule run_del [OF w Cons.prems(2) wr refl, of ?k])
  have dk: "del_key P V room ns ?k (engine s) d0"
    unfolding del_key_def using del(2,3) by (intro exI [of _ "engine s"] exI [of _ m]) simp
  have fr: "same_frame P V (engine s) d0" by (rule del_key_frame [OF w dk])
  let ?s = "s\<lparr>engine := d0\<rparr>"
  have s0: "alive P ?s" by (rule alive_frame [OF Cons.prems(2) fr])
  have r0: "replicas V room ns U (length xs + n) (engine ?s) (M1(?k := None)) (insert ?k W1) d2 M2 W2"
    using del_key_replicas [OF w _ U(1) _ dk] Cons.prems(1,3) by (simp add: keys)
  have U0: "payment_keys P xs \<subseteq> U" using Cons.prems(1) by (simp add: keys)
  obtain d where
    d: "for_each (remove_contract P (author_of V (engine ?s)) ns) xs ?s = (Ok (), ?s\<lparr>engine := d\<rparr>)" "same_frame P V (engine ?s) d"
      "replicas V room ns U n d (remove_keys (payment_keys P xs) (M1(?k := None))) (payment_keys P xs \<union> insert ?k W1) d2 M2 W2"
    using Cons.IH [OF U0 s0 r0] by blast
  have "remove_keys (payment_keys P xs) (M1(?k := None)) = remove_keys (payment_keys P (x # xs)) M1"
    by (auto simp: remove_keys_def keys)
  moreover have "payment_keys P xs \<union> insert ?k W1 = payment_keys P (x # xs) \<union> W1" by (auto simp: keys)
  moreover have "for_each (remove_contract P ?a ns) (x # xs) s = (Ok (), s\<lparr>engine := d\<rparr>)"
    using del(1) d(1) fr by (simp add: for_each_def andThen_eval remove_contract_def x Let_def same_frame_def)
  moreover have "same_frame P V (engine s) d" using fr d(2) by (auto intro: same_frame_trans)
  ultimately show ?case using d(3) by (intro exI [of _ d]) simp
qed

lemma group_by_one_machine:
  assumes "\<forall>p \<in> set ps. fst p = m"
  shows "group_by_machine ps = (if ps = [] then [] else [(m, map snd ps)])"
proof -
  have "foldl push_contract [(m, cs)] qs = [(m, cs @ map snd qs)]" if "\<forall>p \<in> set qs. fst p = m" for cs qs
    using that by (induction qs arbitrary: cs) (auto simp: push_contract_def)
  then show ?thesis using assms by (cases ps) (auto simp: group_by_machine_def push_contract_def)
qed

lemma run_remove_claimable_contracts:
  assumes w: "working_engine P V room" and U: "prefix_free U" "payment_keys P (map snd ps) \<subseteq> U" and s: "alive P s"
    and doc: "manager_doc P V app_path m ns s" and ps: "\<forall>p \<in> set ps. fst p = m" and iter: "\<And>xs. mset (iter xs) = mset xs"
    and r: "replicas V room ns U (length ps + n) (engine s) M1 W1 d2 M2 W2"
  obtains d where "remove_claimable_contracts P app_path iter ps s = (Ok (), s\<lparr>engine := d\<rparr>)" "same_frame P V (engine s) d"
    "replicas V room ns U n d (remove_keys (payment_keys P (map snd ps)) M1) (payment_keys P (map snd ps) \<union> W1) d2 M2 W2"
proof -
  obtain d0 where a: "engine_call (author_default P) s = (Ok (author_of V (engine s)), s\<lparr>engine := d0\<rparr>)"
    and same: "same_device P V room (engine s) d0" by (rule run_author [OF w s])
  let ?s = "s\<lparr>engine := d0\<rparr>"
  note sv = same_device_views [OF same]
  have s0: "alive P ?s" by (rule alive_same [OF s same])
  have r0: "replicas V room ns U (length ps + n) (engine ?s) M1 W1 d2 M2 W2" using replicas_same [OF same r] by simp
  have i: "iter [] = []" "\<And>x. iter [x] = [x]" using iter [of "[]"] iter [of "[x]" for x] by auto
  show thesis
  proof (cases "ps = []")
    case True
    then show ?thesis using that [of d0] a r0 i(1) same_device_frame [OF same]
      by (simp add: remove_claimable_contracts_def andThen_eval group_by_machine_def for_each_def ret_def payment_keys_def remove_keys_def)
  next
    case False
    have doc0: "manager_doc P V app_path m ns ?s" by (rule manager_doc_device [OF doc]) (simp add: sv)
    obtain t d1 where g: "get_machine P app_path m ?s = (Ok t, ?s)" "open_machine_doc P t ?s = (Ok ns, ?s\<lparr>engine := d1\<rparr>)"
      and same1: "same_device P V room (engine ?s) d1" by (rule run_open_machine [OF w s0 doc0])
    let ?t = "s\<lparr>engine := d1\<rparr>"
    have s1: "alive P ?t" using alive_same [OF s0 same1] by simp
    have r1: "replicas V room ns U (length (map snd ps) + n) (engine ?t) M1 W1 d2 M2 W2"
      using replicas_same [OF same1 r0] by simp
    have au: "author_of V d1 = author_of V (engine s)" using same_device_views(1) [OF same1] sv(1) by simp
    obtain d where d: "for_each (remove_contract P (author_of V (engine s)) ns) (map snd ps) ?t = (Ok (), ?t\<lparr>engine := d\<rparr>)"
      "same_frame P V d1 d"
      "replicas V room ns U n d (remove_keys (payment_keys P (map snd ps)) M1) (payment_keys P (map snd ps) \<union> W1) d2 M2 W2"
      using run_remove_contracts [OF w U s1 r1] au by auto
    have "remove_of_machine P app_path (author_of V (engine s)) (m, map snd ps) ?s = (Ok (), s\<lparr>engine := d\<rparr>)"
      using g d(1) by (simp add: remove_of_machine_def andThen_eval)
    then have "remove_claimable_contracts P app_path iter ps s = (Ok (), s\<lparr>engine := d\<rparr>)"
      using a False group_by_one_machine [OF ps] i(2) by (simp add: remove_claimable_contracts_def andThen_eval for_each_def ret_def)
    moreover have "same_frame P V (engine s) d"
      using same_device_frame [OF same] same_device_frame [OF same1] d(2) by (auto intro: same_frame_trans)
    ultimately show ?thesis using that d(3) by blast
  qed
qed

end
