(* ===== verification/Settled_Start.thy ===== *)
theory Settled_Start
  imports Settled_Payments
begin

text \<open>
  Starting, stopping and claiming in runs in which nothing fails: what a new protocol leaves
  on a disk, which address and claimer it has, and the document a machine creates.
\<close>

section \<open>Directories\<close>

definition add_node :: "path \<Rightarrow> fs_node \<Rightarrow> disk \<Rightarrow> disk" where
  "add_node p v d = (if map_of d p = None then AList.update p v d else d)"

lemma add_node_lookup: "map_of (add_node p v d) q = (if q = p \<and> map_of d p = None then Some v else map_of d q)"
  by (simp add: add_node_def update_conv)

lemma dirs_exist_add: "dirs_exist d p \<Longrightarrow> p \<noteq> q \<Longrightarrow> \<not> prefix q p \<Longrightarrow> dirs_exist (add_node q v d) p"
  by (simp add: add_node_def dirs_exist_update)

lemma run_mkdir:
  assumes s: "running s" and p: "dirs_exist (disk s) p" and new: "map_of (disk s) (p @ [n]) \<in> {None, Some Dir}"
  shows "fs_create_dir_all (p @ [n]) s = (Ok (), s\<lparr>disk := add_node (p @ [n]) Dir (disk s)\<rparr>)"
proof -
  have split: "mkdirs (qs @ [q]) d = mkdirs [q] d" if "\<forall>q \<in> set qs. map_of d q = Some Dir" for qs q d
    using that by (induction qs) auto
  have "tl (prefixes (p @ [n])) = tl (prefixes p) @ [p @ [n]]"
    by (cases p) (simp_all add: prefixes_snoc)
  moreover have "\<forall>q \<in> set (tl (prefixes p)). map_of (disk s) q = Some Dir"
    using p by (auto simp: dirs_exist_def is_dir_def dest: tl_prefixes)
  ultimately have "create_dir_all_op (p @ [n]) IoOk (disk s) = (Ok (), add_node (p @ [n]) Dir (disk s))"
    using new by (auto simp: create_dir_all_op_def split add_node_def)
  then show ?thesis unfolding fs_create_dir_all_def by (rule running_fs_op [OF s])
qed

lemma dirs_exist_snoc: "dirs_exist d (p @ [n]) \<longleftrightarrow> dirs_exist d p \<and> map_of d (p @ [n]) = Some Dir"
  by (auto simp: dirs_exist_def is_dir_def prefix_snoc)

lemma remdups_snoc: "y \<notin> set xs \<Longrightarrow> remdups (xs @ [y]) = remdups xs @ [y]"
  by (induction xs) auto

lemma dir_names_update:
  "dir_names (AList.update q v d) p =
     (if map_of d q = None \<and> q \<noteq> [] \<and> butlast q = p then dir_names d p @ [last q] else dir_names d p)"
proof (cases "map_of d q = None")
  case True
  then have new: "q \<notin> set (map fst d)" by (simp add: map_of_eq_None_iff)
  have "last q \<notin> last ` {x \<in> set (map fst d). x \<noteq> [] \<and> butlast x = butlast q}" if "q \<noteq> []"
  proof
    assume "last q \<in> last ` {x \<in> set (map fst d). x \<noteq> [] \<and> butlast x = butlast q}"
    then obtain x where x: "x \<in> set (map fst d)" "x \<noteq> []" "butlast x = butlast q" "last q = last x" by blast
    then have "x = q" using append_butlast_last_id [OF x(2)] append_butlast_last_id [OF that] by metis
    then show False using x(1) new by simp
  qed
  then show ?thesis using True new
    by (auto simp: dir_names_def update_keys remdups_snoc)
next
  case False
  then have "q \<in> set (map fst d)" by (auto simp: map_of_eq_None_iff)
  then show ?thesis using False by (simp add: dir_names_def update_keys)
qed

lemma dir_names_add:
  "dir_names (add_node q v d) p =
     (if map_of d q = None \<and> q \<noteq> [] \<and> butlast q = p then dir_names d p @ [last q] else dir_names d p)"
  by (simp add: add_node_def dir_names_update)

section \<open>Starting\<close>

definition start_disk :: "path \<Rightarrow> hash32 \<Rightarrow> disk \<Rightarrow> disk" where
  "start_disk dir rng d = add_node (app_storage_path dir) Dir (add_node (dir @ [IROH_SUBDIR]) Dir
     (add_node (dir @ [SECRET_KEY_FILE]) (File (bytes_of_hash rng)) d))"

text \<open>A directory in which a protocol can start: a new one or one it has started in before.\<close>

definition startable :: "path \<Rightarrow> hash32 \<Rightarrow> disk \<Rightarrow> bool" where
  "startable dir key d \<longleftrightarrow> dir \<noteq> [] \<and> dirs_exist d dir \<and>
     map_of d (dir @ [SECRET_KEY_FILE]) \<in> {None, Some (File (bytes_of_hash key))} \<and>
     map_of d (dir @ [IROH_SUBDIR]) \<in> {None, Some Dir} \<and> map_of d (app_storage_path dir) \<in> {None, Some Dir}"

lemma sub_names [simp]: "SECRET_KEY_FILE \<noteq> IROH_SUBDIR" "SECRET_KEY_FILE \<noteq> APP_SUBDIR" "IROH_SUBDIR \<noteq> APP_SUBDIR"
  "IROH_SUBDIR \<noteq> SECRET_KEY_FILE" "APP_SUBDIR \<noteq> SECRET_KEY_FILE" "APP_SUBDIR \<noteq> IROH_SUBDIR"
  by (simp_all add: SECRET_KEY_FILE_def IROH_SUBDIR_def APP_SUBDIR_def)

lemma start_disk_lookup:
  "map_of (start_disk dir rng d) p =
     (if map_of d p \<noteq> None then map_of d p
      else if p = dir @ [SECRET_KEY_FILE] then Some (File (bytes_of_hash rng))
      else if p = dir @ [IROH_SUBDIR] \<or> p = app_storage_path dir then Some Dir else None)"
  by (simp add: start_disk_def add_node_lookup app_storage_path_def)

lemma start_disk_dirs:
  assumes "startable dir key d"
  shows "dirs_exist (start_disk dir rng d) (app_storage_path dir)"
proof -
  have old: "dirs_exist d dir" using assms by (simp add: startable_def)
  have "map_of (start_disk dir rng d) q = map_of d q" if "prefix q dir" for q
  proof (cases "q = []")
    case False
    then have "map_of d q = Some Dir" using old that by (auto simp: dirs_exist_def is_dir_def)
    then show ?thesis by (simp add: start_disk_lookup)
  qed (simp add: start_disk_lookup app_storage_path_def)
  then have "dirs_exist (start_disk dir rng d) dir" using old by (rule dirs_exist_cong)
  moreover have "map_of (start_disk dir rng d) (app_storage_path dir) = Some Dir"
    using assms by (auto simp: start_disk_lookup startable_def app_storage_path_def)
  ultimately show ?thesis by (simp add: app_storage_path_def dirs_exist_snoc)
qed

lemma starts_workD:
  assumes "starts_work P V room dir public_of"
  shows "router_is_shutdown P d \<Longrightarrow> \<exists>d'. endpoint_bind P key d = (Ok (), d') \<and> same_store V d d' \<and> room d \<le> room d' \<and>
        addr_id (endpoint_addr_of P d') = public_of key \<and> \<not> router_is_shutdown P d'"
    and "\<exists>d'. blobs_load P (dir @ [IROH_SUBDIR]) d = (Ok (), d') \<and> same_device P V room d d'"
    and "\<exists>d'. docs_persistent P (dir @ [IROH_SUBDIR]) d = (Ok (), d') \<and> same_device P V room d d'"
    and "\<exists>d'. router_spawn P d = (Ok (), d') \<and> same_device P V room d d'"
    and "\<exists>d'. router_shutdown P d = (Ok (), d') \<and> same_store V d d' \<and> room d \<le> room d' \<and>
        endpoint_addr_of P d' = endpoint_addr_of P d \<and> router_is_shutdown P d'"
    and "\<exists>r d'. blobs_shutdown P d = (r, d') \<and> (r = Ok () \<or> (\<exists>e. r = Err e)) \<and> same_device P V room d d'"
    and "\<exists>r d'. docs_shutdown P d = (r, d') \<and> (r = Ok () \<or> (\<exists>e. r = Err e)) \<and> same_device P V room d d'"
  using assms unfolding starts_work_def by blast+

text \<open>What starting makes of the engine.\<close>

definition started :: "'d platform \<Rightarrow> ('d, 'v) docs_view_scheme \<Rightarrow> ('d \<Rightarrow> nat) \<Rightarrow> endpoint_id \<Rightarrow> 'd \<Rightarrow> 'd \<Rightarrow> bool" where
  "started P V room i d d' \<longleftrightarrow> same_store V d d' \<and> room d \<le> room d' \<and> addr_id (endpoint_addr_of P d') = i \<and>
     \<not> router_is_shutdown P d'"

lemma started_same: "started P V room i d d' \<Longrightarrow> same_device P V room d' d'' \<Longrightarrow> started P V room i d d''"
  by (auto simp: started_def same_device_def intro: same_store_trans)

lemma running_fs_read: "running s \<Longrightarrow> map_of (disk s) p = Some (File b) \<Longrightarrow> fs_read p s = (Ok b, s)"
  unfolding fs_read_def by (subst running_fs_op [where r = "Ok b" and d = "disk s"]) (simp_all add: read_op_def)

lemma run_secret_key:
  assumes s: "running s" and st: "startable dir key (disk s)" and new: "map_of (disk s) (dir @ [SECRET_KEY_FILE]) = None \<Longrightarrow> rng = key"
  shows "load_or_create_secret_key dir rng s =
    (Ok key, s\<lparr>disk := add_node (dir @ [SECRET_KEY_FILE]) (File (bytes_of_hash key)) (disk s)\<rparr>)"
proof (cases "map_of (disk s) (dir @ [SECRET_KEY_FILE])")
  case None
  have "is_dir (disk s) dir" "dirs_exist (disk s) dir" using st by (simp_all add: startable_def dirs_exist_def)
  then show ?thesis using running_new_secret [OF s _ _ None, of rng] new [OF None] None by (simp add: add_node_def)
next
  case (Some x)
  then have "x = File (bytes_of_hash key)" using st by (simp add: startable_def)
  with Some running_fs_read [OF s, of "dir @ [SECRET_KEY_FILE]" "bytes_of_hash key"] show ?thesis
    by (simp add: load_or_create_secret_key_def Let_def andThen_eval attempt_eval add_node_def)
qed

lemma run_shared_new:
  fixes s :: "('d, 'z) node_scheme"
  assumes w: "starts_work P V room dir public_of" and s: "running s" and off: "router_is_shutdown P (engine s)"
    and st: "startable dir key (disk s)" and new: "map_of (disk s) (dir @ [SECRET_KEY_FILE]) = None \<Longrightarrow> rng = key"
  obtains d where "shared_protocol_new P dir rng s = (Ok (app_storage_path dir), s\<lparr>disk := start_disk dir key (disk s), engine := d\<rparr>)"
    "started P V room (public_of key) (engine s) d"
proof -
  let ?d1 = "add_node (dir @ [SECRET_KEY_FILE]) (File (bytes_of_hash key)) (disk s)"
  let ?d2 = "add_node (dir @ [IROH_SUBDIR]) Dir ?d1" and ?d3 = "start_disk dir key (disk s)"
  have dirs: "dirs_exist (disk s) dir" using st by (simp add: startable_def)
  then have dirs1: "dirs_exist ?d1 dir" by (rule dirs_exist_add) auto
  then have dirs2: "dirs_exist ?d2 dir" by (rule dirs_exist_add) auto
  obtain e1 where b: "endpoint_bind P key (engine s) = (Ok (), e1)" "started P V room (public_of key) (engine s) e1"
    using starts_workD(1) [OF w off, of key] by (auto simp: started_def)
  let ?s1 = "s\<lparr>disk := ?d1\<rparr>" and ?s2 = "s\<lparr>disk := ?d1, engine := e1\<rparr>"
  have b1: "engine_call (endpoint_bind P key) ?s1 = (Ok (), ?s2)"
    using running_engine_call [where f = "endpoint_bind P key" and s = ?s1] s b(1) by simp
  have m1: "fs_create_dir_all (dir @ [IROH_SUBDIR]) ?s2 = (Ok (), ?s2\<lparr>disk := ?d2\<rparr>)"
    using run_mkdir [of ?s2 dir IROH_SUBDIR] s dirs1 st by (simp add: add_node_lookup startable_def)
  have m2: "fs_create_dir_all (app_storage_path dir) (?s2\<lparr>disk := ?d2\<rparr>) = (Ok (), ?s2\<lparr>disk := ?d3\<rparr>)"
    using run_mkdir [of "?s2\<lparr>disk := ?d2\<rparr>" dir APP_SUBDIR] s dirs2 st
    by (simp add: add_node_lookup startable_def app_storage_path_def start_disk_def)
  obtain e2 where c: "blobs_load P (dir @ [IROH_SUBDIR]) e1 = (Ok (), e2)" "same_device P V room e1 e2"
    using starts_workD(2) [OF w] by blast
  obtain e3 where d: "docs_persistent P (dir @ [IROH_SUBDIR]) e2 = (Ok (), e3)" "same_device P V room e2 e3"
    using starts_workD(3) [OF w] by blast
  have c1: "engine_call (blobs_load P (dir @ [IROH_SUBDIR])) (s\<lparr>engine := e1, disk := ?d3\<rparr>) = (Ok (), s\<lparr>disk := ?d3, engine := e2\<rparr>)"
    using running_engine_call [where f = "blobs_load P (dir @ [IROH_SUBDIR])" and s = "s\<lparr>engine := e1, disk := ?d3\<rparr>"] s c(1) by simp
  have d1: "engine_call (docs_persistent P (dir @ [IROH_SUBDIR])) (s\<lparr>disk := ?d3, engine := e2\<rparr>) = (Ok (), s\<lparr>disk := ?d3, engine := e3\<rparr>)"
    using running_engine_call [where f = "docs_persistent P (dir @ [IROH_SUBDIR])" and s = "s\<lparr>disk := ?d3, engine := e2\<rparr>"] s d(1) by simp
  have "shared_protocol_new P dir rng s = (Ok (app_storage_path dir), s\<lparr>disk := ?d3, engine := e3\<rparr>)"
    using run_secret_key [OF s st new] b1 m1 m2 c1 d1 by (simp add: shared_protocol_new_def Let_def andThen_eval)
  moreover have "started P V room (public_of key) (engine s) e3" using b(2) c(2) d(2) by (blast intro: started_same)
  ultimately show thesis by (rule that)
qed

text \<open>The claimer on disk, as \<open>MachineProtocol::new\<close> reads it.\<close>

definition claim_on_disk :: "'d platform \<Rightarrow> path \<Rightarrow> disk \<Rightarrow> endpoint_id option \<Rightarrow> bool" where
  "claim_on_disk P app_path d c \<longleftrightarrow> (case c of
       None \<Rightarrow> map_of d (manager_key_file app_path) = None
     | Some k \<Rightarrow> \<exists>b. map_of d (manager_key_file app_path) = Some (File b) \<and> utf8_valid b \<and> endpoint_from_json P b = Some k)"

lemma claim_on_disk_start:
  assumes "claim_on_disk P (app_storage_path dir) d c"
  shows "claim_on_disk P (app_storage_path dir) (start_disk dir key d) c"
proof -
  have "map_of (start_disk dir key d) (manager_key_file (app_storage_path dir)) = map_of d (manager_key_file (app_storage_path dir))"
    by (auto simp: start_disk_lookup app_storage_path_def)
  then show ?thesis using assms by (cases c) (simp_all add: claim_on_disk_def)
qed

lemma run_machine_new:
  fixes s :: "('d, 'c, 'z) machine_node_scheme"
  assumes w: "starts_work P V room dir public_of" and s: "running s" and off: "router_is_shutdown P (engine s)"
    and st: "startable dir key (disk s)" and new: "map_of (disk s) (dir @ [SECRET_KEY_FILE]) = None \<Longrightarrow> rng = key"
    and c: "claim_on_disk P (app_storage_path dir) (disk s) c"
  obtains d where "machine_protocol_new P dir rng s = (Ok (app_storage_path dir),
      s\<lparr>disk := start_disk dir key (disk s), engine := d, claimed_manager_pubkey := c\<rparr>)"
    "started P V room (public_of key) (engine s) d"
proof -
  obtain d0 where a: "shared_protocol_new P dir rng s = (Ok (app_storage_path dir), s\<lparr>disk := start_disk dir key (disk s), engine := d0\<rparr>)"
    "started P V room (public_of key) (engine s) d0" by (rule run_shared_new [OF w s off st new])
  let ?s = "s\<lparr>disk := start_disk dir key (disk s), engine := d0\<rparr>"
  have s0: "running ?s" using s by simp
  have c0: "claim_on_disk P (app_storage_path dir) (disk ?s) c" using claim_on_disk_start [OF c] by simp
  obtain d where d: "router_spawn P d0 = (Ok (), d)" "same_device P V room d0 d" using starts_workD(4) [OF w] by blast
  have "machine_protocol_new P dir rng s = (Ok (app_storage_path dir),
      s\<lparr>disk := start_disk dir key (disk s), engine := d, claimed_manager_pubkey := c\<rparr>)"
  proof (cases c)
    case None
    then have "fs_read_to_string (app_storage_path dir @ [MACHINE_MANAGER_PUBLIC_KEY_PATH]) ?s = (Err (Io NotFound), ?s)"
      using c0 by (intro running_read_missing [OF s0]) (simp add: claim_on_disk_def)
    then show ?thesis using a(1) d(1) None
      by (simp add: machine_protocol_new_def andThen_eval attempt_eval)
  next
    case (Some k)
    then obtain b where b: "map_of (disk ?s) (app_storage_path dir @ [MACHINE_MANAGER_PUBLIC_KEY_PATH]) = Some (File b)"
      "utf8_valid b" "endpoint_from_json P b = Some k" using c0 by (auto simp: claim_on_disk_def)
    show ?thesis using a(1) d(1) Some running_fs_read_to_string [OF s0 b(1,2)] b(3)
      by (simp add: machine_protocol_new_def andThen_eval attempt_eval)
  qed
  then show thesis using that started_same [OF a(2) d(2)] by blast
qed

lemma run_manager_new:
  fixes s :: "('d, 'z) node_scheme"
  assumes w: "starts_work P V room dir public_of" and s: "running s" and off: "router_is_shutdown P (engine s)"
    and st: "startable dir key (disk s)" and new: "map_of (disk s) (dir @ [SECRET_KEY_FILE]) = None \<Longrightarrow> rng = key"
    and t: "map_of (disk s) (machine_doc_ticket_path (app_storage_path dir)) \<in> {None, Some Dir}"
  obtains d where "manager_protocol_new P dir rng s = (Ok (app_storage_path dir),
      s\<lparr>engine := d, disk := add_node (machine_doc_ticket_path (app_storage_path dir)) Dir (start_disk dir key (disk s))\<rparr>)"
    "started P V room (public_of key) (engine s) d"
proof -
  obtain d0 where a: "shared_protocol_new P dir rng s = (Ok (app_storage_path dir), s\<lparr>disk := start_disk dir key (disk s), engine := d0\<rparr>)"
    "started P V room (public_of key) (engine s) d0" by (rule run_shared_new [OF w s off st new])
  obtain d where d: "router_spawn P d0 = (Ok (), d)" "same_device P V room d0 d" using starts_workD(4) [OF w] by blast
  let ?s = "s\<lparr>disk := start_disk dir key (disk s), engine := d\<rparr>"
  have "dirs_exist (start_disk dir key (disk s)) (app_storage_path dir)" by (rule start_disk_dirs [OF st])
  then have "fs_create_dir_all (machine_doc_ticket_path (app_storage_path dir)) ?s =
      (Ok (), ?s\<lparr>disk := add_node (machine_doc_ticket_path (app_storage_path dir)) Dir (start_disk dir key (disk s))\<rparr>)"
    using run_mkdir [of ?s "app_storage_path dir" MACHINE_DOC_TICKETS_SUBDIR] s t
    by (auto simp: machine_doc_ticket_path_def start_disk_lookup app_storage_path_def)
  then have "manager_protocol_new P dir rng s = (Ok (app_storage_path dir),
      s\<lparr>engine := d, disk := add_node (machine_doc_ticket_path (app_storage_path dir)) Dir (start_disk dir key (disk s))\<rparr>)"
    using a(1) d(1) by (simp add: manager_protocol_new_def andThen_eval)
  then show thesis using that started_same [OF a(2) d(2)] by blast
qed

section \<open>Stopping\<close>

lemma run_shutdown:
  fixes s :: "('d, 'z) node_scheme"
  assumes w: "starts_work P V room dir public_of" and s: "running s"
  shows "\<exists>d. machine_shutdown P s = (Ok (), s\<lparr>engine := d\<rparr>) \<and> manager_shutdown P s = (Ok (), s\<lparr>engine := d\<rparr>) \<and>
    same_store V (engine s) d \<and> room (engine s) \<le> room d \<and> endpoint_addr_of P d = endpoint_addr_of P (engine s) \<and> router_is_shutdown P d"
proof -
  obtain d0 where a: "router_shutdown P (engine s) = (Ok (), d0)" "same_store V (engine s) d0" "room (engine s) \<le> room d0"
    "endpoint_addr_of P d0 = endpoint_addr_of P (engine s)" "router_is_shutdown P d0"
    using starts_workD(5) [OF w] by blast
  obtain r1 d1 where b: "blobs_shutdown P d0 = (r1, d1)" "r1 = Ok () \<or> (\<exists>e. r1 = Err e)" "same_device P V room d0 d1"
    using starts_workD(6) [OF w] by blast
  obtain r2 d2 where c: "docs_shutdown P d1 = (r2, d2)" "r2 = Ok () \<or> (\<exists>e. r2 = Err e)" "same_device P V room d1 d2"
    using starts_workD(7) [OF w] by blast
  have ca: "engine_call (router_shutdown P) s = (Ok (), s\<lparr>engine := d0\<rparr>)"
    by (rule running_engine_call [where f = "router_shutdown P", OF s a(1)])
  have "engine_call (blobs_shutdown P) (s\<lparr>engine := d0\<rparr>) = (r1, s\<lparr>engine := d1\<rparr>)"
    using running_engine_call [where f = "blobs_shutdown P" and s = "s\<lparr>engine := d0\<rparr>"] s b(1) by simp
  then have cb: "ignore (engine_call (blobs_shutdown P)) (s\<lparr>engine := d0\<rparr>) = (Ok (), s\<lparr>engine := d1\<rparr>)"
    using b(2) by (auto simp: ignore_def andThen_def attempt_def ret_def)
  have "engine_call (docs_shutdown P) (s\<lparr>engine := d1\<rparr>) = (r2, s\<lparr>engine := d2\<rparr>)"
    using running_engine_call [where f = "docs_shutdown P" and s = "s\<lparr>engine := d1\<rparr>"] s c(1) by simp
  then have cc: "ignore (engine_call (docs_shutdown P)) (s\<lparr>engine := d1\<rparr>) = (Ok (), s\<lparr>engine := d2\<rparr>)"
    using c(2) by (auto simp: ignore_def andThen_def attempt_def ret_def)
  have "same_device P V room d0 d2" using b(3) c(3) by (rule same_device_trans)
  then have "same_store V (engine s) d2 \<and> room (engine s) \<le> room d2 \<and> endpoint_addr_of P d2 = endpoint_addr_of P (engine s) \<and> router_is_shutdown P d2"
    using a(2-5) by (auto simp: same_device_def intro: same_store_trans)
  then show ?thesis
    using ca cb cc by (intro exI [of _ d2]) (simp add: machine_shutdown_def manager_shutdown_def andThen_eval)
qed

section \<open>The first document\<close>

text \<open>What creating or importing a document does to an engine.\<close>

definition gained_doc :: "'d platform \<Rightarrow> ('d, 'v) docs_view_scheme \<Rightarrow> ('d \<Rightarrow> nat) \<Rightarrow> namespace_id \<Rightarrow> 'd \<Rightarrow> 'd \<Rightarrow> bool" where
  "gained_doc P V room ns d d' \<longleftrightarrow> author_of V d' = author_of V d \<and> known V d' ns \<and> (\<forall>a k. stored_of V d' ns a k = None) \<and>
     wrote_device P room d d'"

lemma gained_same: "gained_doc P V room ns d d' \<Longrightarrow> same_device P V room d' d'' \<Longrightarrow> gained_doc P V room ns d d''"
  by (auto simp: gained_doc_def wrote_device_def same_device_def same_store_def)

lemma run_first_doc:
  assumes w: "working_engine P V room" and s: "alive P s" and dirs: "dirs_exist (disk s) app_path" "app_path \<noteq> []"
    and new: "map_of (disk s) (app_path @ [MACHINE_DOC_TICKET_PATH]) = None"
  obtains ns d b t where "get_or_create_machine_doc P app_path s = (Ok ns, s\<lparr>engine := d,
      disk := AList.update (app_path @ [MACHINE_DOC_TICKET_PATH]) (File b) (disk s)\<rparr>)"
    "gained_doc P V room ns (engine s) d" "ticket_from_json P b = Some t" "utf8_valid b" "capability_id P (ticket_capability t) = ns"
proof -
  have r: "running s" by (rule alive_running [OF s])
  obtain ns d0 where c: "docs_create P (engine s) = (Ok ns, d0)" "wrote_device P room (engine s) d0"
    using working_engineD(4) [OF w] alive_up [OF s] unfolding writes_work_def by blast
  note law = docs_create_contract [OF working_engineD(1) [OF w] c(1)]
  have g: "gained_doc P V room ns (engine s) d0" using law(1,4) c(2) by (simp add: gained_doc_def)
  let ?s = "s\<lparr>engine := d0\<rparr>"
  have s0: "alive P ?s" by (rule alive_wrote [OF s c(2)])
  have up: "\<not> router_is_shutdown P d0" using alive_up [OF s0] by simp
  obtain t d where x: "doc_share P ns ShareWrite AddrId d0 = (Ok t, d)" "same_device P V room d0 d" "ticket_to_json P t \<noteq> None"
    using working_engineD(3) [OF w] up g unfolding reads_work_def gained_doc_def by blast
  obtain b where b: "ticket_to_json P t = Some b" using x(3) by blast
  have tb: "ticket_from_json P b = Some t" "utf8_valid b" using codec_contractD(2) [OF working_engineD(2) [OF w] b] by simp_all
  have "creates_document P app_path s ns d (AList.update (app_path @ [MACHINE_DOC_TICKET_PATH]) (File b) (disk s))"
    using dirs new c(1) x(1) b by (auto simp: creates_document_def)
  from running_create_doc [OF r this] show thesis by (rule that [OF _ gained_same [OF g x(2)] tb])
       (rule doc_share_contract(2) [OF working_engineD(1) [OF w] x(1) refl])
qed

end
