(* ===== verification/Further_Facts.thy ===== *)
theory Further_Facts
  imports Examples_Path Reference_Working Settled_Start
begin

text \<open>
  Facts about single operations that the properties of the root theory do not repeat.
\<close>

text \<open>
  A manager that connects to a machine claimed by another one is turned away with the reason
  already_claimed: nothing is written to the disk or the document, no request reaches the
  user, and the handler reports success (unless it is aborted).
\<close>

lemma machine_refuses_others:
  assumes "claimed_manager_pubkey s = Some k" and "remote_id conn \<noteq> k" and "awaits_left s = None"
  shows "accept_claim P app_path conn s =
    (Ok (), s\<lparr>conn_log := conn_log s @ [(remote_id conn, ConnClosed ''already_claimed'')]\<rparr>)"
  using assms by (simp add: accept_claim_def lock_claimed_def await_def andThen_def log_event_def)

text \<open>
  Writing a payment to the document stores it when it returns Ok, keeps every payment that was
  already stored (also when it fails or is aborted), and leaves the machine's document usable.
\<close>

lemma payment_write_effects:
  assumes "docs_contract P V" and "codec_contract P" and "machine_ready P V app_path ns s"
    and "write_payment_to_machine_doc P app_path fid cc s = (r, s')"
  shows "(r = Ok () \<longrightarrow> payment_stored P V ns fid cc s') \<and> machine_ready P V app_path ns s' \<and>
    (payment_stored P V ns fid' cc' s \<longrightarrow> payment_stored P V ns fid' cc' s')"
  using write_payment_stores [OF assms(1-3)] write_payment_keeps [OF assms] write_payment_ready(1) [OF assms(1,3,4)] assms(4)
  by blast

text \<open>
  On the machine, a value that was set under a key is what a later read of that key returns,
  with the key stripped of its prefix and the machine as its author (when no other device has
  written the key with a timestamp at or after the machine's clock).
\<close>

lemma machine_kv_read_back:
  assumes "docs_contract P V" and "machine_ready P V app_path ns s"
    and "clock_ahead V (engine s) ns (kv_full_key k)"
    and "machine_set_kv_value P app_path k v s = (Ok (), s1)"
    and "machine_get_kv_value P app_path k s1 = (Ok e, s2)"
  shows "\<exists>t. e = Some \<lparr>kv_key = k, kv_value = v, kv_author = Machine, kv_timestamp = t\<rparr>"
  by (rule machine_kv.get_after_put [OF _ assms(3-5)]) (simp add: machine_kv_inv_def assms(1,2))

text \<open>
  On the manager, a value that was set under a key of a machine is what a later read of that
  key returns, with the key stripped of its prefix and the manager as its author (under the
  same condition on the clock).
\<close>

lemma manager_kv_read_back:
  assumes "docs_contract P V" and "manager_doc P V app_path m ns s"
    and "clock_ahead V (engine s) ns (kv_full_key k)"
    and "manager_set_kv_value P app_path m k v s = (Ok (), s1)"
    and "manager_get_kv_value P app_path m k s1 = (Ok e, s2)"
  shows "\<exists>t. e = Some \<lparr>kv_key = k, kv_value = v, kv_author = Manager, kv_timestamp = t\<rparr>"
  by (rule manager_kv.get_after_put [OF _ assms(3-5)]) (simp add: manager_kv_inv_def assms(1,2))

text \<open>
  The three kinds of document keys never overlap: no key/value key, whatever the caller chose,
  extends or is extended by the configuration key or by the key of a payment, so that neither
  a prefix query nor a prefix deletion of one kind reaches another.
\<close>

lemma key_spaces_apart:
  "\<not> prefix (kv_full_key k) (contract_key_of x) \<and> \<not> prefix (contract_key_of x) (kv_full_key k) \<and>
   \<not> prefix (kv_full_key k) MACHINE_CONFIG_KEY \<and> \<not> prefix MACHINE_CONFIG_KEY (kv_full_key k) \<and>
   \<not> prefix (contract_key_of x) MACHINE_CONFIG_KEY \<and> \<not> prefix MACHINE_CONFIG_KEY (contract_key_of x) \<and>
   prefix CLAIMABLE_CONTRACT_PREFIX (contract_key_of x) \<and> \<not> prefix CLAIMABLE_CONTRACT_PREFIX (kv_full_key k) \<and>
   prefix KV_PREFIX (kv_full_key k) \<and> \<not> prefix KV_PREFIX (contract_key_of x)"
proof (intro conjI)
  show "prefix CLAIMABLE_CONTRACT_PREFIX (contract_key_of x)"
    by (simp add: contract_key_of_def split: prod.split federation_id.split contract_id.split)
  show "prefix KV_PREFIX (kv_full_key k)" by (simp add: kv_full_key_def)
qed (rule key_spaces_disjoint)+

text \<open>
  Two PINs are displayed alike only when they are equal, so that comparing what the two
  devices show compares the PINs.
\<close>

lemma display_pin_injective:
  "display_pin p = display_pin q \<longleftrightarrow> p = q"
  using pin_display.encode_inj [of p q] by blast

text \<open>
  What a start makes of the key file: a claim is there only if the file holds it, and a file
  that is readable and holds a key is a claim unless the read fails.
\<close>

lemma machine_new_claim:
  assumes run: "machine_protocol_new P dir rng s = (Ok p, s')"
  obtains r s1 s2 where "shared_protocol_new P dir rng s = (Ok p, s1)" "p = app_storage_path dir"
    "fs_read_to_string (manager_key_file p) s1 = (r, s2)" "disk s' = disk s2"
    "(\<exists>b. r = Ok b \<and> claimed_manager_pubkey s' = endpoint_from_json P b) \<or> (\<exists>e. r = Err e \<and> claimed_manager_pubkey s' = None)"
proof -
  obtain s1 where sh: "shared_protocol_new P dir rng s = (Ok p, s1)"
    using run by (auto simp: machine_protocol_new_def andThen_Ok_iff Let_def)
  obtain r s2 where rd: "fs_read_to_string (manager_key_file p) s1 = (r, s2)" by force
  from run sh rd have "disk s' = disk s2 \<and>
    ((\<exists>b. r = Ok b \<and> claimed_manager_pubkey s' = endpoint_from_json P b) \<or> (\<exists>e. r = Err e \<and> claimed_manager_pubkey s' = None))"
    by (cases r) (auto simp: machine_protocol_new_def Let_def andThen_def attempt_def split: prod.splits res.splits)
  then show thesis by (intro that [OF sh shared_new_path [OF sh] rd]) simp_all
qed

definition script_done :: "('d, 'z) node_scheme \<Rightarrow> bool" where
  "script_done s \<longleftrightarrow> io_script s = []"

lemma script_done_stable: "stable script_done" "disk_free script_done"
  by (auto simp: stable_def disk_free_def script_done_def)

lemma script_done_shared: "preserves script_done (shared_protocol_new P storage_path rng)"
  unfolding shared_protocol_new_def load_or_create_secret_key_def Let_def
  by (intro preserves_andThen preserves_attempt preserves_case_sum preserves_unwrap preserves_ret
      preserves_fs script_done_stable preserves_engine_call) (simp_all add: script_done_def)

lemma machine_new_restores:
  assumes run: "machine_protocol_new P dir rng s = (Ok p, s')"
  shows "case claimed_manager_pubkey s' of
      Some k \<Rightarrow> \<exists>b. map_of (disk s') (manager_key_file p) = Some (File b) \<and> utf8_valid b \<and> endpoint_from_json P b = Some k
    | None \<Rightarrow> \<forall>b. io_script s = [] \<longrightarrow> map_of (disk s') (manager_key_file p) = Some (File b) \<longrightarrow> utf8_valid b \<longrightarrow>
        endpoint_from_json P b = None"
proof -
  obtain r s1 s2 where a: "shared_protocol_new P dir rng s = (Ok p, s1)"
    "fs_read_to_string (manager_key_file p) s1 = (r, s2)" "disk s' = disk s2"
    "(\<exists>b. r = Ok b \<and> claimed_manager_pubkey s' = endpoint_from_json P b) \<or> (\<exists>e. r = Err e \<and> claimed_manager_pubkey s' = None)"
    using machine_new_claim [OF run] by metis
  have d: "disk s2 = disk s1" using fs_read_to_string_frame [OF a(2)] by simp
  show ?thesis
  proof (cases "\<exists>b. r = Ok b")
    case True
    then show ?thesis using a d by (auto split: option.split dest!: fs_read_to_string_OkD)
  next
    case False
    then have n: "claimed_manager_pubkey s' = None" "\<exists>e. r = Err e" using a(4) by auto
    have "False" if "io_script s = []" and "map_of (disk s') (manager_key_file p) = Some (File b)" and "utf8_valid b" for b
    proof -
      have "script_done s1" by (rule preservesD [OF script_done_shared _ a(1)]) (simp add: script_done_def that(1))
      then have "fst (fs_read_to_string (manager_key_file p) s1) \<in> {Ok b, Cancelled}"
        using that(2,3) a(3) d
        by (auto simp: script_done_def fs_read_to_string_def fs_read_def fs_op_def await_def next_io_def andThen_def read_op_def ret_def
            split: option.split nat.split)
      then show False using n(2) a(2) by auto
    qed
    then show ?thesis using n by auto
  qed
qed

lemma machine_new_path: "machine_protocol_new P dir rng s = (Ok p, s') \<Longrightarrow> p = app_storage_path dir"
  using machine_new_claim by metis

section \<open>A machine that starts again\<close>

definition ex_halted :: "(ref_docs, ref_client) machine_node" where
  "ex_halted = ex_claimed\<lparr>engine := ex_docs\<lparr>rd_shut := True\<rparr>, claimed_manager_pubkey := None\<rparr>"

definition ex_restarted :: "(ref_docs, ref_client) machine_node" where
  "ex_restarted = snd (machine_protocol_new ref_platform [''s''] (small_hash 9) ex_halted)"

lemma ex_app_path: "app_storage_path [''s''] = ex_app"
  by (simp add: app_storage_path_def APP_SUBDIR_def ex_app_def)

lemma ex_restart_run:
  shows "machine_protocol_new ref_platform [''s''] (small_hash 9) ex_halted = (Ok ex_app, ex_restarted)"
    and "claimed_manager_pubkey ex_restarted = Some (EndpointId 7)"
proof -
  have s: "running ex_halted" "router_is_shutdown ref_platform (engine ex_halted)"
    by (simp_all add: running_def ex_halted_def ex_claimed_def ex_machine_def ref_platform_def ex_docs_def)
  have st: "startable [''s''] (small_hash 9) (disk ex_halted)"
    by (auto simp: startable_def ex_halted_def ex_claimed_def ex_machine_def dirs_exist_def is_dir_def prefix_Cons ex_app_def
        app_storage_path_def APP_SUBDIR_def SECRET_KEY_FILE_def IROH_SUBDIR_def MACHINE_DOC_TICKET_PATH_def
        MACHINE_MANAGER_PUBLIC_KEY_PATH_def)
  have c: "claim_on_disk ref_platform (app_storage_path [''s'']) (disk ex_halted) (Some (EndpointId 7))"
    unfolding ex_app_path claim_on_disk_def
    by (simp add: ex_halted_def ex_claimed_def ex_machine_def ex_app_def MACHINE_DOC_TICKET_PATH_def
        MACHINE_MANAGER_PUBLIC_KEY_PATH_def utf8_unary_json)
       (simp add: ref_platform_def)
  obtain d where "machine_protocol_new ref_platform [''s''] (small_hash 9) ex_halted = (Ok (app_storage_path [''s'']),
      ex_halted\<lparr>disk := start_disk [''s''] (small_hash 9) (disk ex_halted), engine := d, claimed_manager_pubkey := Some (EndpointId 7)\<rparr>)"
    by (rule run_machine_new [OF ref_starts_work s st _ c]) simp
  then show "machine_protocol_new ref_platform [''s''] (small_hash 9) ex_halted = (Ok ex_app, ex_restarted)"
    and "claimed_manager_pubkey ex_restarted = Some (EndpointId 7)"
    by (simp_all add: ex_restarted_def ex_app_path)
qed

section \<open>A machine that has no document yet\<close>

definition ex_blank :: "(ref_docs, ref_client) machine_node" where
  "ex_blank = ex_machine\<lparr>disk := [([''s''], Dir), (ex_app, Dir)], engine := ex_docs\<lparr>rd_known := []\<rparr>\<rparr>"

lemma ex_blank_runs: "running ex_blank" "claimed_manager_pubkey ex_blank = None" "cooperates ex_conn"
  "\<not> is_dir (disk ex_blank) (manager_key_file ex_app)"
  by (simp_all add: running_def ex_blank_def ex_machine_def cooperates_def ex_conn_def is_dir_def ex_app_def
      MACHINE_MANAGER_PUBLIC_KEY_PATH_def)

lemma ex_blank_creates: "opens_document ref_platform ref_view ex_app ex_blank (NamespaceId 1) ex_docs (disk ex_machine)"
proof -
  have "docs_create ref_platform (engine ex_blank) = (Ok (NamespaceId 1), ex_docs)"
    by (simp add: ref_platform_def ex_blank_def ex_docs_def rd_fresh_def Let_def)
  moreover have "doc_share ref_platform (NamespaceId 1) ShareWrite AddrId ex_docs = (Ok \<lparr>ticket_capability = CapWrite 1, ticket_nodes = []\<rparr>, ex_docs)"
    by (simp add: ref_platform_def ex_docs_def)
  moreover have "ticket_to_json ref_platform \<lparr>ticket_capability = CapWrite 1, ticket_nodes = []\<rparr> = Some ex_ticket"
    by (simp add: ref_platform_def rd_ticket_json_def ex_ticket_def)
  moreover have "disk ex_machine = AList.update (ex_app @ [MACHINE_DOC_TICKET_PATH]) (File ex_ticket) (disk ex_blank)"
    "map_of (disk ex_blank) (ex_app @ [MACHINE_DOC_TICKET_PATH]) = None" "dirs_exist (disk ex_blank) ex_app" "ex_app \<noteq> []"
    by (auto simp: ex_blank_def ex_machine_def ex_app_def MACHINE_DOC_TICKET_PATH_def dirs_exist_def is_dir_def prefix_Cons)
  ultimately show ?thesis unfolding opens_document_def creates_document_def by blast
qed

lemma ex_blank_shares:
  "doc_share ref_platform (NamespaceId 1) ShareWrite RelayAndAddresses ex_docs = (Ok \<lparr>ticket_capability = CapWrite 1, ticket_nodes = []\<rparr>, ex_docs)"
  "endpoint_to_json ref_platform (EndpointId 7) = Some (unary_json 7)"
  "ticket_to_json ref_platform \<lparr>ticket_capability = CapWrite 1, ticket_nodes = []\<rparr> = Some ex_ticket"
  by (simp_all add: ref_platform_def ex_docs_def rd_ticket_json_def ex_ticket_def)

end
