(* ===== verification/Wallet_Owners.thy ===== *)
theory Wallet_Owners
  imports Wallet
begin

text \<open>
  Every client is stored under the federation it is a client of. Which federation that is, the
  client API decides: a client that joins with an invite code is a client of the code's
  federation, and one that is opened from a database is a client of the federation whose
  database it is. The wallet must therefore keep the databases apart on disk, each in the
  directory named by its federation, over any sequence of operations, each failing, panicking
  or aborted anywhere, with any disk errors, and over restarts.
\<close>

datatype wallet_op =
    Start network mnemonic
  | ConnectJoined root_secret
  | SetDefault root_secret invite_code
  | GetDefault
  | Leave federation_id
  | ClaimPubkey federation_id
  | Receive federation_id public_key "64 word" "32 word" string "string option"
  | AwaitFinal operation_id
  | LocalBalance
  | SweepNotes federation_id nat bool string
  | GetClaimable federation_id public_key "nat option"
  | RemoveClaimed federation_id "contract_id list"
  | ClaimContracts federation_id "claimable_contract list"

fun wallet_op_prog :: "'c fedimint \<Rightarrow> path \<Rightarrow> wallet_op \<Rightarrow> (('d, 'c, 'z) wallet_node_scheme, unit) prog" where
  "wallet_op_prog F dir (Start net mn) = andThen (wallet_new F dir net mn) (\<lambda>_. ret ())"
| "wallet_op_prog F dir (ConnectJoined rs) = connect_to_joined_federations F rs dir"
| "wallet_op_prog F dir (SetDefault rs code) = set_default_federation F rs dir code"
| "wallet_op_prog F dir GetDefault = andThen (get_default_federation F dir) (\<lambda>_. ret ())"
| "wallet_op_prog F dir (Leave fid) = leave_federation F dir fid"
| "wallet_op_prog F dir (ClaimPubkey fid) = andThen (get_lnv2_claim_pubkey F fid) (\<lambda>_. ret ())"
| "wallet_op_prog F dir (Receive fid pk amount expiry desc gw) = andThen (wallet_receive_payment F fid pk amount expiry desc gw) (\<lambda>_. ret ())"
| "wallet_op_prog F dir (AwaitFinal op) = andThen (wallet_await_receive_payment_final_state F op) (\<lambda>_. ret ())"
| "wallet_op_prog F dir LocalBalance = andThen (get_local_balance F) (\<lambda>_. ret ())"
| "wallet_op_prog F dir (SweepNotes fid n b meta) = andThen (sweep_all_ecash_notes F fid n b meta) (\<lambda>_. ret ())"
| "wallet_op_prog F dir (GetClaimable fid pk lim) = andThen (wallet_get_claimable_contracts F fid pk lim) (\<lambda>_. ret ())"
| "wallet_op_prog F dir (RemoveClaimed fid ids) = remove_claimed_contracts F fid ids"
| "wallet_op_prog F dir (ClaimContracts fid cs) = claim_contracts F fid cs"

text \<open>Every operation runs until it ends or is aborted, and the disk may fail anywhere.\<close>

inductive wallet_reach ::
    "'c fedimint \<Rightarrow> path \<Rightarrow> ('d, 'c, 'z) wallet_node_scheme \<Rightarrow> ('d, 'c, 'z) wallet_node_scheme \<Rightarrow> bool" for F dir s0 where
  start: "wallet_reach F dir s0 s0"
| run: "wallet_reach F dir s0 s \<Longrightarrow> wallet_op_prog F dir p (s\<lparr>awaits_left := n, io_script := os\<rparr>) = (r, s') \<Longrightarrow>
    wallet_reach F dir s0 s'"

section \<open>Whose client it is\<close>

text \<open>
  \<open>owner c\<close> is the federation of a client and \<open>fed_of db d\<close> the federation whose database the
  directory \<open>db\<close> holds. The laws: a database consists of the files below its directory, and
  files that are missing can only make it no database; opening a database touches only this
  database, a client that is opened belongs to the database's federation, one that joins
  belongs to the federation of the invite code; and a client never changes its federation.
\<close>

definition touches_only :: "path \<Rightarrow> (disk \<Rightarrow> 'a res \<times> disk) \<Rightarrow> bool" where
  "touches_only db f \<longleftrightarrow>
     (\<forall>d q. \<not> prefix db q \<longrightarrow> \<not> prefix q db \<longrightarrow> map_of (snd (f d)) q = map_of d q)"

definition database_typing ::
    "'c fedimint \<Rightarrow> ('c \<Rightarrow> federation_id) \<Rightarrow> (path \<Rightarrow> disk \<Rightarrow> federation_id option) \<Rightarrow> bool" where
  "database_typing F owner fed_of \<longleftrightarrow>
     (\<forall>db d d'. (\<forall>q. strict_prefix db q \<longrightarrow> map_of d' q \<in> {None, map_of d q}) \<longrightarrow> fed_of db d' \<in> {None, fed_of db d}) \<and>
     (\<forall>db. touches_only db (rocksdb_open F db)) \<and>
     (\<forall>db d. fed_of db (snd (rocksdb_open F db d)) \<in> {None, fed_of db d}) \<and>
     (\<forall>db rs. touches_only db (client_open F db rs)) \<and>
     (\<forall>db rs d. fed_of db (snd (client_open F db rs d)) \<in> {None, fed_of db d}) \<and>
     (\<forall>db rs d c. fst (client_open F db rs d) = Ok c \<longrightarrow> fed_of db d = Some (owner c)) \<and>
     (\<forall>code db rs. touches_only db (client_join F code db rs)) \<and>
     (\<forall>code db rs d. fed_of db (snd (client_join F code db rs d)) \<in> {None, fed_of db d, Some (invite_id F code)}) \<and>
     (\<forall>code db rs d c. fst (client_join F code db rs d) = Ok c \<longrightarrow> owner c = invite_id F code)"

definition calls_keep_owner :: "'c fedimint \<Rightarrow> ('c \<Rightarrow> federation_id) \<Rightarrow> bool" where
  "calls_keep_owner F owner \<longleftrightarrow>
     (\<forall>pk a e desc gw c. owner (snd (ln_remote_receive F pk a e desc gw c)) = owner c) \<and>
     (\<forall>op c. owner (snd (ln_await_remote_receive F op c)) = owner c) \<and>
     (\<forall>ids c. owner (ln_remove_claimed F ids c) = owner c) \<and>
     (\<forall>ccs c. owner (snd (ln_claim F ccs c)) = owner c) \<and>
     (\<forall>a n b meta c. owner (snd (mint_spend_exact F a n b meta c)) = owner c)"

definition client_typing ::
    "'c fedimint \<Rightarrow> ('c \<Rightarrow> federation_id) \<Rightarrow> (path \<Rightarrow> disk \<Rightarrow> federation_id option) \<Rightarrow> bool" where
  "client_typing F owner fed_of \<longleftrightarrow>
     database_typing F owner fed_of \<and> calls_keep_owner F owner \<and> inj (fid_to_string F)"

lemma client_typingD:
  assumes "client_typing F owner fed_of"
  shows "(\<And>q. strict_prefix db q \<Longrightarrow> map_of d' q \<in> {None, map_of d q}) \<Longrightarrow> fed_of db d' \<in> {None, fed_of db d}"
    and "touches_only db (rocksdb_open F db)" and "fed_of db (snd (rocksdb_open F db d)) \<in> {None, fed_of db d}"
    and "touches_only db (client_open F db rs)" and "fed_of db (snd (client_open F db rs d)) \<in> {None, fed_of db d}"
    and "fst (client_open F db rs d) = Ok c \<Longrightarrow> fed_of db d = Some (owner c)"
    and "touches_only db (client_join F code db rs)"
    and "fed_of db (snd (client_join F code db rs d)) \<in> {None, fed_of db d, Some (invite_id F code)}"
    and "fst (client_join F code db rs d) = Ok c \<Longrightarrow> owner c = invite_id F code"
    and "calls_keep_owner F owner" and "fid_to_string F fid = fid_to_string F fid' \<longleftrightarrow> fid = fid'"
  using assms by (auto simp: client_typing_def database_typing_def inj_eq)

section \<open>The invariant\<close>

definition owned :: "('c \<Rightarrow> federation_id) \<Rightarrow> (federation_id \<times> 'c) list \<Rightarrow> bool" where
  "owned owner cs \<longleftrightarrow> (\<forall>(fid, c) \<in> set cs. owner c = fid)"

text \<open>Every database in the data directory is the one of the federation that names it.\<close>

definition databases_apart ::
    "'c fedimint \<Rightarrow> (path \<Rightarrow> disk \<Rightarrow> federation_id option) \<Rightarrow> path \<Rightarrow> disk \<Rightarrow> bool" where
  "databases_apart F fed_of dir d \<longleftrightarrow> (\<forall>fid. fed_of (dir @ [fid_to_string F fid]) d \<in> {None, Some fid})"

definition wallet_typed ::
    "'c fedimint \<Rightarrow> ('c \<Rightarrow> federation_id) \<Rightarrow> (path \<Rightarrow> disk \<Rightarrow> federation_id option) \<Rightarrow> path \<Rightarrow>
     ('d, 'c, 'z) wallet_node_scheme \<Rightarrow> bool" where
  "wallet_typed F owner fed_of dir s \<longleftrightarrow> owned owner (clients s) \<and> databases_apart F fed_of dir (disk s)"

lemma stable_wallet_typed: "stable (wallet_typed F owner fed_of dir)"
  by (simp add: stable_def wallet_typed_def)

lemma owned_map_of: "owned owner cs \<Longrightarrow> map_of cs fid = Some c \<Longrightarrow> owner c = fid"
  by (auto simp: owned_def dest: map_of_SomeD)

lemma owned_update: "owned owner cs \<Longrightarrow> owner c = fid \<Longrightarrow> owned owner (AList.update fid c cs)"
proof (induction cs)
  case (Cons x cs)
  then show ?case by (cases x) (auto simp: owned_def)
qed (simp add: owned_def)

lemma owned_delete: "owned owner cs \<Longrightarrow> owned owner (AList.delete fid cs)"
  by (auto simp: owned_def AList.delete_eq)

text \<open>What only loses files below the directories of the data directory keeps the databases apart.\<close>

lemma databases_apart_less:
  assumes t: "client_typing F owner fed_of" and a: "databases_apart F fed_of dir d"
    and less: "\<And>n q. strict_prefix (dir @ [n]) q \<Longrightarrow> map_of d' q \<in> {None, map_of d q}"
  shows "databases_apart F fed_of dir d'"
  unfolding databases_apart_def
proof
  fix fid
  let ?db = "dir @ [fid_to_string F fid]"
  have "fed_of ?db d' \<in> {None, fed_of ?db d}" by (rule client_typingD(1) [OF t less])
  then show "fed_of ?db d' \<in> {None, Some fid}" using a by (auto simp: databases_apart_def dest: spec [of _ fid])
qed

lemma databases_apart_call:
  assumes t: "client_typing F owner fed_of" and a: "databases_apart F fed_of dir d"
    and only: "touches_only (dir @ [fid_to_string F fid]) f"
    and own: "fed_of (dir @ [fid_to_string F fid]) (snd (f d)) \<in> {None, fed_of (dir @ [fid_to_string F fid]) d, Some fid}"
  shows "databases_apart F fed_of dir (snd (f d))"
  unfolding databases_apart_def
proof
  fix g
  show "fed_of (dir @ [fid_to_string F g]) (snd (f d)) \<in> {None, Some g}"
  proof (cases "g = fid")
    case True
    then show ?thesis using own a by (auto simp: databases_apart_def dest: spec [of _ fid])
  next
    case False
    then have n: "fid_to_string F g \<noteq> fid_to_string F fid" by (simp add: client_typingD(11) [OF t])
    have "map_of (snd (f d)) q = map_of d q" if "strict_prefix (dir @ [fid_to_string F g]) q" for q
    proof -
      have "\<not> prefix (dir @ [fid_to_string F fid]) q" "\<not> prefix q (dir @ [fid_to_string F fid])"
        using that n by (auto simp: strict_prefix_def prefix_def)
      then show ?thesis using only unfolding touches_only_def by blast
    qed
    then have "fed_of (dir @ [fid_to_string F g]) (snd (f d)) \<in> {None, fed_of (dir @ [fid_to_string F g]) d}"
      by (intro client_typingD(1) [OF t]) simp
    then show ?thesis using a by (auto simp: databases_apart_def dest: spec [of _ g])
  qed
qed

section \<open>The operations keep it\<close>

lemma typed_fs_op:
  assumes t: "client_typing F owner fed_of"
    and less: "\<And>x d r d' k q. f x d = (r, d') \<Longrightarrow> strict_prefix (dir @ [k]) q \<Longrightarrow> map_of d' q \<in> {None, map_of d q}"
  shows "preserves (wallet_typed F owner fed_of dir) (fs_op f)"
proof (rule preserves_fs_op [OF stable_wallet_typed])
  fix s x r d
  assume i: "wallet_typed F owner fed_of dir s" and run: "f x (disk s) = (r, d)"
  have "databases_apart F fed_of dir d"
    by (rule databases_apart_less [OF t _ less [OF run]]) (use i in \<open>simp add: wallet_typed_def\<close>)
  then show "wallet_typed F owner fed_of dir (s\<lparr>disk := d\<rparr>)" using i by (simp add: wallet_typed_def)
qed

lemma strictly_below: "strict_prefix (dir @ [k]) q \<Longrightarrow> q \<noteq> dir @ [n] \<and> \<not> prefix q dir"
  by (auto simp: strict_prefix_def prefix_def)

lemma typed_write: "client_typing F owner fed_of \<Longrightarrow> preserves (wallet_typed F owner fed_of dir) (fs_write (dir @ [n]) b)"
  unfolding fs_write_def
proof (rule typed_fs_op)
  fix x d r d' k q
  assume run: "write_op (dir @ [n]) b x d = (r, d')" and q: "strict_prefix (dir @ [k]) q"
  have "q \<noteq> dir @ [n]" using strictly_below [OF q, of n] by simp
  with run show "map_of d' q \<in> {None, map_of d q}" by (auto elim!: write_op_cases simp: update_conv)
qed

lemma typed_create_dir: "client_typing F owner fed_of \<Longrightarrow> preserves (wallet_typed F owner fed_of dir) (fs_create_dir_all dir)"
  unfolding fs_create_dir_all_def
proof (rule typed_fs_op)
  fix x d r d' k q
  assume run: "create_dir_all_op dir x d = (r, d')" and s: "strict_prefix (dir @ [k]) q"
  have q: "q \<notin> set (tl (prefixes dir))" using strictly_below [OF s] set_tl_prefixes [of q dir] by blast
  then have "q \<notin> set (take m (tl (prefixes dir)))" for m by (meson in_set_takeD)
  with q have "map_of (snd (create_dir_all_op dir x d)) q = map_of d q"
    by (simp add: create_dir_all_op_def mkdirs_other split: io_outcome.split)
  then show "map_of d' q \<in> {None, map_of d q}" using run by simp
qed

lemma remove_dir_lookup: "map_of (filter (\<lambda>(q, _). \<not> prefix p q) d) q = (if prefix p q then None else map_of d q)"
  by (induction d) auto

lemma typed_remove_dir: "client_typing F owner fed_of \<Longrightarrow> preserves (wallet_typed F owner fed_of dir) (fs_remove_dir_all p)"
  unfolding fs_remove_dir_all_def
  by (rule typed_fs_op) (auto simp: remove_dir_all_op_def remove_dir_lookup split: if_splits)

lemma typed_reads:
  assumes "client_typing F owner fed_of"
  shows "preserves (wallet_typed F owner fed_of dir) (fs_read p)"
    and "preserves (wallet_typed F owner fed_of dir) (fs_read_to_string p)"
    and "preserves (wallet_typed F owner fed_of dir) (fs_read_dir p)"
    and "preserves (wallet_typed F owner fed_of dir) fs_next_entry"
    and "preserves (wallet_typed F owner fed_of dir) (fs_try_exists p)"
  unfolding fs_read_to_string_def fs_read_def fs_read_dir_def fs_next_entry_def fs_try_exists_def
  by (intro preserves_andThen preserves_if preserves_ret preserves_fail typed_fs_op [OF assms];
      auto simp: read_op_def read_dir_op_def split: if_splits io_outcome.splits)+

lemma typed_disk_call:
  assumes t: "client_typing F owner fed_of" and only: "touches_only (dir @ [fid_to_string F fid]) f"
    and own: "\<And>d. fed_of (dir @ [fid_to_string F fid]) (snd (f d)) \<in> {None, fed_of (dir @ [fid_to_string F fid]) d, Some fid}"
  shows "preserves (wallet_typed F owner fed_of dir) (disk_call f)"
  unfolding disk_call_def
proof (intro preserves_await stable_wallet_typed preservesI)
  fix s r s'
  assume i: "wallet_typed F owner fed_of dir s" and run: "(case f (disk s) of (r, d) \<Rightarrow> (r, s\<lparr>disk := d\<rparr>)) = (r, s')"
  have "databases_apart F fed_of dir (snd (f (disk s)))"
    using i by (intro databases_apart_call [OF t _ only own]) (simp add: wallet_typed_def)
  then show "wallet_typed F owner fed_of dir s'" using i run by (auto simp: wallet_typed_def split: prod.splits)
qed

lemma triple_Ok:
  assumes "preserves I p" and "\<And>s x s'. I s \<Longrightarrow> p s = (Ok x, s') \<Longrightarrow> Q x"
  shows "triple I p (\<lambda>x s. I s \<and> Q x) I"
  using assms by (intro tripleI) (auto dest: preservesD)

lemma typed_opened:
  assumes t: "client_typing F owner fed_of"
  shows "triple (wallet_typed F owner fed_of dir) (disk_call (client_open F (dir @ [fid_to_string F fid]) rs))
    (\<lambda>c s. wallet_typed F owner fed_of dir s \<and> owner c = fid) (wallet_typed F owner fed_of dir)"
proof (rule triple_Ok)
  show "preserves (wallet_typed F owner fed_of dir) (disk_call (client_open F (dir @ [fid_to_string F fid]) rs))"
    by (rule typed_disk_call [OF t client_typingD(4) [OF t]]) (use client_typingD(5) [OF t] in blast)
  show "owner c = fid" if i: "wallet_typed F owner fed_of dir s"
    and run: "disk_call (client_open F (dir @ [fid_to_string F fid]) rs) s = (Ok c, s')" for s c s'
  proof -
    have "fst (client_open F (dir @ [fid_to_string F fid]) rs (disk s)) = Ok c"
      using run by (auto simp: disk_call_def await_Ok split: prod.splits)
    then have "fed_of (dir @ [fid_to_string F fid]) (disk s) = Some (owner c)" by (rule client_typingD(6) [OF t])
    then show ?thesis using i by (auto simp: wallet_typed_def databases_apart_def dest: spec [of _ fid])
  qed
qed

lemma typed_joined:
  assumes t: "client_typing F owner fed_of"
  shows "triple (wallet_typed F owner fed_of dir)
    (disk_call (client_join F code (dir @ [fid_to_string F (invite_id F code)]) rs))
    (\<lambda>c s. wallet_typed F owner fed_of dir s \<and> owner c = invite_id F code) (wallet_typed F owner fed_of dir)"
proof (rule triple_Ok)
  show "preserves (wallet_typed F owner fed_of dir) (disk_call (client_join F code (dir @ [fid_to_string F (invite_id F code)]) rs))"
    by (rule typed_disk_call [OF t client_typingD(7) [OF t]]) (use client_typingD(8) [OF t] in blast)
  show "owner c = invite_id F code"
    if "disk_call (client_join F code (dir @ [fid_to_string F (invite_id F code)]) rs) s = (Ok c, s')" for s c s'
  proof -
    have "fst (client_join F code (dir @ [fid_to_string F (invite_id F code)]) rs (disk s)) = Ok c"
      using that by (auto simp: disk_call_def await_Ok split: prod.splits)
    then show ?thesis by (rule client_typingD(9) [OF t])
  qed
qed

lemma typed_observe: "preserves (wallet_typed F owner fed_of dir) (await (\<lambda>s. (Ok (g s), s)))"
  by (intro preserves_await stable_wallet_typed preserves_observe)

lemma typed_peer: "preserves (wallet_typed F owner fed_of dir) (await (lift_res z))"
  by (intro preserves_await stable_wallet_typed preserves_lift_res)

text \<open>A client that is built for a federation's directory is a client of this federation.\<close>

lemma typed_built:
  assumes t: "client_typing F owner fed_of"
  shows "triple (wallet_typed F owner fed_of dir) (build_client_from_federation_id F rs fid' (dir @ [fid_to_string F fid]))
      (\<lambda>c s. wallet_typed F owner fed_of dir s \<and> owner c = fid) (wallet_typed F owner fed_of dir)"
    and "triple (wallet_typed F owner fed_of dir) (build_client_from_invite_code F rs code (dir @ [fid_to_string F (invite_id F code)]))
      (\<lambda>c s. wallet_typed F owner fed_of dir s \<and> owner c = invite_id F code) (wallet_typed F owner fed_of dir)"
  unfolding build_client_from_federation_id_def build_client_from_invite_code_def build_client_connectors_def
  by (rule triple_andThen, rule triple_preserves [OF typed_observe], assumption,
      rule triple_andThen, rule triple_preserves [OF typed_peer], assumption,
      rule triple_andThen, rule triple_preserves [OF typed_peer], assumption, rule triple_if,
      rule typed_opened [OF t], (rule triple_fail, assumption)?,
      (rule triple_andThen, rule triple_preserves [OF typed_peer], assumption, rule typed_joined [OF t])?)+

text \<open>Changes of the clients.\<close>

lemma typed_insert: "owner c = fid \<Longrightarrow> preserves (wallet_typed F owner fed_of dir) (insert_client fid c)"
  by (auto simp: preserves_def insert_client_def wallet_typed_def owned_update)

lemma typed_forget: "preserves (wallet_typed F owner fed_of dir) (\<lambda>s. (Ok (), s\<lparr>clients := []\<rparr>))"
  by (auto simp: preserves_def wallet_typed_def owned_def)

lemma typed_client_call:
  assumes "owner c = fid" and "owner (snd (f c)) = owner c"
  shows "preserves (wallet_typed F owner fed_of dir) (client_call fid c f)"
  using assms unfolding client_call_def
  by (intro preserves_await stable_wallet_typed) (auto simp: preserves_def wallet_typed_def owned_update split: prod.splits)

lemma typed_suspend: "preserves (wallet_typed F owner fed_of dir) (await (ret u))"
  by (intro preserves_await stable_wallet_typed preserves_ret)

lemma typed_unwrap: "preserves (wallet_typed F owner fed_of dir) (await (unwrap z))"
  by (intro preserves_await stable_wallet_typed preserves_unwrap)

lemma typed_locks:
  "preserves (wallet_typed F owner fed_of dir) lock_data_dir" "preserves (wallet_typed F owner fed_of dir) force_update_view"
  unfolding lock_data_dir_def force_update_view_def by (intro preserves_andThen typed_suspend)+

text \<open>What is read under the lock, and what is taken out, is owned by its key.\<close>

lemma typed_lock_clients:
  "triple (wallet_typed F owner fed_of dir) lock_clients
     (\<lambda>cs s. wallet_typed F owner fed_of dir s \<and> owned owner cs) (wallet_typed F owner fed_of dir)"
  unfolding lock_clients_def
  by (rule triple_Ok [OF typed_observe]) (auto simp: await_Ok wallet_typed_def)

lemma typed_take:
  "triple (wallet_typed F owner fed_of dir) (take_client fid)
     (\<lambda>c s. wallet_typed F owner fed_of dir s \<and> (\<forall>x. c = Some x \<longrightarrow> owner x = fid)) (wallet_typed F owner fed_of dir)"
  by (rule triple_Ok)
     (auto simp: preserves_def take_client_def wallet_typed_def owned_delete dest: owned_map_of)

text \<open>An operation that may rely on what it read.\<close>

lemma preserves_option_eq:
  "(z = None \<Longrightarrow> preserves I p) \<Longrightarrow> (\<And>x. z = Some x \<Longrightarrow> preserves I (q x)) \<Longrightarrow>
   preserves I (case z of None \<Rightarrow> p | Some x \<Rightarrow> q x)"
  by (cases z) simp_all

lemma preserves_seq:
  assumes "triple I m (\<lambda>x s. I s \<and> Q x) I" and "\<And>x. Q x \<Longrightarrow> preserves I (f x)"
  shows "preserves I (andThen m f)"
proof (rule preservesI)
  fix s r s' assume I: "I s" and run: "andThen m f s = (r, s')"
  obtain r1 s1 where m: "m s = (r1, s1)" by force
  from tripleD [OF assms(1) I m] show "I s'"
  proof (elim disjE exE conjE)
    fix x assume "r1 = Ok x" and "I s1" and "Q x"
    then show ?thesis using run m preservesD [OF assms(2)] by (simp add: andThen_eval)
  next
    assume "\<forall>x. r1 \<noteq> Ok x" and "I s1"
    then show ?thesis using run m by (cases r1) (auto simp: andThen_eval)
  qed
qed

lemma typed_require: "preserves (wallet_typed F owner fed_of dir) (require_module b)"
  by (simp add: require_module_def preserves_ret preserves_panic)

lemmas typed_rules = preserves_andThen preserves_ret preserves_fail preserves_panic preserves_unwrap preserves_ok_or
  preserves_if preserves_for_each preserves_for_fold
  typed_locks typed_suspend typed_unwrap typed_observe typed_require typed_forget

section \<open>Every operation\<close>

lemma typed_connect:
  assumes t: "client_typing F owner fed_of"
  shows "preserves (wallet_typed F owner fed_of dir) (connect_one F rs dir fid)"
proof -
  let ?db = "dir @ [fid_to_string F fid]"
  have "preserves (wallet_typed F owner fed_of dir) (disk_call (rocksdb_open F ?db))"
    by (rule typed_disk_call [OF t client_typingD(2) [OF t]]) (use client_typingD(3) [OF t] in blast)
  moreover have "preserves (wallet_typed F owner fed_of dir)
      (andThen (build_client_from_federation_id F rs fid ?db) (\<lambda>client. insert_client fid client))"
    by (rule preserves_seq [OF typed_built(1) [OF t]]) (rule typed_insert)
  ultimately have "preserves (wallet_typed F owner fed_of dir) (andThen (disk_call (rocksdb_open F ?db)) (\<lambda>_.
      andThen (build_client_from_federation_id F rs fid ?db) (\<lambda>client. insert_client fid client)))"
    by (rule preserves_andThen)
  from preservesD [OF this] show ?thesis
    by (intro preservesI) (auto simp: connect_one_def Let_def split: if_splits)
qed

lemma typed_connect_all:
  assumes t: "client_typing F owner fed_of"
  shows "preserves (wallet_typed F owner fed_of dir) (connect_to_joined_federations F rs dir)"
  unfolding connect_to_joined_federations_def list_federation_def
  by (intro typed_rules typed_reads [OF t] typed_connect [OF t] preserves_seq [OF typed_lock_clients])

lemma typed_set_default:
  assumes t: "client_typing F owner fed_of"
  shows "preserves (wallet_typed F owner fed_of dir) (set_default_federation F rs dir code)"
proof -
  let ?db = "dir @ [fid_to_string F (invite_id F code)]"
  have db: "preserves (wallet_typed F owner fed_of dir) (disk_call (rocksdb_open F ?db))"
    by (rule typed_disk_call [OF t client_typingD(2) [OF t]]) (use client_typingD(3) [OF t] in blast)
  have join: "preserves (wallet_typed F owner fed_of dir) (andThen (build_client_from_invite_code F rs code ?db)
      (\<lambda>client. andThen lock_clients (\<lambda>_. andThen (insert_client (invite_id F code) client) (\<lambda>_. force_update_view))))"
    by (rule preserves_seq [OF typed_built(2) [OF t]])
       (intro preserves_seq [OF typed_lock_clients] preserves_andThen typed_insert typed_locks)
  show ?thesis
    unfolding set_default_federation_def Let_def
    by (intro db join typed_rules preserves_path_is_dir stable_wallet_typed typed_write [OF t])
qed

lemma typed_get_default:
  assumes t: "client_typing F owner fed_of"
  shows "preserves (wallet_typed F owner fed_of dir) (get_default_federation F data_dir)"
  unfolding get_default_federation_def Let_def
  by (intro typed_rules preserves_case_option typed_reads [OF t] preserves_path_exists stable_wallet_typed)

lemma typed_leave:
  assumes t: "client_typing F owner fed_of"
  shows "preserves (wallet_typed F owner fed_of dir) (leave_federation F data_dir fid)"
  unfolding leave_federation_def Let_def
  by (intro preserves_seq [OF typed_lock_clients] preserves_seq [OF typed_take] preserves_option_eq typed_rules
      preserves_path_is_dir stable_wallet_typed typed_remove_dir [OF t] typed_insert) simp_all

lemma typed_found:
  "triple (wallet_typed F owner fed_of dir) (ok_or e z)
     (\<lambda>x s. wallet_typed F owner fed_of dir s \<and> z = Some x) (wallet_typed F owner fed_of dir)"
  by (rule triple_Ok [OF preserves_ok_or]) (cases z; simp add: ok_or_def)

lemma typed_calls:
  assumes t: "client_typing F owner fed_of" and c: "owner c = fid"
  shows "preserves (wallet_typed F owner fed_of dir) (client_call fid c (ln_remote_receive F pk a e desc gw))"
    and "preserves (wallet_typed F owner fed_of dir) (client_call fid c (ln_await_remote_receive F op))"
    and "preserves (wallet_typed F owner fed_of dir) (client_call fid c (\<lambda>c. (Ok (), ln_remove_claimed F ids c)))"
    and "preserves (wallet_typed F owner fed_of dir) (client_call fid c (ln_claim F ccs))"
    and "preserves (wallet_typed F owner fed_of dir) (client_call fid c (mint_spend_exact F amount n b meta))"
  using client_typingD(10) [OF t] by (intro typed_client_call [where owner = owner, OF c]; simp add: calls_keep_owner_def)+

lemma typed_await_operation:
  assumes t: "client_typing F owner fed_of" and "owned owner cs"
  shows "preserves (wallet_typed F owner fed_of dir) (await_operation F op cs)"
  using assms(2)
proof (induction cs)
  case (Cons x cs)
  obtain fid c where x: "x = (fid, c)" by force
  have "owner c = fid" and "owned owner cs" using Cons.prems x by (simp_all add: owned_def)
  then show ?case unfolding x await_operation.simps
    by (intro typed_rules typed_calls [OF t] Cons.IH)
qed (simp add: preserves_fail)

lemma typed_payments:
  assumes t: "client_typing F owner fed_of"
  shows "preserves (wallet_typed F owner fed_of dir) (wallet_receive_payment F fid pk amount expiry desc gw)"
    and "preserves (wallet_typed F owner fed_of dir) (sweep_all_ecash_notes F fid n b meta)"
    and "preserves (wallet_typed F owner fed_of dir) (remove_claimed_contracts F fid ids)"
    and "preserves (wallet_typed F owner fed_of dir) (claim_contracts F fid contracts)"
    and "preserves (wallet_typed F owner fed_of dir) (wallet_await_receive_payment_final_state F op)"
  unfolding wallet_receive_payment_def sweep_all_ecash_notes_def remove_claimed_contracts_def claim_contracts_def
    wallet_await_receive_payment_final_state_def
  by (intro preserves_seq [OF typed_lock_clients] preserves_seq [OF typed_found] preserves_option_eq typed_rules
      typed_calls [OF t] typed_await_operation [OF t]; auto dest: owned_map_of)+

lemma typed_views:
  "preserves (wallet_typed F owner fed_of dir) (get_lnv2_claim_pubkey F fid)"
  "preserves (wallet_typed F owner fed_of dir) (get_local_balance F)"
  "preserves (wallet_typed F owner fed_of dir) (wallet_get_claimable_contracts F fid pk lim)"
  unfolding get_lnv2_claim_pubkey_def get_local_balance_def wallet_get_claimable_contracts_def
  by (intro preserves_seq [OF typed_lock_clients] preserves_case_option preserves_case_prod typed_rules)+

lemma typed_new:
  assumes t: "client_typing F owner fed_of"
  shows "preserves (wallet_typed F owner fed_of dir) (wallet_new F dir net mn)"
  unfolding wallet_new_def get_root_secret_def Let_def
  by (intro typed_rules typed_create_dir [OF t] typed_reads [OF t] typed_write [OF t] typed_connect_all [OF t])

lemma typed_op:
  assumes t: "client_typing F owner fed_of"
  shows "preserves (wallet_typed F owner fed_of dir) (wallet_op_prog F dir p)"
  by (cases p) (simp_all add: preserves_andThen preserves_ret typed_new [OF t] typed_connect_all [OF t]
    typed_set_default [OF t] typed_get_default [OF t] typed_leave [OF t] typed_views typed_payments [OF t])

lemma wallet_reach_typed:
  assumes "client_typing F owner fed_of" and "wallet_reach F dir s0 s" and "wallet_typed F owner fed_of dir s0"
  shows "wallet_typed F owner fed_of dir s"
  using assms(2,3)
proof (induction rule: wallet_reach.induct)
  case (run s p script n r s')
  have "wallet_typed F owner fed_of dir (s\<lparr>awaits_left := n, io_script := script\<rparr>)"
    using run.IH run.prems by (simp add: wallet_typed_def)
  then show ?case using run.hyps(2) by (rule preservesD [OF typed_op [OF assms(1)]])
qed

end
