(* ===== verification/Reference_Owners.thy ===== *)
theory Reference_Owners
  imports Wallet_Owners Reference_Wallet Liveness
begin

text \<open>
  A small federation client that knows its federation, and keeps it in its database: on it the
  laws of \<open>client_typing\<close> hold. A federation's directory is named by the bytes of its id, and
  the database file \<open>CURRENT\<close> holds the id. It stands for no code of the repository.
\<close>

record owned_client =
  oc_owner :: federation_id
  oc_balance :: "64 word"

definition oc_name :: "federation_id \<Rightarrow> string" where
  "oc_name fid = map (\<lambda>b. char_of (unat b)) (bytes_of_hash (fid_hash fid))"

definition oc_id_of_name :: "string \<Rightarrow> federation_id option" where
  "oc_id_of_name s = map_option FederationId (to_hash32 (map (\<lambda>c. of_nat (of_char c)) s))"

definition oc_fed_of :: "path \<Rightarrow> disk \<Rightarrow> federation_id option" where
  "oc_fed_of db d = (case map_of d (db @ [''CURRENT'']) of
       Some (File b) \<Rightarrow> map_option FederationId (to_hash32 b)
     | _ \<Rightarrow> None)"

definition owned_fedimint :: "owned_client fedimint" where
  "owned_fedimint = \<lparr>
     fid_to_string = oc_name,
     fid_from_string = oc_id_of_name,
     invite_id = invite_id ref_fedimint,
     invite_to_string = invite_to_string ref_fedimint,
     invite_from_string = invite_from_string ref_fedimint,
     rocksdb_open = rc_open,
     client_is_initialized = (\<lambda>db d. oc_fed_of db d \<noteq> None),
     client_builder = Ok (),
     client_connectors = Ok (),
     client_open = (\<lambda>db rs d. (case oc_fed_of db d of
         Some fid \<Rightarrow> Ok \<lparr>oc_owner = fid, oc_balance = 0\<rparr> | None \<Rightarrow> Err External, d)),
     client_preview = (\<lambda>_. Ok ()),
     client_join = (\<lambda>code db rs d. (Ok \<lparr>oc_owner = invite_id ref_fedimint code, oc_balance = 0\<rparr>,
         AList.update (db @ [''CURRENT'']) (File (bytes_of_hash (fid_hash (invite_id ref_fedimint code)))) d)),
     client_name = (\<lambda>_. None),
     client_balance = (\<lambda>c. Some (oc_balance c)),
     amount_add = amount_add ref_fedimint,
     has_lightning = (\<lambda>_. True),
     has_mint = (\<lambda>_. True),
     ln_public_key = (\<lambda>_. PublicKey 1),
     ln_remote_receive = (\<lambda>_ _ _ _ _ c. (Ok (Bolt11Invoice 1, OperationId 1), c)),
     operation_exists = (\<lambda>op _. op = OperationId 1),
     ln_await_remote_receive = (\<lambda>_ c. (Ok (FinalState 1), c)),
     ln_claimable = (\<lambda>_ _ _. []),
     ln_remove_claimed = (\<lambda>_ c. c),
     ln_claim = (\<lambda>ccs c. (Ok (), c\<lparr>oc_balance := oc_balance c + of_nat (length ccs)\<rparr>)),
     mint_total = oc_balance,
     mint_spend_exact = (\<lambda>a _ _ _ c. (Ok (OOBNotes (unat a)), c\<lparr>oc_balance := 0\<rparr>)),
     network_to_string = network_to_string ref_fedimint,
     mnemonic_to_string = mnemonic_to_string ref_fedimint,
     mnemonic_from_string = mnemonic_from_string ref_fedimint,
     xpriv_new_master = xpriv_new_master ref_fedimint,
     xpriv_network = xpriv_network ref_fedimint,
     xpriv_derive_hardened = xpriv_derive_hardened ref_fedimint,
     entropy_root_secret = entropy_root_secret ref_fedimint\<rparr>"

lemma owned_fedimint_sel:
  "fid_to_string owned_fedimint = oc_name" "rocksdb_open owned_fedimint = rc_open"
  "client_is_initialized owned_fedimint = (\<lambda>db d. oc_fed_of db d \<noteq> None)"
  "client_builder owned_fedimint = Ok ()" "client_connectors owned_fedimint = Ok ()" "client_preview owned_fedimint code = Ok ()"
  "invite_id owned_fedimint = invite_id ref_fedimint" "invite_to_string owned_fedimint = invite_to_string ref_fedimint"
  "client_join owned_fedimint code db rs d = (Ok \<lparr>oc_owner = invite_id ref_fedimint code, oc_balance = 0\<rparr>,
     AList.update (db @ [''CURRENT'']) (File (bytes_of_hash (fid_hash (invite_id ref_fedimint code)))) d)"
  "client_open owned_fedimint db rs d = (case oc_fed_of db d of
     Some fid \<Rightarrow> Ok \<lparr>oc_owner = fid, oc_balance = 0\<rparr> | None \<Rightarrow> Err External, d)"
  by (simp_all add: owned_fedimint_def)

lemma oc_name_inj: "inj oc_name"
proof (rule injI)
  fix f g assume e: "oc_name f = oc_name g"
  have "map of_char (oc_name h) = map unat (bytes_of_hash (fid_hash h))" for h
  proof -
    have "unat b mod 256 = unat b" for b :: byte using unsigned_less [where 'a = nat, of b] by simp
    then show ?thesis by (simp add: oc_name_def comp_def)
  qed
  then have "map unat (bytes_of_hash (fid_hash f)) = map unat (bytes_of_hash (fid_hash g))" using e by metis
  then have "bytes_of_hash (fid_hash f) = bytes_of_hash (fid_hash g)" by (simp add: map_injective word_unat_eq_iff inj_def)
  then show "f = g" by (simp add: bytes_of_hash_inject fid_hash_inj)
qed

lemma oc_fed_of_open: "oc_fed_of db (snd (rc_open db d)) = oc_fed_of db d"
  by (simp add: oc_fed_of_def rc_open_def update_conv split: option.split fs_node.split)

lemma oc_fed_of_join: "oc_fed_of db (AList.update (db @ [''CURRENT'']) (File (bytes_of_hash (fid_hash fid))) d) = Some fid"
  by (cases fid) (simp add: oc_fed_of_def update_conv fid_hash_def)

lemma owned_client_typing: "client_typing owned_fedimint oc_owner oc_fed_of"
  unfolding client_typing_def database_typing_def
proof (intro conjI allI impI)
  show "oc_fed_of db d' \<in> {None, oc_fed_of db d}"
    if "\<forall>q. strict_prefix db q \<longrightarrow> map_of d' q \<in> {None, map_of d q}" for db d d'
    using that [THEN spec, of "db @ [''CURRENT'']"] by (auto simp: oc_fed_of_def strict_prefix_def)
  show "touches_only db (rocksdb_open owned_fedimint db)" for db
    by (auto simp: touches_only_def owned_fedimint_sel rc_open_def update_conv split: option.split fs_node.split)
  show "oc_fed_of db (snd (rocksdb_open owned_fedimint db d)) \<in> {None, oc_fed_of db d}" for db d
    by (simp add: owned_fedimint_sel oc_fed_of_open)
  show "touches_only db (client_open owned_fedimint db rs)" for db rs
    by (simp add: touches_only_def owned_fedimint_sel)
  show "oc_fed_of db (snd (client_open owned_fedimint db rs d)) \<in> {None, oc_fed_of db d}" for db rs d
    by (simp add: owned_fedimint_sel)
  show "oc_fed_of db d = Some (oc_owner c)" if "fst (client_open owned_fedimint db rs d) = Ok c" for db rs d c
    using that by (auto simp: owned_fedimint_sel split: option.splits)
  show "touches_only db (client_join owned_fedimint code db rs)" for code db rs
    by (auto simp: touches_only_def owned_fedimint_sel update_conv)
  show "oc_fed_of db (snd (client_join owned_fedimint code db rs d)) \<in> {None, oc_fed_of db d, Some (invite_id owned_fedimint code)}"
    for code db rs d by (simp add: owned_fedimint_sel oc_fed_of_join)
  show "oc_owner c = invite_id owned_fedimint code" if "fst (client_join owned_fedimint code db rs d) = Ok c" for code db rs d c
    using that by (auto simp: owned_fedimint_sel)
  show "calls_keep_owner owned_fedimint oc_owner" by (simp add: calls_keep_owner_def owned_fedimint_def)
  show "inj (fid_to_string owned_fedimint)" by (simp add: owned_fedimint_sel oc_name_inj)
qed

section \<open>A wallet that joins a federation\<close>

definition oc_dir :: path where "oc_dir = [''w'']"

definition oc_start :: "(unit, owned_client) wallet_node" where
  "oc_start = \<lparr>awaits_left = None, io_script = [], disk = [(oc_dir, Dir)], engine = (), clients = []\<rparr>"

definition oc_fid :: federation_id where "oc_fid = FederationId (small_hash 4)"

definition oc_db :: path where "oc_db = oc_dir @ [oc_name oc_fid]"

definition oc_joined :: "(unit, owned_client) wallet_node" where
  "oc_joined = oc_start\<lparr>
     disk := [(oc_dir, Dir), (oc_db, Dir), (oc_db @ [''CURRENT''], File (bytes_of_hash (small_hash 4))),
       (oc_dir @ [DEFAULT_FEDERATION_PATH], File (unary_json 4))],
     clients := [(oc_fid, \<lparr>oc_owner = oc_fid, oc_balance = 0\<rparr>)]\<rparr>"

lemma oc_name_not_file: "oc_name fid \<noteq> DEFAULT_FEDERATION_PATH"
proof
  assume "oc_name fid = DEFAULT_FEDERATION_PATH"
  then have "length (oc_name fid) = length DEFAULT_FEDERATION_PATH" by simp
  then show False by (simp add: oc_name_def DEFAULT_FEDERATION_PATH_def)
qed

lemma oc_start_typed: "wallet_typed owned_fedimint oc_owner oc_fed_of oc_dir oc_start"
  by (simp add: wallet_typed_def owned_def databases_apart_def oc_start_def oc_fed_of_def oc_dir_def)

lemma oc_joins: "set_default_federation owned_fedimint (RootSecret 0) oc_dir (InviteCode 4) oc_start = (Ok (), oc_joined)"
proof -
  let ?s1 = "oc_start\<lparr>disk := [(oc_dir, Dir), (oc_db, Dir)]\<rparr>"
  let ?s2 = "oc_start\<lparr>disk := [(oc_dir, Dir), (oc_db, Dir), (oc_db @ [''CURRENT''], File (bytes_of_hash (small_hash 4)))]\<rparr>"
  let ?c = "\<lparr>oc_owner = oc_fid, oc_balance = 0\<rparr>"
  let ?s3 = "?s2\<lparr>clients := [(oc_fid, ?c)]\<rparr>"
  have id: "invite_id ref_fedimint (InviteCode 4) = oc_fid" "invite_to_string ref_fedimint (InviteCode 4) = unary_json 4"
    by (simp_all add: ref_fedimint_def oc_fid_def)
  have r: "running oc_start" "running ?s1" "running ?s2" "running ?s3" by (simp_all add: running_def oc_start_def)
  have d: "path_is_dir oc_db oc_start = (Ok False, oc_start)"
    by (simp add: path_is_dir_def next_io_def andThen_def ret_def oc_start_def oc_db_def oc_dir_def is_dir_def)
  have o: "disk_call (rc_open oc_db) oc_start = (Ok (), ?s1)"
    by (simp add: disk_call_def running_await [OF r(1)]) (simp add: rc_open_def oc_start_def oc_db_def oc_dir_def is_dir_def)
  have b: "build_client_from_invite_code owned_fedimint (RootSecret 0) (InviteCode 4) oc_db ?s1 = (Ok ?c, ?s2)"
    by (simp add: build_client_from_invite_code_def build_client_connectors_def andThen_eval disk_call_def running_await [OF r(2)]
        lift_res_def owned_fedimint_sel id)
       (simp add: oc_fed_of_def oc_db_def oc_dir_def oc_fid_def fid_hash_def)
  have i: "insert_client oc_fid ?c ?s2 = (Ok (), ?s3)" by (simp add: insert_client_def oc_start_def)
  have w: "fs_write (oc_dir @ [DEFAULT_FEDERATION_PATH]) (unary_json 4) ?s3 = (Ok (), oc_joined)"
    using running_fs_write [OF r(4), of oc_dir DEFAULT_FEDERATION_PATH "unary_json 4"] oc_name_not_file [of oc_fid]
    by (simp add: is_dir_def oc_db_def oc_dir_def oc_joined_def)
  show ?thesis
    by (simp add: set_default_federation_def Let_def owned_fedimint_sel id oc_db_def [symmetric] lock_data_dir_def
        lock_clients_def force_update_view_def andThen_def running_await [OF r(1)] running_await [OF r(3)] running_await [OF r(4)]
        d o b i w ret_def)
qed

lemma oc_reach: "wallet_reach owned_fedimint oc_dir oc_start oc_joined"
proof (rule wallet_reach.run [OF wallet_reach.start, where p = "SetDefault (RootSecret 0) (InviteCode 4)" and n = None and os = "[]"])
  have "oc_start\<lparr>awaits_left := None, io_script := []\<rparr> = oc_start" by (simp add: oc_start_def)
  then show "wallet_op_prog owned_fedimint oc_dir (SetDefault (RootSecret 0) (InviteCode 4))
      (oc_start\<lparr>awaits_left := None, io_script := []\<rparr>) = (Ok (), oc_joined)"
    by (simp add: oc_joins)
qed

end
