(* ===== verification/Test_Bench.thy ===== *)
theory Test_Bench
  imports Machine_Protocol Manager_Protocol "HOL-Library.List_Lexorder"
begin

text \<open>
  The bench of the integration tests in \<open>vendimint_iroh/mod.rs\<close>: devices with their storage
  directories, claims on their way from a manager to a machine, and documents that two
  devices share. A test is a program over the bench; a failed assertion is a panic. While a
  test sleeps, the claim handlers and tasks whose users have answered run to their end, and
  every two devices that share a document exchange it. What is not in the repository is the
  record \<open>lab\<close>: iroh, the directories and keys of the devices, the keying material of a
  connection, what a manager sees of a connection the machine closed, the exchange of two
  document engines, the order of a \<open>HashMap\<close>, and the values the tests parse.
\<close>

section \<open>The bench\<close>

record session =
  ses_number :: nat
  ses_machine :: nat
  ses_manager :: nat
  ses_dialed :: endpoint_id
  ses_shown :: bool
  machine_answer :: "bool option"
  manager_answer :: "bool option"

record ('d, 'c) bench =
  bench_machine :: "nat \<Rightarrow> ('d, 'c) machine_node"
  bench_manager :: "nat \<Rightarrow> 'd node"
  machines_made :: nat
  managers_made :: nat
  sessions :: "session list"
  sessions_made :: nat
  links :: "(nat \<times> nat) list"

record 'd lab =
  lab_platform :: "'d platform"
  lab_dir :: path
  lab_machine_key :: "nat \<Rightarrow> hash32"
  lab_manager_key :: "nat \<Rightarrow> hash32"
  lab_redraw :: "nat \<Rightarrow> hash32"
  lab_keying :: "nat \<Rightarrow> string \<Rightarrow> bytes \<Rightarrow> hash32"
  lab_closed :: outgoing_connection
  lab_exchange :: "'d \<Rightarrow> 'd \<Rightarrow> 'd \<times> 'd"
  lab_order :: "nat list \<Rightarrow> nat list"
  lab_iter :: "(endpoint_id \<times> (federation_id \<times> claimable_contract) list) list \<Rightarrow>
    (endpoint_id \<times> (federation_id \<times> claimable_contract) list) list"
  lab_federation :: federation_id
  lab_contract :: claimable_contract
  lab_invite :: invite_code
  lab_public_key :: public_key
  lab_other_public_key :: public_key
  lab_dummy_id :: endpoint_id

definition lab_app :: "'d lab \<Rightarrow> path" where
  "lab_app L = app_storage_path (lab_dir L)"

definition on_machine :: "nat \<Rightarrow> (('d, 'c) machine_node, 'a) prog \<Rightarrow> (('d, 'c) bench, 'a) prog" where
  "on_machine i m = (\<lambda>x. case m (bench_machine x i) of (r, s) \<Rightarrow> (r, x\<lparr>bench_machine := (bench_machine x)(i := s)\<rparr>))"

definition on_manager :: "nat \<Rightarrow> ('d node, 'a) prog \<Rightarrow> (('d, 'c) bench, 'a) prog" where
  "on_manager j m = (\<lambda>x. case m (bench_manager x j) of (r, s) \<Rightarrow> (r, x\<lparr>bench_manager := (bench_manager x)(j := s)\<rparr>))"

definition asks :: "(('d, 'c) bench \<Rightarrow> 'a) \<Rightarrow> (('d, 'c) bench, 'a) prog" where
  "asks f = (\<lambda>x. (Ok (f x), x))"

text \<open>\<open>assert!\<close> and \<open>assert_eq!\<close>, \<open>unwrap\<close> on a \<open>Result\<close>, and \<open>context\<close>.\<close>

definition check :: "bool \<Rightarrow> ('s, unit) prog" where
  "check b = (if b then ret () else panic)"

definition expect_ok :: "('s, 'a) prog \<Rightarrow> ('s, 'a) prog" where
  "expect_ok m = andThen (attempt m) (\<lambda>r. case r of Inl _ \<Rightarrow> panic | Inr y \<Rightarrow> ret y)"

definition with_context :: "string \<Rightarrow> ('s, 'a) prog \<Rightarrow> ('s, 'a) prog" where
  "with_context msg m = (\<lambda>x. case m x of (Err _, y) \<Rightarrow> (Err (Message msg), y) | z \<Rightarrow> z)"

definition for_map :: "('b \<Rightarrow> ('s, 'a) prog) \<Rightarrow> 'b list \<Rightarrow> ('s, 'a list) prog" where
  "for_map f xs = for_fold (\<lambda>ys x. andThen (f x) (\<lambda>y. ret (ys @ [y]))) [] xs"

text \<open>Byte-string literals.\<close>

definition ascii :: "string \<Rightarrow> bytes" where
  "ascii s = map of_char s"

section \<open>Devices\<close>

text \<open>A new directory is that of the next device.\<close>

definition machine_tempdir :: "(('d, 'c) bench, nat) prog" where
  "machine_tempdir = (\<lambda>x. (Ok (machines_made x), x\<lparr>machines_made := Suc (machines_made x)\<rparr>))"

definition manager_tempdir :: "(('d, 'c) bench, nat) prog" where
  "manager_tempdir = (\<lambda>x. (Ok (managers_made x), x\<lparr>managers_made := Suc (managers_made x)\<rparr>))"

definition new_machine :: "'d lab \<Rightarrow> nat \<Rightarrow> (('d, 'c) bench, unit) prog" where
  "new_machine L i = andThen (on_machine i (machine_protocol_new (lab_platform L) (lab_dir L) (lab_machine_key L i))) (\<lambda>_. ret ())"

definition new_manager :: "'d lab \<Rightarrow> nat \<Rightarrow> (('d, 'c) bench, unit) prog" where
  "new_manager L j = andThen (on_manager j (manager_protocol_new (lab_platform L) (lab_dir L) (lab_manager_key L j))) (\<lambda>_. ret ())"

text \<open>
  A device that is started again in its directory: \<open>new\<close> is the same, the random key it would
  make if it found none is another one.
\<close>

definition restart_machine :: "'d lab \<Rightarrow> nat \<Rightarrow> (('d, 'c) bench, unit) prog" where
  "restart_machine L i = andThen (on_machine i (machine_protocol_new (lab_platform L) (lab_dir L) (lab_redraw L i))) (\<lambda>_. ret ())"

definition restart_manager :: "'d lab \<Rightarrow> nat \<Rightarrow> (('d, 'c) bench, unit) prog" where
  "restart_manager L j = andThen (on_manager j (manager_protocol_new (lab_platform L) (lab_dir L) (lab_redraw L j))) (\<lambda>_. ret ())"

definition machine_addr :: "'d lab \<Rightarrow> ('d, 'c) bench \<Rightarrow> nat \<Rightarrow> endpoint_addr" where
  "machine_addr L x i = endpoint_addr_of (lab_platform L) (engine (bench_machine x i))"

definition manager_public_key :: "'d lab \<Rightarrow> ('d, 'c) bench \<Rightarrow> nat \<Rightarrow> endpoint_id" where
  "manager_public_key L x j = addr_id (endpoint_addr_of (lab_platform L) (engine (bench_manager x j)))"

section \<open>Claims under way\<close>

text \<open>\<open>ManagerProtocol::claim_machine\<close>: the task it spawns waits for the manager's answer.\<close>

definition start_claim :: "'d lab \<Rightarrow> nat \<Rightarrow> nat \<Rightarrow> endpoint_addr \<Rightarrow> (('d, 'c) bench, claim_pin \<times> nat) prog" where
  "start_claim L j i addr =
     andThen (asks sessions_made) (\<lambda>n.
     andThen (on_manager j (claim_machine ((lab_closed L)\<lparr>out_connect := Ok (), out_exporter := lab_keying L n\<rparr>))) (\<lambda>pin.
     andThen (\<lambda>x. (Ok (), x\<lparr>sessions_made := Suc n, sessions := sessions x @ [\<lparr>ses_number = n, ses_machine = i, ses_manager = j,
        ses_dialed = addr_id addr, ses_shown = False, machine_answer = None, manager_answer = None\<rparr>]\<rparr>)) (\<lambda>_.
     ret (pin, n))))"

definition update_session :: "nat \<Rightarrow> (session \<Rightarrow> session) \<Rightarrow> ('d, 'c) bench \<Rightarrow> ('d, 'c) bench" where
  "update_session n f x = x\<lparr>sessions := map (\<lambda>c. if ses_number c = n then f c else c) (sessions x)\<rparr>"

text \<open>
  The machine's end of a connection: a manager that declines opens no stream.
\<close>

definition machine_end :: "'d lab \<Rightarrow> ('d, 'c) bench \<Rightarrow> session \<Rightarrow> connection" where
  "machine_end L x c = \<lparr>remote_id = manager_public_key L x (ses_manager c), exporter = lab_keying L (ses_number c),
     request_channel = Ok (), decision = machine_answer c,
     accept_bi = (if manager_answer c = Some True then Ok () else Err External),
     recv_read_to_end = (\<lambda>_. Ok PING_MAGIC_BYTES), send_write_all = Ok (), send_finish = Ok (), send_stopped = Ok (),
     send_shutdown = Ok ()\<rparr>"

text \<open>
  What the handler of a connection asks the machine's user: \<open>accept_claim\<close> runs up to the
  await of the user's answer, its third, and the PIN is the one it has sent by then. A handler
  that ends without asking shows none.
\<close>

definition pins_sent :: "(endpoint_id \<times> conn_event) list \<Rightarrow> claim_pin list" where
  "pins_sent log = concat (map (\<lambda>(_, ev). case ev of ClaimRequested pin \<Rightarrow> [pin] | _ \<Rightarrow> []) log)"

definition requested_pin :: "'d lab \<Rightarrow> ('d, 'c) bench \<Rightarrow> session \<Rightarrow> claim_pin option" where
  "requested_pin L x c =
     (let s = bench_machine x (ses_machine c);
          s' = snd (accept_claim (lab_platform L) (lab_app L) (machine_end L x c) (s\<lparr>awaits_left := Some 2\<rparr>))
      in case pins_sent (drop (length (conn_log s)) (conn_log s')) of [] \<Rightarrow> None | pin # _ \<Rightarrow> Some pin)"

text \<open>
  \<open>await_next_incoming_claim_request\<close>: handlers run in the order of arrival, each holds the
  lock while it waits for its user, and a request is received once; without one the caller
  waits for ever. The channel closes when the machine is shut down.
\<close>

definition await_claim_request :: "'d lab \<Rightarrow> nat \<Rightarrow> (('d, 'c) bench, (claim_pin \<times> nat) option) prog" where
  "await_claim_request L i = (\<lambda>x.
     if machine_is_shutdown (lab_platform L) (bench_machine x i) then (Ok None, x)
     else (case find (\<lambda>c. ses_machine c = i \<and> requested_pin L x c \<noteq> None) (sessions x) of
         None \<Rightarrow> (Cancelled, x)
       | Some c \<Rightarrow> if ses_shown c then (Cancelled, x)
           else (Ok (Some (the (requested_pin L x c), ses_number c)),
             update_session (ses_number c) (\<lambda>c. c\<lparr>ses_shown := True\<rparr>) x)))"

definition answer_machine :: "nat \<Rightarrow> bool \<Rightarrow> (('d, 'c) bench, unit) prog" where
  "answer_machine n b = (\<lambda>x. (Ok (), update_session n (\<lambda>c. c\<lparr>machine_answer := Some b\<rparr>) x))"

definition answer_manager :: "nat \<Rightarrow> bool \<Rightarrow> (('d, 'c) bench, unit) prog" where
  "answer_manager n b = (\<lambda>x. (Ok (), update_session n (\<lambda>c. c\<lparr>manager_answer := Some b\<rparr>) x))"

text \<open>What the manager's task gets: the ticket the machine sent, or a closed connection.\<close>

definition tickets_sent :: "(endpoint_id \<times> conn_event) list \<Rightarrow> bytes list" where
  "tickets_sent log = concat (map (\<lambda>(_, ev). case ev of TicketSent b \<Rightarrow> [b] | _ \<Rightarrow> []) log)"

definition manager_end :: "'d lab \<Rightarrow> session \<Rightarrow> bytes list \<Rightarrow> outgoing_connection" where
  "manager_end L c tickets = (case tickets of
       [] \<Rightarrow> (lab_closed L)\<lparr>out_decision := manager_answer c\<rparr>
     | b # _ \<Rightarrow> \<lparr>out_connect = Ok (), out_exporter = lab_keying L (ses_number c), out_decision = manager_answer c,
         out_open_bi = Ok (), out_write_all = (\<lambda>_. Ok ()), out_finish = Ok (), out_stopped = Ok (),
         out_read_to_end = (\<lambda>_. Ok b), out_shutdown = Ok ()\<rparr>)"

text \<open>The machine's handler and the manager's task of one claim.\<close>

definition run_session :: "'d lab \<Rightarrow> session \<Rightarrow> ('d, 'c) bench \<Rightarrow> ('d, 'c) bench" where
  "run_session L c x =
     (let i = ses_machine c; j = ses_manager c; s = bench_machine x i;
          s' = snd (accept_claim (lab_platform L) (lab_app L) (machine_end L x c) s);
          tickets = tickets_sent (drop (length (conn_log s)) (conn_log s'));
          t' = snd (manager_claim_task (lab_platform L) (lab_app L) (manager_end L c tickets) (ses_dialed c) (bench_manager x j))
      in x\<lparr>bench_machine := (bench_machine x)(i := s'), bench_manager := (bench_manager x)(j := t'),
           links := (if tickets = [] then links x else links x @ [(i, j)])\<rparr>)"

definition session_ready :: "'d lab \<Rightarrow> ('d, 'c) bench \<Rightarrow> session \<Rightarrow> bool" where
  "session_ready L x c \<longleftrightarrow> manager_answer c \<noteq> None \<and> (machine_answer c \<noteq> None \<or> requested_pin L x c = None)"

text \<open>
  Handlers of one machine run in the order of arrival, each until it has ended.
\<close>

primrec run_sessions :: "'d lab \<Rightarrow> session list \<Rightarrow> session list \<Rightarrow> ('d, 'c) bench \<Rightarrow> ('d, 'c) bench" where
  "run_sessions L kept [] x = x\<lparr>sessions := kept\<rparr>"
| "run_sessions L kept (c # cs) x =
     (if session_ready L x c \<and> ses_machine c \<notin> set (map ses_machine kept)
      then run_sessions L kept cs (run_session L c x)
      else run_sessions L (kept @ [c]) cs x)"

definition exchange_link :: "'d lab \<Rightarrow> nat \<times> nat \<Rightarrow> ('d, 'c) bench \<Rightarrow> ('d, 'c) bench" where
  "exchange_link L l x = (case l of (i, j) \<Rightarrow>
     let s = bench_machine x i; t = bench_manager x j in
     if machine_is_shutdown (lab_platform L) s \<or> manager_is_shutdown (lab_platform L) t then x
     else (case lab_exchange L (engine s) (engine t) of (d, e) \<Rightarrow>
       x\<lparr>bench_machine := (bench_machine x)(i := s\<lparr>engine := d\<rparr>), bench_manager := (bench_manager x)(j := t\<lparr>engine := e\<rparr>)\<rparr>))"

definition exchange_all :: "'d lab \<Rightarrow> ('d, 'c) bench \<Rightarrow> ('d, 'c) bench" where
  "exchange_all L x = foldl (\<lambda>y l. exchange_link L l y) x (links x)"

definition sleep :: "'d lab \<Rightarrow> (('d, 'c) bench, unit) prog" where
  "sleep L = (\<lambda>x. (Ok (), exchange_all L (run_sessions L [] (sessions x) x)))"

section \<open>Helpers of the tests\<close>

definition DEFAULT_WAIT_ITERATIONS :: nat where "DEFAULT_WAIT_ITERATIONS = 10"

definition TEST_KEY :: bytes where "TEST_KEY = ascii ''test_key''"
definition TEST_VALUE :: bytes where "TEST_VALUE = ascii ''test_value''"
definition NONEXISTENT_KEY :: bytes where "NONEXISTENT_KEY = ascii ''nonexistent_key''"

definition create_machine_manager_pair :: "'d lab \<Rightarrow> (('d, 'c) bench, nat \<times> nat) prog" where
  "create_machine_manager_pair L =
     andThen machine_tempdir (\<lambda>machine.
     andThen (new_machine L machine) (\<lambda>_.
     andThen manager_tempdir (\<lambda>manager.
     andThen (new_manager L manager) (\<lambda>_.
     ret (machine, manager)))))"

definition perform_claim :: "'d lab \<Rightarrow> nat \<Rightarrow> nat \<Rightarrow> bool \<Rightarrow> bool \<Rightarrow> (('d, 'c) bench, claim_pin) prog" where
  "perform_claim L machine manager machine_accepts manager_accepts =
     andThen (asks (\<lambda>x. machine_addr L x machine)) (\<lambda>addr.
     andThen (expect_ok (start_claim L manager machine addr)) (\<lambda>(pin_mgr, tx_mgr).
     andThen (await_claim_request L machine) (\<lambda>request_or.
     andThen (unwrap request_or) (\<lambda>(pin_machine, tx_machine).
     andThen (answer_machine tx_machine machine_accepts) (\<lambda>_.
     andThen (answer_manager tx_mgr manager_accepts) (\<lambda>_.
     andThen (check (pin_mgr = pin_machine)) (\<lambda>_.
     ret pin_mgr)))))))"

primrec wait_for_condition :: "'d lab \<Rightarrow> (('d, 'c) bench, bool) prog \<Rightarrow> nat \<Rightarrow> (('d, 'c) bench, unit) prog" where
  "wait_for_condition L condition 0 = fail (Message ''Condition timeout'')"
| "wait_for_condition L condition (Suc n) =
     andThen condition (\<lambda>b. if b then ret () else andThen (sleep L) (\<lambda>_. wait_for_condition L condition n))"

definition wait_for_machines_listed :: "'d lab \<Rightarrow> nat \<Rightarrow> nat \<Rightarrow> (('d, 'c) bench, unit) prog" where
  "wait_for_machines_listed L manager expected_count =
     with_context ''Failed waiting for manager to list machines'' (wait_for_condition L
       (andThen (expect_ok (on_manager manager (list_machines (lab_platform L) (lab_app L)))) (\<lambda>machines.
        ret (length machines = expected_count))) DEFAULT_WAIT_ITERATIONS)"

definition create_claimed_machine_manager_pair :: "'d lab \<Rightarrow> (('d, 'c) bench, nat \<times> nat) prog" where
  "create_claimed_machine_manager_pair L =
     andThen (create_machine_manager_pair L) (\<lambda>(machine, manager).
     andThen (perform_claim L machine manager True True) (\<lambda>_.
     andThen (with_context ''Failed to complete machine claiming process'' (wait_for_machines_listed L manager 1)) (\<lambda>_.
     ret (machine, manager))))"

text \<open>\<open>manager_protocol.list_machines().await?[0].0\<close>\<close>

definition first_machine :: "'d lab \<Rightarrow> nat \<Rightarrow> (('d, 'c) bench, endpoint_id) prog" where
  "first_machine L manager =
     andThen (on_manager manager (list_machines (lab_platform L) (lab_app L))) (\<lambda>machines.
     case machines of [] \<Rightarrow> panic | m # _ \<Rightarrow> ret (fst m))"

record kv_test_fixture =
  fx_machine :: nat
  fx_manager :: nat
  fx_machine_id :: endpoint_id

definition kv_fixture_new :: "'d lab \<Rightarrow> (('d, 'c) bench, kv_test_fixture) prog" where
  "kv_fixture_new L =
     andThen (create_claimed_machine_manager_pair L) (\<lambda>(machine, manager).
     andThen (first_machine L manager) (\<lambda>machine_id.
     ret \<lparr>fx_machine = machine, fx_manager = manager, fx_machine_id = machine_id\<rparr>))"

text \<open>Two lists of entries sorted by key and compared entry by entry.\<close>

definition same_entries :: "kv_entry list \<Rightarrow> kv_entry list \<Rightarrow> bool" where
  "same_entries machine_kv manager_kv =
     (let machine_kv = sort_key kv_key machine_kv; manager_kv = sort_key kv_key manager_kv in
      if length machine_kv \<noteq> length manager_kv then False
      else list_all (\<lambda>(m, mg). m = mg) (zip machine_kv manager_kv))"

definition wait_for_kv_entries_sync :: "'d lab \<Rightarrow> kv_test_fixture \<Rightarrow> (('d, 'c) bench, unit) prog" where
  "wait_for_kv_entries_sync L fx = wait_for_condition L
     (andThen (attempt (on_machine (fx_machine fx) (machine_get_kv_entries (lab_platform L) (lab_app L)))) (\<lambda>machine_entries.
      andThen (attempt (on_manager (fx_manager fx) (manager_get_kv_entries (lab_platform L) (lab_app L) (fx_machine_id fx)))) (\<lambda>manager_entries.
      case (machine_entries, manager_entries) of
        (Inr machine_kv, Inr manager_kv) \<Rightarrow> ret (same_entries machine_kv manager_kv)
      | _ \<Rightarrow> ret False))) DEFAULT_WAIT_ITERATIONS"

definition verify_entry :: "'d lab \<Rightarrow> kv_test_fixture \<Rightarrow> bytes \<Rightarrow> bytes \<Rightarrow> kv_entry_author \<Rightarrow> (('d, 'c) bench, unit) prog" where
  "verify_entry L fx key expected_value expected_author =
     andThen (wait_for_kv_entries_sync L fx) (\<lambda>_.
     andThen (on_machine (fx_machine fx) (machine_get_kv_value (lab_platform L) (lab_app L) key)) (\<lambda>entry.
     andThen (check (entry \<noteq> None)) (\<lambda>_.
     andThen (unwrap entry) (\<lambda>entry.
     andThen (check (kv_value entry = expected_value)) (\<lambda>_.
     andThen (check (kv_author entry = expected_author)) (\<lambda>_.
     andThen (on_manager (fx_manager fx) (manager_get_kv_value (lab_platform L) (lab_app L) (fx_machine_id fx) key)) (\<lambda>entry.
     andThen (check (entry \<noteq> None)) (\<lambda>_.
     andThen (unwrap entry) (\<lambda>entry.
     andThen (check (kv_value entry = expected_value)) (\<lambda>_.
     andThen (check (kv_author entry = expected_author)) (\<lambda>_.
     ret ())))))))))))"

definition create_test_machine_config :: "'d lab \<Rightarrow> machine_config" where
  "create_test_machine_config L = \<lparr>federation_invite_code = lab_invite L, claimer_pk = lab_public_key L\<rparr>"

definition wait_for_contract_sync :: "'d lab \<Rightarrow> nat \<Rightarrow> nat \<Rightarrow> (('d, 'c) bench, unit) prog" where
  "wait_for_contract_sync L manager expected_count =
     with_context ''Failed waiting for contracts to sync'' (wait_for_condition L
       (andThen (attempt (on_manager manager (manager_get_claimable_contracts (lab_platform L) (lab_app L)))) (\<lambda>r.
        ret (case r of Inl _ \<Rightarrow> False | Inr contracts \<Rightarrow> length contracts = expected_count))) DEFAULT_WAIT_ITERATIONS)"

definition assert_machine_claimed_by_manager :: "'d lab \<Rightarrow> nat \<Rightarrow> nat \<Rightarrow> (('d, 'c) bench, unit) prog" where
  "assert_machine_claimed_by_manager L machine manager =
     andThen (on_machine machine lock_claimed) (\<lambda>manager_pubkey.
     andThen (asks (\<lambda>x. manager_public_key L x manager)) (\<lambda>public_key.
     andThen (check (manager_pubkey = Some public_key)) (\<lambda>_.
     andThen (asks (\<lambda>x. addr_id (machine_addr L x machine))) (\<lambda>machine_endpoint_id.
     andThen (on_manager manager (list_machines (lab_platform L) (lab_app L))) (\<lambda>machines.
     andThen (check (list_ex (\<lambda>(pubkey, _). pubkey = machine_endpoint_id) machines)) (\<lambda>_.
     ret ()))))))"

definition set_and_verify_machine_config ::
    "'d lab \<Rightarrow> nat \<Rightarrow> nat \<Rightarrow> endpoint_id \<Rightarrow> machine_config \<Rightarrow> (('d, 'c) bench, unit) prog" where
  "set_and_verify_machine_config L machine manager machine_id config =
     andThen (on_manager manager (manager_set_machine_config (lab_platform L) (lab_app L) machine_id config)) (\<lambda>_.
     andThen (with_context ''Failed waiting for machine config to be set'' (wait_for_condition L
       (andThen (attempt (on_machine machine (machine_get_machine_config (lab_platform L) (lab_app L)))) (\<lambda>r.
        ret (case r of Inr (Some _) \<Rightarrow> True | _ \<Rightarrow> False))) DEFAULT_WAIT_ITERATIONS)) (\<lambda>_.
     andThen (on_machine machine (machine_get_machine_config (lab_platform L) (lab_app L))) (\<lambda>config_or.
     andThen (check (config_or = Some config)) (\<lambda>_.
     andThen (on_manager manager (manager_get_machine_config (lab_platform L) (lab_app L) machine_id)) (\<lambda>config_or.
     andThen (check (config_or = Some config)) (\<lambda>_.
     ret ()))))))"

definition write_and_sync_contract ::
    "'d lab \<Rightarrow> nat \<Rightarrow> nat \<Rightarrow> federation_id \<Rightarrow> claimable_contract \<Rightarrow> (('d, 'c) bench, unit) prog" where
  "write_and_sync_contract L machine manager federation_id contract =
     andThen (on_manager manager (manager_get_claimable_contracts (lab_platform L) (lab_app L))) (\<lambda>contracts.
     andThen (on_machine machine (write_payment_to_machine_doc (lab_platform L) (lab_app L) federation_id contract)) (\<lambda>_.
     wait_for_contract_sync L manager (length contracts + 1)))"

definition spawn_manager_claim_task :: "'d lab \<Rightarrow> nat \<Rightarrow> nat \<Rightarrow> endpoint_addr \<Rightarrow> (('d, 'c) bench, claim_pin \<times> nat) prog" where
  "spawn_manager_claim_task L manager machine addr =
     andThen (expect_ok (start_claim L manager machine addr)) (\<lambda>(pin, tx).
     andThen (answer_manager tx True) (\<lambda>_.
     ret (pin, manager)))"

end
