(* ===== verification/Test_Runs.thy ===== *)
theory Test_Runs
  imports Settled_Start Test_Bench
begin

text \<open>
  Runs of the test bench on a lab in which nothing fails. First single devices: what a new
  machine and a new manager look like, and what a claim makes of both. Then \<open>paired\<close>: a
  machine and a manager that share a document, whose two copies are maps with what either
  side has written since the last exchange; every operation of either side is a step of it.
\<close>

section \<open>The laws of the lab\<close>

definition exchange_works :: "'d platform \<Rightarrow> ('d, 'v) docs_view_scheme \<Rightarrow> ('d \<Rightarrow> nat) \<Rightarrow> ('d \<Rightarrow> 'd \<Rightarrow> 'd \<times> 'd) \<Rightarrow> bool" where
  "exchange_works P V room X \<longleftrightarrow> (\<forall>ns d1 d2 e1 e2. \<not> router_is_shutdown P d1 \<longrightarrow> \<not> router_is_shutdown P d2 \<longrightarrow>
     known V d1 ns \<longrightarrow> known V d2 ns \<longrightarrow> mergeable V ns d1 d2 \<longrightarrow> X d1 d2 = (e1, e2) \<longrightarrow> synced P V room ns d1 d2 e1 e2)"

definition working_lab ::
    "'d lab \<Rightarrow> ('d, 'v) docs_view_scheme \<Rightarrow> ('d \<Rightarrow> nat) \<Rightarrow> (hash32 \<Rightarrow> endpoint_id) \<Rightarrow> bool" where
  "working_lab L V room public_of \<longleftrightarrow> working_engine (lab_platform L) V room \<and>
     starts_work (lab_platform L) V room (lab_dir L) public_of \<and> exchange_works (lab_platform L) V room (lab_exchange L) \<and>
     (\<forall>n b. out_read_to_end (lab_closed L) n \<noteq> Ok b) \<and>
     (\<forall>xs. mset (lab_order L xs) = mset xs) \<and> (\<forall>xs. mset (lab_iter L xs) = mset xs) \<and> lab_dir L \<noteq> []"

lemma working_labD:
  assumes "working_lab L V room public_of"
  shows "working_engine (lab_platform L) V room" "starts_work (lab_platform L) V room (lab_dir L) public_of"
    "exchange_works (lab_platform L) V room (lab_exchange L)"
    "out_read_to_end (lab_closed L) n \<noteq> Ok b" "mset (lab_order L xs) = mset xs" "mset (lab_iter L ys) = mset ys" "lab_dir L \<noteq> []"
  using assms by (simp_all add: working_lab_def)

section \<open>New devices\<close>

definition blank_node :: "'d lab \<Rightarrow> ('d, 'v) docs_view_scheme \<Rightarrow> ('d \<Rightarrow> nat) \<Rightarrow> nat \<Rightarrow> ('d, 'z) node_scheme \<Rightarrow> bool" where
  "blank_node L V room N s \<longleftrightarrow> running s \<and> router_is_shutdown (lab_platform L) (engine s) \<and> dirs_exist (disk s) (lab_dir L) \<and>
     (\<forall>p. strict_prefix (lab_dir L) p \<longrightarrow> map_of (disk s) p = None) \<and> (\<forall>ns. \<not> known V (engine s) ns) \<and> N \<le> room (engine s)"

text \<open>What a restart finds: the secret key, and directories in their places.\<close>

definition restartable :: "'d lab \<Rightarrow> hash32 \<Rightarrow> disk \<Rightarrow> bool" where
  "restartable L key d \<longleftrightarrow> startable (lab_dir L) key d \<and> dirs_exist d (lab_app L) \<and>
     map_of d (lab_dir L @ [SECRET_KEY_FILE]) = Some (File (bytes_of_hash key)) \<and>
     map_of d (lab_dir L @ [IROH_SUBDIR]) = Some Dir"

lemma restartable_app: "restartable L key d \<Longrightarrow> map_of d (lab_app L) = Some Dir"
  by (simp add: restartable_def lab_app_def app_storage_path_def dirs_exist_snoc)

lemma restart_disk: "restartable L key d \<Longrightarrow> start_disk (lab_dir L) key d = d"
  using restartable_app [of L key d] by (simp add: start_disk_def restartable_def add_node_def lab_app_def)

definition idle :: "'d lab \<Rightarrow> ('d, 'v) docs_view_scheme \<Rightarrow> ('d \<Rightarrow> nat) \<Rightarrow> (hash32 \<Rightarrow> endpoint_id) \<Rightarrow> nat \<Rightarrow> hash32 \<Rightarrow> ('d, 'z) node_scheme \<Rightarrow> bool" where
  "idle L V room public_of N key s \<longleftrightarrow> alive (lab_platform L) s \<and> restartable L key (disk s) \<and>
     addr_id (endpoint_addr_of (lab_platform L) (engine s)) = public_of key \<and> (\<forall>ns. \<not> known V (engine s) ns) \<and> N \<le> room (engine s)"

definition idle_machine ::
    "'d lab \<Rightarrow> ('d, 'v) docs_view_scheme \<Rightarrow> ('d \<Rightarrow> nat) \<Rightarrow> (hash32 \<Rightarrow> endpoint_id) \<Rightarrow> nat \<Rightarrow> hash32 \<Rightarrow> ('d, 'c, 'z) machine_node_scheme \<Rightarrow> bool" where
  "idle_machine L V room public_of N key s \<longleftrightarrow> idle L V room public_of N key s \<and>
     map_of (disk s) (lab_app L @ [MACHINE_DOC_TICKET_PATH]) = None \<and> map_of (disk s) (manager_key_file (lab_app L)) = None \<and>
     claimed_manager_pubkey s = None"

definition idle_manager ::
    "'d lab \<Rightarrow> ('d, 'v) docs_view_scheme \<Rightarrow> ('d \<Rightarrow> nat) \<Rightarrow> (hash32 \<Rightarrow> endpoint_id) \<Rightarrow> nat \<Rightarrow> hash32 \<Rightarrow> ('d, 'z) node_scheme \<Rightarrow> bool" where
  "idle_manager L V room public_of N key s \<longleftrightarrow> idle L V room public_of N key s \<and> ticket_dir (lab_platform L) (lab_app L) (disk s) []"

lemma strict_prefix_snoc [simp]: "strict_prefix p (p @ q) \<longleftrightarrow> q \<noteq> []"
  by (auto simp: strict_prefix_def)

lemma blank_startable: "blank_node L V room N s \<Longrightarrow> lab_dir L \<noteq> [] \<Longrightarrow> startable (lab_dir L) key (disk s)"
  by (simp add: blank_node_def startable_def app_storage_path_def)

lemma start_restartable: "startable (lab_dir L) key d \<Longrightarrow> restartable L key (start_disk (lab_dir L) key d)"
  using start_disk_dirs [of "lab_dir L" key d key]
  by (auto simp: restartable_def startable_def lab_app_def start_disk_lookup app_storage_path_def dirs_exist_snoc)

lemma new_machine_idle:
  assumes l: "working_lab L V room public_of" and b: "blank_node L V room N s"
  obtains s' where "machine_protocol_new (lab_platform L) (lab_dir L) key s = (Ok (lab_app L), s')"
    "idle_machine L V room public_of N key s'" "author_of V (engine s') = author_of V (engine s)"
proof -
  have st: "startable (lab_dir L) key (disk s)" by (rule blank_startable [OF b working_labD(7) [OF l]])
  have n: "map_of (disk s) (lab_dir L @ q) = None" if "q \<noteq> []" for q using b that by (simp add: blank_node_def)
  have r: "running s" and off: "router_is_shutdown (lab_platform L) (engine s)" using b by (simp_all add: blank_node_def)
  have c: "claim_on_disk (lab_platform L) (app_storage_path (lab_dir L)) (disk s) None"
    by (simp add: claim_on_disk_def app_storage_path_def n)
  obtain d where d: "machine_protocol_new (lab_platform L) (lab_dir L) key s = (Ok (app_storage_path (lab_dir L)),
      s\<lparr>disk := start_disk (lab_dir L) key (disk s), engine := d, claimed_manager_pubkey := None\<rparr>)"
    "started (lab_platform L) V room (public_of key) (engine s) d"
    by (rule run_machine_new [OF working_labD(2) [OF l] r off st refl c])
  let ?s = "s\<lparr>disk := start_disk (lab_dir L) key (disk s), engine := d, claimed_manager_pubkey := None\<rparr>"
  have free: "map_of (start_disk (lab_dir L) key (disk s)) (lab_app L @ [x]) = None" for x
    using n by (simp add: start_disk_lookup lab_app_def app_storage_path_def)
  show thesis
  proof (rule that)
    show "machine_protocol_new (lab_platform L) (lab_dir L) key s = (Ok (lab_app L), ?s)" using d(1) by (simp add: lab_app_def)
    show "idle_machine L V room public_of N key ?s"
      using r d(2) b free start_restartable [OF st] by (auto simp: idle_machine_def idle_def alive_def running_def started_def blank_node_def same_store_def)
    show "author_of V (engine ?s) = author_of V (engine s)" using d(2) by (simp add: started_def same_store_def)
  qed
qed

lemma dir_names_empty: "(\<And>n. map_of d (p @ [n]) = None) \<Longrightarrow> dir_names d p = []"
  using dir_names_iff [of _ d p] by (cases "dir_names d p") auto

lemma new_manager_idle:
  assumes l: "working_lab L V room public_of" and b: "blank_node L V room N s"
  obtains s' where "manager_protocol_new (lab_platform L) (lab_dir L) key s = (Ok (lab_app L), s')"
    "idle_manager L V room public_of N key s'" "author_of V (engine s') = author_of V (engine s)"
proof -
  have st: "startable (lab_dir L) key (disk s)" by (rule blank_startable [OF b working_labD(7) [OF l]])
  have n: "map_of (disk s) (lab_dir L @ q) = None" if "q \<noteq> []" for q using b that by (simp add: blank_node_def)
  have r: "running s" and off: "router_is_shutdown (lab_platform L) (engine s)" using b by (simp_all add: blank_node_def)
  let ?t = "machine_doc_ticket_path (app_storage_path (lab_dir L))"
  have t: "map_of (disk s) ?t \<in> {None, Some Dir}" by (simp add: n machine_doc_ticket_path_def app_storage_path_def)
  let ?d = "add_node ?t Dir (start_disk (lab_dir L) key (disk s))"
  obtain d where d: "manager_protocol_new (lab_platform L) (lab_dir L) key s = (Ok (app_storage_path (lab_dir L)),
      s\<lparr>engine := d, disk := ?d\<rparr>)" "started (lab_platform L) V room (public_of key) (engine s) d"
    by (rule run_manager_new [OF working_labD(2) [OF l] r off st refl t])
  let ?s = "s\<lparr>engine := d, disk := ?d\<rparr>"
  have old: "restartable L key (start_disk (lab_dir L) key (disk s))" by (rule start_restartable [OF st])
  have "map_of ?d q = map_of (start_disk (lab_dir L) key (disk s)) q" if "q \<noteq> ?t" for q
    using that by (simp add: add_node_lookup)
  moreover have "?t \<noteq> lab_dir L @ [x]" "\<not> prefix ?t (lab_app L)" "\<not> prefix ?t (lab_dir L)" for x
    by (auto simp: machine_doc_ticket_path_def app_storage_path_def lab_app_def dest: prefix_length_le)
  ultimately have "restartable L key ?d"
    using old unfolding restartable_def startable_def lab_app_def app_storage_path_def
    by (auto intro!: dirs_exist_add simp: machine_doc_ticket_path_def)
  moreover have "ticket_dir (lab_platform L) (lab_app L) ?d []"
  proof -
    have "map_of ?d ?t = Some Dir"
      using n by (simp add: add_node_lookup start_disk_lookup machine_doc_ticket_path_def app_storage_path_def)
    moreover have "dir_names ?d ?t = []"
      using n by (intro dir_names_empty) (simp add: add_node_lookup start_disk_lookup machine_doc_ticket_path_def app_storage_path_def)
    ultimately show ?thesis by (simp add: ticket_dir_def lab_app_def is_dir_def)
  qed
  moreover have "alive (lab_platform L) ?s" "addr_id (endpoint_addr_of (lab_platform L) d) = public_of key"
    "\<And>ns. \<not> known V d ns" "N \<le> room d" "author_of V d = author_of V (engine s)"
    using r d(2) b by (auto simp: alive_def started_def same_store_def blank_node_def)
  ultimately show thesis using that [of ?s] d(1) by (simp add: idle_manager_def idle_def lab_app_def)
qed

section \<open>A claim\<close>

text \<open>The disk and memory of a machine that belongs to \<open>k\<close> and of a manager with one machine.\<close>

definition owned_machine :: "'d lab \<Rightarrow> ('d, 'v) docs_view_scheme \<Rightarrow> (hash32 \<Rightarrow> endpoint_id) \<Rightarrow> hash32 \<Rightarrow> endpoint_id \<Rightarrow> namespace_id \<Rightarrow>
    ('d, 'c, 'z) machine_node_scheme \<Rightarrow> bool" where
  "owned_machine L V public_of key k ns s \<longleftrightarrow> alive (lab_platform L) s \<and> restartable L key (disk s) \<and>
     addr_id (endpoint_addr_of (lab_platform L) (engine s)) = public_of key \<and> machine_doc (lab_platform L) V (lab_app L) s ns \<and>
     claim_on_disk (lab_platform L) (lab_app L) (disk s) (Some k) \<and> claimed_manager_pubkey s = Some k"

definition owning_manager :: "'d lab \<Rightarrow> ('d, 'v) docs_view_scheme \<Rightarrow> (hash32 \<Rightarrow> endpoint_id) \<Rightarrow> hash32 \<Rightarrow> endpoint_id \<Rightarrow> namespace_id \<Rightarrow>
    ('d, 'z) node_scheme \<Rightarrow> bool" where
  "owning_manager L V public_of key m ns s \<longleftrightarrow> alive (lab_platform L) s \<and> restartable L key (disk s) \<and>
     addr_id (endpoint_addr_of (lab_platform L) (engine s)) = public_of key \<and> known V (engine s) ns \<and>
     (\<exists>t. ticket_dir (lab_platform L) (lab_app L) (disk s) [(m, t)] \<and> capability_id (lab_platform L) (ticket_capability t) = ns)"

lemma restartable_update:
  assumes r: "restartable L key d" and p: "prefix (lab_app L) q" "q \<noteq> lab_app L"
  shows "restartable L key (AList.update q v d)"
proof -
  have "\<not> prefix q (lab_app L)" using p prefix_order.antisym by blast
  moreover have "\<not> prefix q (lab_dir L)" "q \<noteq> lab_dir L @ [SECRET_KEY_FILE]" "q \<noteq> lab_dir L @ [IROH_SUBDIR]"
    using p by (auto simp: lab_app_def app_storage_path_def prefix_def)
  ultimately show ?thesis
    using r p(2) by (auto simp: restartable_def startable_def update_conv lab_app_def intro: dirs_exist_update)
qed

lemma claim_machine_side:
  assumes l: "working_lab L V room public_of" and i: "idle_machine L V room public_of (Suc N) key s" and co: "cooperates conn"
  obtains s' tb t ns where "accept_claim (lab_platform L) (lab_app L) conn s = (Ok (), s')"
    "owned_machine L V public_of key (remote_id conn) ns s'" "gained_doc (lab_platform L) V room ns (engine s) (engine s')" "N \<le> room (engine s')"
    "tickets_sent (drop (length (conn_log s)) (conn_log s')) = [tb]" "ticket_from_json (lab_platform L) tb = Some t"
    "ticket_to_json (lab_platform L) t = Some tb" "capability_id (lab_platform L) (ticket_capability t) = ns" "is_write_capability (ticket_capability t)"
proof -
  note w = working_labD(1) [OF l]
  let ?P = "lab_platform L" and ?app = "lab_app L"
  have idle: "alive ?P s" "restartable L key (disk s)" "map_of (disk s) (?app @ [MACHINE_DOC_TICKET_PATH]) = None"
    "map_of (disk s) (manager_key_file ?app) = None" "claimed_manager_pubkey s = None"
    "addr_id (endpoint_addr_of ?P (engine s)) = public_of key" "Suc N \<le> room (engine s)"
    using i by (simp_all add: idle_machine_def idle_def)
  have dirs: "dirs_exist (disk s) ?app" "?app \<noteq> []" using idle(2) by (simp_all add: restartable_def lab_app_def app_storage_path_def)
  have r: "running s" by (rule alive_running [OF idle(1)])
  let ?log = "conn_log s @ [(remote_id conn, ClaimRequested (claim_pin_from_keying_material (exporter conn)))]"
  let ?s1 = "s\<lparr>conn_log := ?log\<rparr>"
  have s1: "alive ?P ?s1" using idle(1) by (simp add: alive_def running_def)
  have new1: "dirs_exist (disk ?s1) ?app" "map_of (disk ?s1) (?app @ [MACHINE_DOC_TICKET_PATH]) = None"
    using dirs idle(3) by simp_all
  obtain ns d b t0 where doc': "get_or_create_machine_doc ?P ?app ?s1 = (Ok ns, ?s1\<lparr>engine := d,
      disk := AList.update (?app @ [MACHINE_DOC_TICKET_PATH]) (File b) (disk ?s1)\<rparr>)"
    "gained_doc ?P V room ns (engine ?s1) d" "ticket_from_json ?P b = Some t0" "utf8_valid b" "capability_id ?P (ticket_capability t0) = ns"
    by (rule run_first_doc [OF w s1 new1(1) dirs(2) new1(2)])
  then have doc: "get_or_create_machine_doc ?P ?app ?s1 = (Ok ns, ?s1\<lparr>engine := d,
      disk := AList.update (?app @ [MACHINE_DOC_TICKET_PATH]) (File b) (disk s)\<rparr>)"
    "gained_doc ?P V room ns (engine s) d" "ticket_from_json ?P b = Some t0" "utf8_valid b" "capability_id ?P (ticket_capability t0) = ns"
    by simp_all
  let ?d2 = "AList.update (?app @ [MACHINE_DOC_TICKET_PATH]) (File b) (disk s)"
  let ?s2 = "?s1\<lparr>engine := d, disk := ?d2\<rparr>"
  have s2: "alive ?P ?s2" using alive_wrote [OF s1, of room d] doc(2) by (simp add: gained_doc_def)
  have k2: "known V (engine ?s2) ns" using doc(2) by (simp add: gained_doc_def)
  obtain t tb d3 where sh': "engine_call (doc_share ?P ns ShareWrite RelayAndAddresses) ?s2 = (Ok t, ?s2\<lparr>engine := d3\<rparr>)"
    "doc_share ?P ns ShareWrite RelayAndAddresses (engine ?s2) = (Ok t, d3)"
    "same_device ?P V room (engine ?s2) d3" "ticket_to_json ?P t = Some tb" "ticket_from_json ?P tb = Some t" "utf8_valid tb"
    "capability_id ?P (ticket_capability t) = ns" "is_write_capability (ticket_capability t)"
    by (rule run_share [OF w s2 k2])
  then have sh: "engine_call (doc_share ?P ns ShareWrite RelayAndAddresses) ?s2 = (Ok t, ?s2\<lparr>engine := d3\<rparr>)"
    "same_device ?P V room d d3" "ticket_to_json ?P t = Some tb" "ticket_from_json ?P tb = Some t"
    "capability_id ?P (ticket_capability t) = ns" "is_write_capability (ticket_capability t)" by simp_all
  obtain kb where kb: "endpoint_to_json ?P (remote_id conn) = Some kb" by (rule encoders_totalD [OF w])
  have kj: "endpoint_from_json ?P kb = Some (remote_id conn)" "utf8_valid kb"
    using codec_contractD(1) [OF working_engineD(2) [OF w] kb] by simp_all
  let ?d4 = "AList.update (manager_key_file ?app) (File kb) ?d2"
  have names: "MACHINE_DOC_TICKET_PATH \<noteq> MACHINE_MANAGER_PUBLIC_KEY_PATH" by (simp add: MACHINE_DOC_TICKET_PATH_def MACHINE_MANAGER_PUBLIC_KEY_PATH_def)
  have dirs2: "dirs_exist ?d2 ?app" by (rule dirs_exist_update [OF dirs(1)]) simp
  have dir2: "is_dir ?d2 ?app" "\<not> is_dir ?d2 (manager_key_file ?app)"
    using dirs2 dirs(2) idle(4) names by (auto simp: dirs_exist_def is_dir_def update_conv)
  have wr: "fs_write (manager_key_file ?app) kb (?s2\<lparr>engine := d3\<rparr>) = (Ok (), ?s2\<lparr>engine := d3, disk := ?d4\<rparr>)"
    using running_fs_write [of "?s2\<lparr>engine := d3\<rparr>" ?app MACHINE_MANAGER_PUBLIC_KEY_PATH kb] alive_running [OF s2] dir2 by simp
  let ?s' = "s\<lparr>engine := d3, disk := ?d4, claimed_manager_pubkey := Some (remote_id conn),
      conn_log := ?log @ [(remote_id conn, TicketSent tb), (remote_id conn, ConnClosed ''finished'')]\<rparr>"
  have a: "awaits_left s = None" using r by (simp add: running_def)
  have agreed: "accept_agreed ?P ?app conn ?s1 = (Ok (), ?s')"
    using co a doc(1) sh(1,3) kb wr
    by (simp add: accept_agreed_def cooperates_def andThen_def lift_res_def set_claimed_def log_event_def await_def ret_def)
  have "accept_claim ?P ?app conn s = accept_agreed ?P ?app conn ?s1"
    using r co idle(5) by (auto simp: accept_claim_def lock_claimed_def cooperates_def running_def await_def andThen_def lift_res_def
        log_event_def ret_def Let_def)
  then have run: "accept_claim ?P ?app conn s = (Ok (), ?s')" using agreed by simp
  have g: "gained_doc ?P V room ns (engine s) d3" by (rule gained_same [OF doc(2) sh(2)])
  have "alive ?P ?s'" using alive_same [OF s2, of V room d3] sh(2) by (simp add: alive_def running_def)
  moreover have "restartable L key ?d4"
    by (intro restartable_update idle(2)) auto
  moreover have "machine_doc ?P V ?app ?s' ns"
  proof -
    have "dirs_exist ?d4 ?app" by (rule dirs_exist_update [OF dirs2]) simp
    moreover have "map_of ?d4 (?app @ [MACHINE_DOC_TICKET_PATH]) = Some (File b)" using names by (simp add: update_conv)
    ultimately show ?thesis using doc(3-5) g by (simp add: machine_doc_def gained_doc_def)
  qed
  moreover have "claim_on_disk ?P ?app ?d4 (Some (remote_id conn))" using kj by (simp add: claim_on_disk_def update_conv)
  ultimately have "owned_machine L V public_of key (remote_id conn) ns ?s'"
    using idle(6) g by (simp add: owned_machine_def gained_doc_def wrote_device_def)
  moreover have "N \<le> room d3" using g idle(7) by (simp add: gained_doc_def wrote_device_def)
  moreover have "tickets_sent (drop (length (conn_log s)) (conn_log ?s')) = [tb]" by (simp add: tickets_sent_def)
  ultimately show thesis using that [OF run _ _ _ _ sh(4,3,5,6)] g by simp
qed

lemma claim_manager_side:
  assumes l: "working_lab L V room public_of" and i: "idle_manager L V room public_of (Suc N) key s"
    and co: "out_cooperates conn tb" and t: "ticket_from_json (lab_platform L) tb = Some t" "ticket_to_json (lab_platform L) t = Some tb"
    "is_write_capability (ticket_capability t)"
  obtains s' where "manager_claim_task (lab_platform L) (lab_app L) conn m s = (Ok (Some ''done''), s')"
    "owning_manager L V public_of key m (capability_id (lab_platform L) (ticket_capability t)) s'"
    "gained_doc (lab_platform L) V room (capability_id (lab_platform L) (ticket_capability t)) (engine s) (engine s')" "N \<le> room (engine s')"
proof -
  note w = working_labD(1) [OF l]
  let ?P = "lab_platform L" and ?dir = "machine_doc_ticket_path (lab_app L)" and ?ns = "capability_id (lab_platform L) (ticket_capability t)"
  have idle: "alive ?P s" "restartable L key (disk s)" "ticket_dir ?P (lab_app L) (disk s) []"
    "addr_id (endpoint_addr_of ?P (engine s)) = public_of key" "Suc N \<le> room (engine s)" "\<not> known V (engine s) ?ns"
    using i by (simp_all add: idle_manager_def idle_def)
  obtain ns d where imp: "docs_import ?P t (engine s) = (Ok ns, d)" "wrote_device ?P room (engine s) d" "clock_of V (engine s) \<le> clock_of V d"
    "\<And>a k. stored_of V d ?ns a k = None"
    using working_engineD(4) [OF w] alive_up [OF idle(1)] idle(6) unfolding writes_work_def by blast
  note law = docs_import_contract [OF working_engineD(1) [OF w] imp(1)]
  have g: "gained_doc ?P V room ?ns (engine s) d" using law(1) law(5) [OF refl] imp(2,4) by (auto simp: gained_doc_def)
  have dir: "is_dir (disk s) ?dir" "dir_names (disk s) ?dir = []" using idle(3) by (simp_all add: ticket_dir_def)
  have new: "map_of (disk s) (?dir @ [x]) = None" for x using dir_names_iff [of x "disk s" ?dir] dir(2) by simp
  let ?f = "?dir @ [endpoint_to_string ?P m]"
  let ?d = "AList.update ?f (File tb) (disk s)" and ?s' = "s\<lparr>engine := d, disk := AList.update (machine_doc_ticket_path (lab_app L) @
      [endpoint_to_string (lab_platform L) m]) (File tb) (disk s)\<rparr>"
  have run: "manager_claim_task ?P (lab_app L) conn m s = (Ok (Some ''done''), ?s')"
    by (rule manager_claim_completes [OF alive_running [OF idle(1)] co t(1,3,2) imp(1)])
       (use dir(1) new in \<open>simp_all add: is_dir_def\<close>)
  have "restartable L key ?d" by (rule restartable_update [OF idle(2)]) (simp_all add: machine_doc_ticket_path_def)
  moreover have "ticket_dir ?P (lab_app L) ?d [(m, t)]"
  proof -
    have "utf8_valid tb" using codec_contractD(2) [OF working_engineD(2) [OF w] t(2)] by simp
    moreover have "is_dir ?d ?dir" using dir(1) by (auto simp: is_dir_def update_conv machine_doc_ticket_path_def)
    ultimately show ?thesis using dir(2) new t(1) by (simp add: ticket_dir_def dir_names_update update_conv)
  qed
  moreover have "alive ?P ?s'" using alive_wrote [OF idle(1) imp(2)] by simp
  ultimately have "owning_manager L V public_of key m ?ns ?s'"
    using g idle(4) by (auto simp: owning_manager_def gained_doc_def wrote_device_def)
  moreover have "N \<le> room d" using imp(2) idle(5) by (simp add: wrote_device_def)
  ultimately show thesis using that [OF run] g by simp
qed

lemma manager_task_refused:
  assumes s: "running s" and r: "\<And>n b. out_read_to_end conn n \<noteq> Ok b"
  shows "snd (manager_claim_task P app_path conn m s) = s"
proof -
  have rd: "attempt (lift_res (out_read_to_end conn n)) s = (Ok (Inr b), s') \<longleftrightarrow> False" for n b s'
    using r by (auto simp: attempt_def lift_res_def split: res.splits)
  show ?thesis
    using r by (auto simp: manager_claim_task_def andThen_def attempt_def lift_res_def ret_def receive_machine_ticket_def
        running_await [OF s] split: res.splits sum.splits prod.splits option.splits)
qed

end
