(* ===== verification/Test_Pairs.thy ===== *)
theory Test_Pairs
  imports Test_Runs
begin

text \<open>
  A machine and a manager of the bench that share a document: \<open>paired\<close> says what their two
  copies of it hold, and every operation of either side and every sleep is a step of it.
\<close>

section \<open>The bench between operations\<close>

definition bench_ready :: "'d lab \<Rightarrow> ('d, 'v) docs_view_scheme \<Rightarrow> ('d \<Rightarrow> nat) \<Rightarrow> nat \<Rightarrow> ('d, 'c) bench \<Rightarrow> bool" where
  "bench_ready L V room N x \<longleftrightarrow> (\<forall>i \<ge> machines_made x. blank_node L V room N (bench_machine x i)) \<and>
     (\<forall>j \<ge> managers_made x. blank_node L V room N (bench_manager x j)) \<and>
     (\<forall>i \<ge> machines_made x. \<forall>j \<ge> managers_made x. author_of V (engine (bench_machine x i)) \<noteq> author_of V (engine (bench_manager x j))) \<and>
     (\<forall>l \<in> set (links x). fst l < machines_made x \<and> snd l < managers_made x) \<and> distinct (links x)"

definition own_link :: "nat \<Rightarrow> nat \<Rightarrow> (nat \<times> nat) list \<Rightarrow> bool" where
  "own_link i j ls \<longleftrightarrow> distinct ls \<and> (i, j) \<in> set ls \<and> (\<forall>l \<in> set ls. l = (i, j) \<or> fst l \<noteq> i \<and> snd l \<noteq> j)"

definition paired ::
    "'d lab \<Rightarrow> ('d, 'v) docs_view_scheme \<Rightarrow> ('d \<Rightarrow> nat) \<Rightarrow> (hash32 \<Rightarrow> endpoint_id) \<Rightarrow> nat \<Rightarrow> nat \<Rightarrow> nat \<Rightarrow>
     author_id \<Rightarrow> author_id \<Rightarrow> namespace_id \<Rightarrow> bytes set \<Rightarrow> nat \<Rightarrow> doc_map \<Rightarrow> bytes set \<Rightarrow> doc_map \<Rightarrow> bytes set \<Rightarrow> ('d, 'c) bench \<Rightarrow> bool" where
  "paired L V room public_of N i j am ag ns U n M1 W1 M2 W2 x \<longleftrightarrow> bench_ready L V room N x \<and> i < machines_made x \<and> j < managers_made x \<and>
     sessions x = [] \<and> own_link i j (links x) \<and>
     owned_machine L V public_of (lab_machine_key L i) (public_of (lab_manager_key L j)) ns (bench_machine x i) \<and>
     owning_manager L V public_of (lab_manager_key L j) (public_of (lab_machine_key L i)) ns (bench_manager x j) \<and>
     author_of V (engine (bench_machine x i)) = am \<and> author_of V (engine (bench_manager x j)) = ag \<and>
     replicas V room ns U n (engine (bench_machine x i)) M1 W1 (engine (bench_manager x j)) M2 W2"

lemma pairedD:
  assumes "paired L V room public_of N i j am ag ns U n M1 W1 M2 W2 x"
  shows "bench_ready L V room N x" "i < machines_made x" "j < managers_made x" "sessions x = []" "own_link i j (links x)"
    "owned_machine L V public_of (lab_machine_key L i) (public_of (lab_manager_key L j)) ns (bench_machine x i)"
    "owning_manager L V public_of (lab_manager_key L j) (public_of (lab_machine_key L i)) ns (bench_manager x j)"
    "replicas V room ns U n (engine (bench_machine x i)) M1 W1 (engine (bench_manager x j)) M2 W2"
    "author_of V (engine (bench_machine x i)) = am" "author_of V (engine (bench_manager x j)) = ag"
  using assms by (simp_all add: paired_def)

lemma owned_machine_frame:
  assumes "owned_machine L V public_of key k ns s" and "same_frame (lab_platform L) V (engine s) d"
  shows "owned_machine L V public_of key k ns (s\<lparr>engine := d\<rparr>)"
  using assms alive_frame [of "lab_platform L" s V d] machine_doc_device [of "lab_platform L" V "lab_app L" s ns d]
  by (simp add: owned_machine_def same_frame_def)

lemma owning_manager_frame:
  assumes "owning_manager L V public_of key m ns s" and "same_frame (lab_platform L) V (engine s) d"
  shows "owning_manager L V public_of key m ns (s\<lparr>engine := d\<rparr>)"
  using assms alive_frame [of "lab_platform L" s V d] by (simp add: owning_manager_def same_frame_def)

lemma owning_manager_doc:
  "owning_manager L V public_of key m ns s \<Longrightarrow> manager_doc (lab_platform L) V (lab_app L) m ns s"
  by (auto simp: owning_manager_def manager_doc_def ticket_dir_def)

lemma paired_machine_step:
  assumes p: "paired L V room public_of N i j am ag ns U n M1 W1 M2 W2 x" and f: "same_frame (lab_platform L) V (engine (bench_machine x i)) d"
    and r: "replicas V room ns U n' d M1' W1' (engine (bench_manager x j)) M2 W2"
  shows "paired L V room public_of N i j am ag ns U n' M1' W1' M2 W2
    (x\<lparr>bench_machine := (bench_machine x)(i := (bench_machine x i)\<lparr>engine := d\<rparr>)\<rparr>)"
  using pairedD [OF p] owned_machine_frame [OF pairedD(6) [OF p] f] f r by (auto simp: paired_def bench_ready_def same_frame_def)

lemma paired_manager_step:
  assumes p: "paired L V room public_of N i j am ag ns U n M1 W1 M2 W2 x" and f: "same_frame (lab_platform L) V (engine (bench_manager x j)) d"
    and r: "replicas V room ns U n' (engine (bench_machine x i)) M1 W1 d M2' W2'"
  shows "paired L V room public_of N i j am ag ns U n' M1 W1 M2' W2'
    (x\<lparr>bench_manager := (bench_manager x)(j := (bench_manager x j)\<lparr>engine := d\<rparr>)\<rparr>)"
  using pairedD [OF p] owning_manager_frame [OF pairedD(7) [OF p] f] f r by (auto simp: paired_def bench_ready_def same_frame_def)

text \<open>Reading leaves the pair as it is.\<close>

lemma paired_machine_read:
  assumes p: "paired L V room public_of N i j am ag ns U n M1 W1 M2 W2 x" and s: "same_device (lab_platform L) V room (engine (bench_machine x i)) d"
    and m: "m (bench_machine x i) = (r, (bench_machine x i)\<lparr>engine := d\<rparr>)"
  shows "\<exists>y. on_machine i m x = (r, y) \<and> paired L V room public_of N i j am ag ns U n M1 W1 M2 W2 y"
  using paired_machine_step [OF p same_device_frame [OF s] replicas_same [OF s pairedD(8) [OF p]]] m
  by (simp add: on_machine_def)

lemma paired_manager_read:
  assumes p: "paired L V room public_of N i j am ag ns U n M1 W1 M2 W2 x" and s: "same_device (lab_platform L) V room (engine (bench_manager x j)) d"
    and m: "m (bench_manager x j) = (r, (bench_manager x j)\<lparr>engine := d\<rparr>)"
  shows "\<exists>y. on_manager j m x = (r, y) \<and> paired L V room public_of N i j am ag ns U n M1 W1 M2 W2 y"
  using paired_manager_step [OF p same_device_frame [OF s] replicas_sym [OF replicas_same [OF s replicas_sym [OF pairedD(8) [OF p]]]]] m
  by (simp add: on_manager_def)

section \<open>Sleeping\<close>

lemma exchange_link_fields [simp]:
  "links (exchange_link L l x) = links x" "sessions (exchange_link L l x) = sessions x"
  "machines_made (exchange_link L l x) = machines_made x" "managers_made (exchange_link L l x) = managers_made x"
  "sessions_made (exchange_link L l x) = sessions_made x"
  by (simp_all add: exchange_link_def Let_def split: prod.split)

lemma exchange_link_other:
  "fst l \<noteq> i \<Longrightarrow> bench_machine (exchange_link L l x) i = bench_machine x i"
  "snd l \<noteq> j \<Longrightarrow> bench_manager (exchange_link L l x) j = bench_manager x j"
  by (auto simp: exchange_link_def Let_def split: prod.split)

lemma exchange_links_fields:
  "links (foldl (\<lambda>y l. exchange_link L l y) x ls) = links x \<and> sessions (foldl (\<lambda>y l. exchange_link L l y) x ls) = sessions x \<and>
   machines_made (foldl (\<lambda>y l. exchange_link L l y) x ls) = machines_made x \<and> managers_made (foldl (\<lambda>y l. exchange_link L l y) x ls) = managers_made x \<and>
   sessions_made (foldl (\<lambda>y l. exchange_link L l y) x ls) = sessions_made x"
  by (induction ls arbitrary: x) simp_all

lemma exchange_all_fields [simp]:
  "links (exchange_all L x) = links x" "sessions (exchange_all L x) = sessions x" "machines_made (exchange_all L x) = machines_made x"
  "managers_made (exchange_all L x) = managers_made x" "sessions_made (exchange_all L x) = sessions_made x"
  by (simp_all add: exchange_all_def exchange_links_fields)

lemma exchange_links_other:
  "\<forall>l \<in> set ls. fst l \<noteq> i \<Longrightarrow> bench_machine (foldl (\<lambda>y l. exchange_link L l y) x ls) i = bench_machine x i"
  "\<forall>l \<in> set ls. snd l \<noteq> j \<Longrightarrow> bench_manager (foldl (\<lambda>y l. exchange_link L l y) x ls) j = bench_manager x j"
  by (induction ls arbitrary: x) (simp_all add: exchange_link_other)

lemma exchange_all_own:
  assumes "own_link i j (links x)"
  shows "bench_machine (exchange_all L x) i = bench_machine (exchange_link L (i, j) x) i"
    and "bench_manager (exchange_all L x) j = bench_manager (exchange_link L (i, j) x) j"
proof -
  obtain as bs where ls: "links x = as @ (i, j) # bs" using assms by (auto simp: own_link_def dest: split_list)
  have as: "\<forall>l \<in> set as. fst l \<noteq> i" "\<forall>l \<in> set as. snd l \<noteq> j" and bs: "\<forall>l \<in> set bs. fst l \<noteq> i" "\<forall>l \<in> set bs. snd l \<noteq> j"
    using assms by (fastforce simp: own_link_def ls)+
  let ?y = "foldl (\<lambda>y l. exchange_link L l y) x as"
  have y: "bench_machine ?y i = bench_machine x i" "bench_manager ?y j = bench_manager x j"
    by (simp_all only: exchange_links_other(1) [OF as(1)] exchange_links_other(2) [OF as(2)])
  have "exchange_all L x = foldl (\<lambda>y l. exchange_link L l y) (exchange_link L (i, j) ?y) bs" by (simp add: exchange_all_def ls)
  then show "bench_machine (exchange_all L x) i = bench_machine (exchange_link L (i, j) x) i"
    and "bench_manager (exchange_all L x) j = bench_manager (exchange_link L (i, j) x) j"
    using exchange_links_other(1) [OF bs(1), of L "exchange_link L (i, j) ?y"] exchange_links_other(2) [OF bs(2), of L "exchange_link L (i, j) ?y"] y
    by (auto simp: exchange_link_def Let_def split: prod.splits)
qed

lemma bench_ready_exchange:
  assumes "bench_ready L V room N x"
  shows "bench_ready L V room N (exchange_all L x)"
proof -
  have m: "bench_machine (exchange_all L x) i = bench_machine x i" if "i \<ge> machines_made x" for i
    unfolding exchange_all_def using assms that by (intro exchange_links_other(1)) (auto simp: bench_ready_def)
  have g: "bench_manager (exchange_all L x) j = bench_manager x j" if "j \<ge> managers_made x" for j
    unfolding exchange_all_def using assms that by (intro exchange_links_other(2)) (auto simp: bench_ready_def)
  show ?thesis using assms m g by (simp add: bench_ready_def exchange_all_def exchange_links_fields)
qed

lemma synced_frame:
  assumes s: "synced P V room ns d1 d2 e1 e2" and k: "known V d1 ns" "known V d2 ns"
  shows "endpoint_addr_of P e1 = endpoint_addr_of P d1" "endpoint_addr_of P e2 = endpoint_addr_of P d2"
    "router_is_shutdown P e1 = router_is_shutdown P d1" "router_is_shutdown P e2 = router_is_shutdown P d2"
    "known V e1 ns" "known V e2 ns"
  using assms by (simp_all add: synced_def)

lemma owned_machine_synced:
  assumes "owned_machine L V public_of key k ns s" and "endpoint_addr_of (lab_platform L) d = endpoint_addr_of (lab_platform L) (engine s)"
    "router_is_shutdown (lab_platform L) d = router_is_shutdown (lab_platform L) (engine s)" "known V d ns"
  shows "owned_machine L V public_of key k ns (s\<lparr>engine := d\<rparr>)"
  using assms by (simp add: owned_machine_def alive_def machine_doc_def)

lemma owning_manager_synced:
  assumes "owning_manager L V public_of key k ns s" and "endpoint_addr_of (lab_platform L) d = endpoint_addr_of (lab_platform L) (engine s)"
    "router_is_shutdown (lab_platform L) d = router_is_shutdown (lab_platform L) (engine s)" "known V d ns"
  shows "owning_manager L V public_of key k ns (s\<lparr>engine := d\<rparr>)"
  using assms by (simp add: owning_manager_def alive_def)

lemma paired_exchange:
  assumes l: "working_lab L V room public_of" and p: "paired L V room public_of N i j am ag ns U (Suc n) M1 W1 M2 W2 x" and W: "W1 \<inter> W2 = {}"
  shows "paired L V room public_of N i j am ag ns U n (merge W2 M1 M2) {} (merge W2 M1 M2) {} (exchange_all L x)"
proof -
  let ?P = "lab_platform L" and ?s = "bench_machine x i" and ?t = "bench_manager x j"
  note own = pairedD(6) [OF p] and owning = pairedD(7) [OF p]
  obtain d e where de: "lab_exchange L (engine ?s) (engine ?t) = (d, e)" by force
  have up: "\<not> router_is_shutdown ?P (engine ?s)" "\<not> router_is_shutdown ?P (engine ?t)" and kn: "known V (engine ?s) ns" "known V (engine ?t) ns"
    using own owning by (simp_all add: owned_machine_def owning_manager_def alive_def machine_doc_def)
  have sy: "synced ?P V room ns (engine ?s) (engine ?t) d e"
    using working_labD(3) [OF l] up kn de pairedD(8) [OF p] unfolding exchange_works_def replicas_def by blast
  note fr = synced_frame [OF sy kn]
  have au: "author_of V d = am" "author_of V e = ag" using sy pairedD(9,10) [OF p] by (simp_all add: synced_def)
  have r: "replicas V room ns U n d (merge W2 M1 M2) {} e (merge W2 M1 M2) {}" by (rule replicas_sync [OF pairedD(8) [OF p] sy W])
  have nodes: "bench_machine (exchange_all L x) i = ?s\<lparr>engine := d\<rparr>" "bench_manager (exchange_all L x) j = ?t\<lparr>engine := e\<rparr>"
    using up de by (simp_all add: exchange_all_own [OF pairedD(5) [OF p]] exchange_link_def Let_def machine_is_shutdown_def manager_is_shutdown_def)
  show ?thesis
    using pairedD(2-5) [OF p] bench_ready_exchange [OF pairedD(1) [OF p]] r au
      owned_machine_synced [OF own fr(1,3,5)] owning_manager_synced [OF owning fr(2,4,6)]
    by (simp add: paired_def nodes)
qed

lemma paired_sleep:
  assumes l: "working_lab L V room public_of" and p: "paired L V room public_of N i j am ag ns U (Suc n) M1 W1 M2 W2 x" and W: "W1 \<inter> W2 = {}"
  shows "\<exists>y. sleep L x = (Ok (), y) \<and> paired L V room public_of N i j am ag ns U n (merge W2 M1 M2) {} (merge W2 M1 M2) {} y"
proof -
  have x: "x\<lparr>sessions := []\<rparr> = x" using pairedD(4) [OF p] by (cases x) simp
  have "sleep L x = (Ok (), exchange_all L x)" using pairedD(4) [OF p] by (simp add: sleep_def x)
  then show ?thesis using paired_exchange [OF l p W] by blast
qed

section \<open>The operations of both sides\<close>

lemma paired_alive:
  assumes "paired L V room public_of N i j am ag ns U n M1 W1 M2 W2 x"
  shows "alive (lab_platform L) (bench_machine x i)" "alive (lab_platform L) (bench_manager x j)"
    "machine_doc (lab_platform L) V (lab_app L) (bench_machine x i) ns"
    "manager_doc (lab_platform L) V (lab_app L) (public_of (lab_machine_key L i)) ns (bench_manager x j)"
    "content V ns (engine (bench_machine x i)) M1" "content V ns (engine (bench_manager x j)) M2"
  using pairedD [OF assms] owning_manager_doc [OF pairedD(7) [OF assms]]
  by (simp_all add: owned_machine_def owning_manager_def replicas_def replica_def)

lemma machine_reads_step:
  assumes l: "working_lab L V room public_of" and p: "paired L V room public_of N i j am ag ns U n M1 W1 M2 W2 x"
  shows "\<exists>y. on_machine i (machine_get_kv_value (lab_platform L) (lab_app L) k) x =
      (Ok (map_option (kv_of Machine am k) (M1 (kv_full_key k))), y) \<and> paired L V room public_of N i j am ag ns U n M1 W1 M2 W2 y"
    and "\<exists>y kvs. on_machine i (machine_get_kv_entries (lab_platform L) (lab_app L)) x = (Ok kvs, y) \<and> kv_lists Machine am M1 kvs \<and>
      paired L V room public_of N i j am ag ns U n M1 W1 M2 W2 y"
    and "\<exists>y. on_machine i (machine_get_machine_config (lab_platform L) (lab_app L)) x = (config_at (lab_platform L) M1, y) \<and>
      paired L V room public_of N i j am ag ns U n M1 W1 M2 W2 y"
proof -
  note a = paired_alive [OF p] and rd = run_machine_reads [OF working_labD(1) [OF l] paired_alive(1,3,5) [OF p]]
  show "\<exists>y. on_machine i (machine_get_kv_value (lab_platform L) (lab_app L) k) x =
      (Ok (map_option (kv_of Machine am k) (M1 (kv_full_key k))), y) \<and> paired L V room public_of N i j am ag ns U n M1 W1 M2 W2 y"
    using rd(1) [of k] paired_machine_read [OF p] unfolding pairedD(9) [OF p] by blast
  show "\<exists>y kvs. on_machine i (machine_get_kv_entries (lab_platform L) (lab_app L)) x = (Ok kvs, y) \<and> kv_lists Machine am M1 kvs \<and>
      paired L V room public_of N i j am ag ns U n M1 W1 M2 W2 y"
    using rd(2) paired_machine_read [OF p] unfolding pairedD(9) [OF p] by blast
  show "\<exists>y. on_machine i (machine_get_machine_config (lab_platform L) (lab_app L)) x = (config_at (lab_platform L) M1, y) \<and>
      paired L V room public_of N i j am ag ns U n M1 W1 M2 W2 y"
    using rd(3) paired_machine_read [OF p] by blast
qed

lemma manager_reads_step:
  fixes m :: endpoint_id
  assumes l: "working_lab L V room public_of" and p: "paired L V room public_of N i j am ag ns U n M1 W1 M2 W2 x"
    and m: "m = public_of (lab_machine_key L i)"
  shows "\<exists>y. on_manager j (manager_get_kv_value (lab_platform L) (lab_app L) m k) x =
      (Ok (map_option (kv_of Manager ag k) (M2 (kv_full_key k))), y) \<and> paired L V room public_of N i j am ag ns U n M1 W1 M2 W2 y"
    and "\<exists>y kvs. on_manager j (manager_get_kv_entries (lab_platform L) (lab_app L) m) x = (Ok kvs, y) \<and> kv_lists Manager ag M2 kvs \<and>
      paired L V room public_of N i j am ag ns U n M1 W1 M2 W2 y"
    and "\<exists>y. on_manager j (manager_get_machine_config (lab_platform L) (lab_app L) m) x = (config_at (lab_platform L) M2, y) \<and>
      paired L V room public_of N i j am ag ns U n M1 W1 M2 W2 y"
proof -
  note rd = run_manager_reads [OF working_labD(1) [OF l] paired_alive(2,4,6) [OF p], folded m]
  show "\<exists>y. on_manager j (manager_get_kv_value (lab_platform L) (lab_app L) m k) x =
      (Ok (map_option (kv_of Manager ag k) (M2 (kv_full_key k))), y) \<and> paired L V room public_of N i j am ag ns U n M1 W1 M2 W2 y"
    using rd(1) [of k] paired_manager_read [OF p] unfolding pairedD(10) [OF p] by blast
  show "\<exists>y kvs. on_manager j (manager_get_kv_entries (lab_platform L) (lab_app L) m) x = (Ok kvs, y) \<and> kv_lists Manager ag M2 kvs \<and>
      paired L V room public_of N i j am ag ns U n M1 W1 M2 W2 y"
    using rd(2) paired_manager_read [OF p] unfolding pairedD(10) [OF p] by blast
  show "\<exists>y. on_manager j (manager_get_machine_config (lab_platform L) (lab_app L) m) x = (config_at (lab_platform L) M2, y) \<and>
      paired L V room public_of N i j am ag ns U n M1 W1 M2 W2 y"
    using rd(3) paired_manager_read [OF p] by blast
qed

lemma paired_machine_put:
  assumes l: "working_lab L V room public_of" and p: "paired L V room public_of N i j am ag ns U (Suc n) M1 W1 M2 W2 x"
    and U: "prefix_free U" "k \<in> U" and d: "put_key (lab_platform L) V room ns k v (engine (bench_machine x i)) d"
    and m: "m (bench_machine x i) = (r, (bench_machine x i)\<lparr>engine := d\<rparr>)"
  shows "\<exists>y t. on_machine i m x = (r, y) \<and> paired L V room public_of N i j am ag ns U n (M1(k \<mapsto> (v, am, t))) (insert k W1) M2 W2 y"
proof -
  note w = working_labD(1) [OF l]
  obtain t where t: "replicas V room ns U n d (M1(k \<mapsto> (v, author_of V (engine (bench_machine x i)), t))) (insert k W1)
      (engine (bench_manager x j)) M2 W2" by (rule put_key_replicas [OF w pairedD(8) [OF p] U d])
  then show ?thesis
    using paired_machine_step [OF p put_key_frame [OF w d] t] m pairedD(9) [OF p] by (auto simp: on_machine_def)
qed

lemma paired_manager_put:
  assumes l: "working_lab L V room public_of" and p: "paired L V room public_of N i j am ag ns U (Suc n) M1 W1 M2 W2 x"
    and U: "prefix_free U" "k \<in> U" and d: "put_key (lab_platform L) V room ns k v (engine (bench_manager x j)) d"
    and m: "m (bench_manager x j) = (r, (bench_manager x j)\<lparr>engine := d\<rparr>)"
  shows "\<exists>y t. on_manager j m x = (r, y) \<and> paired L V room public_of N i j am ag ns U n M1 W1 (M2(k \<mapsto> (v, ag, t))) (insert k W2) y"
proof -
  note w = working_labD(1) [OF l]
  obtain t where t: "replicas V room ns U n d (M2(k \<mapsto> (v, author_of V (engine (bench_manager x j)), t))) (insert k W2)
      (engine (bench_machine x i)) M1 W1" by (rule put_key_replicas [OF w replicas_sym [OF pairedD(8) [OF p]] U d])
  then show ?thesis
    using paired_manager_step [OF p put_key_frame [OF w d] replicas_sym [OF t]] m pairedD(10) [OF p] by (auto simp: on_manager_def)
qed

lemma machine_writes_step:
  assumes l: "working_lab L V room public_of" and p: "paired L V room public_of N i j am ag ns U (Suc n) M1 W1 M2 W2 x" and U: "prefix_free U"
  shows "kv_full_key k \<in> U \<Longrightarrow> v \<noteq> [] \<Longrightarrow> \<exists>y t. on_machine i (machine_set_kv_value (lab_platform L) (lab_app L) k v) x = (Ok (), y) \<and>
      paired L V room public_of N i j am ag ns U n (M1(kv_full_key k \<mapsto> (v, am, t))) (insert (kv_full_key k) W1) M2 W2 y"
    and "create_claimable_contract_machine_doc_key (lab_platform L) fid cc \<in> U \<Longrightarrow> contract_to_json (lab_platform L) cc = Some b \<Longrightarrow>
      \<exists>y t. on_machine i (write_payment_to_machine_doc (lab_platform L) (lab_app L) fid cc) x = (Ok (), y) \<and>
      paired L V room public_of N i j am ag ns U n (M1(create_claimable_contract_machine_doc_key (lab_platform L) fid cc \<mapsto> (b, am, t)))
        (insert (create_claimable_contract_machine_doc_key (lab_platform L) fid cc) W1) M2 W2 y"
proof -
  note wr = run_machine_put [OF working_labD(1) [OF l] paired_alive(1,3) [OF p] replicas_writable [OF pairedD(8) [OF p]]] and put = paired_machine_put [OF l p U]
  show "kv_full_key k \<in> U \<Longrightarrow> v \<noteq> [] \<Longrightarrow> \<exists>y t. on_machine i (machine_set_kv_value (lab_platform L) (lab_app L) k v) x = (Ok (), y) \<and>
      paired L V room public_of N i j am ag ns U n (M1(kv_full_key k \<mapsto> (v, am, t))) (insert (kv_full_key k) W1) M2 W2 y"
    using wr(1) [of v k] put by blast
  show "\<exists>y t. on_machine i (write_payment_to_machine_doc (lab_platform L) (lab_app L) fid cc) x = (Ok (), y) \<and>
      paired L V room public_of N i j am ag ns U n (M1(create_claimable_contract_machine_doc_key (lab_platform L) fid cc \<mapsto> (b, am, t)))
        (insert (create_claimable_contract_machine_doc_key (lab_platform L) fid cc) W1) M2 W2 y"
    if "create_claimable_contract_machine_doc_key (lab_platform L) fid cc \<in> U" "contract_to_json (lab_platform L) cc = Some b"
    using wr(2) [of fid cc] that put by fastforce
qed

lemma manager_writes_step:
  assumes l: "working_lab L V room public_of" and p: "paired L V room public_of N i j am ag ns U (Suc n) M1 W1 M2 W2 x" and U: "prefix_free U"
    and m: "m = public_of (lab_machine_key L i)"
  shows "kv_full_key k \<in> U \<Longrightarrow> v \<noteq> [] \<Longrightarrow> \<exists>y t. on_manager j (manager_set_kv_value (lab_platform L) (lab_app L) m k v) x = (Ok (), y) \<and>
      paired L V room public_of N i j am ag ns U n M1 W1 (M2(kv_full_key k \<mapsto> (v, ag, t))) (insert (kv_full_key k) W2) y"
    and "MACHINE_CONFIG_KEY \<in> U \<Longrightarrow> config_to_json (lab_platform L) config = Some b \<Longrightarrow>
      \<exists>y t. on_manager j (manager_set_machine_config (lab_platform L) (lab_app L) m config) x = (Ok (), y) \<and>
      paired L V room public_of N i j am ag ns U n M1 W1 (M2(MACHINE_CONFIG_KEY \<mapsto> (b, ag, t))) (insert MACHINE_CONFIG_KEY W2) y"
proof -
  note wr = run_manager_put [OF working_labD(1) [OF l] paired_alive(2,4) [OF p] replicas_writable [OF replicas_sym [OF pairedD(8) [OF p]]], folded m] and put = paired_manager_put [OF l p U]
  show "kv_full_key k \<in> U \<Longrightarrow> v \<noteq> [] \<Longrightarrow> \<exists>y t. on_manager j (manager_set_kv_value (lab_platform L) (lab_app L) m k v) x = (Ok (), y) \<and>
      paired L V room public_of N i j am ag ns U n M1 W1 (M2(kv_full_key k \<mapsto> (v, ag, t))) (insert (kv_full_key k) W2) y"
    using wr(1) [of v k] put by blast
  show "\<exists>y t. on_manager j (manager_set_machine_config (lab_platform L) (lab_app L) m config) x = (Ok (), y) \<and>
      paired L V room public_of N i j am ag ns U n M1 W1 (M2(MACHINE_CONFIG_KEY \<mapsto> (b, ag, t))) (insert MACHINE_CONFIG_KEY W2) y"
    if "MACHINE_CONFIG_KEY \<in> U" "config_to_json (lab_platform L) config = Some b"
    using wr(2) [of config] that put by fastforce
qed

lemma list_machines_step:
  assumes l: "working_lab L V room public_of" and p: "paired L V room public_of N i j am ag ns U n M1 W1 M2 W2 x"
  obtains t where "on_manager j (list_machines (lab_platform L) (lab_app L)) x = (Ok [(public_of (lab_machine_key L i), t)], x)"
    "ticket_dir (lab_platform L) (lab_app L) (disk (bench_manager x j)) [(public_of (lab_machine_key L i), t)]"
    "capability_id (lab_platform L) (ticket_capability t) = ns"
proof -
  obtain t where t: "ticket_dir (lab_platform L) (lab_app L) (disk (bench_manager x j)) [(public_of (lab_machine_key L i), t)]"
    "capability_id (lab_platform L) (ticket_capability t) = ns" using pairedD(7) [OF p] by (auto simp: owning_manager_def)
  have "list_machines (lab_platform L) (lab_app L) (bench_manager x j) = (Ok [(public_of (lab_machine_key L i), t)], bench_manager x j)"
    by (rule run_list_machines [OF working_labD(1) [OF l] alive_running [OF paired_alive(2) [OF p]] t(1)])
  then show thesis using that [of t] t by (simp add: on_manager_def)
qed

lemma contracts_step:
  assumes l: "working_lab L V room public_of" and p: "paired L V room public_of N i j am ag ns U n M1 W1 M2 W2 x"
    and ok: "contracts_ok (lab_platform L) M2"
  shows "\<exists>y ps. on_manager j (manager_get_claimable_contracts (lab_platform L) (lab_app L)) x = (Ok ps, y) \<and>
      pay_lists (lab_platform L) (public_of (lab_machine_key L i)) M2 ps \<and> paired L V room public_of N i j am ag ns U n M1 W1 M2 W2 y"
proof -
  obtain t where t: "ticket_dir (lab_platform L) (lab_app L) (disk (bench_manager x j)) [(public_of (lab_machine_key L i), t)]"
    "capability_id (lab_platform L) (ticket_capability t) = ns" using list_machines_step [OF l p] by blast
  have k: "known V (engine (bench_manager x j)) ns" using pairedD(7) [OF p] by (simp add: owning_manager_def)
  obtain ps d where "manager_get_claimable_contracts (lab_platform L) (lab_app L) (bench_manager x j) =
      (Ok ps, (bench_manager x j)\<lparr>engine := d\<rparr>)" "same_device (lab_platform L) V room (engine (bench_manager x j)) d"
      "pay_lists (lab_platform L) (public_of (lab_machine_key L i)) M2 ps"
    by (rule run_get_claimable_contracts [OF working_labD(1) [OF l] paired_alive(2) [OF p] t(1,2) k paired_alive(6) [OF p] ok])
  then show ?thesis using paired_manager_read [OF p] by blast
qed

lemma remove_step:
  assumes l: "working_lab L V room public_of" and p: "paired L V room public_of N i j am ag ns U (length ps + n) M1 W1 M2 W2 x"
    and U: "prefix_free U" "payment_keys (lab_platform L) (map snd ps) \<subseteq> U" and ps: "\<forall>p \<in> set ps. fst p = public_of (lab_machine_key L i)"
  shows "\<exists>y. on_manager j (remove_claimable_contracts (lab_platform L) (lab_app L) (lab_iter L) ps) x = (Ok (), y) \<and>
      paired L V room public_of N i j am ag ns U n M1 W1 (remove_keys (payment_keys (lab_platform L) (map snd ps)) M2)
        (payment_keys (lab_platform L) (map snd ps) \<union> W2) y"
proof -
  obtain d where d: "remove_claimable_contracts (lab_platform L) (lab_app L) (lab_iter L) ps (bench_manager x j) =
      (Ok (), (bench_manager x j)\<lparr>engine := d\<rparr>)" "same_frame (lab_platform L) V (engine (bench_manager x j)) d"
    "replicas V room ns U n d (remove_keys (payment_keys (lab_platform L) (map snd ps)) M2)
        (payment_keys (lab_platform L) (map snd ps) \<union> W2) (engine (bench_machine x i)) M1 W1"
    by (rule run_remove_claimable_contracts [OF working_labD(1) [OF l] U paired_alive(2,4) [OF p] ps working_labD(6) [OF l]
        replicas_sym [OF pairedD(8) [OF p]]])
  show ?thesis using paired_manager_step [OF p d(2) replicas_sym [OF d(3)]] d(1) by (auto simp: on_manager_def)
qed

end
