(* ===== verification/Test_Claims.thy ===== *)
theory Test_Claims
  imports Test_Pairs
begin

text \<open>
  Claims on the bench: making a machine and a manager, a claim both users agree to, one that
  either declines, and one that comes too late.
\<close>

section \<open>New devices\<close>

definition idle_pair ::
    "'d lab \<Rightarrow> ('d, 'v) docs_view_scheme \<Rightarrow> ('d \<Rightarrow> nat) \<Rightarrow> (hash32 \<Rightarrow> endpoint_id) \<Rightarrow> nat \<Rightarrow> nat \<Rightarrow> nat \<Rightarrow> ('d, 'c) bench \<Rightarrow> bool" where
  "idle_pair L V room public_of N i j x \<longleftrightarrow> bench_ready L V room N x \<and> i < machines_made x \<and> j < managers_made x \<and>
     idle_machine L V room public_of N (lab_machine_key L i) (bench_machine x i) \<and>
     idle_manager L V room public_of N (lab_manager_key L j) (bench_manager x j) \<and>
     author_of V (engine (bench_machine x i)) \<noteq> author_of V (engine (bench_manager x j)) \<and>
     (\<forall>l \<in> set (links x). fst l \<noteq> i \<and> snd l \<noteq> j)"

lemma new_machine_step:
  assumes l: "working_lab L V room public_of" and b: "blank_node L V room N (bench_machine x i)"
  obtains s where "new_machine L i x = (Ok (), x\<lparr>bench_machine := (bench_machine x)(i := s)\<rparr>)"
    "idle_machine L V room public_of N (lab_machine_key L i) s" "author_of V (engine s) = author_of V (engine (bench_machine x i))"
proof -
  obtain s where "machine_protocol_new (lab_platform L) (lab_dir L) (lab_machine_key L i) (bench_machine x i) = (Ok (lab_app L), s)"
    "idle_machine L V room public_of N (lab_machine_key L i) s" "author_of V (engine s) = author_of V (engine (bench_machine x i))"
    by (rule new_machine_idle [OF l b])
  then show thesis using that by (simp add: new_machine_def on_machine_def andThen_def ret_def)
qed

lemma new_manager_step:
  assumes l: "working_lab L V room public_of" and b: "blank_node L V room N (bench_manager x j)"
  obtains s where "new_manager L j x = (Ok (), x\<lparr>bench_manager := (bench_manager x)(j := s)\<rparr>)"
    "idle_manager L V room public_of N (lab_manager_key L j) s" "author_of V (engine s) = author_of V (engine (bench_manager x j))"
proof -
  obtain s where "manager_protocol_new (lab_platform L) (lab_dir L) (lab_manager_key L j) (bench_manager x j) = (Ok (lab_app L), s)"
    "idle_manager L V room public_of N (lab_manager_key L j) s" "author_of V (engine s) = author_of V (engine (bench_manager x j))"
    by (rule new_manager_idle [OF l b])
  then show thesis using that by (simp add: new_manager_def on_manager_def andThen_def ret_def)
qed

lemma create_pair_step:
  assumes l: "working_lab L V room public_of" and b: "bench_ready L V room N x"
  obtains y where "create_machine_manager_pair L x = (Ok (machines_made x, managers_made x), y)"
    "idle_pair L V room public_of N (machines_made x) (managers_made x) y" "sessions y = sessions x"
    "machines_made y = Suc (machines_made x)" "managers_made y = Suc (managers_made x)" "sessions_made y = sessions_made x"
proof -
  let ?i = "machines_made x" and ?j = "managers_made x"
  let ?x1 = "x\<lparr>machines_made := Suc ?i\<rparr>"
  have b1: "blank_node L V room N (bench_machine ?x1 ?i)" using b by (simp add: bench_ready_def)
  obtain s where s: "new_machine L ?i ?x1 = (Ok (), ?x1\<lparr>bench_machine := (bench_machine ?x1)(?i := s)\<rparr>)"
    "idle_machine L V room public_of N (lab_machine_key L ?i) s" "author_of V (engine s) = author_of V (engine (bench_machine ?x1 ?i))"
    by (rule new_machine_step [OF l b1])
  let ?x2 = "?x1\<lparr>bench_machine := (bench_machine ?x1)(?i := s)\<rparr>"
  let ?x3 = "?x2\<lparr>managers_made := Suc ?j\<rparr>"
  have b3: "blank_node L V room N (bench_manager ?x3 ?j)" using b by (simp add: bench_ready_def)
  obtain t where t: "new_manager L ?j ?x3 = (Ok (), ?x3\<lparr>bench_manager := (bench_manager ?x3)(?j := t)\<rparr>)"
    "idle_manager L V room public_of N (lab_manager_key L ?j) t" "author_of V (engine t) = author_of V (engine (bench_manager ?x3 ?j))"
    by (rule new_manager_step [OF l b3])
  let ?y = "?x3\<lparr>bench_manager := (bench_manager ?x3)(?j := t)\<rparr>"
  have run: "create_machine_manager_pair L x = (Ok (?i, ?j), ?y)"
    using s(1) t(1) by (simp add: create_machine_manager_pair_def machine_tempdir_def manager_tempdir_def andThen_def ret_def)
  have y: "bench_machine ?y = (bench_machine x)(?i := s)" "bench_manager ?y = (bench_manager x)(?j := t)" "machines_made ?y = Suc ?i"
    "managers_made ?y = Suc ?j" "links ?y = links x" by simp_all
  have "bench_ready L V room N ?y"
    unfolding bench_ready_def y using b by (auto simp: bench_ready_def)
  moreover have "author_of V (engine s) \<noteq> author_of V (engine t)" using b s(3) t(3) by (simp add: bench_ready_def)
  moreover have "\<forall>l \<in> set (links x). fst l \<noteq> ?i \<and> snd l \<noteq> ?j" using b by (auto simp: bench_ready_def)
  ultimately have "idle_pair L V room public_of N ?i ?j ?y"
    unfolding idle_pair_def y using s(2) t(2) by simp
  then show thesis using that [OF run] by simp
qed

section \<open>A claim under way\<close>

text \<open>The machine belongs to somebody else: \<open>accept_claim\<close> closes the connection without asking.\<close>

definition turned_away :: "'d lab \<Rightarrow> ('d, 'c) bench \<Rightarrow> session \<Rightarrow> bool" where
  "turned_away L x c = (case claimed_manager_pubkey (bench_machine x (ses_machine c)) of
       None \<Rightarrow> False
     | Some k \<Rightarrow> k \<noteq> manager_public_key L x (ses_manager c))"

lemma requested_pin_eq:
  "requested_pin L x c = (if turned_away L x c then None else Some (claim_pin_from_keying_material (lab_keying L (ses_number c))))"
  by (simp add: requested_pin_def accept_claim_def lock_claimed_def await_def andThen_def log_event_def lift_res_def ret_def machine_end_def
      pins_sent_def turned_away_def Let_def numeral_2_eq_2 split: option.splits)

lemma await_claim_request_eq:
  "await_claim_request L i x =
     (if machine_is_shutdown (lab_platform L) (bench_machine x i) then (Ok None, x)
      else (case find (\<lambda>c. ses_machine c = i \<and> \<not> turned_away L x c) (sessions x) of
          None \<Rightarrow> (Cancelled, x)
        | Some c \<Rightarrow> if ses_shown c then (Cancelled, x)
            else (Ok (Some (claim_pin_from_keying_material (lab_keying L (ses_number c)), ses_number c)),
              update_session (ses_number c) (\<lambda>c. c\<lparr>ses_shown := True\<rparr>) x)))"
proof -
  have e: "(ses_machine c = i \<and> requested_pin L x c \<noteq> None) = (ses_machine c = i \<and> \<not> turned_away L x c)" for c
    by (simp add: requested_pin_eq)
  have p: "the (requested_pin L x c) = claim_pin_from_keying_material (lab_keying L (ses_number c))"
    if "find (\<lambda>c. ses_machine c = i \<and> \<not> turned_away L x c) (sessions x) = Some c" for c
    using that by (auto simp: find_Some_iff requested_pin_eq)
  show ?thesis unfolding await_claim_request_def e using p by (auto split: option.split)
qed

lemma session_ready_eq:
  "session_ready L x c \<longleftrightarrow> manager_answer c \<noteq> None \<and> (machine_answer c \<noteq> None \<or> turned_away L x c)"
  by (simp add: session_ready_def requested_pin_eq)

abbreviation session_of :: "'d lab \<Rightarrow> ('d, 'c) bench \<Rightarrow> nat \<Rightarrow> nat \<Rightarrow> bool \<Rightarrow> bool option \<Rightarrow> bool option \<Rightarrow> session" where
  "session_of L x i j shown a b \<equiv> \<lparr>ses_number = sessions_made x, ses_machine = i, ses_manager = j,
     ses_dialed = addr_id (machine_addr L x i), ses_shown = shown, machine_answer = a, manager_answer = b\<rparr>"

lemma start_claim_step:
  assumes s: "running (bench_manager x j)"
  shows "start_claim L j i addr x = (Ok (claim_pin_from_keying_material (lab_keying L (sessions_made x)), sessions_made x),
     x\<lparr>sessions_made := Suc (sessions_made x), sessions := sessions x @ [\<lparr>ses_number = sessions_made x, ses_machine = i, ses_manager = j,
        ses_dialed = addr_id addr, ses_shown = False, machine_answer = None, manager_answer = None\<rparr>]\<rparr>)"
proof -
  have "claim_machine ((lab_closed L)\<lparr>out_connect := Ok (), out_exporter := lab_keying L (sessions_made x)\<rparr>) (bench_manager x j) =
      (Ok (claim_pin_from_keying_material (lab_keying L (sessions_made x))), bench_manager x j)"
    using s by (simp add: claim_machine_def andThen_def running_await lift_res_def ret_def)
  then show ?thesis by (simp add: start_claim_def asks_def on_manager_def andThen_def ret_def)
qed

lemma perform_claim_step:
  assumes i: "idle_pair L V room public_of N i j x" and none: "sessions x = []"
  shows "perform_claim L i j a b x = (Ok (claim_pin_from_keying_material (lab_keying L (sessions_made x))),
    x\<lparr>sessions_made := Suc (sessions_made x), sessions := [session_of L x i j True (Some a) (Some b)]\<rparr>)"
proof -
  have s: "running (bench_manager x j)" "\<not> machine_is_shutdown (lab_platform L) (bench_machine x i)" "claimed_manager_pubkey (bench_machine x i) = None"
    using i by (simp_all add: idle_pair_def idle_machine_def idle_manager_def idle_def alive_def machine_is_shutdown_def)
  show ?thesis
    using s none by (simp add: perform_claim_def asks_def andThen_def expect_ok_def attempt_def start_claim_step [OF s(1)] ret_def
        await_claim_request_eq turned_away_def update_session_def unwrap_def answer_machine_def answer_manager_def check_def)
qed

section \<open>A claim that both users agree to\<close>

lemma first_replicas:
  assumes g1: "gained_doc P V room ns d1 e1" and g2: "gained_doc P V room ns d2 e2" and a: "author_of V d1 \<noteq> author_of V d2"
    and n: "n \<le> room e1" "n \<le> room e2"
  shows "replicas V room ns U n e1 Map.empty {} e2 Map.empty {}"
proof -
  have "replica V room ns U n e Map.empty" if "\<forall>a k. stored_of V e ns a k = None" "known V e ns" "n \<le> room e" for e
    using that by (simp add: replica_def content_def content_at_def visible_def clock_ahead_def)
  then show ?thesis using assms by (simp add: replicas_def gained_doc_def mergeable_def has_copies_def)
qed

lemma idle_unlinked:
  assumes i: "idle_pair L V room public_of N i j x"
  shows "distinct (links x @ [(i, j)])" "own_link i j (links x @ [(i, j)])"
  using i by (auto simp: idle_pair_def bench_ready_def own_link_def)

lemma machine_end_cooperates:
  assumes "machine_answer c = Some True" and "manager_answer c = Some True"
  shows "cooperates (machine_end L x c)"
  using assms by (simp add: cooperates_def machine_end_def PING_MAGIC_BYTES_def)

lemma session_accepted:
  assumes l: "working_lab L V room public_of" and i: "idle_pair L V room public_of (Suc N) i j x"
    and c: "ses_machine c = i" "ses_manager c = j" "ses_dialed c = public_of (lab_machine_key L i)"
    and yes: "machine_answer c = Some True" "manager_answer c = Some True"
  obtains ns where "paired L V room public_of (Suc N) i j (author_of V (engine (bench_machine x i))) (author_of V (engine (bench_manager x j)))
      ns U N Map.empty {} Map.empty {} ((run_session L c x)\<lparr>sessions := []\<rparr>)"
proof -
  let ?P = "lab_platform L" and ?s = "bench_machine x i" and ?t = "bench_manager x j" and ?conn = "machine_end L x c"
  have im: "idle_machine L V room public_of (Suc N) (lab_machine_key L i) ?s" and ig: "idle_manager L V room public_of (Suc N) (lab_manager_key L j) ?t"
    and au: "author_of V (engine ?s) \<noteq> author_of V (engine ?t)" using i by (simp_all add: idle_pair_def)
  obtain s' tb t ns where s': "accept_claim ?P (lab_app L) ?conn ?s = (Ok (), s')"
    "owned_machine L V public_of (lab_machine_key L i) (remote_id ?conn) ns s'" "gained_doc ?P V room ns (engine ?s) (engine s')" "N \<le> room (engine s')"
    "tickets_sent (drop (length (conn_log ?s)) (conn_log s')) = [tb]" "ticket_from_json ?P tb = Some t"
    "ticket_to_json ?P t = Some tb" "capability_id ?P (ticket_capability t) = ns" "is_write_capability (ticket_capability t)"
    by (rule claim_machine_side [OF l im machine_end_cooperates [OF yes, of L x]])
  have rid: "remote_id ?conn = public_of (lab_manager_key L j)"
    using ig c(2) by (simp add: machine_end_def manager_public_key_def idle_manager_def idle_def)
  have co: "out_cooperates (manager_end L c [tb]) tb" using yes by (simp add: manager_end_def out_cooperates_def)
  obtain t' where t': "manager_claim_task ?P (lab_app L) (manager_end L c [tb]) (ses_dialed c) ?t = (Ok (Some ''done''), t')"
    "owning_manager L V public_of (lab_manager_key L j) (ses_dialed c) (capability_id ?P (ticket_capability t)) t'"
    "gained_doc ?P V room (capability_id ?P (ticket_capability t)) (engine ?t) (engine t')" "N \<le> room (engine t')"
    by (rule claim_manager_side [OF l ig co s'(6,7,9)])
  have run: "run_session L c x = x\<lparr>bench_machine := (bench_machine x)(i := s'), bench_manager := (bench_manager x)(j := t'), links := links x @ [(i, j)]\<rparr>"
    using s'(1,5) t'(1) c(1,2) by (simp add: run_session_def Let_def)
  let ?y = "x\<lparr>bench_machine := (bench_machine x)(i := s'), bench_manager := (bench_manager x)(j := t'), links := links x @ [(i, j)]\<rparr>"
  have r: "replicas V room ns U N (engine s') Map.empty {} (engine t') Map.empty {}"
    by (rule first_replicas [OF s'(3) t'(3) [unfolded s'(8)] au s'(4) t'(4)])
  have b: "bench_ready L V room (Suc N) ?y" using i idle_unlinked(1) [OF i] by (auto simp: idle_pair_def bench_ready_def)
  have "paired L V room public_of (Suc N) i j (author_of V (engine ?s)) (author_of V (engine ?t)) ns U N Map.empty {} Map.empty {} (?y\<lparr>sessions := []\<rparr>)"
    unfolding paired_def using b r i idle_unlinked(2) [OF i] s'(2,3,8) t'(2,3) c(3) rid by (simp add: idle_pair_def gained_doc_def bench_ready_def)
  then show thesis using that [of ns] unfolding run by simp
qed

lemma session_ready_idle:
  assumes "idle_pair L V room public_of N i j x" and "ses_machine c = i" and "machine_answer c \<noteq> None" and "manager_answer c \<noteq> None"
  shows "session_ready L x c"
  using assms by (simp add: session_ready_def)

lemma merge_nothing [simp]: "merge {} M N = M"
  by (simp add: merge_def)

lemma accepted_sleep:
  assumes l: "working_lab L V room public_of" and i: "idle_pair L V room public_of (Suc (Suc N)) i j x" and ses: "sessions x = [c]"
    and c: "ses_machine c = i" "ses_manager c = j" "ses_dialed c = public_of (lab_machine_key L i)"
    and yes: "machine_answer c = Some True" "manager_answer c = Some True"
  obtains y ns where "sleep L x = (Ok (), y)" "sessions_made y = sessions_made x" "machines_made y = machines_made x"
    "managers_made y = managers_made x"
    "paired L V room public_of (Suc (Suc N)) i j (author_of V (engine (bench_machine x i))) (author_of V (engine (bench_manager x j)))
      ns U N Map.empty {} Map.empty {} y"
proof -
  let ?y = "(run_session L c x)\<lparr>sessions := []\<rparr>"
  obtain ns where p: "paired L V room public_of (Suc (Suc N)) i j (author_of V (engine (bench_machine x i))) (author_of V (engine (bench_manager x j)))
      ns U (Suc N) Map.empty {} Map.empty {} ?y" by (rule session_accepted [OF l i c yes])
  have "session_ready L x c" by (rule session_ready_idle [OF i c(1)]) (simp_all add: yes)
  then have "sleep L x = (Ok (), exchange_all L ?y)" by (simp add: sleep_def ses)
  moreover have "sessions_made ?y = sessions_made x" "machines_made ?y = machines_made x" "managers_made ?y = managers_made x"
    by (simp_all add: run_session_def Let_def)
  ultimately show thesis using that paired_exchange [OF l p] by simp
qed

section \<open>Waiting for the claim\<close>

lemma wait_for_now: "condition x = (Ok True, y) \<Longrightarrow> wait_for_condition L condition (Suc n) x = (Ok (), y)"
  by (simp add: andThen_def ret_def)

lemma wait_for_once:
  assumes "condition x = (Ok False, y)" and "sleep L y = (Ok (), z)" and "condition z = (Ok True, u)"
  shows "wait_for_condition L condition (Suc (Suc n)) x = (Ok (), u)"
  using assms by (simp add: andThen_def ret_def)

lemma default_wait: "DEFAULT_WAIT_ITERATIONS = Suc (Suc 8)"
  by (simp add: DEFAULT_WAIT_ITERATIONS_def)

lemma with_context_ok: "m x = (Ok y, z) \<Longrightarrow> with_context msg m x = (Ok y, z)"
  by (simp add: with_context_def)

lemma idle_list_machines:
  assumes l: "working_lab L V room public_of" and i: "idle_manager L V room public_of N key (bench_manager x j)"
  shows "on_manager j (list_machines (lab_platform L) (lab_app L)) x = (Ok [], x)"
proof -
  have "running (bench_manager x j)" "ticket_dir (lab_platform L) (lab_app L) (disk (bench_manager x j)) []"
    using i by (simp_all add: idle_manager_def idle_def alive_def)
  then have "list_machines (lab_platform L) (lab_app L) (bench_manager x j) = (Ok [], bench_manager x j)"
    by (rule run_list_machines [OF working_labD(1) [OF l]])
  then show ?thesis by (simp add: on_manager_def)
qed

abbreviation machines_listed :: "'d lab \<Rightarrow> nat \<Rightarrow> nat \<Rightarrow> (('d, 'c) bench, bool) prog" where
  "machines_listed L j n \<equiv> andThen (expect_ok (on_manager j (list_machines (lab_platform L) (lab_app L)))) (\<lambda>machines.
        ret (length machines = n))"

lemma machines_listed_run:
  "on_manager j (list_machines (lab_platform L) (lab_app L)) x = (Ok ms, x) \<Longrightarrow> machines_listed L j n x = (Ok (length ms = n), x)"
  by (simp add: andThen_def expect_ok_def attempt_def ret_def)

lemma paired_listed:
  assumes l: "working_lab L V room public_of" and p: "paired L V room public_of N i j am ag ns U n M1 W1 M2 W2 x"
  shows "wait_for_machines_listed L j 1 x = (Ok (), x)"
proof -
  obtain t where "on_manager j (list_machines (lab_platform L) (lab_app L)) x = (Ok [(public_of (lab_machine_key L i), t)], x)"
    by (rule list_machines_step [OF l p])
  from machines_listed_run [OF this, of 1] have "machines_listed L j 1 x = (Ok True, x)" by simp
  then show ?thesis unfolding wait_for_machines_listed_def default_wait by (intro with_context_ok wait_for_now)
qed

lemma claimed_listed:
  assumes l: "working_lab L V room public_of" and i: "idle_pair L V room public_of (Suc (Suc N)) i j x" and ses: "sessions x = [c]"
    and c: "ses_machine c = i" "ses_manager c = j" "ses_dialed c = public_of (lab_machine_key L i)"
    and yes: "machine_answer c = Some True" "manager_answer c = Some True"
  obtains y ns where "wait_for_machines_listed L j 1 x = (Ok (), y)" "sessions_made y = sessions_made x" "machines_made y = machines_made x"
    "managers_made y = managers_made x"
    "paired L V room public_of (Suc (Suc N)) i j (author_of V (engine (bench_machine x i))) (author_of V (engine (bench_manager x j)))
      ns U N Map.empty {} Map.empty {} y"
proof -
  have "idle_manager L V room public_of (Suc (Suc N)) (lab_manager_key L j) (bench_manager x j)" using i by (simp add: idle_pair_def)
  then have "on_manager j (list_machines (lab_platform L) (lab_app L)) x = (Ok [], x)" by (rule idle_list_machines [OF l])
  from machines_listed_run [OF this, of 1] have a: "machines_listed L j 1 x = (Ok False, x)" by simp
  obtain y ns where y: "sleep L x = (Ok (), y)" "sessions_made y = sessions_made x" "machines_made y = machines_made x"
    "managers_made y = managers_made x"
    "paired L V room public_of (Suc (Suc N)) i j (author_of V (engine (bench_machine x i))) (author_of V (engine (bench_manager x j)))
      ns U N Map.empty {} Map.empty {} y" by (rule accepted_sleep [OF l i ses c yes])
  obtain t where "on_manager j (list_machines (lab_platform L) (lab_app L)) y = (Ok [(public_of (lab_machine_key L i), t)], y)"
    by (rule list_machines_step [OF l y(5)])
  from machines_listed_run [OF this, of 1] have b: "machines_listed L j 1 y = (Ok True, y)" by simp
  show thesis
    by (rule that [OF _ y(2-5)]) (unfold wait_for_machines_listed_def default_wait, intro with_context_ok wait_for_once [OF a y(1) b])
qed

lemma idle_addr:
  assumes "idle_pair L V room public_of N i j x"
  shows "addr_id (machine_addr L x i) = public_of (lab_machine_key L i)" "manager_public_key L x j = public_of (lab_manager_key L j)"
  using assms by (simp_all add: idle_pair_def idle_machine_def idle_manager_def idle_def machine_addr_def manager_public_key_def)

lemma idle_pair_sessions [simp]:
  "idle_pair L V room public_of N i j (x\<lparr>sessions := cs\<rparr>) \<longleftrightarrow> idle_pair L V room public_of N i j x"
  "idle_pair L V room public_of N i j (x\<lparr>sessions_made := n\<rparr>) \<longleftrightarrow> idle_pair L V room public_of N i j x"
  by (simp_all add: idle_pair_def bench_ready_def)

lemma create_claimed_step:
  assumes l: "working_lab L V room public_of" and b: "bench_ready L V room (Suc (Suc N)) x" and none: "sessions x = []"
  obtains am ag ns y where "create_claimed_machine_manager_pair L x = (Ok (machines_made x, managers_made x), y)"
    "machines_made y = Suc (machines_made x)" "managers_made y = Suc (managers_made x)"
    "paired L V room public_of (Suc (Suc N)) (machines_made x) (managers_made x) am ag ns U N Map.empty {} Map.empty {} y"
proof -
  let ?i = "machines_made x" and ?j = "managers_made x"
  obtain y where y: "create_machine_manager_pair L x = (Ok (?i, ?j), y)" "idle_pair L V room public_of (Suc (Suc N)) ?i ?j y"
    "sessions y = sessions x" "machines_made y = Suc ?i" "managers_made y = Suc ?j" "sessions_made y = sessions_made x"
    by (rule create_pair_step [OF l b])
  let ?c = "session_of L y ?i ?j True (Some True) (Some True)"
  let ?z = "y\<lparr>sessions_made := Suc (sessions_made y), sessions := [?c]\<rparr>"
  have "sessions y = []" using y(3) none by simp
  then have pc: "perform_claim L ?i ?j True True y = (Ok (claim_pin_from_keying_material (lab_keying L (sessions_made y))), ?z)"
    by (rule perform_claim_step [OF y(2)])
  have z: "idle_pair L V room public_of (Suc (Suc N)) ?i ?j ?z" "sessions ?z = [?c]" using y(2) by simp_all
  obtain u ns where u: "wait_for_machines_listed L ?j 1 ?z = (Ok (), u)" "sessions_made u = sessions_made ?z" "machines_made u = machines_made ?z"
    "managers_made u = managers_made ?z"
    "paired L V room public_of (Suc (Suc N)) ?i ?j (author_of V (engine (bench_machine ?z ?i))) (author_of V (engine (bench_manager ?z ?j)))
      ns U N Map.empty {} Map.empty {} u"
    by (rule claimed_listed [OF l z, where U = U]) (simp_all add: idle_addr [OF y(2)])
  have "create_claimed_machine_manager_pair L x = (Ok (?i, ?j), u)"
    using y(1) pc u(1) by (simp add: create_claimed_machine_manager_pair_def andThen_eval with_context_ok)
  then show thesis using that u(3-5) y(4,5) by simp
qed

end
