(* ===== verification/Test_KV.thy ===== *)
theory Test_KV
  imports Test_Bench
begin

text \<open>The tests of the key/value store in \<open>vendimint_iroh/mod.rs\<close> as programs over the bench.\<close>

definition machine_get :: "'d lab \<Rightarrow> kv_test_fixture \<Rightarrow> bytes \<Rightarrow> (('d, 'c) bench, kv_entry option) prog" where
  "machine_get L fx key = on_machine (fx_machine fx) (machine_get_kv_value (lab_platform L) (lab_app L) key)"

definition manager_get :: "'d lab \<Rightarrow> kv_test_fixture \<Rightarrow> bytes \<Rightarrow> (('d, 'c) bench, kv_entry option) prog" where
  "manager_get L fx key =
     on_manager (fx_manager fx) (manager_get_kv_value (lab_platform L) (lab_app L) (fx_machine_id fx) key)"

definition machine_set :: "'d lab \<Rightarrow> kv_test_fixture \<Rightarrow> bytes \<Rightarrow> bytes \<Rightarrow> (('d, 'c) bench, unit) prog" where
  "machine_set L fx key v = on_machine (fx_machine fx) (machine_set_kv_value (lab_platform L) (lab_app L) key v)"

definition manager_set :: "'d lab \<Rightarrow> kv_test_fixture \<Rightarrow> bytes \<Rightarrow> bytes \<Rightarrow> (('d, 'c) bench, unit) prog" where
  "manager_set L fx key v =
     on_manager (fx_manager fx) (manager_set_kv_value (lab_platform L) (lab_app L) (fx_machine_id fx) key v)"

definition machine_entries :: "'d lab \<Rightarrow> kv_test_fixture \<Rightarrow> (('d, 'c) bench, kv_entry list) prog" where
  "machine_entries L fx = on_machine (fx_machine fx) (machine_get_kv_entries (lab_platform L) (lab_app L))"

definition manager_entries :: "'d lab \<Rightarrow> kv_test_fixture \<Rightarrow> (('d, 'c) bench, kv_entry list) prog" where
  "manager_entries L fx =
     on_manager (fx_manager fx) (manager_get_kv_entries (lab_platform L) (lab_app L) (fx_machine_id fx))"

definition test_kv_basic_operations :: "'d lab \<Rightarrow> (('d, 'c) bench, unit) prog" where
  "test_kv_basic_operations L =
     andThen (kv_fixture_new L) (\<lambda>fixture.
     andThen (machine_set L fixture TEST_KEY TEST_VALUE) (\<lambda>_.
     andThen (verify_entry L fixture TEST_KEY TEST_VALUE Machine) (\<lambda>_.
     andThen (machine_get L fixture NONEXISTENT_KEY) (\<lambda>entry.
     andThen (check (entry = None)) (\<lambda>_.
     andThen (manager_get L fixture NONEXISTENT_KEY) (\<lambda>entry.
     andThen (check (entry = None)) (\<lambda>_.
     andThen (kv_fixture_new L) (\<lambda>fresh_fixture.
     andThen (machine_get L fresh_fixture TEST_KEY) (\<lambda>entry.
     andThen (check (entry = None)) (\<lambda>_.
     andThen (manager_get L fresh_fixture TEST_KEY) (\<lambda>entry.
     check (entry = None))))))))))))"

definition test_data :: "(bytes \<times> bytes) list" where
  "test_data = [(ascii ''key1'', ascii ''value1''), (ascii ''key2'', ascii ''value2''), (ascii ''key3'', ascii ''value3'')]"

definition test_kv_multiple_entries :: "'d lab \<Rightarrow> (('d, 'c) bench, unit) prog" where
  "test_kv_multiple_entries L =
     andThen (kv_fixture_new L) (\<lambda>fixture.
     andThen (for_each (\<lambda>(key, v). machine_set L fixture key v) test_data) (\<lambda>_.
     andThen (machine_entries L fixture) (\<lambda>entries.
     andThen (check (length entries = length test_data)) (\<lambda>_.
     andThen (for_each (\<lambda>entry.
       andThen (unwrap (map_option snd (find (\<lambda>(key, _). key = kv_key entry) test_data))) (\<lambda>expected_value.
       check (kv_value entry = expected_value))) entries) (\<lambda>_.
     andThen (wait_for_kv_entries_sync L fixture) (\<lambda>_.
     andThen (manager_entries L fixture) (\<lambda>entries.
     andThen (check (length entries = length test_data)) (\<lambda>_.
     for_each (\<lambda>(key, v). verify_entry L fixture key v Machine) test_data))))))))"

definition test_kv_update_existing_key :: "'d lab \<Rightarrow> (('d, 'c) bench, unit) prog" where
  "test_kv_update_existing_key L =
     (let key = ascii ''update_key''; initial_value = ascii ''initial_value''; updated_value = ascii ''new_updated_value_longer'' in
      andThen (kv_fixture_new L) (\<lambda>fixture.
      andThen (machine_set L fixture key initial_value) (\<lambda>_.
      andThen (verify_entry L fixture key initial_value Machine) (\<lambda>_.
      andThen (manager_set L fixture key updated_value) (\<lambda>_.
      verify_entry L fixture key updated_value Manager)))))"

definition test_kv_namespace_isolation :: "'d lab \<Rightarrow> (('d, 'c) bench, unit) prog" where
  "test_kv_namespace_isolation L =
     andThen (kv_fixture_new L) (\<lambda>fixture.
     andThen (machine_set L fixture TEST_KEY TEST_VALUE) (\<lambda>_.
     andThen (on_manager (fx_manager fixture)
       (manager_set_machine_config (lab_platform L) (lab_app L) (fx_machine_id fixture) (create_test_machine_config L))) (\<lambda>_.
     andThen (on_machine (fx_machine fixture)
       (write_payment_to_machine_doc (lab_platform L) (lab_app L) (lab_federation L) (lab_contract L))) (\<lambda>_.
     andThen (wait_for_kv_entries_sync L fixture) (\<lambda>_.
     andThen (machine_entries L fixture) (\<lambda>kv_entries.
     andThen (check (length kv_entries = 1)) (\<lambda>_.
     andThen (check (kv_value (hd kv_entries) = TEST_VALUE)) (\<lambda>_.
     andThen (check (kv_key (hd kv_entries) = TEST_KEY)) (\<lambda>_.
     andThen (on_machine (fx_machine fixture) (machine_get_machine_config (lab_platform L) (lab_app L))) (\<lambda>config.
     andThen (check (config \<noteq> None)) (\<lambda>_.
     andThen (on_manager (fx_manager fixture) (manager_get_claimable_contracts (lab_platform L) (lab_app L))) (\<lambda>contracts.
     andThen (check (length contracts = 1)) (\<lambda>_.
     andThen (machine_get L fixture TEST_KEY) (\<lambda>kv_entry.
     check (kv_entry \<noteq> None)))))))))))))))"

definition test_kv_author_tracking :: "'d lab \<Rightarrow> (('d, 'c) bench, unit) prog" where
  "test_kv_author_tracking L =
     (let machine_key = ascii ''machine_key''; machine_value = ascii ''written_by_machine'';
          manager_key = ascii ''manager_key''; manager_value = ascii ''written_by_manager'' in
      andThen (kv_fixture_new L) (\<lambda>fixture.
      andThen (machine_set L fixture machine_key machine_value) (\<lambda>_.
      andThen (manager_set L fixture manager_key manager_value) (\<lambda>_.
      andThen (verify_entry L fixture machine_key machine_value Machine) (\<lambda>_.
      andThen (verify_entry L fixture manager_key manager_value Manager) (\<lambda>_.
      andThen (machine_entries L fixture) (\<lambda>entries.
      let entries = map (\<lambda>entry. entry\<lparr>kv_timestamp := 0\<rparr>) (sort_key kv_key entries) in
      check (entries =
        [\<lparr>kv_key = machine_key, kv_value = machine_value, kv_author = Machine, kv_timestamp = 0\<rparr>,
         \<lparr>kv_key = manager_key, kv_value = manager_value, kv_author = Manager, kv_timestamp = 0\<rparr>]))))))))"

definition test_kv_binary_data :: "'d lab \<Rightarrow> (('d, 'c) bench, unit) prog" where
  "test_kv_binary_data L =
     (let binary_key = [0x00, 0x01, 0x02] @ ascii ''binary_key'' @ [0xff, 0xfe];
          binary_value = [0x00, 0x01, 0x02, 0x03, 0x04, 0x05, 0x06, 0x07, 0x08, 0x09, 0x0a, 0x0b, 0x0c, 0x0d,
            0x0e, 0x0f, 0x10, 0x11, 0x12, 0x13, 0x14, 0x15, 0x16, 0x17, 0x18, 0x19, 0x1a, 0x1b,
            0x1c, 0x1d, 0x1e, 0x1f, 0xff, 0xfe, 0xfd, 0xfc, 0xfb, 0xfa, 0xf9, 0xf8];
          updated_binary_value = [0xa0, 0xa1, 0xa2, 0xa3, 0xa4, 0xa5, 0xa6, 0xa7, 0xb0, 0xb1, 0xb2, 0xb3, 0xb4, 0xb5,
            0xb6, 0xb7, 0xc0, 0xc1, 0xc2, 0xc3, 0xc4, 0xc5, 0xc6, 0xc7, 0x00, 0x00, 0x00, 0x00,
            0xff, 0xff, 0xff, 0xff] in
      andThen (kv_fixture_new L) (\<lambda>fixture.
      andThen (machine_set L fixture binary_key binary_value) (\<lambda>_.
      andThen (verify_entry L fixture binary_key binary_value Machine) (\<lambda>_.
      andThen (manager_set L fixture binary_key updated_binary_value) (\<lambda>_.
      verify_entry L fixture binary_key updated_binary_value Manager)))))"

end
