(* ===== verification/Test_KV_Runs.thy ===== *)
theory Test_KV_Runs
  imports Test_Claims Test_KV
begin

text \<open>
  The tests of the key/value store pass: the two sides' entries agree exactly when their
  copies of the document agree on the keys of the store, so waiting for the entries to agree
  ends at once or after one exchange.
\<close>

section \<open>The keys of a test\<close>

definition test_keys :: "'d platform \<Rightarrow> bytes set \<Rightarrow> bytes set" where
  "test_keys P K = insert MACHINE_CONFIG_KEY ((\<lambda>(fid, cc). create_claimable_contract_machine_doc_key P fid cc) ` UNIV \<union> kv_full_key ` K)"

lemma test_keys_mem [simp]:
  "MACHINE_CONFIG_KEY \<in> test_keys P K" "create_claimable_contract_machine_doc_key P fid cc \<in> test_keys P K"
  "k \<in> K \<Longrightarrow> kv_full_key k \<in> test_keys P K" "payment_keys P xs \<subseteq> test_keys P K"
  by (auto simp: test_keys_def payment_keys_def)

lemma test_keys_prefix_free:
  assumes c: "codec_contract P" and K: "prefix_free K"
  shows "prefix_free (test_keys P K)"
proof -
  have key: "create_claimable_contract_machine_doc_key P fid cc = contract_key_of (fid, contract_id_of P cc)" for fid cc
    by (rule contract_key_of_eq [OF c])
  show ?thesis
    unfolding prefix_free_def
  proof (intro ballI impI)
    fix x y assume x: "x \<in> test_keys P K" and y: "y \<in> test_keys P K" and p: "prefix x y"
    consider "x = MACHINE_CONFIG_KEY" | f c where "x = contract_key_of (f, c)" | k where "k \<in> K" "x = kv_full_key k"
      using x by (auto simp: test_keys_def key)
    then show "x = y"
    proof cases
      case 1
      then show ?thesis using y p key_spaces_disjoint by (auto simp: test_keys_def key)
    next
      case 2
      then show ?thesis using y p key_spaces_disjoint by (auto simp: test_keys_def key contract_key_prefix_iff)
    next
      case 3
      then show ?thesis using y p key_spaces_disjoint K by (auto simp: test_keys_def key prefix_free_def kv_full_key_def)
    qed
  qed
qed

lemma test_keys_ready:
  "working_lab L V room public_of \<Longrightarrow> prefix_free K \<Longrightarrow> prefix_free (test_keys (lab_platform L) K)"
  by (rule test_keys_prefix_free [OF working_engineD(2) [OF working_labD(1)]])

lemma prefix_free_single: "prefix_free {k}"
  by (simp add: prefix_free_def)

lemma no_keys_ready: "working_lab L V room public_of \<Longrightarrow> prefix_free (test_keys (lab_platform L) {})"
  by (rule test_keys_ready) (simp_all add: prefix_free_def)

section \<open>The two lists of entries\<close>

definition authors_in :: "author_id set \<Rightarrow> doc_map \<Rightarrow> bool" where
  "authors_in A M \<longleftrightarrow> (\<forall>k v a t. M k = Some (v, a, t) \<longrightarrow> a \<in> A)"

lemma paired_authors:
  assumes "paired L V room public_of N i j am ag ns U n M1 W1 M2 W2 x"
  shows "authors_in {am, ag} M1" "authors_in {am, ag} M2" "am \<noteq> ag"
proof -
  note r = pairedD(8) [OF assms] and a = pairedD(9,10) [OF assms]
  have none: "stored_of V d ns c k = None" if "c \<notin> {am, ag}" "d \<in> {engine (bench_machine x i), engine (bench_manager x j)}" for c k d
    using r that unfolding replicas_def mergeable_def a by auto
  have "c \<in> {am, ag}" if m: "M k = Some (v, c, t)" and dc: "content V ns d M" "d \<in> {engine (bench_machine x i), engine (bench_manager x j)}" for M k v c t d
  proof (rule ccontr)
    assume "c \<notin> {am, ag}"
    then show False using none [OF _ dc(2)] contentD(1) [OF dc(1) m] by (auto simp: newest_def)
  qed
  then show "authors_in {am, ag} M1" "authors_in {am, ag} M2"
    using paired_alive(5,6) [OF assms] unfolding authors_in_def by blast+
  show "am \<noteq> ag" using replicas_authors [OF r] by (simp add: a)
qed

lemma kv_of_sides:
  assumes "am \<noteq> ag" and "a \<in> {am, ag}"
  shows "kv_of Manager ag k (v, a, t) = kv_of Machine am k (v, a, t)"
  using assms by (auto simp: kv_of_def opposite_author_def)

lemma kv_of_inject:
  assumes "am \<noteq> ag" and "a \<in> {am, ag}" and "a' \<in> {am, ag}"
  shows "kv_of Machine am k (v, a, t) = kv_of Machine am k' (v', a', t') \<longleftrightarrow> k = k' \<and> v = v' \<and> a = a' \<and> t = t'"
  using assms by (auto simp: kv_of_def opposite_author_def)

lemma same_entries_sorted:
  "same_entries xs ys \<longleftrightarrow> sort_key kv_key xs = sort_key kv_key ys"
proof -
  have "list_all (\<lambda>(m, mg). m = mg) (zip us vs) \<longleftrightarrow> us = vs" if "length us = length vs" for us vs :: "kv_entry list"
    using that by (induction us vs rule: list_induct2) auto
  moreover have "length xs = length ys" if "sort_key kv_key xs = sort_key kv_key ys"
    using arg_cong [OF that, of length] by simp
  ultimately show ?thesis by (auto simp: same_entries_def Let_def)
qed

lemma same_entries_set:
  assumes "distinct (map kv_key xs)" and "distinct (map kv_key ys)" and keys: "inj_on kv_key (set xs \<union> set ys) \<or> set xs \<noteq> set ys"
  shows "same_entries xs ys \<longleftrightarrow> set xs = set ys"
proof
  assume "same_entries xs ys"
  then have "set (sort_key kv_key xs) = set (sort_key kv_key ys)" by (simp only: same_entries_sorted)
  then show "set xs = set ys" by simp
next
  assume s: "set xs = set ys"
  have "sort_key kv_key xs = sort_key kv_key ys"
  proof (rule map_sorted_distinct_set_unique [where f = kv_key])
    show "inj_on kv_key (set (sort_key kv_key xs) \<union> set (sort_key kv_key ys))" using keys s by simp
    have d: "distinct (map kv_key (sort_key kv_key zs))" if "distinct (map kv_key zs)" for zs
      using that by (simp add: distinct_map distinct_insort_key)
    show "distinct (map kv_key (sort_key kv_key xs))" "distinct (map kv_key (sort_key kv_key ys))" using assms(1,2) by (auto simp: distinct_map)
  qed (simp_all add: s)
  then show "same_entries xs ys" by (simp add: same_entries_sorted)
qed

lemma same_entries_iff:
  assumes m: "kv_lists Machine am M1 xs" and g: "kv_lists Manager ag M2 ys" and a: "am \<noteq> ag" "authors_in {am, ag} M1" "authors_in {am, ag} M2"
  shows "same_entries xs ys \<longleftrightarrow> (\<forall>k. M1 (kv_full_key k) = M2 (kv_full_key k))"
proof -
  define S where "S M = {kv_of Machine am k y |k y. M (kv_full_key k) = Some y}" for M :: doc_map
  have xs: "set xs = S M1" "distinct (map kv_key xs)" using m by (simp_all add: kv_lists_def S_def)
  have "{kv_of Manager ag k y |k y. M2 (kv_full_key k) = Some y} = S M2"
  proof -
    have "kv_of Manager ag k y = kv_of Machine am k y" if "M2 (kv_full_key k) = Some y" for k y
    proof -
      obtain v c t where y: "y = (v, c, t)" by (cases y)
      have "c \<in> {am, ag}" using that a(3) unfolding authors_in_def y by blast
      then show ?thesis unfolding y by (rule kv_of_sides [OF a(1)])
    qed
    then show ?thesis unfolding S_def by metis
  qed
  then have ys: "set ys = S M2" "distinct (map kv_key ys)" using g by (simp_all add: kv_lists_def)
  have sub: "M (kv_full_key k) = Some y" if "S M' \<subseteq> S M" "M' (kv_full_key k) = Some y" "authors_in {am, ag} M'" "authors_in {am, ag} M" for M M' k y
  proof -
    have "kv_of Machine am k y \<in> S M'" unfolding S_def using that(2) by blast
    then have "kv_of Machine am k y \<in> S M" using that(1) by (rule rev_subsetD)
    then obtain k' y' where k': "kv_of Machine am k y = kv_of Machine am k' y'" "M (kv_full_key k') = Some y'" unfolding S_def by blast
    obtain v c t v' c' t' where y: "y = (v, c, t)" "y' = (v', c', t')" by (cases y, cases y') auto
    have "c \<in> {am, ag}" "c' \<in> {am, ag}" using that(2-4) k'(2) y unfolding authors_in_def by blast+
    then show ?thesis using k' y kv_of_inject [OF a(1)] by auto
  qed
  have "S M1 = S M2 \<longleftrightarrow> (\<forall>k. M1 (kv_full_key k) = M2 (kv_full_key k))"
  proof
    assume e: "S M1 = S M2"
    show "\<forall>k. M1 (kv_full_key k) = M2 (kv_full_key k)"
    proof
      fix k
      show "M1 (kv_full_key k) = M2 (kv_full_key k)"
        using sub [of M1 M2 k] sub [of M2 M1 k] e a(2,3) by (cases "M1 (kv_full_key k)"; cases "M2 (kv_full_key k)") auto
    qed
  qed (simp add: S_def)
  moreover have "inj_on kv_key (set xs \<union> set ys) \<or> set xs \<noteq> set ys"
    using xs(2) by (auto simp: distinct_map)
  ultimately show ?thesis using same_entries_set [OF xs(2) ys(2)] xs(1) ys(1) by simp
qed

end
