(* ===== verification/Test_Steps.thy ===== *)
theory Test_Steps
  imports Test_Claims Test_KV_Runs
begin

text \<open>
  Weakest preconditions of test programs: \<open>passes m x Q\<close> says that \<open>m\<close>, run on the bench \<open>x\<close>,
  returns \<open>Ok\<close> in a state with \<open>Q\<close>. Every operation of a pair has a rule whose last premise
  is the rest of the test, so that a test is proved by applying the rules in its order.
\<close>

definition passes :: "('s, 'a) prog \<Rightarrow> 's \<Rightarrow> ('a \<Rightarrow> 's \<Rightarrow> bool) \<Rightarrow> bool" where
  "passes m x Q \<longleftrightarrow> (\<exists>r y. m x = (Ok r, y) \<and> Q r y)"

named_theorems step_rules "rules for the operations of a test"

lemma passesI: "m x = (Ok r, y) \<Longrightarrow> Q r y \<Longrightarrow> passes m x Q"
  by (auto simp: passes_def)

lemma passes_ex: "\<exists>y. m x = (Ok r, y) \<and> P y \<Longrightarrow> (\<And>y. P y \<Longrightarrow> Q r y) \<Longrightarrow> passes m x Q"
  by (auto simp: passes_def)

lemma passes_ex2: "\<exists>y t. m x = (Ok r, y) \<and> P y t \<Longrightarrow> (\<And>y t. P y t \<Longrightarrow> Q r y) \<Longrightarrow> passes m x Q"
  by (auto simp: passes_def)

lemma passes_ex_list: "\<exists>y r. m x = (Ok r, y) \<and> C r \<and> P y \<Longrightarrow> (\<And>y r. P y \<Longrightarrow> C r \<Longrightarrow> Q r y) \<Longrightarrow> passes m x Q"
  by (auto simp: passes_def)

lemma passes_unit: "passes m x (\<lambda>_ _. True) \<Longrightarrow> \<exists>y. m x = (Ok (), y)"
  by (auto simp: passes_def)

lemma passes_weaken: "passes m x Q \<Longrightarrow> (\<And>r y. Q r y \<Longrightarrow> R r y) \<Longrightarrow> passes m x R"
  by (auto simp: passes_def)

section \<open>Combinators\<close>

lemma passes_ret [step_rules]: "Q r x \<Longrightarrow> passes (ret r) x Q"
  by (auto simp: passes_def ret_def)

lemma passes_andThen [step_rules]: "passes m x (\<lambda>r y. passes (f r) y Q) \<Longrightarrow> passes (andThen m f) x Q"
  by (auto simp: passes_def andThen_def)

lemma passes_check [step_rules]: "b \<Longrightarrow> Q () x \<Longrightarrow> passes (check b) x Q"
  by (auto simp: passes_def check_def ret_def)

lemma passes_asks [step_rules]: "Q (f x) x \<Longrightarrow> passes (asks f) x Q"
  by (auto simp: passes_def asks_def)

lemma passes_unwrap [step_rules]: "z = Some y \<Longrightarrow> Q y x \<Longrightarrow> passes (unwrap z) x Q"
  by (auto simp: passes_def ret_def)

lemma passes_expect_ok [step_rules]: "passes m x Q \<Longrightarrow> passes (expect_ok m) x Q"
  by (auto simp: passes_def expect_ok_def attempt_def andThen_def ret_def)

lemma passes_attempt: "passes m x (\<lambda>r. Q (Inr r)) \<Longrightarrow> passes (attempt m) x Q"
  by (auto simp: passes_def attempt_def)

lemma passes_with_context [step_rules]: "passes m x Q \<Longrightarrow> passes (with_context msg m) x Q"
  by (auto simp: passes_def with_context_def)

lemma passes_prod [step_rules]: "passes (f a b) x Q \<Longrightarrow> passes (case (a, b) of (u, v) \<Rightarrow> f u v) x Q"
  by simp

lemma passes_let [step_rules]: "passes (f e) x Q \<Longrightarrow> passes (let u = e in f u) x Q"
  by simp

lemma passes_for_each:
  assumes "I x" and "\<And>e y. e \<in> set xs \<Longrightarrow> I y \<Longrightarrow> passes (f e) y (\<lambda>_. I)" and "\<And>y. I y \<Longrightarrow> Q () y"
  shows "passes (for_each f xs) x Q"
  using assms(1,2) unfolding for_each_def
proof (induction xs arbitrary: x)
  case Nil
  then show ?case using assms(3) by (auto simp: passes_def ret_def)
next
  case (Cons e xs)
  have "passes (f e) x (\<lambda>_ y. passes (for_fold (\<lambda>_ e. f e) () xs) y Q)"
  proof (rule passes_weaken)
    show "passes (f e) x (\<lambda>_. I)" using Cons.prems by simp
    fix r y assume "I y"
    then show "passes (for_fold (\<lambda>_ e. f e) () xs) y Q" by (rule Cons.IH) (use Cons.prems(2) in auto)
  qed
  then show ?case by (simp add: passes_andThen)
qed

lemma passes_for_each_stay: "(\<And>e. e \<in> set xs \<Longrightarrow> passes (f e) x (\<lambda>_ y. y = x)) \<Longrightarrow> Q () x \<Longrightarrow> passes (for_each f xs) x Q"
  by (rule passes_for_each [where I = "\<lambda>y. y = x"]) auto

lemma passes_for_each_Nil [step_rules]: "Q () x \<Longrightarrow> passes (for_each f []) x Q"
  by (simp add: for_each_def passes_ret)

lemma passes_for_each_Cons [step_rules]:
  "passes (f e) x (\<lambda>_ y. passes (for_each f es) y Q) \<Longrightarrow> passes (for_each f (e # es)) x Q"
  by (simp add: for_each_def passes_andThen)

text \<open>A condition that holds at once, and one that holds after a sleep.\<close>

lemma passes_wait_now: "passes c x (\<lambda>b y. b \<and> Q () y) \<Longrightarrow> 0 < n \<Longrightarrow> passes (wait_for_condition L c n) x Q"
  by (cases n) (auto simp: passes_def andThen_def ret_def)

lemma passes_wait_sleep:
  assumes "passes c x (\<lambda>b y. \<not> b \<and> passes (sleep L) y (\<lambda>_ z. passes c z (\<lambda>b u. b \<and> Q () u)))" and "1 < n"
  shows "passes (wait_for_condition L c n) x Q"
proof -
  obtain k where n: "n = Suc (Suc k)" using less_imp_Suc_add [OF assms(2)] by auto
  show ?thesis using assms(1) unfolding n by (auto simp: passes_def andThen_def ret_def)
qed

lemma waits: "0 < DEFAULT_WAIT_ITERATIONS" "1 < DEFAULT_WAIT_ITERATIONS"
  by (simp_all add: DEFAULT_WAIT_ITERATIONS_def)

section \<open>A pair\<close>

lemma paired_room:
  "paired L V room public_of N i j am ag ns U n M1 W1 M2 W2 x \<Longrightarrow> 0 < n \<Longrightarrow>
   paired L V room public_of N i j am ag ns U (Suc (n - 1)) M1 W1 M2 W2 x"
  by simp

lemma passes_pair [step_rules]:
  assumes "working_lab L V room public_of" and "bench_ready L V room N x" and "2 \<le> N" and "sessions x = []"
    and "\<And>i j am ag ns y. paired L V room public_of N i j am ag ns U (N - 2) Map.empty {} Map.empty {} y \<Longrightarrow> Q (i, j) y"
  shows "passes (create_claimed_machine_manager_pair L) x Q"
proof -
  obtain M where N: "N = Suc (Suc M)" using le_Suc_ex [OF assms(3)] by auto
  obtain am ag ns y where "create_claimed_machine_manager_pair L x = (Ok (machines_made x, managers_made x), y)"
    "paired L V room public_of N (machines_made x) (managers_made x) am ag ns U M Map.empty {} Map.empty {} y"
    by (rule create_claimed_step [OF assms(1) assms(2) [unfolded N] assms(4), where U = U]) (use N in blast)
  then show ?thesis using assms(5) [of "machines_made x" "managers_made x" am ag ns y] N by (simp add: passesI)
qed

lemma passes_list_machines [step_rules]:
  assumes "working_lab L V room public_of" and "paired L V room public_of N i j am ag ns U n M1 W1 M2 W2 x"
    and "\<And>t. Q [(public_of (lab_machine_key L i), t)] x"
  shows "passes (on_manager j (list_machines (lab_platform L) (lab_app L))) x Q"
  by (rule list_machines_step [OF assms(1,2)]) (rule passesI, assumption, rule assms(3))

lemma passes_first_machine [step_rules]:
  assumes "working_lab L V room public_of" and "paired L V room public_of N i j am ag ns U n M1 W1 M2 W2 x"
    and "\<And>m. m = public_of (lab_machine_key L i) \<Longrightarrow> Q m x"
  shows "passes (first_machine L j) x Q"
  unfolding first_machine_def
  by (rule passes_andThen, rule passes_list_machines [OF assms(1,2)]) (simp add: passes_ret assms(3))

lemma passes_machine_get_config [step_rules]:
  assumes "working_lab L V room public_of" and "paired L V room public_of N i j am ag ns U n M1 W1 M2 W2 x"
    and "config_at (lab_platform L) M1 = Ok c" and "\<And>y. paired L V room public_of N i j am ag ns U n M1 W1 M2 W2 y \<Longrightarrow> Q c y"
  shows "passes (on_machine i (machine_get_machine_config (lab_platform L) (lab_app L))) x Q"
  by (rule passes_ex, rule machine_reads_step(3) [OF assms(1,2), unfolded assms(3)]) (rule assms(4))

lemma passes_manager_get_config [step_rules]:
  assumes "working_lab L V room public_of" and "paired L V room public_of N i j am ag ns U n M1 W1 M2 W2 x"
    and "m = public_of (lab_machine_key L i)"
    and "config_at (lab_platform L) M2 = Ok c" and "\<And>y. paired L V room public_of N i j am ag ns U n M1 W1 M2 W2 y \<Longrightarrow> Q c y"
  shows "passes (on_manager j (manager_get_machine_config (lab_platform L) (lab_app L) m)) x Q"
  by (rule passes_ex, rule manager_reads_step(3) [OF assms(1,2,3), unfolded assms(4)]) (rule assms(5))

lemma passes_machine_get_kv [step_rules]:
  assumes "working_lab L V room public_of" and "paired L V room public_of N i j am ag ns U n M1 W1 M2 W2 x"
    and "\<And>y. paired L V room public_of N i j am ag ns U n M1 W1 M2 W2 y \<Longrightarrow> Q (map_option (kv_of Machine am k) (M1 (kv_full_key k))) y"
  shows "passes (on_machine i (machine_get_kv_value (lab_platform L) (lab_app L) k)) x Q"
  by (rule passes_ex, rule machine_reads_step(1) [OF assms(1,2)]) (rule assms(3))

lemma passes_manager_get_kv [step_rules]:
  assumes "working_lab L V room public_of" and "paired L V room public_of N i j am ag ns U n M1 W1 M2 W2 x"
    and "m = public_of (lab_machine_key L i)"
    and "\<And>y. paired L V room public_of N i j am ag ns U n M1 W1 M2 W2 y \<Longrightarrow> Q (map_option (kv_of Manager ag k) (M2 (kv_full_key k))) y"
  shows "passes (on_manager j (manager_get_kv_value (lab_platform L) (lab_app L) m k)) x Q"
  by (rule passes_ex, rule manager_reads_step(1) [OF assms(1,2,3)]) (rule assms(4))

lemma passes_machine_entries [step_rules]:
  assumes "working_lab L V room public_of" and "paired L V room public_of N i j am ag ns U n M1 W1 M2 W2 x"
    and "\<And>y kvs. paired L V room public_of N i j am ag ns U n M1 W1 M2 W2 y \<Longrightarrow> kv_lists Machine am M1 kvs \<Longrightarrow> Q kvs y"
  shows "passes (on_machine i (machine_get_kv_entries (lab_platform L) (lab_app L))) x Q"
  by (rule passes_ex_list, rule machine_reads_step(2) [OF assms(1,2)]) (rule assms(3))

lemma passes_manager_entries [step_rules]:
  assumes "working_lab L V room public_of" and "paired L V room public_of N i j am ag ns U n M1 W1 M2 W2 x"
    and "m = public_of (lab_machine_key L i)"
    and "\<And>y kvs. paired L V room public_of N i j am ag ns U n M1 W1 M2 W2 y \<Longrightarrow> kv_lists Manager ag M2 kvs \<Longrightarrow> Q kvs y"
  shows "passes (on_manager j (manager_get_kv_entries (lab_platform L) (lab_app L) m)) x Q"
  by (rule passes_ex_list, rule manager_reads_step(2) [OF assms(1,2,3)]) (rule assms(4))

lemma passes_machine_set_kv [step_rules]:
  assumes "working_lab L V room public_of" and "paired L V room public_of N i j am ag ns U n M1 W1 M2 W2 x"
    and "0 < n" and "prefix_free U" and "kv_full_key k \<in> U" and "v \<noteq> []"
    and "\<And>y t. paired L V room public_of N i j am ag ns U (n - 1) (M1(kv_full_key k \<mapsto> (v, am, t))) (insert (kv_full_key k) W1) M2 W2 y \<Longrightarrow> Q () y"
  shows "passes (on_machine i (machine_set_kv_value (lab_platform L) (lab_app L) k v)) x Q"
  by (rule passes_ex2, rule machine_writes_step(1) [OF assms(1) paired_room [OF assms(2,3)] assms(4-6)]) (rule assms(7))

lemma passes_manager_set_kv [step_rules]:
  assumes "working_lab L V room public_of" and "paired L V room public_of N i j am ag ns U n M1 W1 M2 W2 x"
    and "m = public_of (lab_machine_key L i)" and "0 < n" and "prefix_free U" and "kv_full_key k \<in> U" and "v \<noteq> []"
    and "\<And>y t. paired L V room public_of N i j am ag ns U (n - 1) M1 W1 (M2(kv_full_key k \<mapsto> (v, ag, t))) (insert (kv_full_key k) W2) y \<Longrightarrow> Q () y"
  shows "passes (on_manager j (manager_set_kv_value (lab_platform L) (lab_app L) m k v)) x Q"
  by (rule passes_ex2, rule manager_writes_step(1) [OF assms(1) paired_room [OF assms(2,4)] assms(5,3,6,7)]) (rule assms(8))

lemma passes_set_config [step_rules]:
  assumes "working_lab L V room public_of" and "paired L V room public_of N i j am ag ns U n M1 W1 M2 W2 x"
    and "m = public_of (lab_machine_key L i)" and "0 < n" and "prefix_free U" and "MACHINE_CONFIG_KEY \<in> U"
    and "\<And>y t b. paired L V room public_of N i j am ag ns U (n - 1) M1 W1 (M2(MACHINE_CONFIG_KEY \<mapsto> (b, ag, t))) (insert MACHINE_CONFIG_KEY W2) y \<Longrightarrow>
        config_to_json (lab_platform L) c = Some b \<Longrightarrow> config_from_json (lab_platform L) b = Some c \<Longrightarrow> Q () y"
  shows "passes (on_manager j (manager_set_machine_config (lab_platform L) (lab_app L) m c)) x Q"
proof -
  note w = working_labD(1) [OF assms(1)]
  obtain b where b: "config_to_json (lab_platform L) c = Some b" by (rule encoders_totalD [OF w])
  have "config_from_json (lab_platform L) b = Some c" using codec_contractD [OF working_engineD(2) [OF w]] b by blast
  note b' = assms(7) [OF _ b this]
  show ?thesis
    by (rule passes_ex2, rule manager_writes_step(2) [OF assms(1) paired_room [OF assms(2,4)] assms(5,3,6) b]) (rule b')
qed

lemma passes_write_payment [step_rules]:
  assumes "working_lab L V room public_of" and "paired L V room public_of N i j am ag ns U n M1 W1 M2 W2 x"
    and "0 < n" and "prefix_free U" and "create_claimable_contract_machine_doc_key (lab_platform L) fid cc \<in> U"
    and "\<And>y t b. paired L V room public_of N i j am ag ns U (n - 1) (M1(create_claimable_contract_machine_doc_key (lab_platform L) fid cc \<mapsto> (b, am, t)))
          (insert (create_claimable_contract_machine_doc_key (lab_platform L) fid cc) W1) M2 W2 y \<Longrightarrow>
        contract_to_json (lab_platform L) cc = Some b \<Longrightarrow> Q () y"
  shows "passes (on_machine i (write_payment_to_machine_doc (lab_platform L) (lab_app L) fid cc)) x Q"
proof -
  obtain b where b: "contract_to_json (lab_platform L) cc = Some b" by (rule encoders_totalD [OF working_labD(1) [OF assms(1)]])
  show ?thesis
    by (rule passes_ex2, rule machine_writes_step(2) [OF assms(1) paired_room [OF assms(2,3)] assms(4,5) b]) (rule assms(6) [OF _ b])
qed

lemma passes_contracts [step_rules]:
  assumes "working_lab L V room public_of" and "paired L V room public_of N i j am ag ns U n M1 W1 M2 W2 x"
    and "contracts_ok (lab_platform L) M2"
    and "\<And>y ps. paired L V room public_of N i j am ag ns U n M1 W1 M2 W2 y \<Longrightarrow>
        pay_lists (lab_platform L) (public_of (lab_machine_key L i)) M2 ps \<Longrightarrow> Q ps y"
  shows "passes (on_manager j (manager_get_claimable_contracts (lab_platform L) (lab_app L))) x Q"
  by (rule passes_ex_list, rule contracts_step [OF assms(1-3)]) (rule assms(4))

lemma passes_remove [step_rules]:
  assumes "working_lab L V room public_of" and "paired L V room public_of N i j am ag ns U n M1 W1 M2 W2 x"
    and "length ps \<le> n" and "prefix_free U" and "payment_keys (lab_platform L) (map snd ps) \<subseteq> U" and "\<forall>p \<in> set ps. fst p = public_of (lab_machine_key L i)"
    and "\<And>y. paired L V room public_of N i j am ag ns U (n - length ps) M1 W1 (remove_keys (payment_keys (lab_platform L) (map snd ps)) M2)
        (payment_keys (lab_platform L) (map snd ps) \<union> W2) y \<Longrightarrow> Q () y"
  shows "passes (on_manager j (remove_claimable_contracts (lab_platform L) (lab_app L) (lab_iter L) ps)) x Q"
proof -
  have "paired L V room public_of N i j am ag ns U (length ps + (n - length ps)) M1 W1 M2 W2 x" using assms(2,3) by simp
  then show ?thesis by - (rule passes_ex, rule remove_step [OF assms(1) _ assms(4-6)], assumption, rule assms(7))
qed

lemma passes_sleep [step_rules]:
  assumes "working_lab L V room public_of" and "paired L V room public_of N i j am ag ns U n M1 W1 M2 W2 x"
    and "0 < n" and "W1 \<inter> W2 = {}"
    and "\<And>y. paired L V room public_of N i j am ag ns U (n - 1) (merge W2 M1 M2) {} (merge W2 M1 M2) {} y \<Longrightarrow> Q () y"
  shows "passes (sleep L) x Q"
  by (rule passes_ex, rule paired_sleep [OF assms(1) paired_room [OF assms(2,3)] assms(4)]) (rule assms(5))

section \<open>The entries of both sides agree\<close>

abbreviation kv_entries_agree :: "'d lab \<Rightarrow> kv_test_fixture \<Rightarrow> (('d, 'c) bench, bool) prog" where
  "kv_entries_agree L fx \<equiv>
     andThen (attempt (on_machine (fx_machine fx) (machine_get_kv_entries (lab_platform L) (lab_app L)))) (\<lambda>machine_entries.
      andThen (attempt (on_manager (fx_manager fx) (manager_get_kv_entries (lab_platform L) (lab_app L) (fx_machine_id fx)))) (\<lambda>manager_entries.
      case (machine_entries, manager_entries) of
        (Inr machine_kv, Inr manager_kv) \<Rightarrow> ret (same_entries machine_kv manager_kv)
      | _ \<Rightarrow> ret False))"

lemma passes_same_entries:
  fixes x :: "('d, 'c) bench"
  assumes l: "working_lab L V room public_of" and p: "paired L V room public_of N (fx_machine fx) (fx_manager fx) am ag ns U n M1 W1 M2 W2 x"
    and m: "fx_machine_id fx = public_of (lab_machine_key L (fx_machine fx))"
    and Q: "\<And>y. paired L V room public_of N (fx_machine fx) (fx_manager fx) am ag ns U n M1 W1 M2 W2 y \<Longrightarrow>
        Q (\<forall>k. M1 (kv_full_key k) = M2 (kv_full_key k)) y"
  shows "passes (kv_entries_agree L fx) x Q"
proof (rule passes_andThen, rule passes_attempt, rule passes_machine_entries [OF l p], rule passes_andThen, rule passes_attempt,
    rule passes_manager_entries [OF l _ m], assumption)
  fix y kvs gs and z :: "('d, 'c) bench"
  assume k: "kv_lists Machine am M1 kvs" and g: "kv_lists Manager ag M2 gs"
    and z: "paired L V room public_of N (fx_machine fx) (fx_manager fx) am ag ns U n M1 W1 M2 W2 z"
  have "same_entries kvs gs = (\<forall>k. M1 (kv_full_key k) = M2 (kv_full_key k))"
    using same_entries_iff [OF k g paired_authors(3,1,2) [OF p]] .
  then show "passes (case (Inr kvs, Inr gs) of
        (Inr machine_kv, Inr manager_kv) \<Rightarrow> ret (same_entries machine_kv manager_kv)
      | _ \<Rightarrow> ret False) z Q" using Q [OF z] by (simp add: passes_ret)
qed

lemma passes_kv_sync_now:
  assumes "working_lab L V room public_of" and "paired L V room public_of N (fx_machine fx) (fx_manager fx) am ag ns U n M1 W1 M2 W2 x"
    and "fx_machine_id fx = public_of (lab_machine_key L (fx_machine fx))" and "\<And>k. M1 (kv_full_key k) = M2 (kv_full_key k)"
    and "\<And>y. paired L V room public_of N (fx_machine fx) (fx_manager fx) am ag ns U n M1 W1 M2 W2 y \<Longrightarrow> Q () y"
  shows "passes (wait_for_kv_entries_sync L fx) x Q"
  unfolding wait_for_kv_entries_sync_def
  by (rule passes_wait_now [OF _ waits(1)], rule passes_same_entries [OF assms(1-3)]) (simp add: assms(4,5))

lemma passes_kv_sync_sleep:
  fixes x :: "('d, 'c) bench"
  assumes "working_lab L V room public_of" and "paired L V room public_of N (fx_machine fx) (fx_manager fx) am ag ns U n M1 W1 M2 W2 x"
    and "fx_machine_id fx = public_of (lab_machine_key L (fx_machine fx))" and "M1 (kv_full_key k) \<noteq> M2 (kv_full_key k)"
    and "0 < n" and "W1 \<inter> W2 = {}"
    and "\<And>y. paired L V room public_of N (fx_machine fx) (fx_manager fx) am ag ns U (n - 1) (merge W2 M1 M2) {} (merge W2 M1 M2) {} y \<Longrightarrow> Q () y"
  shows "passes (wait_for_kv_entries_sync L fx) x Q"
  unfolding wait_for_kv_entries_sync_def
proof (rule passes_wait_sleep [OF _ waits(2)], rule passes_same_entries [OF assms(1-3)], rule conjI, use assms(4) in blast,
    rule passes_sleep [OF assms(1) _ assms(5,6)], assumption, rule passes_same_entries [OF assms(1) _ assms(3)], assumption)
  fix y :: "('d, 'c) bench" assume "paired L V room public_of N (fx_machine fx) (fx_manager fx) am ag ns U (n - 1) (merge W2 M1 M2) {} (merge W2 M1 M2) {} y"
  then show "(\<forall>k. merge W2 M1 M2 (kv_full_key k) = merge W2 M1 M2 (kv_full_key k)) \<and> Q () y" using assms(7) by blast
qed

text \<open>An entry on both sides, with its author.\<close>

definition written_by :: "author_id \<Rightarrow> author_id \<Rightarrow> kv_entry_author \<Rightarrow> author_id" where
  "written_by am ag who = (case who of Machine \<Rightarrow> am | Manager \<Rightarrow> ag)"

lemma kv_of_written:
  "am \<noteq> ag \<Longrightarrow> kv_value (kv_of Machine am k (v, written_by am ag who, t)) = v \<and> kv_author (kv_of Machine am k (v, written_by am ag who, t)) = who"
  "am \<noteq> ag \<Longrightarrow> kv_value (kv_of Manager ag k (v, written_by am ag who, t)) = v \<and> kv_author (kv_of Manager ag k (v, written_by am ag who, t)) = who"
  by (auto simp: kv_of_def written_by_def opposite_author_def split: kv_entry_author.splits)

lemma passes_verify:
  fixes x :: "('d, 'c) bench"
  assumes l: "working_lab L V room public_of" and m: "fx_machine_id fx = public_of (lab_machine_key L (fx_machine fx))"
    and w: "passes (wait_for_kv_entries_sync L fx) x (\<lambda>_ y. paired L V room public_of N (fx_machine fx) (fx_manager fx) am ag ns U n M1 W1 M2 W2 y)"
    and M: "M1 (kv_full_key k) = Some (v, written_by am ag who, t1)" "M2 (kv_full_key k) = Some (v, written_by am ag who, t2)"
    and Q: "\<And>y. paired L V room public_of N (fx_machine fx) (fx_manager fx) am ag ns U n M1 W1 M2 W2 y \<Longrightarrow> Q () y"
  shows "passes (verify_entry L fx k v who) x Q"
  unfolding verify_entry_def
proof (rule passes_andThen, rule passes_weaken [OF w], rule passes_andThen, rule passes_machine_get_kv [OF l], assumption)
  fix y :: "('d, 'c) bench" assume y: "paired L V room public_of N (fx_machine fx) (fx_manager fx) am ag ns U n M1 W1 M2 W2 y"
  have n: "am \<noteq> ag" by (rule paired_authors(3) [OF y])
  show "passes (andThen (check (map_option (kv_of Machine am k) (M1 (kv_full_key k)) \<noteq> None)) (\<lambda>_.
     andThen (unwrap (map_option (kv_of Machine am k) (M1 (kv_full_key k)))) (\<lambda>entry.
     andThen (check (kv_value entry = v)) (\<lambda>_.
     andThen (check (kv_author entry = who)) (\<lambda>_.
     andThen (on_manager (fx_manager fx) (manager_get_kv_value (lab_platform L) (lab_app L) (fx_machine_id fx) k)) (\<lambda>entry.
     andThen (check (entry \<noteq> None)) (\<lambda>_.
     andThen (unwrap entry) (\<lambda>entry.
     andThen (check (kv_value entry = v)) (\<lambda>_.
     andThen (check (kv_author entry = who)) (\<lambda>_.
     ret ())))))))))) y Q"
    by (intro passes_andThen passes_check passes_unwrap passes_ret passes_manager_get_kv [OF l y m] Q) (simp add: M kv_of_written [OF n])+
qed

section \<open>Configurations and payments in a map\<close>

lemma config_at_none: "M MACHINE_CONFIG_KEY = None \<Longrightarrow> config_at P M = Ok None"
  by (simp add: config_at_def)

lemma config_at_some:
  "\<exists>b a t. M MACHINE_CONFIG_KEY = Some (b, a, t) \<and> config_from_json P b = Some c \<Longrightarrow> config_at P M = Ok (Some c)"
  by (auto simp: config_at_def)

lemma payment_key_eq_iff:
  assumes "codec_contract P"
  shows "create_claimable_contract_machine_doc_key P fid cc = create_claimable_contract_machine_doc_key P fid' cc' \<longleftrightarrow>
    fid = fid' \<and> contract_id_of P cc = contract_id_of P cc'"
  unfolding contract_key_of_eq [OF assms] using contract_key_prefix_iff by (metis Pair_inject prefix_order.refl)

lemma not_prefix_neq: "\<not> prefix x y \<Longrightarrow> x \<noteq> y" "\<not> prefix x y \<Longrightarrow> y \<noteq> x"
  by auto

lemma payment_key_apart:
  assumes "codec_contract P"
  shows "create_claimable_contract_machine_doc_key P fid cc \<noteq> MACHINE_CONFIG_KEY" "create_claimable_contract_machine_doc_key P fid cc \<noteq> kv_full_key k"
    "kv_full_key k \<noteq> create_claimable_contract_machine_doc_key P fid cc" "MACHINE_CONFIG_KEY \<noteq> create_claimable_contract_machine_doc_key P fid cc"
    "kv_full_key k \<noteq> MACHINE_CONFIG_KEY" "MACHINE_CONFIG_KEY \<noteq> kv_full_key k"
    "prefix CLAIMABLE_CONTRACT_PREFIX (create_claimable_contract_machine_doc_key P fid cc)"
  unfolding contract_key_of_eq [OF assms]
  by (rule not_prefix_neq, rule key_spaces_disjoint)+ (simp add: contract_key_of_def split: prod.split federation_id.split contract_id.split)

definition one_payment :: "'d platform \<Rightarrow> federation_id \<Rightarrow> claimable_contract \<Rightarrow> doc_map \<Rightarrow> bool" where
  "one_payment P fid cc M \<longleftrightarrow> (\<exists>v a t. M (create_claimable_contract_machine_doc_key P fid cc) = Some (v, a, t) \<and> contract_to_json P cc = Some v) \<and>
     (\<forall>k. prefix CLAIMABLE_CONTRACT_PREFIX k \<longrightarrow> k \<noteq> create_claimable_contract_machine_doc_key P fid cc \<longrightarrow> M k = None)"

definition no_payment :: "doc_map \<Rightarrow> bool" where
  "no_payment M \<longleftrightarrow> (\<forall>k. prefix CLAIMABLE_CONTRACT_PREFIX k \<longrightarrow> M k = None)"

lemma contracts_ok_one: "one_payment P fid cc M \<Longrightarrow> contracts_ok P M"
  by (auto simp: contracts_ok_def one_payment_def)

lemma contracts_ok_none: "no_payment M \<Longrightarrow> contracts_ok P M"
  by (simp add: contracts_ok_def no_payment_def)

lemma pay_lists_one:
  assumes c: "codec_contract P" and o: "one_payment P fid cc M" and ps: "pay_lists P m M ps"
  shows "ps = [(m, fid, cc)]"
proof -
  obtain v a t where v: "M (create_claimable_contract_machine_doc_key P fid cc) = Some (v, a, t)" "contract_to_json P cc = Some v"
    using o unfolding one_payment_def by blast
  have same: "fid' = fid \<and> cc' = cc" if m: "M (create_claimable_contract_machine_doc_key P fid' cc') = Some (v', a', t')"
    "contract_to_json P cc' = Some v'" for fid' cc' v' a' t'
  proof -
    have e: "create_claimable_contract_machine_doc_key P fid' cc' = create_claimable_contract_machine_doc_key P fid cc"
    proof (rule ccontr)
      assume "create_claimable_contract_machine_doc_key P fid' cc' \<noteq> create_claimable_contract_machine_doc_key P fid cc"
      then have "M (create_claimable_contract_machine_doc_key P fid' cc') = None"
        using o payment_key_apart(7) [OF c] by (simp add: one_payment_def)
      with m(1) show False by simp
    qed
    then have "v' = v" using m(1) v(1) by simp
    then have "cc' = cc" using codec_contractD(4) [OF c m(2)] codec_contractD(4) [OF c v(2)] by simp
    moreover have "fid' = fid" using e unfolding payment_key_eq_iff [OF c] by (rule conjunct1)
    ultimately show ?thesis by blast
  qed
  have "(\<exists>v a t. M (create_claimable_contract_machine_doc_key P fid' cc') = Some (v, a, t) \<and> contract_to_json P cc' = Some v) \<longleftrightarrow>
      fid' = fid \<and> cc' = cc" for fid' cc'
  proof
    assume "fid' = fid \<and> cc' = cc"
    then show "\<exists>v a t. M (create_claimable_contract_machine_doc_key P fid' cc') = Some (v, a, t) \<and> contract_to_json P cc' = Some v" using v by simp
  qed (elim exE conjE, rule same)
  then have s: "set ps = {(m, fid, cc)}" using ps by (simp add: pay_lists_def)
  have "length ps = 1" using distinct_card [of ps] ps s by (simp add: pay_lists_def)
  then obtain p where "ps = [p]" by (cases ps) auto
  then show ?thesis using s by simp
qed

lemma pay_lists_none:
  assumes c: "codec_contract P" and o: "no_payment M" and ps: "pay_lists P m M ps"
  shows "ps = []"
proof -
  have "M (create_claimable_contract_machine_doc_key P fid cc) = None" for fid cc
    using o payment_key_apart(7) [OF c] by (simp add: no_payment_def)
  then have "set ps = {}" using ps by (simp add: pay_lists_def)
  then show ?thesis by simp
qed

text \<open>What the manager finds when there is one payment, and when there is none.\<close>

lemma passes_contracts_one:
  fixes x :: "('d, 'c) bench"
  assumes l: "working_lab L V room public_of" and p: "paired L V room public_of N i j am ag ns U n M1 W1 M2 W2 x"
    and o: "one_payment (lab_platform L) fid cc M2"
    and Q: "\<And>y. paired L V room public_of N i j am ag ns U n M1 W1 M2 W2 y \<Longrightarrow> Q [(public_of (lab_machine_key L i), fid, cc)] y"
  shows "passes (on_manager j (manager_get_claimable_contracts (lab_platform L) (lab_app L))) x Q"
proof (rule passes_contracts [OF l p contracts_ok_one [OF o]])
  fix ps and y :: "('d, 'c) bench" assume y: "paired L V room public_of N i j am ag ns U n M1 W1 M2 W2 y"
    and ps: "pay_lists (lab_platform L) (public_of (lab_machine_key L i)) M2 ps"
  show "Q ps y" unfolding pay_lists_one [OF working_engineD(2) [OF working_labD(1) [OF l]] o ps] by (rule Q [OF y])
qed

lemma passes_contracts_none:
  fixes x :: "('d, 'c) bench"
  assumes l: "working_lab L V room public_of" and p: "paired L V room public_of N i j am ag ns U n M1 W1 M2 W2 x"
    and o: "no_payment M2"
    and Q: "\<And>y. paired L V room public_of N i j am ag ns U n M1 W1 M2 W2 y \<Longrightarrow> Q [] y"
  shows "passes (on_manager j (manager_get_claimable_contracts (lab_platform L) (lab_app L))) x Q"
proof (rule passes_contracts [OF l p contracts_ok_none [OF o]])
  fix ps and y :: "('d, 'c) bench" assume y: "paired L V room public_of N i j am ag ns U n M1 W1 M2 W2 y"
    and ps: "pay_lists (lab_platform L) (public_of (lab_machine_key L i)) M2 ps"
  show "Q ps y" unfolding pay_lists_none [OF working_engineD(2) [OF working_labD(1) [OF l]] o ps] by (rule Q [OF y])
qed

lemma passes_machine_entries_one:
  fixes x :: "('d, 'c) bench"
  assumes l: "working_lab L V room public_of" and p: "paired L V room public_of N i j am ag ns U n M1 W1 M2 W2 x"
    and M: "M1 (kv_full_key k) = Some (v, a, t)" "\<And>k'. k' \<noteq> k \<Longrightarrow> M1 (kv_full_key k') = None"
    and Q: "\<And>y. paired L V room public_of N i j am ag ns U n M1 W1 M2 W2 y \<Longrightarrow> Q [kv_of Machine am k (v, a, t)] y"
  shows "passes (on_machine i (machine_get_kv_entries (lab_platform L) (lab_app L))) x Q"
proof (rule passes_machine_entries [OF l p])
  fix kvs and y :: "('d, 'c) bench" assume y: "paired L V room public_of N i j am ag ns U n M1 W1 M2 W2 y" and kvs: "kv_lists Machine am M1 kvs"
  have "k' = k" if "M1 (kv_full_key k') = Some z" for k' z using M(2) [of k'] that by auto
  then have "{kv_of Machine am k y |k y. M1 (kv_full_key k) = Some y} = {kv_of Machine am k (v, a, t)}" using M(1) by fastforce
  then have s: "set kvs = {kv_of Machine am k (v, a, t)}" "distinct kvs" using kvs by (simp_all add: kv_lists_def distinct_map)
  then have "length kvs = 1" using distinct_card [of kvs] by simp
  then obtain e where "kvs = [e]" by (cases kvs) auto
  then show "Q kvs y" using Q [OF y] s(1) by simp
qed

end
