(* ===== verification/Kv_Spec.thy ===== *)
theory Kv_Spec
  imports Test_Steps
begin

text \<open>
  What the key/value store promises to the two applications: each side sees a map from keys to
  a value and the side that wrote it; a write is seen at once by its own side and by the other
  after an exchange. The code on two devices refines this specification.
\<close>

section \<open>The specification\<close>

type_synonym kv_view = "bytes \<rightharpoonup> bytes \<times> kv_entry_author"

record kv_spec =
  machine_view :: kv_view
  manager_view :: kv_view
  machine_wrote :: "bytes set"
  manager_wrote :: "bytes set"

datatype kv_op = MachinePut bytes bytes | ManagerPut bytes bytes | MachineLook bytes | ManagerLook bytes
  | MachineList | ManagerList | Exchange

datatype kv_out = Done | Found "(bytes \<times> kv_entry_author) option" | Listed kv_view

definition empty_spec :: kv_spec where
  "empty_spec = \<lparr>machine_view = Map.empty, manager_view = Map.empty, machine_wrote = {}, manager_wrote = {}\<rparr>"

fun spec_step :: "kv_op \<Rightarrow> kv_spec \<Rightarrow> kv_out \<times> kv_spec" where
  "spec_step (MachinePut k v) s = (Done, s\<lparr>machine_view := (machine_view s)(k \<mapsto> (v, Machine)), machine_wrote := insert k (machine_wrote s)\<rparr>)"
| "spec_step (ManagerPut k v) s = (Done, s\<lparr>manager_view := (manager_view s)(k \<mapsto> (v, Manager)), manager_wrote := insert k (manager_wrote s)\<rparr>)"
| "spec_step (MachineLook k) s = (Found (machine_view s k), s)"
| "spec_step (ManagerLook k) s = (Found (manager_view s k), s)"
| "spec_step MachineList s = (Listed (machine_view s), s)"
| "spec_step ManagerList s = (Listed (manager_view s), s)"
| "spec_step Exchange s =
     (let both = (\<lambda>k. if k \<in> manager_wrote s then manager_view s k else machine_view s k) in
      (Done, \<lparr>machine_view = both, manager_view = both, machine_wrote = {}, manager_wrote = {}\<rparr>))"

primrec spec_outputs :: "kv_op list \<Rightarrow> kv_spec \<Rightarrow> kv_out list" where
  "spec_outputs [] s = []"
| "spec_outputs (p # ps) s = fst (spec_step p s) # spec_outputs ps (snd (spec_step p s))"

text \<open>No key is written by both sides between two exchanges.\<close>

primrec conflict_free :: "kv_op list \<Rightarrow> kv_spec \<Rightarrow> bool" where
  "conflict_free [] s = True"
| "conflict_free (p # ps) s \<longleftrightarrow> (p = Exchange \<longrightarrow> machine_wrote s \<inter> manager_wrote s = {}) \<and> conflict_free ps (snd (spec_step p s))"

fun op_keys :: "kv_op \<Rightarrow> bytes set" where
  "op_keys (MachinePut k v) = {k}"
| "op_keys (ManagerPut k v) = {k}"
| "op_keys _ = {}"

text \<open>The engine refuses empty entries: only values with content are written.\<close>

fun op_content :: "kv_op \<Rightarrow> bool" where
  "op_content (MachinePut k v) = (v \<noteq> [])"
| "op_content (ManagerPut k v) = (v \<noteq> [])"
| "op_content _ = True"

section \<open>The code\<close>

definition entry_view :: "kv_entry \<Rightarrow> bytes \<times> kv_entry_author" where
  "entry_view e = (kv_value e, kv_author e)"

definition list_view :: "kv_entry list \<Rightarrow> kv_view" where
  "list_view es = map_of (map (\<lambda>e. (kv_key e, entry_view e)) es)"

fun code_step :: "'d lab \<Rightarrow> nat \<Rightarrow> nat \<Rightarrow> endpoint_id \<Rightarrow> kv_op \<Rightarrow> (('d, 'c) bench, kv_out) prog" where
  "code_step L i j m (MachinePut k v) =
     andThen (on_machine i (machine_set_kv_value (lab_platform L) (lab_app L) k v)) (\<lambda>_. ret Done)"
| "code_step L i j m (ManagerPut k v) =
     andThen (on_manager j (manager_set_kv_value (lab_platform L) (lab_app L) m k v)) (\<lambda>_. ret Done)"
| "code_step L i j m (MachineLook k) =
     andThen (on_machine i (machine_get_kv_value (lab_platform L) (lab_app L) k)) (\<lambda>e. ret (Found (map_option entry_view e)))"
| "code_step L i j m (ManagerLook k) =
     andThen (on_manager j (manager_get_kv_value (lab_platform L) (lab_app L) m k)) (\<lambda>e. ret (Found (map_option entry_view e)))"
| "code_step L i j m MachineList =
     andThen (on_machine i (machine_get_kv_entries (lab_platform L) (lab_app L))) (\<lambda>es. ret (Listed (list_view es)))"
| "code_step L i j m ManagerList =
     andThen (on_manager j (manager_get_kv_entries (lab_platform L) (lab_app L) m)) (\<lambda>es. ret (Listed (list_view es)))"
| "code_step L i j m Exchange = andThen (sleep L) (\<lambda>_. ret Done)"

primrec code_outputs :: "'d lab \<Rightarrow> nat \<Rightarrow> nat \<Rightarrow> endpoint_id \<Rightarrow> kv_op list \<Rightarrow> (('d, 'c) bench, kv_out list) prog" where
  "code_outputs L i j m [] = ret []"
| "code_outputs L i j m (p # ps) =
     andThen (code_step L i j m p) (\<lambda>out. andThen (code_outputs L i j m ps) (\<lambda>outs. ret (out # outs)))"

text \<open>Two new devices, a claim, and the operations.\<close>

definition claimed_store :: "'d lab \<Rightarrow> kv_op list \<Rightarrow> (('d, 'c) bench, kv_out list) prog" where
  "claimed_store L ps =
     andThen (create_claimed_machine_manager_pair L) (\<lambda>(i, j).
     andThen (first_machine L j) (\<lambda>m. code_outputs L i j m ps))"

section \<open>The simulation\<close>

definition side_view :: "author_id \<Rightarrow> doc_map \<Rightarrow> kv_view" where
  "side_view am M = (\<lambda>k. map_option (\<lambda>(v, a, t). (v, if a = am then Machine else Manager)) (M (kv_full_key k)))"

definition simulates ::
    "'d lab \<Rightarrow> ('d, 'v) docs_view_scheme \<Rightarrow> ('d \<Rightarrow> nat) \<Rightarrow> (hash32 \<Rightarrow> endpoint_id) \<Rightarrow> nat \<Rightarrow> nat \<Rightarrow> nat \<Rightarrow> bytes set \<Rightarrow> nat \<Rightarrow>
     kv_spec \<Rightarrow> ('d, 'c) bench \<Rightarrow> bool" where
  "simulates L V room public_of N i j K n s x \<longleftrightarrow> (\<exists>am ag ns M1 M2.
     paired L V room public_of N i j am ag ns (test_keys (lab_platform L) K) n M1 (kv_full_key ` machine_wrote s) M2 (kv_full_key ` manager_wrote s) x \<and>
     side_view am M1 = machine_view s \<and> side_view am M2 = manager_view s)"

lemma side_view_update:
  "side_view am (M(kv_full_key k \<mapsto> (v, a, t))) = (side_view am M)(k \<mapsto> (v, if a = am then Machine else Manager))"
  by (auto simp: side_view_def kv_full_key_def)

lemma side_view_merge:
  "side_view am (merge (kv_full_key ` W) M1 M2) = (\<lambda>k. if k \<in> W then side_view am M2 k else side_view am M1 k)"
  by (auto simp: side_view_def merge_def kv_full_key_def)

lemma look_view:
  assumes "am \<noteq> ag" and "authors_in {am, ag} M"
  shows "map_option entry_view (map_option (kv_of Machine am k) (M (kv_full_key k))) = side_view am M k"
    and "map_option entry_view (map_option (kv_of Manager ag k) (M (kv_full_key k))) = side_view am M k"
proof -
  have a: "a \<in> {am, ag}" if "M (kv_full_key k) = Some (v, a, t)" for v a t using assms(2) that unfolding authors_in_def by blast
  show "map_option entry_view (map_option (kv_of Machine am k) (M (kv_full_key k))) = side_view am M k"
    using a assms(1) by (cases "M (kv_full_key k)") (auto simp: side_view_def entry_view_def kv_of_def opposite_author_def)
  show "map_option entry_view (map_option (kv_of Manager ag k) (M (kv_full_key k))) = side_view am M k"
    using a assms(1) by (cases "M (kv_full_key k)") (auto simp: side_view_def entry_view_def kv_of_def opposite_author_def)
qed

lemma list_view_lists:
  assumes "kv_lists dev me M es"
  shows "list_view es k = map_option entry_view (map_option (kv_of dev me k) (M (kv_full_key k)))"
proof -
  have es: "distinct (map kv_key es)" "set es = {kv_of dev me k y |k y. M (kv_full_key k) = Some y}" using assms by (simp_all add: kv_lists_def)
  have "map_of (map (\<lambda>e. (kv_key e, entry_view e)) es) k = map_option entry_view (map_option (kv_of dev me k) (M (kv_full_key k)))"
  proof (cases "M (kv_full_key k)")
    case None
    then have "k \<notin> kv_key ` set es" unfolding es(2) by (auto simp: kv_of_def)
    then have "map_of (map (\<lambda>e. (kv_key e, entry_view e)) es) k = None" by (auto simp: map_of_eq_None_iff)
    then show ?thesis using None by simp
  next
    case (Some y)
    then have "kv_of dev me k y \<in> set es" unfolding es(2) by blast
    then have "(k, entry_view (kv_of dev me k y)) \<in> set (map (\<lambda>e. (kv_key e, entry_view e)) es)" by force
    moreover have "distinct (map fst (map (\<lambda>e. (kv_key e, entry_view e)) es))" using es(1) by (simp add: comp_def)
    ultimately show ?thesis using Some by simp
  qed
  then show ?thesis by (simp add: list_view_def)
qed

lemma paired_less:
  assumes "paired L V room public_of N i j am ag ns U n M1 W1 M2 W2 x" and "n' \<le> n"
  shows "paired L V room public_of N i j am ag ns U n' M1 W1 M2 W2 x"
  using assms by (auto simp: paired_def replicas_def replica_def)

lemma code_step_simulates:
  fixes x :: "('d, 'c) bench"
  assumes l: "working_lab L V room public_of" and s: "simulates L V room public_of N i j K n s x" and K: "prefix_free K" "op_keys p \<subseteq> K"
    and v0: "op_content p" and n: "0 < n" and c: "p = Exchange \<longrightarrow> machine_wrote s \<inter> manager_wrote s = {}"
  shows "passes (code_step L i j (public_of (lab_machine_key L i)) p) x
    (\<lambda>out y. out = fst (spec_step p s) \<and> simulates L V room public_of N i j K (n - 1) (snd (spec_step p s)) y)"
proof -
  let ?U = "test_keys (lab_platform L) K"
  note U = test_keys_ready [OF l K(1)]
  obtain am ag ns M1 M2 where p: "paired L V room public_of N i j am ag ns ?U n M1 (kv_full_key ` machine_wrote s) M2 (kv_full_key ` manager_wrote s) x"
    and v: "side_view am M1 = machine_view s" "side_view am M2 = manager_view s" using s by (auto simp: simulates_def)
  note a = paired_authors [OF p]
  have keep: "simulates L V room public_of N i j K (n - 1) s y"
    if "paired L V room public_of N i j am ag ns ?U n M1 (kv_full_key ` machine_wrote s) M2 (kv_full_key ` manager_wrote s) y" for y :: "('d, 'c) bench"
    unfolding simulates_def
    by (intro exI [of _ am] exI [of _ ag] exI [of _ ns] exI [of _ M1] exI [of _ M2] conjI v paired_less [OF that]) simp
  show ?thesis
  proof (cases p)
    case (MachinePut k w)
    then have k: "kv_full_key k \<in> ?U" "w \<noteq> []" using K(2) v0 by simp_all
    show ?thesis unfolding MachinePut code_step.simps
      by (rule passes_andThen, rule passes_machine_set_kv [OF l p n U k], rule passes_ret)
        (use v in \<open>auto simp: simulates_def side_view_update intro!: exI\<close>)
  next
    case (ManagerPut k w)
    then have k: "kv_full_key k \<in> ?U" "w \<noteq> []" using K(2) v0 by simp_all
    show ?thesis unfolding ManagerPut code_step.simps
      by (rule passes_andThen, rule passes_manager_set_kv [OF l p refl n U k], rule passes_ret)
        (use v a(3) in \<open>auto simp: simulates_def side_view_update intro!: exI\<close>)
  next
    case (MachineLook k)
    show ?thesis unfolding MachineLook code_step.simps
      by (rule passes_andThen, rule passes_machine_get_kv [OF l p], rule passes_ret) (simp add: look_view(1) [OF a(3,1)] v(1) keep [unfolded One_nat_def])
  next
    case (ManagerLook k)
    show ?thesis unfolding ManagerLook code_step.simps
      by (rule passes_andThen, rule passes_manager_get_kv [OF l p refl], rule passes_ret) (simp add: look_view(2) [OF a(3,2)] v(2) keep [unfolded One_nat_def])
  next
    case MachineList
    show ?thesis unfolding MachineList code_step.simps
      by (rule passes_andThen, rule passes_machine_entries [OF l p], rule passes_ret)
        (simp add: list_view_lists [THEN ext] look_view(1) [OF a(3,1)] v(1) keep [unfolded One_nat_def])
  next
    case ManagerList
    show ?thesis unfolding ManagerList code_step.simps
      by (rule passes_andThen, rule passes_manager_entries [OF l p refl], rule passes_ret)
        (simp add: list_view_lists [THEN ext] look_view(2) [OF a(3,2)] v(2) keep [unfolded One_nat_def])
  next
    case Exchange
    then have W: "kv_full_key ` machine_wrote s \<inter> kv_full_key ` manager_wrote s = {}" using c by (auto simp: kv_full_key_def)
    show ?thesis unfolding Exchange code_step.simps
    proof (rule passes_andThen, rule passes_sleep [OF l p n W], rule passes_ret, rule conjI)
      fix y assume y: "paired L V room public_of N i j am ag ns ?U (n - 1) (merge (kv_full_key ` manager_wrote s) M1 M2) {}
          (merge (kv_full_key ` manager_wrote s) M1 M2) {} y"
      have "side_view am (merge (kv_full_key ` manager_wrote s) M1 M2) = (\<lambda>k. if k \<in> manager_wrote s then manager_view s k else machine_view s k)"
        unfolding side_view_merge v ..
      then show "simulates L V room public_of N i j K (n - 1) (snd (spec_step Exchange s)) y"
        using y unfolding simulates_def by (intro exI [of _ am] exI [of _ ag] exI [of _ ns] exI) (auto simp: Let_def)
    qed (simp add: Let_def)
  qed
qed

lemma code_outputs_simulate:
  fixes x :: "('d, 'c) bench"
  assumes l: "working_lab L V room public_of" and K: "prefix_free K"
  shows "simulates L V room public_of N i j K n s x \<Longrightarrow> \<Union> (op_keys ` set ps) \<subseteq> K \<Longrightarrow> list_all op_content ps \<Longrightarrow> length ps \<le> n \<Longrightarrow> conflict_free ps s \<Longrightarrow>
    passes (code_outputs L i j (public_of (lab_machine_key L i)) ps) x (\<lambda>outs _. outs = spec_outputs ps s)"
proof (induction ps arbitrary: n s x)
  case Nil
  then show ?case by (simp add: passes_ret)
next
  case (Cons p ps)
  show ?case unfolding code_outputs.simps
  proof (rule passes_andThen, rule passes_weaken, rule code_step_simulates [OF l Cons.prems(1) K])
    fix out and y :: "('d, 'c) bench" assume y: "out = fst (spec_step p s) \<and> simulates L V room public_of N i j K (n - 1) (snd (spec_step p s)) y"
    have rest: "passes (code_outputs L i j (public_of (lab_machine_key L i)) ps) y (\<lambda>outs _. outs = spec_outputs ps (snd (spec_step p s)))"
      by (rule Cons.IH [OF conjunct2 [OF y]]) (use Cons.prems in auto)
    show "passes (andThen (code_outputs L i j (public_of (lab_machine_key L i)) ps) (\<lambda>outs. ret (out # outs))) y (\<lambda>outs _. outs = spec_outputs (p # ps) s)"
      by (rule passes_andThen, rule passes_weaken [OF rest]) (simp add: passes_ret conjunct1 [OF y])
  qed (use Cons.prems in auto)
qed

lemma claimed_store_refines:
  assumes l: "working_lab L V room public_of" and b: "bench_ready L V room N x" and none: "sessions x = []"
    and K: "prefix_free (\<Union> (op_keys ` set ps))" and v: "list_all op_content ps" and N: "length ps + 2 \<le> N" and c: "conflict_free ps empty_spec"
  shows "passes (claimed_store L ps) x (\<lambda>outs _. outs = spec_outputs ps empty_spec)"
proof -
  let ?K = "\<Union> (op_keys ` set ps)"
  have start: "simulates L V room public_of N i j ?K (N - 2) empty_spec y"
    if "paired L V room public_of N i j am ag ns (test_keys (lab_platform L) ?K) (N - 2) Map.empty {} Map.empty {} y" for i j am ag ns y
    using that unfolding simulates_def by (intro exI [of _ am] exI [of _ ag] exI [of _ ns] exI [of _ Map.empty]) (simp add: empty_spec_def side_view_def)
  show ?thesis unfolding claimed_store_def
  proof (rule passes_andThen, rule passes_pair [OF l b _ none, where U = "test_keys (lab_platform L) ?K"], use N in simp,
      rule passes_prod, rule passes_andThen, rule passes_first_machine [OF l], assumption)
    fix i j am ag ns y m
    assume p: "paired L V room public_of N i j am ag ns (test_keys (lab_platform L) ?K) (N - 2) Map.empty {} Map.empty {} y"
      and m: "m = public_of (lab_machine_key L i)"
    show "passes (code_outputs L i j m ps) y (\<lambda>outs _. outs = spec_outputs ps empty_spec)"
      unfolding m by (rule code_outputs_simulate [OF l K start [OF p] subset_refl v _ c]) (use N in simp)
  qed
qed

end
