(* ===== verification/Test_Cases.thy ===== *)
theory Test_Cases
  imports Test_Bench
begin

text \<open>
  The integration tests of \<open>vendimint_iroh/mod.rs\<close> as programs over the bench, under their
  own names. A test passes when it returns \<open>Ok ()\<close>.
\<close>

section \<open>Claims\<close>

definition test_basic_claim_flow :: "'d lab \<Rightarrow> (('d, 'c) bench, unit) prog" where
  "test_basic_claim_flow L =
     andThen (create_claimed_machine_manager_pair L) (\<lambda>(machine, manager).
     andThen (assert_machine_claimed_by_manager L machine manager) (\<lambda>_.
     andThen (on_manager manager (list_machines (lab_platform L) (lab_app L))) (\<lambda>machines.
     andThen (check (length machines = 1)) (\<lambda>_.
     ret ()))))"

definition test_machine_can_only_be_claimed_once :: "'d lab \<Rightarrow> (('d, 'c) bench, unit) prog" where
  "test_machine_can_only_be_claimed_once L =
     andThen (create_machine_manager_pair L) (\<lambda>(machine, manager1).
     andThen manager_tempdir (\<lambda>manager2.
     andThen (new_manager L manager2) (\<lambda>_.
     andThen (perform_claim L machine manager1 True True) (\<lambda>_.
     andThen (wait_for_machines_listed L manager1 1) (\<lambda>_.
     andThen (assert_machine_claimed_by_manager L machine manager1) (\<lambda>_.
     andThen (asks (\<lambda>x. machine_addr L x machine)) (\<lambda>machine_addr2.
     andThen (start_claim L manager2 machine machine_addr2) (\<lambda>(_, tx_mgr2).
     andThen (answer_manager tx_mgr2 True) (\<lambda>_.
     andThen (sleep L) (\<lambda>_.
     andThen (on_machine machine lock_claimed) (\<lambda>manager_pubkey.
     andThen (asks (\<lambda>x. manager_public_key L x manager1)) (\<lambda>public_key.
     andThen (check (manager_pubkey = Some public_key)) (\<lambda>_.
     andThen (on_manager manager2 (list_machines (lab_platform L) (lab_app L))) (\<lambda>machines.
     andThen (check (length machines = 0)) (\<lambda>_.
     ret ())))))))))))))))"

definition test_claim_rejected_by_machine :: "'d lab \<Rightarrow> (('d, 'c) bench, unit) prog" where
  "test_claim_rejected_by_machine L =
     andThen (create_machine_manager_pair L) (\<lambda>(machine, manager).
     andThen (perform_claim L machine manager False True) (\<lambda>_.
     andThen (sleep L) (\<lambda>_.
     andThen (on_machine machine lock_claimed) (\<lambda>manager_pubkey.
     andThen (check (manager_pubkey = None)) (\<lambda>_.
     andThen (on_manager manager (list_machines (lab_platform L) (lab_app L))) (\<lambda>machines.
     andThen (check (length machines = 0)) (\<lambda>_.
     andThen (perform_claim L machine manager True True) (\<lambda>_.
     andThen (sleep L) (\<lambda>_.
     andThen (assert_machine_claimed_by_manager L machine manager) (\<lambda>_.
     andThen (on_manager manager (list_machines (lab_platform L) (lab_app L))) (\<lambda>machines.
     andThen (check (length machines = 1)) (\<lambda>_.
     ret ()))))))))))))"

definition test_claim_rejected_by_manager :: "'d lab \<Rightarrow> (('d, 'c) bench, unit) prog" where
  "test_claim_rejected_by_manager L =
     andThen (create_machine_manager_pair L) (\<lambda>(machine, manager1).
     andThen manager_tempdir (\<lambda>manager2.
     andThen (new_manager L manager2) (\<lambda>_.
     andThen (perform_claim L machine manager1 True False) (\<lambda>_.
     andThen (sleep L) (\<lambda>_.
     andThen (on_machine machine lock_claimed) (\<lambda>manager_pubkey.
     andThen (check (manager_pubkey = None)) (\<lambda>_.
     andThen (on_manager manager1 (list_machines (lab_platform L) (lab_app L))) (\<lambda>machines.
     andThen (check (length machines = 0)) (\<lambda>_.
     andThen (perform_claim L machine manager2 True True) (\<lambda>_.
     andThen (sleep L) (\<lambda>_.
     andThen (assert_machine_claimed_by_manager L machine manager2) (\<lambda>_.
     andThen (on_manager manager2 (list_machines (lab_platform L) (lab_app L))) (\<lambda>machines.
     andThen (check (length machines = 1)) (\<lambda>_.
     ret ()))))))))))))))"

definition test_claim_pin_generation :: "'d lab \<Rightarrow> (('d, 'c) bench, unit) prog" where
  "test_claim_pin_generation L =
     andThen (create_machine_manager_pair L) (\<lambda>(machine, manager).
     andThen (asks (\<lambda>x. machine_addr L x machine)) (\<lambda>addr.
     andThen (expect_ok (start_claim L manager machine addr)) (\<lambda>(pin_mgr, _).
     andThen (await_claim_request L machine) (\<lambda>request_or.
     andThen (unwrap request_or) (\<lambda>(pin_machine, _).
     andThen (check (pin_mgr = pin_machine)) (\<lambda>_.
     andThen (check (as_u32 pin_mgr < 1000000)) (\<lambda>_.
     ret ())))))))"

text \<open>
  The machine's task of the concurrent test: it accepts every request, and blocks when
  there is none; \<open>n\<close> bounds the rounds.
\<close>

primrec accept_requests :: "'d lab \<Rightarrow> nat \<Rightarrow> nat \<Rightarrow> claim_pin list \<Rightarrow> ('d, 'c) bench \<Rightarrow> claim_pin list \<times> ('d, 'c) bench" where
  "accept_requests L machine 0 pins x = (pins, x)"
| "accept_requests L machine (Suc n) pins x =
     (let y = run_sessions L [] (sessions x) x in
      case await_claim_request L machine y of
        (Ok (Some (pin, tx)), z) \<Rightarrow> accept_requests L machine n (pins @ [pin]) (snd (answer_machine tx True z))
      | (_, z) \<Rightarrow> (pins, z))"

primrec create_managers :: "'d lab \<Rightarrow> nat \<Rightarrow> (('d, 'c) bench, nat list) prog" where
  "create_managers L 0 = ret []"
| "create_managers L (Suc n) =
     andThen (create_managers L n) (\<lambda>managers.
     andThen manager_tempdir (\<lambda>manager.
     andThen (new_manager L manager) (\<lambda>_.
     ret (managers @ [manager]))))"

definition test_concurrent_claim_attempts_with_managers :: "'d lab \<Rightarrow> nat \<Rightarrow> (('d, 'c) bench, unit) prog" where
  "test_concurrent_claim_attempts_with_managers L num_managers =
     andThen machine_tempdir (\<lambda>machine.
     andThen (new_machine L machine) (\<lambda>_.
     andThen (create_managers L num_managers) (\<lambda>managers.
     andThen (asks (\<lambda>x. machine_addr L x machine)) (\<lambda>addr.
     andThen (for_map (\<lambda>manager. spawn_manager_claim_task L manager machine addr) (lab_order L managers)) (\<lambda>manager_results.
     andThen (\<lambda>x. case accept_requests L machine (Suc num_managers) [] x of (pins, y) \<Rightarrow> (Ok pins, y)) (\<lambda>machine_pins.
     andThen (sleep L) (\<lambda>_.
     andThen (check (length machine_pins = 1)) (\<lambda>_.
     let pin_machine = hd machine_pins; manager_pins = map fst manager_results in
     andThen (check (pin_machine \<in> set manager_pins)) (\<lambda>_.
     andThen (sleep L) (\<lambda>_.
     andThen (for_map (\<lambda>(_, manager). on_manager manager (list_machines (lab_platform L) (lab_app L))) manager_results) (\<lambda>machine_lists.
     let machine_counts = map length machine_lists in
     andThen (check (sum_list machine_counts = 1)) (\<lambda>_.
     andThen (unwrap (find (\<lambda>(_, count). count = 1) (zip (map snd manager_results) machine_counts))) (\<lambda>(winning_manager, _).
     andThen (on_machine machine lock_claimed) (\<lambda>manager_pubkey.
     andThen (asks (\<lambda>x. manager_public_key L x winning_manager)) (\<lambda>public_key.
     andThen (check (manager_pubkey = Some public_key)) (\<lambda>_.
     ret ()))))))))))))))))"

section \<open>Restarts and shutdown\<close>

definition test_machine_claim_requests_rejected_after_shutdown :: "'d lab \<Rightarrow> (('d, 'c) bench, unit) prog" where
  "test_machine_claim_requests_rejected_after_shutdown L =
     andThen machine_tempdir (\<lambda>machine.
     andThen (new_machine L machine) (\<lambda>_.
     andThen (on_machine machine (machine_shutdown (lab_platform L))) (\<lambda>_.
     for_each (\<lambda>_. andThen (await_claim_request L machine) (\<lambda>request_or. check (request_or = None))) [0..<10])))"

definition test_machine_restart_persistence :: "'d lab \<Rightarrow> (('d, 'c) bench, unit) prog" where
  "test_machine_restart_persistence L =
     andThen machine_tempdir (\<lambda>machine.
     andThen (new_machine L machine) (\<lambda>_.
     andThen manager_tempdir (\<lambda>manager.
     andThen (new_manager L manager) (\<lambda>_.
     andThen (asks (\<lambda>x. machine_addr L x machine)) (\<lambda>addr_before.
     andThen (perform_claim L machine manager True True) (\<lambda>_.
     andThen (wait_for_machines_listed L manager 1) (\<lambda>_.
     andThen (assert_machine_claimed_by_manager L machine manager) (\<lambda>_.
     andThen (on_machine machine (machine_shutdown (lab_platform L))) (\<lambda>_.
     andThen (restart_machine L machine) (\<lambda>_.
     andThen (asks (\<lambda>x. machine_addr L x machine)) (\<lambda>addr_after.
     andThen (check (addr_id addr_before = addr_id addr_after)) (\<lambda>_.
     andThen (on_machine machine lock_claimed) (\<lambda>manager_pubkey.
     andThen (asks (\<lambda>x. manager_public_key L x manager)) (\<lambda>public_key.
     andThen (check (manager_pubkey = Some public_key)) (\<lambda>_.
     ret ())))))))))))))))"

definition test_machine_is_shutdown_status :: "'d lab \<Rightarrow> (('d, 'c) bench, unit) prog" where
  "test_machine_is_shutdown_status L =
     andThen machine_tempdir (\<lambda>machine.
     andThen (new_machine L machine) (\<lambda>_.
     andThen (asks (\<lambda>x. machine_is_shutdown (lab_platform L) (bench_machine x machine))) (\<lambda>b.
     andThen (check (\<not> b)) (\<lambda>_.
     andThen (on_machine machine (machine_shutdown (lab_platform L))) (\<lambda>_.
     andThen (asks (\<lambda>x. machine_is_shutdown (lab_platform L) (bench_machine x machine))) (\<lambda>b.
     andThen (check b) (\<lambda>_.
     ret ())))))))"

definition test_manager_restart_persistence :: "'d lab \<Rightarrow> (('d, 'c) bench, unit) prog" where
  "test_manager_restart_persistence L =
     andThen (create_claimed_machine_manager_pair L) (\<lambda>(machine, manager).
     andThen (first_machine L manager) (\<lambda>machine_id.
     let machine_config = create_test_machine_config L in
     andThen (on_manager manager (manager_set_machine_config (lab_platform L) (lab_app L) machine_id machine_config)) (\<lambda>_.
     andThen (on_manager manager (manager_shutdown (lab_platform L))) (\<lambda>_.
     andThen (restart_manager L manager) (\<lambda>_.
     andThen (on_manager manager (list_machines (lab_platform L) (lab_app L))) (\<lambda>machines.
     andThen (check (length machines = 1)) (\<lambda>_.
     andThen (check (fst (hd machines) = machine_id)) (\<lambda>_.
     andThen (on_manager manager (manager_get_machine_config (lab_platform L) (lab_app L) machine_id)) (\<lambda>retrieved_config.
     andThen (check (retrieved_config = Some machine_config)) (\<lambda>_.
     ret ()))))))))))"

definition test_machine_persistence_across_restarts :: "'d lab \<Rightarrow> (('d, 'c) bench, unit) prog" where
  "test_machine_persistence_across_restarts L =
     andThen machine_tempdir (\<lambda>machine.
     andThen manager_tempdir (\<lambda>manager.
     andThen (new_machine L machine) (\<lambda>_.
     andThen (new_manager L manager) (\<lambda>_.
     andThen (asks (\<lambda>x. addr_id (machine_addr L x machine))) (\<lambda>original_endpoint_id.
     andThen (perform_claim L machine manager True True) (\<lambda>_.
     andThen (wait_for_machines_listed L manager 1) (\<lambda>_.
     andThen (on_machine machine (machine_shutdown (lab_platform L))) (\<lambda>_.
     andThen (restart_machine L machine) (\<lambda>_.
     andThen (asks (\<lambda>x. addr_id (machine_addr L x machine))) (\<lambda>endpoint_id.
     andThen (check (endpoint_id = original_endpoint_id)) (\<lambda>_.
     andThen (on_machine machine lock_claimed) (\<lambda>manager_pubkey.
     andThen (asks (\<lambda>x. manager_public_key L x manager)) (\<lambda>public_key.
     andThen (check (manager_pubkey = Some public_key)) (\<lambda>_.
     ret ()))))))))))))))"

definition assert_shutdown :: "'d lab \<Rightarrow> nat \<Rightarrow> nat \<Rightarrow> bool \<Rightarrow> (('d, 'c) bench, unit) prog" where
  "assert_shutdown L machine manager b =
     andThen (asks (\<lambda>x. machine_is_shutdown (lab_platform L) (bench_machine x machine))) (\<lambda>m.
     andThen (check (m = b)) (\<lambda>_.
     andThen (asks (\<lambda>x. manager_is_shutdown (lab_platform L) (bench_manager x manager))) (\<lambda>m.
     check (m = b))))"

definition shutdown_both :: "'d lab \<Rightarrow> nat \<Rightarrow> nat \<Rightarrow> (('d, 'c) bench, unit) prog" where
  "shutdown_both L machine manager =
     andThen (on_machine machine (machine_shutdown (lab_platform L))) (\<lambda>_.
     on_manager manager (manager_shutdown (lab_platform L)))"

definition test_shutdown_idempotency :: "'d lab \<Rightarrow> (('d, 'c) bench, unit) prog" where
  "test_shutdown_idempotency L =
     andThen machine_tempdir (\<lambda>machine.
     andThen manager_tempdir (\<lambda>manager.
     andThen (new_machine L machine) (\<lambda>_.
     andThen (new_manager L manager) (\<lambda>_.
     andThen (assert_shutdown L machine manager False) (\<lambda>_.
     andThen (shutdown_both L machine manager) (\<lambda>_.
     andThen (assert_shutdown L machine manager True) (\<lambda>_.
     andThen (shutdown_both L machine manager) (\<lambda>_.
     andThen (assert_shutdown L machine manager True) (\<lambda>_.
     shutdown_both L machine manager)))))))))"

section \<open>A manager without machines\<close>

definition fresh_manager :: "'d lab \<Rightarrow> (('d, 'c) bench, nat) prog" where
  "fresh_manager L = andThen manager_tempdir (\<lambda>manager. andThen (new_manager L manager) (\<lambda>_. ret manager))"

definition test_manager_list_machines_empty :: "'d lab \<Rightarrow> (('d, 'c) bench, unit) prog" where
  "test_manager_list_machines_empty L =
     andThen (fresh_manager L) (\<lambda>manager.
     andThen (on_manager manager (list_machines (lab_platform L) (lab_app L))) (\<lambda>machines.
     check (machines = [])))"

definition test_manager_get_machine_config_nonexistent :: "'d lab \<Rightarrow> (('d, 'c) bench, unit) prog" where
  "test_manager_get_machine_config_nonexistent L =
     andThen (fresh_manager L) (\<lambda>manager.
     andThen (attempt (on_manager manager (manager_get_machine_config (lab_platform L) (lab_app L) (lab_dummy_id L)))) (\<lambda>result.
     check (case result of Inl _ \<Rightarrow> True | Inr _ \<Rightarrow> False)))"

definition test_manager_set_machine_config_nonexistent :: "'d lab \<Rightarrow> (('d, 'c) bench, unit) prog" where
  "test_manager_set_machine_config_nonexistent L =
     andThen (fresh_manager L) (\<lambda>manager.
     let machine_config = create_test_machine_config L in
     andThen (attempt (on_manager manager
       (manager_set_machine_config (lab_platform L) (lab_app L) (lab_dummy_id L) machine_config))) (\<lambda>result.
     check (case result of Inl _ \<Rightarrow> True | Inr _ \<Rightarrow> False)))"

definition test_manager_get_claimable_contracts_empty :: "'d lab \<Rightarrow> (('d, 'c) bench, unit) prog" where
  "test_manager_get_claimable_contracts_empty L =
     andThen (fresh_manager L) (\<lambda>manager.
     andThen (on_manager manager (manager_get_claimable_contracts (lab_platform L) (lab_app L))) (\<lambda>contracts.
     check (contracts = [])))"

definition test_manager_remove_claimable_contracts_empty :: "'d lab \<Rightarrow> (('d, 'c) bench, unit) prog" where
  "test_manager_remove_claimable_contracts_empty L =
     andThen (fresh_manager L) (\<lambda>manager.
     on_manager manager (remove_claimable_contracts (lab_platform L) (lab_app L) (lab_iter L) []))"

section \<open>Machine configurations\<close>

definition test_machine_config_operations :: "'d lab \<Rightarrow> (('d, 'c) bench, unit) prog" where
  "test_machine_config_operations L =
     andThen (create_claimed_machine_manager_pair L) (\<lambda>(machine, manager).
     andThen (on_machine machine (machine_get_machine_config (lab_platform L) (lab_app L))) (\<lambda>config_or.
     andThen (check (config_or = None)) (\<lambda>_.
     andThen (first_machine L manager) (\<lambda>machine_id.
     set_and_verify_machine_config L machine manager machine_id (create_test_machine_config L)))))"

definition test_machine_config_edge_cases :: "'d lab \<Rightarrow> (('d, 'c) bench, unit) prog" where
  "test_machine_config_edge_cases L =
     andThen (create_claimed_machine_manager_pair L) (\<lambda>(machine, manager).
     andThen (first_machine L manager) (\<lambda>machine_id.
     andThen (on_machine machine (machine_get_machine_config (lab_platform L) (lab_app L))) (\<lambda>config_or.
     andThen (check (config_or = None)) (\<lambda>_.
     andThen (on_manager manager (manager_get_machine_config (lab_platform L) (lab_app L) machine_id)) (\<lambda>config_or.
     andThen (check (config_or = None)) (\<lambda>_.
     andThen (set_and_verify_machine_config L machine manager machine_id (create_test_machine_config L)) (\<lambda>_.
     let updated_config = \<lparr>federation_invite_code = lab_invite L, claimer_pk = lab_other_public_key L\<rparr> in
     set_and_verify_machine_config L machine manager machine_id updated_config)))))))"

text \<open>\<open>InviteCode::to_string\<close> is the identity on codes here.\<close>

definition test_machine_config_serialization :: "'d lab \<Rightarrow> (('d, 'c) bench, unit) prog" where
  "test_machine_config_serialization L =
     (let machine_config = create_test_machine_config L in
      andThen (ok_or Serde (config_to_json (lab_platform L) machine_config)) (\<lambda>serialized.
      andThen (ok_or Serde (config_from_json (lab_platform L) serialized)) (\<lambda>deserialized.
      andThen (check (machine_config = deserialized)) (\<lambda>_.
      andThen (check (federation_invite_code machine_config = lab_invite L)) (\<lambda>_.
      andThen (check (claimer_pk machine_config = lab_public_key L)) (\<lambda>_.
      ret ()))))))"

section \<open>Payments\<close>

definition test_claimable_contract_operations :: "'d lab \<Rightarrow> (('d, 'c) bench, unit) prog" where
  "test_claimable_contract_operations L =
     andThen (create_claimed_machine_manager_pair L) (\<lambda>(machine, manager).
     andThen (write_and_sync_contract L machine manager (lab_federation L) (lab_contract L)) (\<lambda>_.
     andThen (on_manager manager (manager_get_claimable_contracts (lab_platform L) (lab_app L))) (\<lambda>claimable_contracts.
     andThen (check (length claimable_contracts = 1)) (\<lambda>_.
     andThen (on_manager manager (remove_claimable_contracts (lab_platform L) (lab_app L) (lab_iter L) claimable_contracts)) (\<lambda>_.
     andThen (on_manager manager (manager_get_claimable_contracts (lab_platform L) (lab_app L))) (\<lambda>claimable_contracts.
     check (claimable_contracts = [])))))))"

definition test_idempotent_contract_writes :: "'d lab \<Rightarrow> (('d, 'c) bench, unit) prog" where
  "test_idempotent_contract_writes L =
     andThen (create_claimed_machine_manager_pair L) (\<lambda>(machine, manager).
     andThen (on_machine machine (write_payment_to_machine_doc (lab_platform L) (lab_app L) (lab_federation L) (lab_contract L))) (\<lambda>_.
     andThen (on_machine machine (write_payment_to_machine_doc (lab_platform L) (lab_app L) (lab_federation L) (lab_contract L))) (\<lambda>_.
     andThen (wait_for_contract_sync L manager 1) (\<lambda>_.
     andThen (on_manager manager (manager_get_claimable_contracts (lab_platform L) (lab_app L))) (\<lambda>contracts.
     andThen (check (length contracts = 1)) (\<lambda>_.
     check (fst (snd (hd contracts)) = lab_federation L)))))))"

definition test_contract_removal :: "'d lab \<Rightarrow> (('d, 'c) bench, unit) prog" where
  "test_contract_removal L =
     andThen (create_claimed_machine_manager_pair L) (\<lambda>(machine, manager).
     andThen (on_manager manager (manager_get_claimable_contracts (lab_platform L) (lab_app L))) (\<lambda>contracts.
     andThen (check (length contracts = 0)) (\<lambda>_.
     andThen (write_and_sync_contract L machine manager (lab_federation L) (lab_contract L)) (\<lambda>_.
     andThen (on_manager manager (manager_get_claimable_contracts (lab_platform L) (lab_app L))) (\<lambda>contracts.
     andThen (on_manager manager (remove_claimable_contracts (lab_platform L) (lab_app L) (lab_iter L) contracts)) (\<lambda>_.
     andThen (on_manager manager (manager_get_claimable_contracts (lab_platform L) (lab_app L))) (\<lambda>remaining_contracts.
     check (length remaining_contracts = 0))))))))"

definition parse_key :: "bytes \<Rightarrow> ('s, federation_id \<times> contract_id) prog" where
  "parse_key key = (case parse_incoming_contract_machine_doc_key key of Inl e \<Rightarrow> fail e | Inr x \<Rightarrow> ret x)"

definition test_shared_protocol_key_functions :: "'d lab \<Rightarrow> (('d, 'c) bench, unit) prog" where
  "test_shared_protocol_key_functions L =
     (let key = create_claimable_contract_machine_doc_key (lab_platform L) (lab_federation L) (lab_contract L) in
      andThen (parse_key key) (\<lambda>(parsed_fed_id, parsed_contract_id).
      andThen (check (parsed_fed_id = lab_federation L)) (\<lambda>_.
      check (parsed_contract_id = contract_id_of (lab_platform L) (lab_contract L)))))"

definition test_shared_protocol_key_parsing_errors :: "(('d, 'c) bench, unit) prog" where
  "test_shared_protocol_key_parsing_errors =
     andThen (attempt (parse_key [1, 2, 3])) (\<lambda>result.
     andThen (check (case result of Inl _ \<Rightarrow> True | Inr _ \<Rightarrow> False)) (\<lambda>_.
     andThen (attempt (parse_key (replicate 66 0))) (\<lambda>result.
     check (case result of Inl _ \<Rightarrow> True | Inr _ \<Rightarrow> False))))"

definition test_machine_doc_key_validation :: "'d lab \<Rightarrow> (('d, 'c) bench, unit) prog" where
  "test_machine_doc_key_validation L =
     (let key = create_claimable_contract_machine_doc_key (lab_platform L) (lab_federation L) (lab_contract L) in
      andThen (check (length key = 66)) (\<lambda>_.
      andThen (check (take 2 key = CLAIMABLE_CONTRACT_PREFIX)) (\<lambda>_.
      andThen (parse_key key) (\<lambda>(parsed_fed_id, parsed_contract_id).
      andThen (check (parsed_fed_id = lab_federation L)) (\<lambda>_.
      check (parsed_contract_id = contract_id_of (lab_platform L) (lab_contract L)))))))"

end
