(* ===== verification/Test_Waits.thy ===== *)
theory Test_Waits
  imports Test_Cases
begin

text \<open>
  The waiting loops of the tests end: \<open>wait_for_condition\<close> returns in the first round in which
  its condition holds and times out after the last, and the machine's task of the concurrent
  test is given enough rounds as soon as it answers fewer requests than it has rounds.
\<close>

text \<open>The bench before round \<open>k\<close>: each round evaluates the condition and sleeps.\<close>

primrec round_state :: "'d lab \<Rightarrow> (('d, 'c) bench, bool) prog \<Rightarrow> nat \<Rightarrow> ('d, 'c) bench \<Rightarrow> ('d, 'c) bench" where
  "round_state L condition 0 x = x"
| "round_state L condition (Suc k) x = round_state L condition k (snd (sleep L (snd (condition x))))"

definition holds_in_round :: "'d lab \<Rightarrow> (('d, 'c) bench, bool) prog \<Rightarrow> ('d, 'c) bench \<Rightarrow> nat \<Rightarrow> bool" where
  "holds_in_round L condition x k \<longleftrightarrow> fst (condition (round_state L condition k x)) = Ok True"

lemma holds_in_round_simps [simp]:
  "holds_in_round L condition x 0 \<longleftrightarrow> fst (condition x) = Ok True"
  "holds_in_round L condition x (Suc k) \<longleftrightarrow> holds_in_round L condition (snd (sleep L (snd (condition x)))) k"
  by (simp_all add: holds_in_round_def)

lemma wait_round:
  assumes "condition x = (Ok b, y)"
  shows "wait_for_condition L condition (Suc n) x = (if b then (Ok (), y) else wait_for_condition L condition n (snd (sleep L y)))"
  by (simp add: assms andThen_def ret_def sleep_def)

lemma wait_for_condition_first:
  assumes "\<And>y. \<exists>b z. condition y = (Ok b, z)"
  shows "k < n \<Longrightarrow> holds_in_round L condition x k \<Longrightarrow> (\<forall>j<k. \<not> holds_in_round L condition x j) \<Longrightarrow>
    wait_for_condition L condition n x = (Ok (), snd (condition (round_state L condition k x)))"
proof (induction k arbitrary: n x)
  case 0
  then show ?case by (cases n; cases "condition x") (auto simp: wait_round simp del: wait_for_condition.simps(2))
next
  case (Suc k)
  obtain b y where c: "condition x = (Ok b, y)" using assms by blast
  have no: "\<not> b" using Suc.prems(3) c by (metis fst_conv holds_in_round_simps(1) zero_less_Suc)
  have "\<forall>j<k. \<not> holds_in_round L condition (snd (sleep L y)) j"
  proof (intro allI impI)
    fix j assume "j < k"
    then have "\<not> holds_in_round L condition x (Suc j)" using Suc.prems(3) by blast
    then show "\<not> holds_in_round L condition (snd (sleep L y)) j" using c by simp
  qed
  moreover obtain m where n: "n = Suc m" "k < m" using Suc.prems(1) by (cases n) auto
  moreover have "holds_in_round L condition (snd (sleep L y)) k" using Suc.prems(2) c by simp
  ultimately have "wait_for_condition L condition m (snd (sleep L y)) = (Ok (), snd (condition (round_state L condition k (snd (sleep L y)))))"
    using Suc.IH by blast
  then show ?case unfolding n(1) wait_round [of condition x, OF c] using no c by simp
qed

lemma wait_for_condition_timeout:
  assumes "\<And>y. \<exists>b z. condition y = (Ok b, z)"
  shows "\<forall>k<n. \<not> holds_in_round L condition x k \<Longrightarrow>
    wait_for_condition L condition n x = (Err (Message ''Condition timeout''), round_state L condition n x)"
proof (induction n arbitrary: x)
  case 0
  then show ?case by (simp add: fail_def)
next
  case (Suc n)
  obtain b y where c: "condition x = (Ok b, y)" using assms by blast
  have no: "\<not> b" using Suc.prems c by (metis fst_conv holds_in_round_simps(1) zero_less_Suc)
  have "\<forall>k<n. \<not> holds_in_round L condition (snd (sleep L y)) k"
  proof (intro allI impI)
    fix k assume "k < n"
    then have "\<not> holds_in_round L condition x (Suc k)" using Suc.prems by blast
    then show "\<not> holds_in_round L condition (snd (sleep L y)) k" using c by simp
  qed
  then show ?case unfolding wait_round [of condition x, OF c] using no c Suc.IH by simp
qed

lemma wait_for_condition_ends:
  assumes "\<And>y. \<exists>b z. condition y = (Ok b, z)"
  shows "wait_for_condition L condition n x =
    (case find (holds_in_round L condition x) [0..<n] of
       None \<Rightarrow> (Err (Message ''Condition timeout''), round_state L condition n x)
     | Some k \<Rightarrow> (Ok (), snd (condition (round_state L condition k x))))"
proof (cases "find (holds_in_round L condition x) [0..<n]")
  case None
  then have "\<forall>k<n. \<not> holds_in_round L condition x k" by (simp add: find_None_iff)
  then show ?thesis unfolding None using wait_for_condition_timeout [of condition, OF assms] by simp
next
  case (Some k)
  then obtain i where "i < n" "k = i" "holds_in_round L condition x k" "\<forall>j<i. \<not> holds_in_round L condition x j"
    by (auto simp: find_Some_iff)
  then show ?thesis unfolding Some using wait_for_condition_first [of condition, OF assms] by simp
qed

text \<open>The machine's task: once it blocks, further rounds change nothing.\<close>

lemma accept_requests_enough:
  "length (fst (accept_requests L machine n pins x)) < length pins + n \<Longrightarrow>
   accept_requests L machine (n + k) pins x = accept_requests L machine n pins x"
proof (induction n arbitrary: pins x)
  case (Suc n)
  show ?case
  proof (cases "\<exists>pin tx z. await_claim_request L machine (run_sessions L [] (sessions x) x) = (Ok (Some (pin, tx)), z)")
    case True
    then show ?thesis using Suc.prems by (auto simp: Let_def intro!: Suc.IH)
  next
    case False
    then show ?thesis by (auto simp: Let_def split: prod.split res.split option.split)
  qed
qed simp

end
