(* ===== verification/Test_KV_Pass.thy ===== *)
theory Test_KV_Pass
  imports Test_Steps
begin

text \<open>The tests of the key/value store pass.\<close>

lemma passes_fixture [step_rules]:
  assumes "working_lab L V room public_of" and "bench_ready L V room N x" and "2 \<le> N" and "sessions x = []"
    and "\<And>fx am ag ns y. paired L V room public_of N (fx_machine fx) (fx_manager fx) am ag ns U (N - 2) Map.empty {} Map.empty {} y \<Longrightarrow>
      fx_machine_id fx = public_of (lab_machine_key L (fx_machine fx)) \<Longrightarrow> Q fx y"
  shows "passes (kv_fixture_new L) x Q"
proof -
  have Q: "Q \<lparr>fx_machine = i, fx_manager = j, fx_machine_id = public_of (lab_machine_key L i)\<rparr> y"
    if p: "paired L V room public_of N i j am ag ns U (N - 2) Map.empty {} Map.empty {} y" for i j am ag ns y
    using p assms(5) [of "\<lparr>fx_machine = i, fx_manager = j, fx_machine_id = public_of (lab_machine_key L i)\<rparr>"] by simp
  show ?thesis unfolding kv_fixture_new_def
    by (rule passes_andThen, rule passes_pair [OF assms(1-4), where U = U], rule passes_prod, rule passes_andThen,
        rule passes_first_machine [OF assms(1)], assumption, rule passes_ret, simp add: Q)
qed

text \<open>Every value the tests write has content.\<close>

lemma ascii_Nil [simp]: "ascii s = [] \<longleftrightarrow> s = []"
  by (simp add: ascii_def)

lemma test_value_content [simp]: "TEST_VALUE \<noteq> []"
  by (simp add: TEST_VALUE_def)

lemmas fixture_ops = machine_get_def manager_get_def machine_set_def manager_set_def machine_entries_def manager_entries_def

lemma kv_full_key_eq [simp]: "kv_full_key k = kv_full_key k' \<longleftrightarrow> k = k'"
  by (simp add: kv_full_key_def)

lemma written_machine: "(v, am, t) = (v, written_by am ag Machine, t)"
  by (simp add: written_by_def)

lemma paired_ready:
  "paired L V room public_of N i j am ag ns U n M1 W1 M2 W2 x \<Longrightarrow> bench_ready L V room N x"
  "paired L V room public_of N i j am ag ns U n M1 W1 M2 W2 x \<Longrightarrow> sessions x = []"
  by (simp_all add: pairedD)

text \<open>An entry that one side has just written, and one that both sides have.\<close>

lemma passes_verify_new:
  assumes l: "working_lab L V room public_of"
    and p: "paired L V room public_of N (fx_machine fx) (fx_manager fx) am ag ns U n M1 W1 M2 W2 x"
    and m: "fx_machine_id fx = public_of (lab_machine_key L (fx_machine fx))" and n: "0 < n" and W: "W1 \<inter> W2 = {}"
    and M: "\<exists>t. merge W2 M1 M2 (kv_full_key k) = Some (v, written_by am ag who, t)"
    and d: "M1 (kv_full_key k) \<noteq> M2 (kv_full_key k)"
    and Q: "\<And>y. paired L V room public_of N (fx_machine fx) (fx_manager fx) am ag ns U (n - 1) (merge W2 M1 M2) {} (merge W2 M1 M2) {} y \<Longrightarrow> Q () y"
  shows "passes (verify_entry L fx k v who) x Q"
proof -
  obtain t where t: "merge W2 M1 M2 (kv_full_key k) = Some (v, written_by am ag who, t)" using M by blast
  show ?thesis
    by (rule passes_verify [OF l m], rule passes_kv_sync_sleep [OF l p m d n W], assumption, rule t, rule t, rule Q)
qed

lemma passes_verify_old:
  assumes l: "working_lab L V room public_of"
    and p: "paired L V room public_of N (fx_machine fx) (fx_manager fx) am ag ns U n M W1 M W2 x"
    and m: "fx_machine_id fx = public_of (lab_machine_key L (fx_machine fx))"
    and M: "\<exists>t. M (kv_full_key k) = Some (v, written_by am ag who, t)"
    and Q: "\<And>y. paired L V room public_of N (fx_machine fx) (fx_manager fx) am ag ns U n M W1 M W2 y \<Longrightarrow> Q () y"
  shows "passes (verify_entry L fx k v who) x Q"
proof -
  obtain t where t: "M (kv_full_key k) = Some (v, written_by am ag who, t)" using M by blast
  show ?thesis
    by (rule passes_verify [OF l m], rule passes_kv_sync_now [OF l p m refl], assumption, rule t, rule t, rule Q)
qed

lemmas kv_steps = passes_andThen passes_let passes_check passes_machine_set_kv passes_manager_set_kv passes_machine_get_kv passes_manager_get_kv

section \<open>Basic operations and updates\<close>

lemma test_keys_apart: "TEST_KEY \<noteq> NONEXISTENT_KEY"
  by (simp add: TEST_KEY_def NONEXISTENT_KEY_def ascii_def)

lemma kv_basic_passes:
  assumes l: "working_lab L V room public_of" and b: "bench_ready L V room N x" and N: "8 \<le> N" and none: "sessions x = []"
  shows "passes (test_kv_basic_operations L) x (\<lambda>_ _. True)"
proof -
  let ?U = "test_keys (lab_platform L) {TEST_KEY}"
  note U = test_keys_ready [OF l prefix_free_single [of TEST_KEY]]
  show ?thesis
    unfolding test_kv_basic_operations_def fixture_ops
    by (insert N, (rule kv_steps passes_fixture [OF l, where U = ?U] passes_verify_new [OF l] | rule l b none U | assumption | (simp add: merge_def written_by_def test_keys_apart test_keys_apart [symmetric]; fail) | (erule paired_ready))+)
qed

lemma kv_update_passes:
  assumes l: "working_lab L V room public_of" and b: "bench_ready L V room N x" and N: "8 \<le> N" and none: "sessions x = []"
  shows "passes (test_kv_update_existing_key L) x (\<lambda>_ _. True)"
proof -
  let ?U = "test_keys (lab_platform L) {ascii ''update_key''}"
  note U = test_keys_ready [OF l prefix_free_single [of "ascii ''update_key''"]]
  show ?thesis
    unfolding test_kv_update_existing_key_def fixture_ops Let_def
    by (insert N, (rule kv_steps passes_fixture [OF l, where U = ?U] passes_verify_new [OF l] | rule l b none U | assumption |
        (simp add: merge_def written_by_def ascii_def; fail))+)
qed

lemma kv_binary_passes:
  assumes l: "working_lab L V room public_of" and b: "bench_ready L V room N x" and N: "8 \<le> N" and none: "sessions x = []"
  shows "passes (test_kv_binary_data L) x (\<lambda>_ _. True)"
proof -
  let ?k = "[0x00, 0x01, 0x02] @ ascii ''binary_key'' @ [0xff, 0xfe]"
  let ?U = "test_keys (lab_platform L) {?k}"
  note U = test_keys_ready [OF l prefix_free_single [of ?k]]
  show ?thesis
    unfolding test_kv_binary_data_def fixture_ops Let_def
    by (insert N, (rule kv_steps passes_fixture [OF l, where U = ?U] passes_verify_new [OF l] | rule l b none U | assumption |
        (simp add: merge_def written_by_def del: append.simps; fail))+)
qed

section \<open>Authors\<close>

lemma sorted_kv_entries:
  assumes "kv_lists dev me M kvs" and "distinct (map kv_key ys)" and "set ys = {kv_of dev me k y |k y. M (kv_full_key k) = Some y}"
    and "sort_key kv_key ys = ys"
  shows "sort_key kv_key kvs = ys"
proof -
  have "set kvs = set ys" "distinct (map kv_key kvs)" using assms(1,3) by (simp_all add: kv_lists_def)
  moreover have "inj_on kv_key (set kvs \<union> set ys)" using calculation assms(2) by (simp add: distinct_map)
  ultimately have "same_entries kvs ys" using same_entries_set [OF _ assms(2)] by blast
  then show ?thesis unfolding same_entries_sorted assms(4) .
qed

lemma two_entries:
  assumes p: "paired L V room public_of N i j am ag ns U n M W1 M' W2 x" and k: "kv_lists Machine am M kvs"
    and M: "M (kv_full_key a) = Some (va, am, ta)" "M (kv_full_key b) = Some (vb, ag, tb)" "\<And>k. k \<noteq> a \<Longrightarrow> k \<noteq> b \<Longrightarrow> M (kv_full_key k) = None"
    and ab: "a < b"
  shows "map (\<lambda>entry. entry\<lparr>kv_timestamp := 0\<rparr>) (sort_key kv_key kvs) =
    [\<lparr>kv_key = a, kv_value = va, kv_author = Machine, kv_timestamp = 0\<rparr>, \<lparr>kv_key = b, kv_value = vb, kv_author = Manager, kv_timestamp = 0\<rparr>]"
proof -
  let ?ys = "[kv_of Machine am a (va, am, ta), kv_of Machine am b (vb, ag, tb)]"
  have "sort_key kv_key kvs = ?ys"
  proof (rule sorted_kv_entries [OF k])
    have "k = a \<or> k = b" if "M (kv_full_key k) = Some y" for k y using M(3) [of k] that by auto
    then show "set ?ys = {kv_of Machine am k y |k y. M (kv_full_key k) = Some y}" using M(1,2) by fastforce
    show "distinct (map kv_key ?ys)" using ab by simp
    show "sort_key kv_key ?ys = ?ys" using ab by simp
  qed
  then show ?thesis using paired_authors(3) [OF p] by (simp add: kv_of_def opposite_author_def)
qed

lemma kv_author_passes:
  assumes l: "working_lab L V room public_of" and b: "bench_ready L V room N x" and N: "8 \<le> N" and none: "sessions x = []"
  shows "passes (test_kv_author_tracking L) x (\<lambda>_ _. True)"
proof -
  let ?a = "ascii ''machine_key''" and ?b = "ascii ''manager_key''"
  let ?U = "test_keys (lab_platform L) {?a, ?b}"
  have ne: "?a \<noteq> ?b" "?b \<noteq> ?a" "\<not> prefix ?a ?b" "\<not> prefix ?b ?a" "?a < ?b" by (simp_all add: ascii_def)
  then have "prefix_free {?a, ?b}" by (auto simp: prefix_free_def)
  note U = test_keys_ready [OF l this]
  show ?thesis
    unfolding test_kv_author_tracking_def fixture_ops Let_def
    by (insert N, (rule kv_steps passes_fixture [OF l, where U = ?U] | rule l b none U | assumption |
        (simp add: merge_def written_by_def ne; fail))+,
        rule passes_verify_new [OF l], assumption, assumption, (simp add: merge_def written_by_def ne)+,
        rule passes_andThen, rule passes_verify_old [OF l], assumption, assumption, simp add: merge_def written_by_def ne,
        rule passes_andThen, rule passes_machine_entries [OF l], assumption, rule passes_check, rule two_entries, assumption, assumption,
        simp_all add: ne merge_def)
qed

section \<open>Several entries\<close>

lemma kv_lists_keys:
  assumes "kv_lists dev me M kvs"
  shows "kv_key ` set kvs = {k. M (kv_full_key k) \<noteq> None}" and "length kvs = card {k. M (kv_full_key k) \<noteq> None}"
proof -
  show k: "kv_key ` set kvs = {k. M (kv_full_key k) \<noteq> None}"
    using assms by (force simp: kv_lists_def image_iff)
  have "length kvs = card (set (map kv_key kvs))" using distinct_card [of "map kv_key kvs"] assms by (simp add: kv_lists_def)
  then show "length kvs = card {k. M (kv_full_key k) \<noteq> None}" using k by simp
qed

lemma kv_lists_values:
  assumes "kv_lists dev me M kvs" and "e \<in> set kvs"
  obtains v a t where "M (kv_full_key (kv_key e)) = Some (v, a, t)" "kv_value e = v"
  using assms that by (fastforce simp: kv_lists_def kv_of_def)

lemma test_data_keys:
  "prefix_free (fst ` set test_data)"
  "distinct (map fst test_data)"
  by (simp_all add: prefix_free_def test_data_def ascii_def)

text \<open>The entries of a map that holds the test data, written by the machine.\<close>

definition holds_test_data :: "author_id \<Rightarrow> doc_map \<Rightarrow> bool" where
  "holds_test_data am M \<longleftrightarrow> (\<forall>k. case map_of test_data k of None \<Rightarrow> M (kv_full_key k) = None
     | Some v \<Rightarrow> \<exists>t. M (kv_full_key k) = Some (v, am, t))"

lemma holds_test_dataD:
  assumes "holds_test_data am M"
  shows "map_of test_data k = None \<Longrightarrow> M (kv_full_key k) = None" "map_of test_data k = Some v \<Longrightarrow> \<exists>t. M (kv_full_key k) = Some (v, am, t)"
  using assms [unfolded holds_test_data_def, rule_format, of k] by simp_all

lemma holds_test_data_length:
  assumes "holds_test_data am M" and "kv_lists dev me M kvs"
  shows "length kvs = length test_data"
proof -
  have "M (kv_full_key k) \<noteq> None \<longleftrightarrow> k \<in> fst ` set test_data" for k
    using holds_test_dataD [OF assms(1), of k] map_of_eq_None_iff [of test_data k] by (cases "map_of test_data k") auto
  then have "length kvs = card (fst ` set test_data)" using kv_lists_keys(2) [OF assms(2)] by simp
  also have "\<dots> = length test_data" using distinct_card [OF test_data_keys(2)] by simp
  finally show ?thesis .
qed

lemma holds_test_data_find:
  assumes "holds_test_data am M" and "kv_lists dev me M kvs" and "e \<in> set kvs"
  shows "map_option snd (find (\<lambda>(key, _). key = kv_key e) test_data) = Some (kv_value e)"
proof -
  obtain v a t where v: "M (kv_full_key (kv_key e)) = Some (v, a, t)" "kv_value e = v" by (rule kv_lists_values [OF assms(2,3)])
  have "map_of xs k = map_option snd (find (\<lambda>(key, _). key = k) xs)" for xs :: "(bytes \<times> bytes) list" and k
    by (induction xs) auto
  moreover have "map_of test_data (kv_key e) = Some v"
    using holds_test_dataD [OF assms(1), of "kv_key e"] v(1) by (cases "map_of test_data (kv_key e)") auto
  ultimately show ?thesis using v(2) by simp
qed

lemma kv_multiple_passes:
  assumes l: "working_lab L V room public_of" and b: "bench_ready L V room N x" and N: "8 \<le> N" and none: "sessions x = []"
  shows "passes (test_kv_multiple_entries L) x (\<lambda>_ _. True)"
proof -
  let ?U = "test_keys (lab_platform L) (fst ` set test_data)"
  note U = test_keys_ready [OF l test_data_keys(1)]
  have h: "holds_test_data am (Map.empty(kv_full_key (ascii ''key1'') \<mapsto> (ascii ''value1'', am, t1), kv_full_key (ascii ''key2'') \<mapsto> (ascii ''value2'', am, t2),
      kv_full_key (ascii ''key3'') \<mapsto> (ascii ''value3'', am, t3)))" for am t1 t2 t3
    by (simp add: holds_test_data_def test_data_def ascii_def)
  show ?thesis
    unfolding test_kv_multiple_entries_def fixture_ops
    by (insert N, rule passes_andThen, rule passes_fixture [OF l, where U = ?U], rule b, simp, rule none,
        rule passes_andThen, subst test_data_def, (rule passes_for_each_Cons passes_for_each_Nil kv_steps passes_prod | rule l U | assumption | (simp add: test_data_def; fail))+,
        rule passes_machine_entries [OF l], assumption,
        rule passes_andThen, rule passes_check, rule holds_test_data_length [OF h], assumption,
        rule passes_andThen, rule passes_for_each_stay,
        rule passes_andThen, rule passes_unwrap, rule holds_test_data_find [OF h], assumption, assumption, rule passes_check, rule refl, rule refl,
        rule passes_andThen, rule passes_kv_sync_sleep [OF l, where k = "ascii ''key1''"], assumption, assumption, simp, simp, simp, unfold merge_nothing,
        rule passes_andThen, rule passes_manager_entries [OF l], assumption, assumption,
        rule passes_andThen, rule passes_check, rule holds_test_data_length [OF h], assumption, subst test_data_def, (rule passes_for_each_Cons passes_for_each_Nil passes_prod passes_verify_old [OF l] | assumption | (simp add: written_by_def ascii_def; fail))+)
qed

section \<open>Entries, configuration and payments apart\<close>

lemma kv_isolation_passes:
  assumes l: "working_lab L V room public_of" and b: "bench_ready L V room N x" and N: "8 \<le> N" and none: "sessions x = []"
  shows "passes (test_kv_namespace_isolation L) x (\<lambda>_ _. True)"
proof -
  let ?U = "test_keys (lab_platform L) {TEST_KEY}"
  note U = test_keys_ready [OF l prefix_free_single [of TEST_KEY]] and c = working_engineD(2) [OF working_labD(1) [OF l]]
  note apart = payment_key_apart [OF c] key_spaces_disjoint
  show ?thesis
    unfolding test_kv_namespace_isolation_def fixture_ops
    by (insert N, rule passes_andThen, rule passes_fixture [OF l, where U = ?U], rule b, simp, rule none,
        (rule kv_steps passes_write_payment [OF l] passes_set_config [OF l] passes_kv_sync_sleep [OF l, where k = TEST_KEY]
          | rule l U | assumption | (simp add: apart; fail))+,
        rule passes_machine_entries_one [OF l, where k = TEST_KEY], assumption, simp add: merge_def apart, simp add: merge_def apart,
        (rule kv_steps passes_machine_get_config [OF l _ config_at_some] passes_contracts_one [OF l, where fid = "lab_federation L" and cc = "lab_contract L"]
          | rule l U | assumption | (simp add: apart merge_def kv_of_def; fail) | (auto simp: one_payment_def apart merge_def; fail))+)
qed

end
