(* ===== verification/Test_Doc_Pass.thy ===== *)
theory Test_Doc_Pass
  imports Test_Steps Test_Cases
begin

text \<open>
  The tests of configurations and payments: all pass but one, which may read the
  configuration before the machine has received it.
\<close>

lemmas doc_steps = passes_andThen passes_let passes_check passes_prod passes_ret

section \<open>Configurations\<close>

abbreviation config_known :: "'d lab \<Rightarrow> nat \<Rightarrow> (('d, 'c) bench, bool) prog" where
  "config_known L i \<equiv> andThen (attempt (on_machine i (machine_get_machine_config (lab_platform L) (lab_app L)))) (\<lambda>r.
        ret (case r of Inr (Some _) \<Rightarrow> True | _ \<Rightarrow> False))"

lemma passes_config_known:
  assumes "working_lab L V room public_of" and "paired L V room public_of N i j am ag ns U n M1 W1 M2 W2 x"
    and "config_at (lab_platform L) M1 = Ok c" and "\<And>y. paired L V room public_of N i j am ag ns U n M1 W1 M2 W2 y \<Longrightarrow> Q (c \<noteq> None) y"
  shows "passes (config_known L i) x Q"
  by (rule passes_andThen, rule passes_attempt, rule passes_machine_get_config [OF assms(1-3)], rule passes_ret, drule assms(4), cases c) simp_all

lemma config_set_on: "config_at P (M(MACHINE_CONFIG_KEY \<mapsto> (b, a, t))) = Ok (Some c)" if "config_from_json P b = Some c"
  using that by (simp add: config_at_def)

lemma config_merged: "MACHINE_CONFIG_KEY \<in> W2 \<Longrightarrow> config_at P (merge W2 M1 M2) = config_at P M2"
  "MACHINE_CONFIG_KEY \<notin> W2 \<Longrightarrow> config_at P (merge W2 M1 M2) = config_at P M1"
  by (simp_all add: config_at_def merge_def)

text \<open>The first configuration of a machine arrives with the next exchange.\<close>

lemma passes_first_config:
  assumes l: "working_lab L V room public_of" and p: "paired L V room public_of N i j am ag ns (test_keys (lab_platform L) {}) n Map.empty {} Map.empty {} x"
    and m: "m = public_of (lab_machine_key L i)" and n: "2 \<le> n"
    and Q: "\<And>y b t. paired L V room public_of N i j am ag ns (test_keys (lab_platform L) {}) (n - 2)
        [MACHINE_CONFIG_KEY \<mapsto> (b, ag, t)] {} [MACHINE_CONFIG_KEY \<mapsto> (b, ag, t)] {} y \<Longrightarrow> config_from_json (lab_platform L) b = Some c \<Longrightarrow> Q () y"
  shows "passes (set_and_verify_machine_config L i j m c) x Q"
proof -
  have e: "merge (insert MACHINE_CONFIG_KEY {}) Map.empty (Map.empty(MACHINE_CONFIG_KEY \<mapsto> y)) = Map.empty(MACHINE_CONFIG_KEY \<mapsto> y)" for y
    by (auto simp: merge_def)
  show ?thesis unfolding set_and_verify_machine_config_def
    by (insert n, rule passes_andThen, rule passes_set_config [OF l p m], simp, rule no_keys_ready [OF l], simp,
        rule passes_andThen, rule passes_with_context, rule passes_wait_sleep [OF _ waits(2)], rule passes_config_known [OF l], assumption,
        rule config_at_none, simp, rule conjI, simp, rule passes_sleep [OF l], assumption, simp, simp,
        rule passes_config_known [OF l], assumption, unfold e, rule config_set_on, assumption, rule conjI, simp,
        (rule doc_steps passes_machine_get_config [OF l _ config_set_on] passes_manager_get_config [OF l _ m config_set_on] | assumption | rule refl)+,
        rule Q, simp add: numeral_2_eq_2, assumption)
qed

lemma config_operations_pass:
  assumes l: "working_lab L V room public_of" and b: "bench_ready L V room N x" and N: "8 \<le> N" and none: "sessions x = []"
  shows "passes (test_machine_config_operations L) x (\<lambda>_ _. True)"
  unfolding test_machine_config_operations_def
  by (insert N, (rule doc_steps passes_pair [OF l, where U = "test_keys (lab_platform L) {}"] passes_machine_get_config [OF l _ config_at_none]
        passes_first_machine [OF l] passes_first_config [OF l] | rule b none | assumption | (simp; fail))+)


text \<open>
  The second configuration need not be there: the test waits for \<open>Ok(Some(_))\<close>, which the
  first one satisfies.
\<close>

definition panics :: "('s, 'a) prog \<Rightarrow> 's \<Rightarrow> bool" where
  "panics m x \<longleftrightarrow> fst (m x) = Panic"

lemma panics_check: "\<not> b \<Longrightarrow> panics (check b) x"
  by (simp add: panics_def check_def panic_def)

lemma panics_first: "panics m x \<Longrightarrow> panics (andThen m f) x"
  by (auto simp: panics_def andThen_def split: prod.splits res.splits)

lemma panics_then: "passes m x (\<lambda>r y. panics (f r) y) \<Longrightarrow> panics (andThen m f) x"
  by (auto simp: panics_def passes_def andThen_def)

lemma panics_prod: "panics (f a b) x \<Longrightarrow> panics (case (a, b) of (u, v) \<Rightarrow> f u v) x"
  by simp

lemma panics_second_config:
  assumes l: "working_lab L V room public_of" and p: "paired L V room public_of N i j am ag ns (test_keys (lab_platform L) {}) n M W1 M2 {} x"
    and m: "m = public_of (lab_machine_key L i)" and n: "1 \<le> n" and M: "config_at (lab_platform L) M = Ok (Some c)" and c: "c \<noteq> c'"
  shows "panics (set_and_verify_machine_config L i j m c') x"
  unfolding set_and_verify_machine_config_def
  by (insert n c, rule panics_then, rule passes_set_config [OF l p m], simp, rule no_keys_ready [OF l], simp,
      rule panics_then, rule passes_with_context, rule passes_wait_now [OF _ waits(1)], rule passes_config_known [OF l], assumption, rule M,
      rule conjI, simp, rule panics_then, rule passes_machine_get_config [OF l _ M], assumption, rule panics_first, rule panics_check, simp)

lemma config_edge_cases_panic:
  assumes l: "working_lab L V room public_of" and b: "bench_ready L V room N x" and N: "8 \<le> N" and none: "sessions x = []"
    and keys: "lab_public_key L \<noteq> lab_other_public_key L"
  shows "panics (test_machine_config_edge_cases L) x"
  unfolding test_machine_config_edge_cases_def Let_def
  by (insert N keys, (rule panics_then panics_prod panics_second_config [OF l _ _ _ config_set_on] | rule passes_pair [OF l, where U = "test_keys (lab_platform L) {}"] passes_machine_get_config [OF l _ config_at_none]
        passes_manager_get_config [OF l _ _ config_at_none] passes_first_machine [OF l] passes_first_config [OF l] passes_check
        | rule b none | assumption | (simp add: create_test_machine_config_def; fail))+)

section \<open>Payments\<close>

abbreviation payments_known :: "'d lab \<Rightarrow> nat \<Rightarrow> nat \<Rightarrow> (('d, 'c) bench, bool) prog" where
  "payments_known L j n \<equiv> andThen (attempt (on_manager j (manager_get_claimable_contracts (lab_platform L) (lab_app L)))) (\<lambda>r.
        ret (case r of Inl _ \<Rightarrow> False | Inr contracts \<Rightarrow> length contracts = n))"

text \<open>A payment the machine has written reaches the manager with the next exchange.\<close>

lemma passes_contract_sync:
  assumes l: "working_lab L V room public_of" and p: "paired L V room public_of N i j am ag ns U n M1 W1 M2 W2 x"
    and n: "0 < n" and W: "W1 \<inter> W2 = {}" and none: "no_payment M2" and one: "one_payment (lab_platform L) fid cc (merge W2 M1 M2)"
    and Q: "\<And>y. paired L V room public_of N i j am ag ns U (n - 1) (merge W2 M1 M2) {} (merge W2 M1 M2) {} y \<Longrightarrow> Q () y"
  shows "passes (wait_for_contract_sync L j 1) x Q"
  unfolding wait_for_contract_sync_def
  by (rule passes_with_context, rule passes_wait_sleep [OF _ waits(2)], rule passes_andThen, rule passes_attempt,
      rule passes_contracts_none [OF l p none], rule passes_ret, rule conjI, simp, rule passes_sleep [OF l _ n W], assumption,
      rule passes_andThen, rule passes_attempt, rule passes_contracts_one [OF l _ one], assumption, rule passes_ret, rule conjI, simp, rule Q)

lemma no_payment_empty: "no_payment Map.empty"
  by (simp add: no_payment_def)

lemma one_payment_new:
  "contract_to_json P cc = Some b \<Longrightarrow> one_payment P fid cc [create_claimable_contract_machine_doc_key P fid cc \<mapsto> (b, a, t)]"
  by (auto simp: one_payment_def)

lemma one_payment_again:
  "one_payment P fid cc M \<Longrightarrow> contract_to_json P cc = Some b \<Longrightarrow> one_payment P fid cc (M(create_claimable_contract_machine_doc_key P fid cc \<mapsto> (b, a, t)))"
  by (auto simp: one_payment_def)

lemma no_payment_removed:
  "one_payment P fid cc M \<Longrightarrow> no_payment (remove_keys (payment_keys P (map snd [(m, fid, cc)])) M)"
  by (auto simp: one_payment_def no_payment_def remove_keys_def payment_keys_def)

lemma passes_write_and_sync:
  assumes l: "working_lab L V room public_of" and p: "paired L V room public_of N i j am ag ns (test_keys (lab_platform L) {}) n Map.empty {} Map.empty {} x"
    and n: "2 \<le> n"
    and Q: "\<And>y M. paired L V room public_of N i j am ag ns (test_keys (lab_platform L) {}) (n - 2) M {} M {} y \<Longrightarrow>
        one_payment (lab_platform L) fid cc M \<Longrightarrow> Q () y"
  shows "passes (write_and_sync_contract L i j fid cc) x Q"
proof -
  have n1: "0 < n - 1" "n - 1 - 1 = n - 2" using n by simp_all
  show ?thesis unfolding write_and_sync_contract_def
    by (insert n, rule passes_andThen, rule passes_contracts_none [OF l p no_payment_empty], rule passes_andThen,
        rule passes_write_payment [OF l], assumption, simp, rule no_keys_ready [OF l], simp, unfold list.size add_0,
        rule passes_contract_sync [OF l _ n1(1)], assumption, simp, rule no_payment_empty, unfold merge_nothing n1(2), erule one_payment_new,
        rule Q, assumption, erule one_payment_new)
qed

lemma passes_remove_one:
  assumes l: "working_lab L V room public_of" and p: "paired L V room public_of N i j am ag ns (test_keys (lab_platform L) {}) n M W1 M W2 x"
    and n: "0 < n" and one: "one_payment (lab_platform L) fid cc M" and m: "m = public_of (lab_machine_key L i)"
    and Q: "\<And>y M2 W2. paired L V room public_of N i j am ag ns (test_keys (lab_platform L) {}) (n - 1) M W1 M2 W2 y \<Longrightarrow> no_payment M2 \<Longrightarrow> Q () y"
  shows "passes (on_manager j (remove_claimable_contracts (lab_platform L) (lab_app L) (lab_iter L) [(m, fid, cc)])) x Q"
  by (insert n, rule passes_remove [OF l p], simp, rule no_keys_ready [OF l], rule test_keys_mem(4), simp add: m,
      rule Q, unfold list.size add_0 One_nat_def add_Suc, assumption, rule no_payment_removed [OF one])

lemma contract_operations_pass:
  assumes l: "working_lab L V room public_of" and b: "bench_ready L V room N x" and N: "8 \<le> N" and none: "sessions x = []"
  shows "passes (test_claimable_contract_operations L) x (\<lambda>_ _. True)"
  unfolding test_claimable_contract_operations_def
  by (insert N, (rule doc_steps passes_pair [OF l, where U = "test_keys (lab_platform L) {}"] passes_write_and_sync [OF l] passes_remove_one [OF l]
        | rule b none | assumption | rule passes_contracts_one [OF l, OF _ _], assumption, assumption
        | rule passes_contracts_none [OF l], assumption, assumption | (simp; fail))+)

lemma contract_removal_passes:
  assumes l: "working_lab L V room public_of" and b: "bench_ready L V room N x" and N: "8 \<le> N" and none: "sessions x = []"
  shows "passes (test_contract_removal L) x (\<lambda>_ _. True)"
  unfolding test_contract_removal_def
  by (insert N, (rule doc_steps passes_pair [OF l, where U = "test_keys (lab_platform L) {}"] passes_write_and_sync [OF l] passes_remove_one [OF l]
        | rule b none | assumption | rule passes_contracts_one [OF l, OF _ _], assumption, assumption
        | rule passes_contracts_none [OF l], assumption, assumption | rule passes_contracts_none [OF l _ no_payment_empty], assumption | (simp; fail))+)

lemma idempotent_writes_pass:
  assumes l: "working_lab L V room public_of" and b: "bench_ready L V room N x" and N: "8 \<le> N" and none: "sessions x = []"
  shows "passes (test_idempotent_contract_writes L) x (\<lambda>_ _. True)"
proof -
  have one: "one_payment (lab_platform L) (lab_federation L) (lab_contract L)
      (merge {} [create_claimable_contract_machine_doc_key (lab_platform L) (lab_federation L) (lab_contract L) \<mapsto> (b, a, t),
        create_claimable_contract_machine_doc_key (lab_platform L) (lab_federation L) (lab_contract L) \<mapsto> (b', a', t')] Map.empty)"
    if "contract_to_json (lab_platform L) (lab_contract L) = Some b" "contract_to_json (lab_platform L) (lab_contract L) = Some b'" for b a t b' a' t'
    unfolding merge_nothing by (rule one_payment_again [OF one_payment_new [OF that(1)] that(2)])
  show ?thesis unfolding test_idempotent_contract_writes_def
    by (insert N, (rule doc_steps passes_pair [OF l, where U = "test_keys (lab_platform L) {}"] passes_write_payment [OF l]
          passes_contract_sync [OF l _ _ _ no_payment_empty one] no_keys_ready [OF l]
        | rule b none | assumption | rule passes_contracts_one [OF l _ one], assumption, assumption, assumption | (simp; fail))+)
qed

end
