(* ===== verification/Test_Claim_Runs.thy ===== *)
theory Test_Claim_Runs
  imports Test_Steps Test_Cases
begin

text \<open>
  A machine that nobody owns and several managers: \<open>claimable\<close>. A claim that either user
  declines leaves it as it was, one that both agree to makes a pair, and the managers that do
  not take part stay as they are.
\<close>

section \<open>New devices\<close>

definition spare :: "'d lab \<Rightarrow> ('d, 'v) docs_view_scheme \<Rightarrow> ('d \<Rightarrow> nat) \<Rightarrow> (hash32 \<Rightarrow> endpoint_id) \<Rightarrow> nat \<Rightarrow> nat \<Rightarrow> ('d, 'c) bench \<Rightarrow> bool" where
  "spare L V room public_of N j x \<longleftrightarrow> j < managers_made x \<and> idle_manager L V room public_of N (lab_manager_key L j) (bench_manager x j) \<and>
     (\<forall>l \<in> set (links x). snd l \<noteq> j)"

definition claimable ::
    "'d lab \<Rightarrow> ('d, 'v) docs_view_scheme \<Rightarrow> ('d \<Rightarrow> nat) \<Rightarrow> (hash32 \<Rightarrow> endpoint_id) \<Rightarrow> nat \<Rightarrow> nat \<Rightarrow> nat set \<Rightarrow> ('d, 'c) bench \<Rightarrow> bool" where
  "claimable L V room public_of N i js x \<longleftrightarrow> bench_ready L V room N x \<and> i < machines_made x \<and> sessions x = [] \<and>
     idle_machine L V room public_of N (lab_machine_key L i) (bench_machine x i) \<and> (\<forall>l \<in> set (links x). fst l \<noteq> i) \<and>
     (\<forall>j. j \<in> js \<or> managers_made x \<le> j \<longrightarrow> author_of V (engine (bench_machine x i)) \<noteq> author_of V (engine (bench_manager x j))) \<and>
     (\<forall>j \<in> js. spare L V room public_of N j x)"

lemma claimable_pair: "claimable L V room public_of N i js x \<Longrightarrow> j \<in> js \<Longrightarrow> idle_pair L V room public_of N i j x"
  by (auto simp: claimable_def spare_def idle_pair_def)

lemma claimable_spare: "claimable L V room public_of N i js x \<Longrightarrow> j \<in> js \<Longrightarrow> spare L V room public_of N j x"
  by (simp add: claimable_def)

lemma claimable_sessions: "claimable L V room public_of N i js x \<Longrightarrow> sessions x = []"
  by (simp add: claimable_def)

lemma passes_new_machine:
  assumes l: "working_lab L V room public_of" and b: "bench_ready L V room N x" and none: "sessions x = []"
    and Q: "\<And>y. claimable L V room public_of N (machines_made x) {} y \<Longrightarrow> machines_made y = Suc (machines_made x) \<Longrightarrow>
      managers_made y = managers_made x \<Longrightarrow> passes (f (machines_made x)) y Q"
  shows "passes (andThen machine_tempdir (\<lambda>i. andThen (new_machine L i) (\<lambda>_. f i))) x Q"
proof -
  let ?i = "machines_made x"
  let ?x1 = "x\<lparr>machines_made := Suc ?i\<rparr>"
  have b1: "blank_node L V room N (bench_machine ?x1 ?i)" using b by (simp add: bench_ready_def)
  obtain s where s: "new_machine L ?i ?x1 = (Ok (), ?x1\<lparr>bench_machine := (bench_machine ?x1)(?i := s)\<rparr>)"
    "idle_machine L V room public_of N (lab_machine_key L ?i) s" "author_of V (engine s) = author_of V (engine (bench_machine ?x1 ?i))"
    by (rule new_machine_step [OF l b1])
  let ?y = "?x1\<lparr>bench_machine := (bench_machine ?x1)(?i := s)\<rparr>"
  have "claimable L V room public_of N ?i {} ?y"
    using b none s(2,3) by (auto simp: claimable_def bench_ready_def)
  from Q [OF this] have "passes (f ?i) ?y Q" by simp
  then show ?thesis using s(1) by (simp add: machine_tempdir_def passes_def andThen_eval)
qed

lemma passes_new_manager:
  assumes l: "working_lab L V room public_of" and b: "claimable L V room public_of N i js x"
    and Q: "\<And>j y. j \<notin> js \<Longrightarrow> j = managers_made x \<Longrightarrow> claimable L V room public_of N i (insert j js) y \<Longrightarrow> managers_made y = Suc (managers_made x) \<Longrightarrow> passes (f j) y Q"
  shows "passes (andThen manager_tempdir (\<lambda>j. andThen (new_manager L j) (\<lambda>_. f j))) x Q"
proof -
  let ?j = "managers_made x"
  let ?x1 = "x\<lparr>managers_made := Suc ?j\<rparr>"
  have b1: "blank_node L V room N (bench_manager ?x1 ?j)" using b by (simp add: claimable_def bench_ready_def)
  obtain s where s: "new_manager L ?j ?x1 = (Ok (), ?x1\<lparr>bench_manager := (bench_manager ?x1)(?j := s)\<rparr>)"
    "idle_manager L V room public_of N (lab_manager_key L ?j) s" "author_of V (engine s) = author_of V (engine (bench_manager ?x1 ?j))"
    by (rule new_manager_step [OF l b1])
  let ?y = "?x1\<lparr>bench_manager := (bench_manager ?x1)(?j := s)\<rparr>"
  have new: "?j \<notin> js" "\<forall>l \<in> set (links x). snd l \<noteq> ?j" using b by (auto simp: claimable_def spare_def bench_ready_def)
  have "bench_ready L V room N ?y" using b s(2,3) by (auto simp: claimable_def bench_ready_def)
  moreover have "spare L V room public_of N j ?y" if "j \<in> insert ?j js" for j
    using b that s(2) new by (cases "j = ?j") (auto simp: claimable_def spare_def)
  ultimately have "claimable L V room public_of N i (insert ?j js) ?y"
    using b s(3) by (auto simp: claimable_def)
  from Q [OF new(1) refl this] have "passes (f ?j) ?y Q" by simp
  then show ?thesis using s(1) by (simp add: manager_tempdir_def passes_def andThen_eval)
qed

lemma passes_create_pair:
  assumes l: "working_lab L V room public_of" and b: "bench_ready L V room N x" and none: "sessions x = []"
    and Q: "\<And>i j y. claimable L V room public_of N i {j} y \<Longrightarrow> j = managers_made x \<Longrightarrow> managers_made y = Suc (managers_made x) \<Longrightarrow> Q (i, j) y"
  shows "passes (create_machine_manager_pair L) x Q"
  unfolding create_machine_manager_pair_def
  by (rule passes_new_machine [OF l b none], rule passes_new_manager [OF l], assumption, rule passes_ret, rule Q, assumption, simp_all)

section \<open>A claim that is declined\<close>

lemma run_session_quiet:
  assumes a: "accept_claim (lab_platform L) (lab_app L) (machine_end L x c) (bench_machine x (ses_machine c)) =
      (r, (bench_machine x (ses_machine c))\<lparr>conn_log := conn_log (bench_machine x (ses_machine c)) @ evs\<rparr>)"
    and evs: "tickets_sent evs = []" and l: "working_lab L V room public_of" and s: "running (bench_manager x (ses_manager c))"
  shows "run_session L c x = x\<lparr>bench_machine := (bench_machine x)(ses_machine c :=
      (bench_machine x (ses_machine c))\<lparr>conn_log := conn_log (bench_machine x (ses_machine c)) @ evs\<rparr>)\<rparr>"
proof -
  have r: "out_read_to_end (manager_end L c []) n \<noteq> Ok b" for n b using working_labD(4) [OF l] by (simp add: manager_end_def)
  have "snd (manager_claim_task (lab_platform L) (lab_app L) (manager_end L c []) (ses_dialed c) (bench_manager x (ses_manager c))) = bench_manager x (ses_manager c)"
    by (rule manager_task_refused [OF s r])
  then show ?thesis using a evs by (simp add: run_session_def Let_def)
qed

lemma accept_declined:
  assumes i: "idle_machine L V room public_of N key (bench_machine x (ses_machine c))"
    and no: "machine_answer c = Some False \<or> machine_answer c = Some True \<and> manager_answer c = Some False"
  obtains r evs where "accept_claim (lab_platform L) (lab_app L) (machine_end L x c) (bench_machine x (ses_machine c)) =
      (r, (bench_machine x (ses_machine c))\<lparr>conn_log := conn_log (bench_machine x (ses_machine c)) @ evs\<rparr>)" "tickets_sent evs = []"
proof -
  let ?s = "bench_machine x (ses_machine c)"
  have s: "running ?s" "claimed_manager_pubkey ?s = None" using i by (simp_all add: idle_machine_def idle_def alive_def)
  from no show thesis
  proof
    assume n: "machine_answer c = Some False"
    let ?evs = "[(manager_public_key L x (ses_manager c), ClaimRequested (claim_pin_from_keying_material (lab_keying L (ses_number c)))),
      (manager_public_key L x (ses_manager c), ConnClosed ''rejected'')]"
    have "accept_claim (lab_platform L) (lab_app L) (machine_end L x c) ?s = (Ok (), ?s\<lparr>conn_log := conn_log ?s @ ?evs\<rparr>)"
      using s n by (simp add: accept_claim_def lock_claimed_def running_def await_def andThen_def lift_res_def log_event_def ret_def machine_end_def Let_def)
    then show thesis by (rule that) (simp add: tickets_sent_def)
  next
    assume n: "machine_answer c = Some True \<and> manager_answer c = Some False"
    let ?evs = "[(manager_public_key L x (ses_manager c), ClaimRequested (claim_pin_from_keying_material (lab_keying L (ses_number c))))]"
    have "accept_claim (lab_platform L) (lab_app L) (machine_end L x c) ?s = (Err External, ?s\<lparr>conn_log := conn_log ?s @ ?evs\<rparr>)"
      using s n by (simp add: accept_claim_def accept_agreed_def lock_claimed_def running_def await_def andThen_def lift_res_def log_event_def ret_def
          machine_end_def Let_def)
    then show thesis by (rule that) (simp add: tickets_sent_def)
  qed
qed

lemma idle_machine_log [simp]: "idle_machine L V room public_of N key (s\<lparr>conn_log := l\<rparr>) \<longleftrightarrow> idle_machine L V room public_of N key s"
  by (simp add: idle_machine_def idle_def alive_def running_def)

lemma claimable_log:
  assumes "claimable L V room public_of N i js x"
  shows "claimable L V room public_of N i js (x\<lparr>bench_machine := (bench_machine x)(i := (bench_machine x i)\<lparr>conn_log := l\<rparr>)\<rparr>)"
  using assms by (auto simp: claimable_def bench_ready_def spare_def)

lemma claimable_exchange:
  assumes c: "claimable L V room public_of N i js x"
  shows "claimable L V room public_of N i js (exchange_all L x)"
proof -
  have m: "bench_machine (exchange_all L x) i = bench_machine x i"
    unfolding exchange_all_def by (rule exchange_links_other(1)) (use c in \<open>auto simp: claimable_def\<close>)
  have g: "bench_manager (exchange_all L x) j = bench_manager x j" if "j \<in> js \<or> managers_made x \<le> j" for j
    unfolding exchange_all_def by (rule exchange_links_other(2)) (use c that in \<open>auto simp: claimable_def spare_def bench_ready_def\<close>)
  show ?thesis using c m g bench_ready_exchange [of L V room N x] by (simp add: claimable_def spare_def)
qed

lemma claimable_session_fields [simp]:
  "claimable L V room public_of N i js (x\<lparr>sessions_made := n\<rparr>) \<longleftrightarrow> claimable L V room public_of N i js x"
  by (simp add: claimable_def bench_ready_def spare_def)

text \<open>The bench while one claim is under way.\<close>

definition claiming :: "'d lab \<Rightarrow> ('d, 'v) docs_view_scheme \<Rightarrow> ('d \<Rightarrow> nat) \<Rightarrow> (hash32 \<Rightarrow> endpoint_id) \<Rightarrow> nat \<Rightarrow> nat \<Rightarrow> nat set \<Rightarrow>
    nat \<Rightarrow> bool \<Rightarrow> bool \<Rightarrow> ('d, 'c) bench \<Rightarrow> bool" where
  "claiming L V room public_of N i js j a b x \<longleftrightarrow> claimable L V room public_of N i js (x\<lparr>sessions := []\<rparr>) \<and> j \<in> js \<and>
     (\<exists>c. sessions x = [c] \<and> ses_machine c = i \<and> ses_manager c = j \<and> ses_dialed c = public_of (lab_machine_key L i) \<and>
       machine_answer c = Some a \<and> manager_answer c = Some b)"

lemma passes_perform:
  assumes c: "claimable L V room public_of N i js x" and j: "j \<in> js"
    and Q: "\<And>pin y. claiming L V room public_of N i js j a b y \<Longrightarrow> Q pin y"
  shows "passes (perform_claim L i j a b) x Q"
proof -
  note p = claimable_pair [OF c j]
  let ?y = "x\<lparr>sessions_made := Suc (sessions_made x), sessions := [session_of L x i j True (Some a) (Some b)]\<rparr>"
  have e: "?y\<lparr>sessions := []\<rparr> = x\<lparr>sessions_made := Suc (sessions_made x)\<rparr>" using claimable_sessions [OF c] by (cases x) simp
  have "claimable L V room public_of N i js (?y\<lparr>sessions := []\<rparr>)" unfolding e using c by simp
  then have "claiming L V room public_of N i js j a b ?y" using j idle_addr(1) [OF p] by (simp add: claiming_def)
  then show ?thesis using perform_claim_step [OF p claimable_sessions [OF c]] Q by (auto intro: passesI)
qed

lemma claiming_idle:
  assumes "claiming L V room public_of N i js j a b x"
  shows "idle_pair L V room public_of N i j x"
proof -
  have "claimable L V room public_of N i js (x\<lparr>sessions := []\<rparr>)" "j \<in> js" using assms by (auto simp: claiming_def)
  then show ?thesis using claimable_pair by fastforce
qed

lemma passes_sleep_declined:
  assumes l: "working_lab L V room public_of" and c: "claiming L V room public_of N i js j a b x" and no: "\<not> (a \<and> b)"
    and Q: "\<And>y. claimable L V room public_of N i js y \<Longrightarrow> Q () y"
  shows "passes (sleep L) x Q"
proof -
  obtain c where cs: "sessions x = [c]" "ses_machine c = i" "ses_manager c = j" "machine_answer c = Some a" "manager_answer c = Some b"
    using assms(2) by (auto simp: claiming_def)
  note p = claiming_idle [OF assms(2)]
  have ready: "session_ready L x c" by (rule session_ready_idle [OF p cs(2)]) (simp_all add: cs)
  obtain r evs where ev: "accept_claim (lab_platform L) (lab_app L) (machine_end L x c) (bench_machine x i) =
      (r, (bench_machine x i)\<lparr>conn_log := conn_log (bench_machine x i) @ evs\<rparr>)" "tickets_sent evs = []"
    using accept_declined [of L V room public_of N "lab_machine_key L i" x c] p no cs(2,4,5) by (auto simp: idle_pair_def)
  have "running (bench_manager x j)" using p by (simp add: idle_pair_def idle_manager_def idle_def alive_def)
  then have run: "run_session L c x = x\<lparr>bench_machine := (bench_machine x)(i := (bench_machine x i)\<lparr>conn_log := conn_log (bench_machine x i) @ evs\<rparr>)\<rparr>"
    using run_session_quiet [OF _ ev(2) l, of x c r] ev(1) cs(2,3) by simp
  let ?y = "(run_session L c x)\<lparr>sessions := []\<rparr>"
  have "claimable L V room public_of N i js (x\<lparr>sessions := []\<rparr>)" using assms(2) by (simp add: claiming_def)
  note this' = claimable_log [OF this, of "conn_log (bench_machine x i) @ evs"]
  have "claimable L V room public_of N i js ?y" unfolding run using this' by (cases x) simp
  then have "claimable L V room public_of N i js (exchange_all L ?y)" by (rule claimable_exchange)
  moreover have "sleep L x = (Ok (), exchange_all L ?y)" using ready by (simp add: sleep_def cs(1))
  ultimately show ?thesis using Q by (auto intro: passesI)
qed

section \<open>A claim that is agreed to\<close>

lemma spare_cong:
  assumes "spare L V room public_of N k x" and "managers_made y = managers_made x" and "bench_manager y k = bench_manager x k"
    and "\<forall>l \<in> set (links y). snd l \<noteq> k"
  shows "spare L V room public_of N k y"
  using assms by (simp add: spare_def)

lemma spare_sessions [simp]:
  "spare L V room public_of N k (x\<lparr>sessions := cs\<rparr>) \<longleftrightarrow> spare L V room public_of N k x"
  "spare L V room public_of N k (x\<lparr>sessions_made := n\<rparr>) \<longleftrightarrow> spare L V room public_of N k x"
  by (simp_all add: spare_def)

lemma spare_run:
  assumes "spare L V room public_of N k x" and "ses_manager c \<noteq> k"
  shows "spare L V room public_of N k (run_session L c x)"
  by (rule spare_cong [OF assms(1)]) (use assms in \<open>auto simp: run_session_def Let_def spare_def\<close>)

lemma spare_exchange:
  assumes "spare L V room public_of N k x"
  shows "spare L V room public_of N k (exchange_all L x)"
proof (rule spare_cong [OF assms])
  show "bench_manager (exchange_all L x) k = bench_manager x k"
    unfolding exchange_all_def by (rule exchange_links_other(2)) (use assms in \<open>simp add: spare_def\<close>)
qed (use assms in \<open>simp_all add: spare_def\<close>)

lemma spare_step:
  assumes "spare L V room public_of N k x"
  shows "j \<noteq> k \<Longrightarrow> spare L V room public_of N k (x\<lparr>bench_manager := (bench_manager x)(j := s)\<rparr>)"
    "spare L V room public_of N k (x\<lparr>bench_machine := (bench_machine x)(i := t)\<rparr>)"
  using assms by (simp_all add: spare_def)

lemma claiming_session:
  assumes "claiming L V room public_of N i js j True True x"
  obtains c where "sessions x = [c]" "ses_machine c = i" "ses_manager c = j" "ses_dialed c = public_of (lab_machine_key L i)"
    "machine_answer c = Some True" "manager_answer c = Some True" "session_ready L x c"
proof -
  obtain c where c: "sessions x = [c]" "ses_machine c = i" "ses_manager c = j" "ses_dialed c = public_of (lab_machine_key L i)"
    "machine_answer c = Some True" "manager_answer c = Some True" using assms by (auto simp: claiming_def)
  show thesis by (rule that [OF c session_ready_idle [OF claiming_idle [OF assms] c(2)]]) (simp_all add: c)
qed

lemma claiming_spares:
  assumes "claiming L V room public_of N i js j a b x" and "k \<in> js"
  shows "spare L V room public_of N k x"
proof -
  have "spare L V room public_of N k (x\<lparr>sessions := []\<rparr>)" using assms by (auto simp: claiming_def claimable_def)
  then show ?thesis by simp
qed

text \<open>After the sleep the machine and the manager are a pair, and the other managers are as before.\<close>

lemma passes_sleep_claims:
  assumes l: "working_lab L V room public_of" and c: "claiming L V room public_of N i js j True True x" and N: "2 \<le> N"
    and Q: "\<And>am ag ns y. paired L V room public_of N i j am ag ns U (N - 2) Map.empty {} Map.empty {} y \<Longrightarrow>
      \<forall>k \<in> js - {j}. spare L V room public_of N k y \<Longrightarrow> Q () y"
  shows "passes (sleep L) x Q"
proof -
  obtain M where M: "N = Suc (Suc M)" using le_Suc_ex [OF N] by auto
  obtain c where cs: "sessions x = [c]" "ses_machine c = i" "ses_manager c = j" "ses_dialed c = public_of (lab_machine_key L i)"
    "machine_answer c = Some True" "manager_answer c = Some True" "session_ready L x c" by (rule claiming_session [OF c])
  obtain y ns where y: "sleep L x = (Ok (), y)"
    "paired L V room public_of (Suc (Suc M)) i j (author_of V (engine (bench_machine x i))) (author_of V (engine (bench_manager x j)))
      ns U M Map.empty {} Map.empty {} y"
    by (rule accepted_sleep [OF l claiming_idle [OF c, unfolded M] cs(1-6), where U = U]) blast
  have "sleep L x = (Ok (), exchange_all L ((run_session L c x)\<lparr>sessions := []\<rparr>))" using cs(1,7) by (simp add: sleep_def)
  then have e: "y = exchange_all L ((run_session L c x)\<lparr>sessions := []\<rparr>)" using y(1) by simp
  have "spare L V room public_of N k y" if "k \<in> js - {j}" for k
    unfolding e by (rule spare_exchange) (use spare_run [OF claiming_spares [OF c]] that cs(3) in auto)
  then show ?thesis using y Q M by (auto intro: passesI)
qed

lemma passes_wait_claims:
  assumes l: "working_lab L V room public_of" and c: "claiming L V room public_of N i js j True True x" and N: "2 \<le> N"
    and Q: "\<And>am ag ns y. paired L V room public_of N i j am ag ns U (N - 2) Map.empty {} Map.empty {} y \<Longrightarrow>
      \<forall>k \<in> js - {j}. spare L V room public_of N k y \<Longrightarrow> Q () y"
  shows "passes (wait_for_machines_listed L j 1) x Q"
proof -
  have "idle_manager L V room public_of N (lab_manager_key L j) (bench_manager x j)" using claiming_idle [OF c] by (simp add: idle_pair_def)
  note empty = idle_list_machines [OF l this]
  show ?thesis
    unfolding wait_for_machines_listed_def
    by (rule passes_with_context, rule passes_wait_sleep [OF _ waits(2)], rule passes_andThen, rule passes_expect_ok, rule passesI, rule empty,
        rule passes_ret, rule conjI, simp, rule passes_sleep_claims [OF l c N, where U = U], rule passes_andThen, rule passes_expect_ok,
        rule passes_list_machines [OF l], assumption, rule passes_ret, rule conjI, simp, rule Q)
qed

section \<open>Looking at the devices\<close>

lemma passes_spare_lists [step_rules]:
  assumes "working_lab L V room public_of" and "spare L V room public_of N j x" and "Q [] x"
  shows "passes (on_manager j (list_machines (lab_platform L) (lab_app L))) x Q"
proof -
  have "idle_manager L V room public_of N (lab_manager_key L j) (bench_manager x j)" using assms(2) by (simp add: spare_def)
  then show ?thesis by - (rule passesI, rule idle_list_machines [OF assms(1)], assumption, rule assms(3))
qed

lemma passes_lock_idle:
  assumes "claimable L V room public_of N i js x" and "Q None x"
  shows "passes (on_machine i lock_claimed) x Q"
proof -
  have "running (bench_machine x i)" "claimed_manager_pubkey (bench_machine x i) = None"
    using assms(1) by (simp_all add: claimable_def idle_machine_def idle_def alive_def)
  then have "lock_claimed (bench_machine x i) = (Ok None, bench_machine x i)" by (simp add: lock_claimed_def await_def running_def)
  then show ?thesis using assms(2) by (simp add: passes_def on_machine_def)
qed

lemma passes_lock_paired:
  assumes "paired L V room public_of N i j am ag ns U n M1 W1 M2 W2 x" and "Q (Some (public_of (lab_manager_key L j))) x"
  shows "passes (on_machine i lock_claimed) x Q"
proof -
  have "running (bench_machine x i)" "claimed_manager_pubkey (bench_machine x i) = Some (public_of (lab_manager_key L j))"
    using pairedD(6) [OF assms(1)] by (simp_all add: owned_machine_def alive_def)
  then have "lock_claimed (bench_machine x i) = (Ok (Some (public_of (lab_manager_key L j))), bench_machine x i)"
    by (simp add: lock_claimed_def await_def running_def)
  then show ?thesis using assms(2) by (simp add: passes_def on_machine_def)
qed

lemma paired_ids:
  assumes "paired L V room public_of N i j am ag ns U n M1 W1 M2 W2 x"
  shows "manager_public_key L x j = public_of (lab_manager_key L j)" "addr_id (machine_addr L x i) = public_of (lab_machine_key L i)"
  using pairedD(6,7) [OF assms] by (simp_all add: manager_public_key_def machine_addr_def owned_machine_def owning_manager_def)

lemma passes_assert_claimed:
  assumes l: "working_lab L V room public_of" and p: "paired L V room public_of N i j am ag ns U n M1 W1 M2 W2 x" and Q: "Q () x"
  shows "passes (assert_machine_claimed_by_manager L i j) x Q"
  unfolding assert_machine_claimed_by_manager_def
  by (rule passes_andThen, rule passes_lock_paired [OF p], rule passes_andThen, rule passes_asks, rule passes_andThen, rule passes_check,
      simp add: paired_ids [OF p], rule passes_andThen, rule passes_asks, rule passes_andThen, rule passes_list_machines [OF l p],
      rule passes_andThen, rule passes_check, simp add: paired_ids [OF p], rule passes_ret, rule Q)

section \<open>The tests\<close>

lemmas claim_steps = passes_andThen passes_check passes_prod passes_ret passes_asks passes_let

lemma basic_claim_passes:
  assumes l: "working_lab L V room public_of" and b: "bench_ready L V room N x" and N: "8 \<le> N" and none: "sessions x = []"
  shows "passes (test_basic_claim_flow L) x (\<lambda>_ _. True)"
  unfolding test_basic_claim_flow_def
  by (insert N, (rule claim_steps passes_pair [OF l, where U = "{}"] passes_assert_claimed [OF l] passes_list_machines [OF l]
      | rule b none | assumption | (simp; fail))+)

lemma rejected_by_machine_passes:
  assumes l: "working_lab L V room public_of" and b: "bench_ready L V room N x" and N: "8 \<le> N" and none: "sessions x = []"
  shows "passes (test_claim_rejected_by_machine L) x (\<lambda>_ _. True)"
  unfolding test_claim_rejected_by_machine_def
  by (insert N, rule passes_andThen, rule passes_create_pair [OF l b none], rule passes_prod, rule passes_andThen, rule passes_perform,
      assumption, simp, rule passes_andThen, rule passes_sleep_declined [OF l], assumption, simp,
      rule passes_andThen, rule passes_lock_idle, assumption, rule passes_andThen, rule passes_check, rule refl,
      rule passes_andThen, rule passes_spare_lists [OF l], erule claimable_spare, simp, rule passes_andThen, rule passes_check, simp,
      rule passes_andThen, rule passes_perform, assumption, simp, rule passes_andThen, rule passes_sleep_claims [OF l, where U = "{}"], assumption, simp,
      (rule claim_steps passes_assert_claimed [OF l] passes_list_machines [OF l] | assumption | (simp; fail))+)

lemma rejected_by_manager_passes:
  assumes l: "working_lab L V room public_of" and b: "bench_ready L V room N x" and N: "8 \<le> N" and none: "sessions x = []"
  shows "passes (test_claim_rejected_by_manager L) x (\<lambda>_ _. True)"
  unfolding test_claim_rejected_by_manager_def
  by (insert N, rule passes_andThen, rule passes_create_pair [OF l b none], rule passes_prod, rule passes_new_manager [OF l], assumption,
      rule passes_andThen, rule passes_perform, assumption, simp, rule passes_andThen, rule passes_sleep_declined [OF l], assumption, simp,
      rule passes_andThen, rule passes_lock_idle, assumption, rule passes_andThen, rule passes_check, rule refl,
      rule passes_andThen, rule passes_spare_lists [OF l], erule claimable_spare, simp, rule passes_andThen, rule passes_check, simp,
      rule passes_andThen, rule passes_perform, assumption, simp, rule passes_andThen, rule passes_sleep_claims [OF l, where U = "{}"], assumption, simp,
      (rule claim_steps passes_assert_claimed [OF l] passes_list_machines [OF l] | assumption | (simp; fail))+)

end
