(* ===== verification/Test_Concurrent.thy ===== *)
theory Test_Concurrent
  imports Test_Claim_Runs
begin

text \<open>
  Claims that come too late: a machine turns away every manager but its own. With it, the test
  of a second claim passes, and the test of any number of managers that claim one machine at
  once, in any order.
\<close>

section \<open>Claims that are turned away\<close>

lemma owned_machine_log [simp]:
  "owned_machine L V public_of key k ns (s\<lparr>conn_log := l\<rparr>) \<longleftrightarrow> owned_machine L V public_of key k ns s"
  by (simp add: owned_machine_def alive_def running_def machine_doc_def)

lemma paired_log:
  assumes "paired L V room public_of N i j am ag ns U n M1 W1 M2 W2 x"
  shows "paired L V room public_of N i j am ag ns U n M1 W1 M2 W2
    (x\<lparr>bench_machine := (bench_machine x)(i := (bench_machine x i)\<lparr>conn_log := l\<rparr>)\<rparr>)"
  using assms by (auto simp: paired_def bench_ready_def)

text \<open>A pair, whatever claims are under way.\<close>

definition pair_of where
  "pair_of L V room public_of N i j am ag ns U n M1 W1 M2 W2 x \<longleftrightarrow>
     paired L V room public_of N i j am ag ns U n M1 W1 M2 W2 (x\<lparr>sessions := []\<rparr>)"

lemma pair_of_paired: "paired L V room public_of N i j am ag ns U n M1 W1 M2 W2 x \<Longrightarrow> pair_of L V room public_of N i j am ag ns U n M1 W1 M2 W2 (x\<lparr>sessions := cs\<rparr>)"
proof -
  assume p: "paired L V room public_of N i j am ag ns U n M1 W1 M2 W2 x"
  then have "x\<lparr>sessions := []\<rparr> = x" using pairedD(4) [OF p] by (cases x) simp
  with p show ?thesis by (simp add: pair_of_def)
qed

lemma pair_of_log:
  assumes "pair_of L V room public_of N i j am ag ns U n M1 W1 M2 W2 x"
  shows "pair_of L V room public_of N i j am ag ns U n M1 W1 M2 W2
    (x\<lparr>bench_machine := (bench_machine x)(i := (bench_machine x i)\<lparr>conn_log := l\<rparr>)\<rparr>)"
  using paired_log [OF assms [unfolded pair_of_def], of l] unfolding pair_of_def by (cases x) simp

definition late :: "'d lab \<Rightarrow> ('d, 'v) docs_view_scheme \<Rightarrow> ('d \<Rightarrow> nat) \<Rightarrow> (hash32 \<Rightarrow> endpoint_id) \<Rightarrow> nat \<Rightarrow> nat \<Rightarrow> nat \<Rightarrow> ('d, 'c) bench \<Rightarrow> session \<Rightarrow> bool" where
  "late L V room public_of N i j x c \<longleftrightarrow> ses_machine c = i \<and> manager_answer c \<noteq> None \<and> spare L V room public_of N (ses_manager c) x \<and>
     public_of (lab_manager_key L (ses_manager c)) \<noteq> public_of (lab_manager_key L j)"

lemma run_late:
  assumes l: "working_lab L V room public_of" and p: "pair_of L V room public_of N i j am ag ns U n M1 W1 M2 W2 x"
    and c: "late L V room public_of N' i j x c"
  shows "session_ready L x c" and "\<exists>log. run_session L c x = x\<lparr>bench_machine := (bench_machine x)(i := (bench_machine x i)\<lparr>conn_log := log\<rparr>)\<rparr>"
proof -
  have own: "claimed_manager_pubkey (bench_machine x i) = Some (public_of (lab_manager_key L j))" "running (bench_machine x i)"
    using pairedD(6) [OF p [unfolded pair_of_def]] by (simp_all add: owned_machine_def alive_def)
  have mk: "manager_public_key L x (ses_manager c) = public_of (lab_manager_key L (ses_manager c))" "running (bench_manager x (ses_manager c))"
    using c by (simp_all add: late_def spare_def idle_manager_def idle_def manager_public_key_def alive_def)
  show "session_ready L x c" using c own mk by (auto simp: late_def session_ready_eq turned_away_def)
  let ?evs = "[(manager_public_key L x (ses_manager c), ConnClosed ''already_claimed'')]"
  have "accept_claim (lab_platform L) (lab_app L) (machine_end L x c) (bench_machine x (ses_machine c)) =
      (Ok (), (bench_machine x (ses_machine c))\<lparr>conn_log := conn_log (bench_machine x (ses_machine c)) @ ?evs\<rparr>)"
    using c own mk(1) by (auto simp: late_def accept_claim_def lock_claimed_def running_def await_def andThen_def log_event_def machine_end_def)
  from run_session_quiet [OF this _ l mk(2)] c
  show "\<exists>log. run_session L c x = x\<lparr>bench_machine := (bench_machine x)(i := (bench_machine x i)\<lparr>conn_log := log\<rparr>)\<rparr>"
    by (auto simp: late_def tickets_sent_def)
qed

lemma run_all_late:
  assumes l: "working_lab L V room public_of" and "pair_of L V room public_of N i j am ag ns U n M1 W1 M2 W2 x"
    and "\<forall>c \<in> set cs. late L V room public_of N' i j x c"
  shows "\<exists>log. run_sessions L [] cs x = x\<lparr>bench_machine := (bench_machine x)(i := (bench_machine x i)\<lparr>conn_log := log\<rparr>), sessions := []\<rparr>"
  using assms(2,3)
proof (induction cs arbitrary: x)
  case Nil
  have "x\<lparr>bench_machine := (bench_machine x)(i := (bench_machine x i)\<lparr>conn_log := conn_log (bench_machine x i)\<rparr>), sessions := []\<rparr> = x\<lparr>sessions := []\<rparr>"
    by simp
  then show ?case by (metis run_sessions.simps(1))
next
  case (Cons c cs)
  have c: "late L V room public_of N' i j x c" using Cons.prems(2) by simp
  obtain log where log: "run_session L c x = x\<lparr>bench_machine := (bench_machine x)(i := (bench_machine x i)\<lparr>conn_log := log\<rparr>)\<rparr>"
    using run_late(2) [OF l Cons.prems(1) c] by blast
  let ?y = "x\<lparr>bench_machine := (bench_machine x)(i := (bench_machine x i)\<lparr>conn_log := log\<rparr>)\<rparr>"
  have "\<forall>c \<in> set cs. late L V room public_of N' i j ?y c" using Cons.prems(2) by (simp add: late_def spare_def)
  from Cons.IH [OF pair_of_log [OF Cons.prems(1)] this] obtain log' where
    "run_sessions L [] cs ?y = ?y\<lparr>bench_machine := (bench_machine ?y)(i := (bench_machine ?y i)\<lparr>conn_log := log'\<rparr>), sessions := []\<rparr>" by blast
  then show ?case using run_late(1) [OF l Cons.prems(1) c] log by (intro exI [of _ log']) (simp add: fun_upd_def cong: if_cong)
qed

lemma passes_sleep_late:
  assumes l: "working_lab L V room public_of" and p: "pair_of L V room public_of N i j am ag ns U n M1 W1 M2 W2 x"
    and c: "\<forall>c \<in> set (sessions x). late L V room public_of N' i j x c" and n: "0 < n" and W: "W1 \<inter> W2 = {}"
    and k: "\<forall>k \<in> ks. spare L V room public_of N' k x"
    and Q: "\<And>y. paired L V room public_of N i j am ag ns U (n - 1) (merge W2 M1 M2) {} (merge W2 M1 M2) {} y \<Longrightarrow>
      \<forall>k \<in> ks. spare L V room public_of N' k y \<Longrightarrow> Q () y"
  shows "passes (sleep L) x Q"
proof -
  obtain log where r: "run_sessions L [] (sessions x) x =
      x\<lparr>bench_machine := (bench_machine x)(i := (bench_machine x i)\<lparr>conn_log := log\<rparr>), sessions := []\<rparr>"
    using run_all_late [OF l p c] by blast
  let ?y = "x\<lparr>bench_machine := (bench_machine x)(i := (bench_machine x i)\<lparr>conn_log := log\<rparr>), sessions := []\<rparr>"
  have "paired L V room public_of N i j am ag ns U n M1 W1 M2 W2 ?y"
    using pair_of_log [OF p, of log] by (simp add: pair_of_def)
  from paired_exchange [OF l paired_room [OF this n] W]
  have "paired L V room public_of N i j am ag ns U (n - 1) (merge W2 M1 M2) {} (merge W2 M1 M2) {} (exchange_all L ?y)" .
  moreover have "spare L V room public_of N' k (exchange_all L ?y)" if "k \<in> ks" for k
    by (rule spare_exchange) (use k that in \<open>simp add: spare_def\<close>)
  ultimately show ?thesis using r Q by (auto simp: sleep_def passes_def)
qed

section \<open>A second claim\<close>

lemma start_answered:
  assumes s: "running (bench_manager x j)" and new: "\<forall>c \<in> set (sessions x). ses_number c < sessions_made x"
  shows "andThen (start_claim L j i addr) (\<lambda>(pin, tx). andThen (answer_manager tx True) (\<lambda>_. f pin tx)) x =
    f (claim_pin_from_keying_material (lab_keying L (sessions_made x))) (sessions_made x)
      (x\<lparr>sessions_made := Suc (sessions_made x), sessions := sessions x @ [\<lparr>ses_number = sessions_made x, ses_machine = i, ses_manager = j,
        ses_dialed = addr_id addr, ses_shown = False, machine_answer = None, manager_answer = Some True\<rparr>]\<rparr>)"
proof -
  have "map (\<lambda>c. if ses_number c = sessions_made x then f c else c) (sessions x) = sessions x" for f
    by (rule map_idI) (use new in auto)
  then show ?thesis by (simp add: start_claim_step [OF s] andThen_eval answer_manager_def update_session_def)
qed

lemma passes_start_late:
  assumes p: "paired L V room public_of N i j am ag ns U n M1 W1 M2 W2 x" and k: "spare L V room public_of N' k x"
    and key: "public_of (lab_manager_key L k) \<noteq> public_of (lab_manager_key L j)"
    and Q: "\<And>pin tx y. pair_of L V room public_of N i j am ag ns U n M1 W1 M2 W2 y \<Longrightarrow> \<forall>c \<in> set (sessions y). late L V room public_of N' i j y c \<Longrightarrow>
      \<forall>k \<in> {k}. spare L V room public_of N' k y \<Longrightarrow> passes (f pin tx) y Q"
  shows "passes (andThen (start_claim L k i addr) (\<lambda>(pin, tx). andThen (answer_manager tx True) (\<lambda>_. f pin tx))) x Q"
proof -
  have s: "running (bench_manager x k)" using k by (simp add: spare_def idle_manager_def idle_def alive_def)
  have none: "sessions x = []" using pairedD(4) [OF p] .
  let ?y = "x\<lparr>sessions_made := Suc (sessions_made x), sessions := sessions x @ [\<lparr>ses_number = sessions_made x, ses_machine = i, ses_manager = k,
        ses_dialed = addr_id addr, ses_shown = False, machine_answer = None, manager_answer = Some True\<rparr>]\<rparr>"
  have "pair_of L V room public_of N i j am ag ns U n M1 W1 M2 W2 ?y"
  proof -
    have "?y\<lparr>sessions := []\<rparr> = x\<lparr>sessions_made := Suc (sessions_made x)\<rparr>" using none by (cases x) simp
    then show ?thesis using p by (simp add: pair_of_def paired_def bench_ready_def)
  qed
  moreover have "\<forall>c \<in> set (sessions ?y). late L V room public_of N' i j ?y c" using none k key by (simp add: late_def)
  moreover have "\<forall>k \<in> {k}. spare L V room public_of N' k ?y" using k by simp
  ultimately have "passes (f (claim_pin_from_keying_material (lab_keying L (sessions_made x))) (sessions_made x)) ?y Q" by (rule Q)
  then show ?thesis using none by (simp add: passes_def start_answered [OF s])
qed

lemma keys_apart:
  fixes j k m :: nat
  assumes "inj_on f {..<m}" and "j < m" and "k < m" and "k \<noteq> j"
  shows "f k \<noteq> f j"
  using assms by (auto dest: inj_onD)

lemma claimed_once_passes:
  assumes l: "working_lab L V room public_of" and b: "bench_ready L V room N x" and N: "8 \<le> N" and none: "sessions x = []"
    and keys: "inj_on (\<lambda>j. public_of (lab_manager_key L j)) {..<managers_made x + 2}"
  shows "passes (test_machine_can_only_be_claimed_once L) x (\<lambda>_ _. True)"
  unfolding test_machine_can_only_be_claimed_once_def
  by (insert N, rule passes_andThen, rule passes_create_pair [OF l b none], rule passes_prod, rule passes_new_manager [OF l], assumption,
      rule passes_andThen, rule passes_perform, assumption, simp, rule passes_andThen, rule passes_wait_claims [OF l, where U = "{}"], assumption, simp,
      rule passes_andThen, rule passes_assert_claimed [OF l], assumption, rule passes_andThen, rule passes_asks, rule passes_start_late, assumption,
      erule bspec, simp, rule keys_apart [OF keys], simp, simp, simp, rule passes_andThen, rule passes_sleep_late [OF l], assumption, assumption, simp, simp, assumption,
      rule passes_andThen, rule passes_lock_paired, assumption, rule passes_andThen, rule passes_asks, rule passes_andThen, rule passes_check,
      simp add: paired_ids, rule passes_andThen, rule passes_spare_lists [OF l], erule bspec, simp, (rule claim_steps | simp)+)

section \<open>Many managers at once\<close>

lemma passes_create_managers:
  fixes x :: "('d, 'c) bench"
  assumes l: "working_lab L V room public_of"
    and "managers_made x = k"
  shows "claimable L V room public_of N i js x \<Longrightarrow> (\<And>y. claimable L V room public_of N i (js \<union> {k ..< k + n}) y \<Longrightarrow>
      managers_made y = k + n \<Longrightarrow> Q [k ..< k + n] y) \<Longrightarrow> passes (create_managers L n) x Q"
proof (induction n arbitrary: Q)
  case 0
  then show ?case using assms(2) by (simp add: passes_ret)
next
  case (Suc n)
  show ?case unfolding create_managers.simps
  proof (rule passes_andThen, rule Suc.IH [OF Suc.prems(1)])
    fix y :: "('d, 'c) bench" assume y: "claimable L V room public_of N i (js \<union> {k ..< k + n}) y" "managers_made y = k + n"
    show "passes (andThen manager_tempdir (\<lambda>manager. andThen (new_manager L manager) (\<lambda>_. ret ([k ..< k + n] @ [manager])))) y Q"
    proof (rule passes_new_manager [OF l y(1)], rule passes_ret)
      fix j and z :: "('d, 'c) bench" assume j: "j = managers_made y" and z: "claimable L V room public_of N i (insert j (js \<union> {k ..< k + n})) z"
        "managers_made z = Suc (managers_made y)"
      have "insert j (js \<union> {k ..< k + n}) = js \<union> {k ..< k + Suc n}"
        using j y(2) by auto
      then show "Q ([k ..< k + n] @ [j]) z"
        using Suc.prems(2) [of z] z j y(2) by simp
    qed
  qed
qed

text \<open>The claims that the managers start, and what their tasks return.\<close>

primrec pending :: "nat \<Rightarrow> endpoint_id \<Rightarrow> nat \<Rightarrow> nat list \<Rightarrow> session list" where
  "pending i m n [] = []"
| "pending i m n (j # js) = \<lparr>ses_number = n, ses_machine = i, ses_manager = j, ses_dialed = m, ses_shown = False,
     machine_answer = None, manager_answer = Some True\<rparr> # pending i m (Suc n) js"

primrec results :: "'d lab \<Rightarrow> nat \<Rightarrow> nat list \<Rightarrow> (claim_pin \<times> nat) list" where
  "results L n [] = []"
| "results L n (j # js) = (claim_pin_from_keying_material (lab_keying L n), j) # results L (Suc n) js"

lemma pending_mem: "c \<in> set (pending i m n js) \<Longrightarrow> n \<le> ses_number c \<and> ses_machine c = i \<and> ses_manager c \<in> set js \<and>
    manager_answer c = Some True \<and> machine_answer c = None"
  by (induction js arbitrary: n) (auto dest: Suc_leD)

lemma results_snd: "map snd (results L n js) = js"
  by (induction js arbitrary: n) auto

lemma andThen_same: "m x = m' x \<Longrightarrow> andThen m g x = andThen m' g x"
  by (simp add: andThen_def)

lemma spawn_all:
  assumes "\<forall>j \<in> set js. running (bench_manager x j)" and "\<forall>c \<in> set (sessions x). ses_number c < sessions_made x"
  shows "for_fold (\<lambda>ys j. andThen (spawn_manager_claim_task L j i addr) (\<lambda>y. ret (ys @ [y]))) acc js x =
    (Ok (acc @ results L (sessions_made x) js),
     x\<lparr>sessions_made := sessions_made x + length js, sessions := sessions x @ pending i (addr_id addr) (sessions_made x) js\<rparr>)"
  using assms
proof (induction js arbitrary: x acc)
  case Nil
  then show ?case by (simp add: ret_def)
next
  case (Cons j js)
  let ?pin = "claim_pin_from_keying_material (lab_keying L (sessions_made x))"
  let ?y = "x\<lparr>sessions_made := Suc (sessions_made x), sessions := sessions x @ [\<lparr>ses_number = sessions_made x, ses_machine = i, ses_manager = j,
        ses_dialed = addr_id addr, ses_shown = False, machine_answer = None, manager_answer = Some True\<rparr>]\<rparr>"
  have e: "expect_ok (start_claim L j i addr) x = start_claim L j i addr x"
    using Cons.prems(1) by (simp add: expect_ok_def attempt_def andThen_def ret_def start_claim_step)
  have "spawn_manager_claim_task L j i addr x =
      andThen (start_claim L j i addr) (\<lambda>(pin, tx). andThen (answer_manager tx True) (\<lambda>_. ret (pin, j))) x"
    unfolding spawn_manager_claim_task_def by (rule andThen_same, rule e)
  then have "spawn_manager_claim_task L j i addr x = (Ok (?pin, j), ?y)"
    using start_answered [of x j L i addr "\<lambda>pin tx. ret (pin, j)"] Cons.prems by (simp add: ret_def)
  moreover have "for_fold (\<lambda>ys j. andThen (spawn_manager_claim_task L j i addr) (\<lambda>y. ret (ys @ [y]))) (acc @ [(?pin, j)]) js ?y =
      (Ok ((acc @ [(?pin, j)]) @ results L (sessions_made ?y) js),
       ?y\<lparr>sessions_made := sessions_made ?y + length js, sessions := sessions ?y @ pending i (addr_id addr) (sessions_made ?y) js\<rparr>)"
    by (rule Cons.IH) (use Cons.prems in auto)
  ultimately show ?case by (simp add: andThen_def ret_def)
qed

lemma run_sessions_waiting:
  "\<forall>c \<in> set cs. \<not> session_ready L x c \<Longrightarrow> run_sessions L kept cs x = x\<lparr>sessions := kept @ cs\<rparr>"
  by (induction cs arbitrary: kept) auto

lemma claimable_started:
  assumes "claimable L V room public_of N i js x"
  shows "claimable L V room public_of N i js ((x\<lparr>sessions_made := n, sessions := cs\<rparr>)\<lparr>sessions := []\<rparr>)"
proof -
  have "(x\<lparr>sessions_made := n, sessions := cs\<rparr>)\<lparr>sessions := []\<rparr> = x\<lparr>sessions_made := n\<rparr>" using claimable_sessions [OF assms] by (cases x) simp
  then show ?thesis using assms by simp
qed

text \<open>The machine's task accepts the oldest request; every other manager is turned away.\<close>

lemma accept_first:
  assumes l: "working_lab L V room public_of" and c: "claimable L V room public_of (Suc N) i js (x\<lparr>sessions := []\<rparr>)"
    and ses: "sessions x = pending i (public_of (lab_machine_key L i)) n (w # ks)" and ks: "distinct (w # ks)" "set (w # ks) \<subseteq> js"
    and keys: "inj_on (\<lambda>j. public_of (lab_manager_key L j)) js"
  obtains y am ag ns where "accept_requests L i (Suc (Suc m)) [] x = ([claim_pin_from_keying_material (lab_keying L n)], y)"
    "paired L V room public_of (Suc N) i w am ag ns U N Map.empty {} Map.empty {} y" "\<forall>k \<in> js - {w}. spare L V room public_of (Suc N) k y"
proof -
  let ?pin = "claim_pin_from_keying_material (lab_keying L n)" and ?m = "public_of (lab_machine_key L i)"
  let ?c = "\<lparr>ses_number = n, ses_machine = i, ses_manager = w, ses_dialed = ?m, ses_shown = True, machine_answer = Some True, manager_answer = Some True\<rparr>"
  let ?rest = "pending i ?m (Suc n) ks"
  let ?z = "x\<lparr>sessions := ?c # ?rest\<rparr>"
  have idle: "claimed_manager_pubkey (bench_machine x i) = None" "\<not> machine_is_shutdown (lab_platform L) (bench_machine x i)"
    using c by (simp_all add: claimable_def idle_machine_def idle_def alive_def machine_is_shutdown_def)
  have "\<not> session_ready L x c" if "c \<in> set (sessions x)" for c
    using pending_mem [of c i ?m n "w # ks"] that idle(1) by (auto simp: ses session_ready_eq turned_away_def)
  then have first: "run_sessions L [] (sessions x) x = x" using run_sessions_waiting [of "sessions x" L x "[]"] by simp
  have others: "map (\<lambda>c. if ses_number c = n then f c else c) ?rest = ?rest" for f
    by (rule map_idI) (auto dest: pending_mem)
  have ask: "await_claim_request L i x = (Ok (Some (?pin, n)), update_session n (\<lambda>c. c\<lparr>ses_shown := True\<rparr>) x)"
    using idle by (simp add: await_claim_request_eq ses turned_away_def)
  have answered: "snd (answer_machine n True (update_session n (\<lambda>c. c\<lparr>ses_shown := True\<rparr>) x)) = ?z"
    using others by (simp add: answer_machine_def update_session_def ses)
  have start: "accept_requests L i (Suc (Suc m)) [] x = accept_requests L i (Suc m) [?pin] ?z"
    using first ask answered by (simp add: Let_def)
  have "idle_pair L V room public_of (Suc N) i w (x\<lparr>sessions := []\<rparr>)" using claimable_pair [OF c] ks(2) by simp
  then have ip: "idle_pair L V room public_of (Suc N) i w ?z" by simp
  let ?u = "run_session L ?c ?z"
  obtain ns where "paired L V room public_of (Suc N) i w (author_of V (engine (bench_machine ?z i))) (author_of V (engine (bench_manager ?z w)))
      ns U N Map.empty {} Map.empty {} (?u\<lparr>sessions := []\<rparr>)"
    by (rule session_accepted [OF l ip, of ?c]) simp_all
  then obtain am ag where u: "pair_of L V room public_of (Suc N) i w am ag ns U N Map.empty {} Map.empty {} ?u" unfolding pair_of_def by blast
  have spares: "spare L V room public_of (Suc N) k ?u" if "k \<in> js - {w}" for k
    by (rule spare_run) (use claimable_spare [OF c, of k] that in auto)
  have "\<forall>c \<in> set ?rest. late L V room public_of (Suc N) i w ?u c"
  proof
    fix c assume "c \<in> set ?rest"
    then have c': "ses_machine c = i" "ses_manager c \<in> set ks" "manager_answer c = Some True" using pending_mem by blast+
    then have "ses_manager c \<in> js - {w}" using ks by auto
    moreover then have "public_of (lab_manager_key L (ses_manager c)) \<noteq> public_of (lab_manager_key L w)"
      using keys ks(2) by (auto dest: inj_onD)
    ultimately show "late L V room public_of (Suc N) i w ?u c" using spares c' by (simp add: late_def)
  qed
  from run_all_late [OF l u this] obtain log where log: "run_sessions L [] ?rest ?u =
      ?u\<lparr>bench_machine := (bench_machine ?u)(i := (bench_machine ?u i)\<lparr>conn_log := log\<rparr>), sessions := []\<rparr>" by blast
  let ?y = "?u\<lparr>bench_machine := (bench_machine ?u)(i := (bench_machine ?u i)\<lparr>conn_log := log\<rparr>), sessions := []\<rparr>"
  have ready: "session_ready L ?z ?c" by (simp add: session_ready_eq)
  have y: "paired L V room public_of (Suc N) i w am ag ns U N Map.empty {} Map.empty {} ?y"
    using pair_of_log [OF u, of log] by (simp add: pair_of_def)
  have up: "\<not> machine_is_shutdown (lab_platform L) (bench_machine ?y i)"
    using paired_alive(1) [OF y] by (simp add: alive_def machine_is_shutdown_def)
  have "run_sessions L [] (sessions ?z) ?z = ?y" using ready log by simp
  then have "accept_requests L i (Suc m) [?pin] ?z = ([?pin], ?y)" using up by (simp add: await_claim_request_eq)
  moreover have "\<forall>k \<in> js - {w}. spare L V room public_of (Suc N) k ?y" using spares by (simp add: spare_def)
  ultimately show thesis using that y start by simp
qed

lemma passes_for_map:
  assumes f: "\<And>e. e \<in> set xs \<Longrightarrow> passes (f e) x (\<lambda>r y. y = x \<and> P e r)" and Q: "\<And>rs. list_all2 P xs rs \<Longrightarrow> Q rs x"
  shows "passes (for_map f xs) x Q"
proof -
  have "passes (for_fold (\<lambda>ys e. andThen (f e) (\<lambda>y. ret (ys @ [y]))) acc es) x (\<lambda>rs y. y = x \<and> (\<exists>rs'. rs = acc @ rs' \<and> list_all2 P es rs'))"
    if "set es \<subseteq> set xs" for es acc
    using that
  proof (induction es arbitrary: acc)
    case Nil
    then show ?case by (simp add: passes_ret)
  next
    case (Cons e es)
    obtain r where r: "f e x = (Ok r, x)" "P e r" using f [of e] Cons.prems by (auto simp: passes_def)
    have "passes (for_fold (\<lambda>ys e. andThen (f e) (\<lambda>y. ret (ys @ [y]))) (acc @ [r]) es) x
        (\<lambda>rs y. y = x \<and> (\<exists>rs'. rs = (acc @ [r]) @ rs' \<and> list_all2 P es rs'))" using Cons.IH [of "acc @ [r]"] Cons.prems by simp
    then show ?case using r by (auto simp: passes_def andThen_def ret_def)
  qed
  from this [of xs "[]"] show ?thesis unfolding for_map_def using Q by (auto simp: passes_def)
qed

lemma map_list_all2: "list_all2 (\<lambda>e r. h r = g e) xs rs \<Longrightarrow> map h rs = map g xs"
  by (induction rule: list_all2_induct) simp_all

lemma winner_counts:
  assumes "list_all2 (\<lambda>e r. length r = (if snd e = w then 1 else 0)) (results L n (w # ks)) rs" and "distinct (w # ks)"
  shows "sum_list (map length rs) = 1"
    and "find (\<lambda>(_, count). count = 1) (zip (map snd (results L n (w # ks))) (map length rs)) = Some (w, 1)"
proof -
  have e: "map length rs = map (\<lambda>e. if snd e = w then 1 else (0::nat)) (results L n (w # ks))" using map_list_all2 [OF assms(1)] .
  have "map (\<lambda>e. if snd e = w then 1 else (0::nat)) (results L (Suc n) ks) = map (\<lambda>_. 0) (results L (Suc n) ks)"
  proof (rule map_cong [OF refl])
    fix e assume "e \<in> set (results L (Suc n) ks)"
    then have "snd e \<in> set (map snd (results L (Suc n) ks))" by (metis image_eqI list.set_map)
    then show "(if snd e = w then 1 else 0) = (0::nat)" using assms(2) unfolding results_snd by auto
  qed
  then have "sum_list (map (\<lambda>e. if snd e = w then 1 else (0::nat)) (results L (Suc n) ks)) = 0" by simp
  then show "sum_list (map length rs) = 1" by (simp add: e)
  show "find (\<lambda>(_, count). count = 1) (zip (map snd (results L n (w # ks))) (map length rs)) = Some (w, 1)" by (simp add: e)
qed

lemma passes_spawn_all:
  assumes c: "claimable L V room public_of N i js x" and order: "set order \<subseteq> js" and a: "addr_id addr = m"
    and Q: "\<And>y. claimable L V room public_of N i js (y\<lparr>sessions := []\<rparr>) \<Longrightarrow>
      sessions y = pending i m (sessions_made x) order \<Longrightarrow> Q (results L (sessions_made x) order) y"
  shows "passes (for_map (\<lambda>manager. spawn_manager_claim_task L manager i addr) order) x Q"
proof -
  have "\<forall>j \<in> set order. running (bench_manager x j)"
    using c order by (auto simp: claimable_def spare_def idle_manager_def idle_def alive_def)
  from spawn_all [OF this, of L i addr "[]"] claimable_sessions [OF c] a
  have "for_map (\<lambda>manager. spawn_manager_claim_task L manager i addr) order x = (Ok (results L (sessions_made x) order),
      x\<lparr>sessions_made := sessions_made x + length order, sessions := pending i m (sessions_made x) order\<rparr>)"
    by (simp add: for_map_def)
  then show ?thesis by (rule passesI) (rule Q, rule claimable_started [OF c], simp)
qed

lemma claimable_addr: "claimable L V room public_of N i js x \<Longrightarrow> addr_id (machine_addr L x i) = public_of (lab_machine_key L i)"
  by (simp add: claimable_def idle_machine_def idle_def machine_addr_def)

lemma passes_accept_first:
  assumes l: "working_lab L V room public_of" and c: "claimable L V room public_of N i js (x\<lparr>sessions := []\<rparr>)"
    and ses: "sessions x = pending i (public_of (lab_machine_key L i)) n (w # ks)" and ks: "distinct (w # ks)" "set (w # ks) \<subseteq> js"
    and keys: "inj_on (\<lambda>j. public_of (lab_manager_key L j)) js" and N: "0 < N" and k: "0 < k"
    and Q: "\<And>y am ag ns. paired L V room public_of N i w am ag ns U (N - 1) Map.empty {} Map.empty {} y \<Longrightarrow>
      \<forall>k \<in> js - {w}. spare L V room public_of N k y \<Longrightarrow> Q [claim_pin_from_keying_material (lab_keying L n)] y"
  shows "passes (\<lambda>x. case accept_requests L i (Suc k) [] x of (pins, y) \<Rightarrow> (Ok pins, y)) x Q"
proof -
  obtain M where M: "N = Suc M" using N by (cases N) auto
  obtain m where m: "k = Suc m" using k by (cases k) auto
  obtain y am ag ns where "accept_requests L i (Suc (Suc m)) [] x = ([claim_pin_from_keying_material (lab_keying L n)], y)"
    "paired L V room public_of (Suc M) i w am ag ns U M Map.empty {} Map.empty {} y" "\<forall>k \<in> js - {w}. spare L V room public_of (Suc M) k y"
    by (rule accept_first [OF l c [unfolded M] ses ks keys, where U = U])
  then show ?thesis using Q [of am ag ns y] unfolding M m by (simp add: passes_def)
qed

lemma passes_sleep_spares:
  assumes l: "working_lab L V room public_of" and p: "paired L V room public_of N i j am ag ns U n M1 W1 M2 W2 x"
    and n: "0 < n" and W: "W1 \<inter> W2 = {}" and k: "\<forall>k \<in> ks. spare L V room public_of N' k x"
    and Q: "\<And>y. paired L V room public_of N i j am ag ns U (n - 1) (merge W2 M1 M2) {} (merge W2 M1 M2) {} y \<Longrightarrow>
      \<forall>k \<in> ks. spare L V room public_of N' k y \<Longrightarrow> Q () y"
  shows "passes (sleep L) x Q"
proof (rule passes_sleep_late [OF l _ _ n W k])
  have "x\<lparr>sessions := []\<rparr> = x" using pairedD(4) [OF p] by (cases x) simp
  then show "pair_of L V room public_of N i j am ag ns U n M1 W1 M2 W2 x" using p by (simp add: pair_of_def)
  show "\<forall>c \<in> set (sessions x). late L V room public_of N' i j x c" using pairedD(4) [OF p] by simp
qed (rule Q)

lemma passes_lists:
  assumes l: "working_lab L V room public_of" and p: "paired L V room public_of N i w am ag ns U n M1 W1 M2 W2 x"
    and k: "\<forall>k \<in> js - {w}. spare L V room public_of N' k x" and e: "e \<in> set (results L m ks)" "set ks \<subseteq> js"
  shows "passes (case e of (_, manager) \<Rightarrow> on_manager manager (list_machines (lab_platform L) (lab_app L))) x
    (\<lambda>r y. y = x \<and> length r = (if snd e = w then 1 else 0))"
proof -
  obtain pin j where pj: "e = (pin, j)" by (cases e)
  have "snd e \<in> set (map snd (results L m ks))" using e(1) by (metis image_eqI list.set_map)
  then have "j \<in> js" using e(2) unfolding results_snd pj by auto
  show ?thesis
  proof (cases "j = w")
    case True
    then show ?thesis unfolding pj by (simp add: passes_list_machines [OF l p])
  next
    case False
    then have "spare L V room public_of N' j x" using k \<open>j \<in> js\<close> by simp
    from passes_spare_lists [OF l this] show ?thesis unfolding pj using False by simp
  qed
qed

lemma concurrent_claims_pass:
  assumes l: "working_lab L V room public_of" and b: "bench_ready L V room N x" and N: "8 \<le> N" and none: "sessions x = []" and n: "0 < n"
    and keys: "inj_on (\<lambda>j. public_of (lab_manager_key L j)) {managers_made x ..< managers_made x + n}"
  shows "passes (test_concurrent_claim_attempts_with_managers L n) x (\<lambda>_ _. True)"
proof -
  let ?js = "[managers_made x ..< managers_made x + n]"
  have perm: "mset (lab_order L ?js) = mset ?js" by (rule working_labD(5) [OF l])
  have order: "set (lab_order L ?js) = set ?js" "distinct (lab_order L ?js)"
    using mset_eq_setD [OF perm] mset_eq_imp_distinct_iff [OF perm] by simp_all
  then obtain w ks where ks: "lab_order L ?js = w # ks" using n by (cases "lab_order L ?js") auto
  have wk: "distinct (w # ks)" "set (w # ks) \<subseteq> {managers_made x ..< managers_made x + n}" using order unfolding ks by auto
  have sub: "set (w # ks) \<subseteq> {} \<union> {managers_made x ..< managers_made x + n}" using wk(2) by simp
  show ?thesis
    unfolding test_concurrent_claim_attempts_with_managers_def
    by (insert N, rule passes_new_machine [OF l b none], rule passes_andThen, rule passes_create_managers [OF l], assumption, assumption,
        rule passes_andThen, rule passes_asks, unfold ks Un_empty_left, rule passes_andThen, rule passes_spawn_all [OF _ wk(2)], assumption,
        erule claimable_addr, rule passes_andThen, rule passes_accept_first [OF l _ _ wk keys _ n, where U = "{}"], assumption, assumption, simp,
        rule passes_andThen, rule passes_sleep_spares [OF l], assumption, simp, simp, assumption,
        rule passes_andThen, rule passes_check, simp, rule passes_let, rule passes_let, rule passes_andThen, rule passes_check, simp,
        rule passes_andThen, rule passes_sleep_spares [OF l], assumption, simp, simp, assumption,
        rule passes_andThen, rule passes_for_map, rule passes_lists [OF l _ _ _ wk(2)], assumption, assumption, assumption,
        rule passes_let, rule passes_andThen, rule passes_check, erule winner_counts(1) [OF _ wk(1)],
        rule passes_andThen, rule passes_unwrap, erule winner_counts(2) [OF _ wk(1)], rule passes_prod,
        rule passes_andThen, rule passes_lock_paired, assumption, rule passes_andThen, rule passes_asks, rule passes_andThen, rule passes_check,
        simp add: paired_ids, rule passes_ret, rule TrueI)
qed

end
