(* ===== verification/Test_Device_Pass.thy ===== *)
theory Test_Device_Pass
  imports Test_Concurrent
begin

text \<open>
  The tests of single devices: a manager without machines, starts, shutdowns and restarts,
  and the tests of keys and encodings.
\<close>

section \<open>A manager without machines\<close>

lemma passes_fresh_manager:
  assumes l: "working_lab L V room public_of" and b: "bench_ready L V room N x"
    and Q: "\<And>j y. idle_manager L V room public_of N (lab_manager_key L j) (bench_manager y j) \<Longrightarrow> Q j y"
  shows "passes (fresh_manager L) x Q"
proof -
  let ?j = "managers_made x"
  let ?x1 = "x\<lparr>managers_made := Suc ?j\<rparr>"
  have b1: "blank_node L V room N (bench_manager ?x1 ?j)" using b by (simp add: bench_ready_def)
  obtain s where s: "new_manager L ?j ?x1 = (Ok (), ?x1\<lparr>bench_manager := (bench_manager ?x1)(?j := s)\<rparr>)"
    "idle_manager L V room public_of N (lab_manager_key L ?j) s" by (rule new_manager_step [OF l b1])
  let ?y = "?x1\<lparr>bench_manager := (bench_manager ?x1)(?j := s)\<rparr>"
  have "fresh_manager L x = (Ok ?j, ?y)" using s(1) by (simp add: fresh_manager_def manager_tempdir_def andThen_eval ret_def)
  moreover have "Q ?j ?y" by (rule Q) (use s(2) in simp)
  ultimately show ?thesis by (rule passesI)
qed

lemma idle_managerD:
  assumes "idle_manager L V room public_of N key s"
  shows "alive (lab_platform L) s" "running s" "ticket_dir (lab_platform L) (lab_app L) (disk s) []"
  using assms by (simp_all add: idle_manager_def idle_def alive_def)

lemma on_manager_same: "m (bench_manager x j) = (r, bench_manager x j) \<Longrightarrow> on_manager j m x = (r, x)"
  by (simp add: on_manager_def)

lemma no_ticket_read:
  assumes "idle_manager L V room public_of N key s"
  shows "fs_read_to_string (machine_doc_ticket_path (lab_app L) @ [f]) s = (Err (Io NotFound), s)"
proof -
  have "dir_names (disk s) (machine_doc_ticket_path (lab_app L)) = []" using idle_managerD(3) [OF assms] by (simp add: ticket_dir_def)
  then have "map_of (disk s) (machine_doc_ticket_path (lab_app L) @ [f]) = None" using dir_names_iff [of f] by (metis empty_iff list.set(1))
  then have "read_op (machine_doc_ticket_path (lab_app L) @ [f]) IoOk (disk s) = (Err (Io NotFound), disk s)" by (simp add: read_op_def)
  then have "fs_read (machine_doc_ticket_path (lab_app L) @ [f]) s = (Err (Io NotFound), s)"
    unfolding fs_read_def using running_fs_op [of s "read_op (machine_doc_ticket_path (lab_app L) @ [f])", OF idle_managerD(2) [OF assms]] by simp
  then show ?thesis by (simp add: fs_read_to_string_def andThen_eval)
qed

lemma passes_fails:
  assumes "m x = (Err e, y)" and "Q (Inl e) y"
  shows "passes (attempt m) x Q"
  using assms by (simp add: passes_def attempt_def)

lemma empty_manager_passes:
  assumes l: "working_lab L V room public_of" and b: "bench_ready L V room N x"
  shows "passes (test_manager_list_machines_empty L) x (\<lambda>_ _. True)"
    and "passes (test_manager_get_machine_config_nonexistent L) x (\<lambda>_ _. True)"
    and "passes (test_manager_set_machine_config_nonexistent L) x (\<lambda>_ _. True)"
    and "passes (test_manager_get_claimable_contracts_empty L) x (\<lambda>_ _. True)"
    and "passes (test_manager_remove_claimable_contracts_empty L) x (\<lambda>_ _. True)"
proof -
  note w = working_labD(1) [OF l]
  have lists: "on_manager j (list_machines (lab_platform L) (lab_app L)) y = (Ok [], y)"
    if "idle_manager L V room public_of N (lab_manager_key L j) (bench_manager y j)" for j and y :: "('a, 'c) bench"
    by (rule idle_list_machines [OF l that])
  show "passes (test_manager_list_machines_empty L) x (\<lambda>_ _. True)"
    unfolding test_manager_list_machines_empty_def
    by (rule passes_andThen, rule passes_fresh_manager [OF l b], rule passes_andThen, rule passesI, erule lists, rule passes_check) simp_all
  show "passes (test_manager_get_machine_config_nonexistent L) x (\<lambda>_ _. True)"
  proof -
    have "on_manager j (manager_get_machine_config (lab_platform L) (lab_app L) m) y = (Err (Io NotFound), y)"
      if "idle_manager L V room public_of N (lab_manager_key L j) (bench_manager y j)" for j m and y :: "('a, 'c) bench"
      by (rule on_manager_same) (simp add: manager_get_machine_config_def get_machine_def andThen_eval no_ticket_read [OF that])
    then show ?thesis unfolding test_manager_get_machine_config_nonexistent_def
      by - (rule passes_andThen, rule passes_fresh_manager [OF l b], rule passes_andThen, rule passes_fails, assumption, rule passes_check, simp_all)
  qed
  show "passes (test_manager_set_machine_config_nonexistent L) x (\<lambda>_ _. True)"
  proof -
    have "on_manager j (manager_set_machine_config (lab_platform L) (lab_app L) m c) y = (Err (Io NotFound), y)"
      if "idle_manager L V room public_of N (lab_manager_key L j) (bench_manager y j)" for j m c and y :: "('a, 'c) bench"
      by (rule on_manager_same) (simp add: manager_set_machine_config_def get_machine_def andThen_eval no_ticket_read [OF that])
    then show ?thesis unfolding test_manager_set_machine_config_nonexistent_def Let_def
      by - (rule passes_andThen, rule passes_fresh_manager [OF l b], rule passes_andThen, rule passes_fails, assumption, rule passes_check, simp_all)
  qed
  show "passes (test_manager_get_claimable_contracts_empty L) x (\<lambda>_ _. True)"
  proof -
    have "on_manager j (manager_get_claimable_contracts (lab_platform L) (lab_app L)) y = (Ok [], y)"
      if i: "idle_manager L V room public_of N (lab_manager_key L j) (bench_manager y j)" for j and y :: "('a, 'c) bench"
      using run_list_machines [OF w idle_managerD(2,3) [OF i]]
      by (intro on_manager_same) (simp add: manager_get_claimable_contracts_def andThen_eval ret_def)
    then show ?thesis unfolding test_manager_get_claimable_contracts_empty_def
      by - (rule passes_andThen, rule passes_fresh_manager [OF l b], rule passes_andThen, rule passesI, assumption, rule passes_check, simp_all)
  qed
  show "passes (test_manager_remove_claimable_contracts_empty L) x (\<lambda>_ _. True)"
  proof -
    have "lab_iter L [] = []" using working_labD(6) [OF l, of "[]"] by simp
    then have "passes (on_manager j (remove_claimable_contracts (lab_platform L) (lab_app L) (lab_iter L) [])) y (\<lambda>_ _. True)"
      if i: "idle_manager L V room public_of N (lab_manager_key L j) (bench_manager y j)" for j and y :: "('a, 'c) bench"
    proof -
      obtain d where "engine_call (author_default (lab_platform L)) (bench_manager y j) = (Ok (author_of V (engine (bench_manager y j))), (bench_manager y j)\<lparr>engine := d\<rparr>)"
        by (rule run_author [OF w idle_managerD(1) [OF i]])
      then show ?thesis using \<open>lab_iter L [] = []\<close>
        by (simp add: passes_def on_manager_def remove_claimable_contracts_def group_by_machine_def for_each_def andThen_eval ret_def)
    qed
    then show ?thesis unfolding test_manager_remove_claimable_contracts_empty_def
      by - (rule passes_andThen, rule passes_fresh_manager [OF l b], assumption)
  qed
qed

section \<open>Shutdown\<close>

lemma passes_machine_shutdown:
  assumes l: "working_lab L V room public_of" and r: "running (bench_machine x i)"
    and Q: "\<And>d. same_store V (engine (bench_machine x i)) d \<Longrightarrow> router_is_shutdown (lab_platform L) d \<Longrightarrow>
      Q () (x\<lparr>bench_machine := (bench_machine x)(i := (bench_machine x i)\<lparr>engine := d\<rparr>)\<rparr>)"
  shows "passes (on_machine i (machine_shutdown (lab_platform L))) x Q"
proof -
  obtain d where d: "machine_shutdown (lab_platform L) (bench_machine x i) = (Ok (), (bench_machine x i)\<lparr>engine := d\<rparr>)"
    "same_store V (engine (bench_machine x i)) d" "router_is_shutdown (lab_platform L) d"
    using run_shutdown [OF working_labD(2) [OF l] r] by blast
  then show ?thesis using Q [OF d(2,3)] by (simp add: passes_def on_machine_def)
qed

lemma passes_manager_shutdown:
  assumes l: "working_lab L V room public_of" and r: "running (bench_manager x j)"
    and Q: "\<And>d. same_store V (engine (bench_manager x j)) d \<Longrightarrow> room (engine (bench_manager x j)) \<le> room d \<Longrightarrow> router_is_shutdown (lab_platform L) d \<Longrightarrow>
      Q () (x\<lparr>bench_manager := (bench_manager x)(j := (bench_manager x j)\<lparr>engine := d\<rparr>)\<rparr>)"
  shows "passes (on_manager j (manager_shutdown (lab_platform L))) x Q"
proof -
  obtain d where d: "manager_shutdown (lab_platform L) (bench_manager x j) = (Ok (), (bench_manager x j)\<lparr>engine := d\<rparr>)"
    "same_store V (engine (bench_manager x j)) d" "room (engine (bench_manager x j)) \<le> room d" "router_is_shutdown (lab_platform L) d"
    using run_shutdown [OF working_labD(2) [OF l] r] by blast
  then show ?thesis using Q [OF d(2,3,4)] by (simp add: passes_def on_manager_def)
qed

lemma claimable_up:
  assumes "claimable L V room public_of N i js x"
  shows "running (bench_machine x i)" "\<not> machine_is_shutdown (lab_platform L) (bench_machine x i)"
    "j \<in> js \<Longrightarrow> running (bench_manager x j)" "j \<in> js \<Longrightarrow> \<not> manager_is_shutdown (lab_platform L) (bench_manager x j)"
  using assms by (auto simp: claimable_def spare_def idle_machine_def idle_manager_def idle_def alive_def machine_is_shutdown_def manager_is_shutdown_def)

lemma no_requests_after_shutdown_passes:
  assumes l: "working_lab L V room public_of" and b: "bench_ready L V room N x" and none: "sessions x = []"
  shows "passes (test_machine_claim_requests_rejected_after_shutdown L) x (\<lambda>_ _. True)"
proof -
  have ask: "passes (await_claim_request L i) y (\<lambda>r z. r = None \<and> z = y)"
    if "router_is_shutdown (lab_platform L) (engine (bench_machine y i))" for i and y :: "('a, 'c) bench"
    using that by (simp add: passes_def await_claim_request_eq machine_is_shutdown_def)
  show ?thesis unfolding test_machine_claim_requests_rejected_after_shutdown_def
    by (rule passes_new_machine [OF l b none], rule passes_andThen, rule passes_machine_shutdown [OF l], erule claimable_up,
        rule passes_for_each_stay, rule passes_andThen, rule passes_weaken, rule ask, simp, rule passes_check, simp, simp, simp)
qed

lemma is_shutdown_status_passes:
  assumes l: "working_lab L V room public_of" and b: "bench_ready L V room N x" and none: "sessions x = []"
  shows "passes (test_machine_is_shutdown_status L) x (\<lambda>_ _. True)"
  unfolding test_machine_is_shutdown_status_def
  by (rule passes_new_machine [OF l b none], rule passes_andThen, rule passes_asks, rule passes_andThen, rule passes_check, erule claimable_up,
      rule passes_andThen, rule passes_machine_shutdown [OF l], erule claimable_up, rule passes_andThen, rule passes_asks,
      rule passes_andThen, rule passes_check, simp add: machine_is_shutdown_def, rule passes_ret, rule TrueI)

text \<open>Both directories first, then both devices.\<close>

lemma passes_new_pair:
  assumes l: "working_lab L V room public_of" and b: "bench_ready L V room N x" and none: "sessions x = []"
    and Q: "\<And>i j y. claimable L V room public_of N i {j} y \<Longrightarrow> passes (f i j) y Q"
  shows "passes (andThen machine_tempdir (\<lambda>i. andThen manager_tempdir (\<lambda>j. andThen (new_machine L i) (\<lambda>_. andThen (new_manager L j) (\<lambda>_. f i j))))) x Q"
proof -
  let ?i = "machines_made x" and ?j = "managers_made x"
  have swap: "andThen machine_tempdir (\<lambda>i. andThen manager_tempdir (\<lambda>j. andThen (new_machine L i) (\<lambda>_. andThen (new_manager L j) (\<lambda>_. f i j)))) x =
      andThen machine_tempdir (\<lambda>i. andThen (new_machine L i) (\<lambda>_. andThen manager_tempdir (\<lambda>j. andThen (new_manager L j) (\<lambda>_. f i j)))) x"
  proof -
    have "new_machine L ?i (x\<lparr>machines_made := Suc ?i, managers_made := Suc ?j\<rparr>) =
        (case new_machine L ?i (x\<lparr>machines_made := Suc ?i\<rparr>) of (r, y) \<Rightarrow> (r, y\<lparr>managers_made := Suc ?j\<rparr>))"
      by (cases "machine_protocol_new (lab_platform L) (lab_dir L) (lab_machine_key L ?i) (bench_machine x ?i)")
        (auto simp: new_machine_def on_machine_def andThen_def ret_def split: res.splits)
    moreover obtain s where "new_machine L ?i (x\<lparr>machines_made := Suc ?i\<rparr>) =
        (Ok (), x\<lparr>machines_made := Suc ?i, bench_machine := (bench_machine x)(?i := s)\<rparr>)"
    proof -
      have "blank_node L V room N (bench_machine (x\<lparr>machines_made := Suc ?i\<rparr>) ?i)" using b by (simp add: bench_ready_def)
      then show thesis using that by (rule new_machine_step [OF l]) simp
    qed
    ultimately show ?thesis by (simp add: machine_tempdir_def manager_tempdir_def andThen_def split: prod.split res.split)
  qed
  have "passes (andThen machine_tempdir (\<lambda>i. andThen (new_machine L i) (\<lambda>_. andThen manager_tempdir (\<lambda>j. andThen (new_manager L j) (\<lambda>_. f i j))))) x Q"
    by (rule passes_new_machine [OF l b none], rule passes_new_manager [OF l], assumption, rule Q)
  then show ?thesis unfolding passes_def swap .
qed

lemma passes_shutdown_both:
  assumes l: "working_lab L V room public_of" and r: "running (bench_machine x i)" "running (bench_manager x j)"
    and Q: "\<And>y. running (bench_machine y i) \<Longrightarrow> running (bench_manager y j) \<Longrightarrow> machine_is_shutdown (lab_platform L) (bench_machine y i) \<Longrightarrow>
      manager_is_shutdown (lab_platform L) (bench_manager y j) \<Longrightarrow> Q () y"
  shows "passes (shutdown_both L i j) x Q"
  unfolding shutdown_both_def
  by (rule passes_andThen, rule passes_machine_shutdown [OF l r(1)], rule passes_manager_shutdown [OF l], simp add: r(2),
      rule Q, insert r, simp_all add: machine_is_shutdown_def manager_is_shutdown_def running_def)

lemma passes_assert_shutdown:
  "machine_is_shutdown (lab_platform L) (bench_machine x i) = b \<Longrightarrow> manager_is_shutdown (lab_platform L) (bench_manager x j) = b \<Longrightarrow> Q () x \<Longrightarrow>
   passes (assert_shutdown L i j b) x Q"
  unfolding assert_shutdown_def by (intro passes_andThen passes_asks passes_check) simp_all

lemma shutdown_idempotency_passes:
  assumes l: "working_lab L V room public_of" and b: "bench_ready L V room N x" and none: "sessions x = []"
  shows "passes (test_shutdown_idempotency L) x (\<lambda>_ _. True)"
  unfolding test_shutdown_idempotency_def
  by (rule passes_new_pair [OF l b none], rule passes_andThen, rule passes_assert_shutdown, simp add: claimable_up(2), simp add: claimable_up(4),
      rule passes_andThen, rule passes_shutdown_both [OF l], erule claimable_up, erule claimable_up, simp,
      rule passes_andThen, rule passes_assert_shutdown, simp, simp, rule passes_andThen, rule passes_shutdown_both [OF l], assumption, assumption,
      rule passes_andThen, rule passes_assert_shutdown, simp, simp, rule passes_shutdown_both [OF l], assumption, assumption, rule TrueI)

section \<open>Restarts\<close>

text \<open>What a restarted machine knows: its identity and its owner.\<close>

definition restarted :: "'d lab \<Rightarrow> (hash32 \<Rightarrow> endpoint_id) \<Rightarrow> nat \<Rightarrow> nat \<Rightarrow> ('d, 'c) bench \<Rightarrow> bool" where
  "restarted L public_of i j x \<longleftrightarrow> running (bench_machine x i) \<and> claimed_manager_pubkey (bench_machine x i) = Some (public_of (lab_manager_key L j)) \<and>
     addr_id (machine_addr L x i) = public_of (lab_machine_key L i) \<and> manager_public_key L x j = public_of (lab_manager_key L j)"

lemma passes_machine_restart:
  assumes l: "working_lab L V room public_of" and p: "paired L V room public_of N i j am ag ns U n M1 W1 M2 W2 x"
    and Q: "\<And>y. restarted L public_of i j y \<Longrightarrow> passes f y Q"
  shows "passes (andThen (on_machine i (machine_shutdown (lab_platform L))) (\<lambda>_. andThen (restart_machine L i) (\<lambda>_. f))) x Q"
proof (rule passes_andThen, rule passes_machine_shutdown [OF l])
  let ?s = "bench_machine x i" and ?key = "lab_machine_key L i" and ?k = "public_of (lab_manager_key L j)"
  have own: "running ?s" "restartable L ?key (disk ?s)" "claim_on_disk (lab_platform L) (lab_app L) (disk ?s) (Some ?k)"
    using pairedD(6) [OF p] by (simp_all add: owned_machine_def alive_def)
  show "running ?s" by (rule own(1))
  fix d assume off: "router_is_shutdown (lab_platform L) d"
  let ?t = "?s\<lparr>engine := d\<rparr>"
  have off': "router_is_shutdown (lab_platform L) (engine ?t)" using off by simp
  have old: "map_of (disk ?t) (lab_dir L @ [SECRET_KEY_FILE]) = None \<Longrightarrow> lab_redraw L i = ?key"
    using own(2) by (simp add: restartable_def)
  have st: "startable (lab_dir L) ?key (disk ?t)" "claim_on_disk (lab_platform L) (app_storage_path (lab_dir L)) (disk ?t) (Some ?k)"
    using own(2,3) by (simp_all add: restartable_def lab_app_def)
  have rt: "running ?t" using own(1) by (simp add: running_def)
  obtain e where e: "machine_protocol_new (lab_platform L) (lab_dir L) (lab_redraw L i) ?t = (Ok (app_storage_path (lab_dir L)),
      ?t\<lparr>disk := start_disk (lab_dir L) ?key (disk ?t), engine := e, claimed_manager_pubkey := Some ?k\<rparr>)"
    "started (lab_platform L) V room (public_of ?key) (engine ?t) e"
    by (rule run_machine_new [OF working_labD(2) [OF l] rt off' st(1) old st(2)])
  let ?u = "?t\<lparr>disk := start_disk (lab_dir L) ?key (disk ?t), engine := e, claimed_manager_pubkey := Some ?k\<rparr>"
  let ?y = "x\<lparr>bench_machine := (bench_machine x)(i := ?u)\<rparr>"
  have "restarted L public_of i j ?y"
    using own(1) e(2) paired_ids(1) [OF p] by (simp add: restarted_def running_def machine_addr_def started_def manager_public_key_def)
  then have "passes f ?y Q" by (rule Q)
  then show "passes (andThen (restart_machine L i) (\<lambda>_. f)) (x\<lparr>bench_machine := (bench_machine x)(i := ?t)\<rparr>) Q"
    using e(1) by (simp add: passes_def restart_machine_def on_machine_def andThen_eval ret_def)
qed

lemma passes_lock_restarted:
  assumes "restarted L public_of i j x" and "Q (Some (public_of (lab_manager_key L j))) x"
  shows "passes (on_machine i lock_claimed) x Q"
  using assms by (simp add: passes_def on_machine_def lock_claimed_def await_def restarted_def running_def)

lemma machine_restart_passes:
  assumes l: "working_lab L V room public_of" and b: "bench_ready L V room N x" and N: "8 \<le> N" and none: "sessions x = []"
  shows "passes (test_machine_restart_persistence L) x (\<lambda>_ _. True)"
  unfolding test_machine_restart_persistence_def
  by (insert N, rule passes_new_machine [OF l b none], rule passes_new_manager [OF l], assumption, rule passes_andThen, rule passes_asks,
      rule passes_andThen, rule passes_perform, assumption, simp, rule passes_andThen, rule passes_wait_claims [OF l, where U = "{}"], assumption, simp,
      rule passes_andThen, rule passes_assert_claimed [OF l], assumption, rule passes_machine_restart [OF l], assumption,
      rule passes_andThen, rule passes_asks, rule passes_andThen, rule passes_check, simp add: claimable_addr restarted_def,
      rule passes_andThen, rule passes_lock_restarted, assumption, rule passes_andThen, rule passes_asks,
      rule passes_andThen, rule passes_check, simp add: restarted_def, rule passes_ret, rule TrueI)

lemma machine_persistence_passes:
  assumes l: "working_lab L V room public_of" and b: "bench_ready L V room N x" and N: "8 \<le> N" and none: "sessions x = []"
  shows "passes (test_machine_persistence_across_restarts L) x (\<lambda>_ _. True)"
  unfolding test_machine_persistence_across_restarts_def
  by (insert N, rule passes_new_pair [OF l b none], rule passes_andThen, rule passes_asks,
      rule passes_andThen, rule passes_perform, assumption, simp, rule passes_andThen, rule passes_wait_claims [OF l, where U = "{}"], assumption, simp,
      rule passes_machine_restart [OF l], assumption, rule passes_andThen, rule passes_asks, rule passes_andThen, rule passes_check,
      simp add: claimable_addr restarted_def, rule passes_andThen, rule passes_lock_restarted, assumption, rule passes_andThen, rule passes_asks,
      rule passes_andThen, rule passes_check, simp add: restarted_def, rule passes_ret, rule TrueI)

text \<open>A restarted manager has its machine and its copy of the document.\<close>

lemma content_store:
  assumes "same_store V d d'"
  shows "content V ns d' M \<longleftrightarrow> content V ns d M"
proof -
  have s: "stored_of V d' = stored_of V d" "blob_of V d' = blob_of V d" using assms by (simp_all add: same_store_def)
  then have "newest V d' = newest V d" "visible V d' = visible V d" by (simp_all add: newest_def visible_def fun_eq_iff)
  then show ?thesis by (simp add: content_def content_at_def s split: option.split)
qed

lemma manager_restart_keeps:
  assumes l: "working_lab L V room public_of" and o: "owning_manager L V public_of key m ns s" and c: "content V ns (engine s) M"
    and d: "same_store V (engine s) d" and off: "router_is_shutdown (lab_platform L) d"
  obtains s' where "manager_protocol_new (lab_platform L) (lab_dir L) rng (s\<lparr>engine := d\<rparr>) = (Ok (lab_app L), s')"
    "owning_manager L V public_of key m ns s'" "content V ns (engine s') M"
proof -
  let ?t = "s\<lparr>engine := d\<rparr>" and ?P = "lab_platform L"
  have own: "running ?t" "restartable L key (disk s)" "known V d ns"
    using o d by (simp_all add: owning_manager_def alive_def running_def same_store_def)
  obtain tk where tk: "ticket_dir ?P (lab_app L) (disk s) [(m, tk)]" "capability_id ?P (ticket_capability tk) = ns"
    using o by (auto simp: owning_manager_def)
  have dir: "map_of (disk s) (machine_doc_ticket_path (app_storage_path (lab_dir L))) = Some Dir"
    using tk(1) by (simp add: ticket_dir_def is_dir_def lab_app_def machine_doc_ticket_path_def)
  have st: "startable (lab_dir L) key (disk ?t)" "map_of (disk ?t) (machine_doc_ticket_path (app_storage_path (lab_dir L))) \<in> {None, Some Dir}"
    using own(2) dir by (simp_all add: restartable_def)
  have old: "map_of (disk ?t) (lab_dir L @ [SECRET_KEY_FILE]) = None \<Longrightarrow> rng = key" using own(2) by (simp add: restartable_def)
  have off': "router_is_shutdown ?P (engine ?t)" using off by simp
  obtain e where e: "manager_protocol_new ?P (lab_dir L) rng ?t = (Ok (app_storage_path (lab_dir L)),
      ?t\<lparr>engine := e, disk := add_node (machine_doc_ticket_path (app_storage_path (lab_dir L))) Dir (start_disk (lab_dir L) key (disk ?t))\<rparr>)"
    "started ?P V room (public_of key) (engine ?t) e"
    by (rule run_manager_new [OF working_labD(2) [OF l] own(1) off' st(1) old st(2)])
  have same: "add_node (machine_doc_ticket_path (app_storage_path (lab_dir L))) Dir (start_disk (lab_dir L) key (disk s)) = disk s"
    using restart_disk [OF own(2)] dir by (simp add: add_node_def)
  let ?u = "s\<lparr>engine := e\<rparr>"
  have "owning_manager L V public_of key m ns ?u"
    using own tk e(2) by (auto simp: owning_manager_def alive_def running_def started_def same_store_def)
  moreover have "content V ns e M"
    using c content_store [OF d] content_store [of V d e ns M] e(2) by (simp add: started_def)
  ultimately show thesis using that [of "?t\<lparr>engine := e, disk := disk s\<rparr>"] e(1) same by (simp add: lab_app_def)
qed

lemma passes_manager_restart:
  assumes l: "working_lab L V room public_of" and p: "paired L V room public_of N i j am ag ns U n M1 W1 M2 W2 x"
    and Q: "\<And>y. owning_manager L V public_of (lab_manager_key L j) (public_of (lab_machine_key L i)) ns (bench_manager y j) \<Longrightarrow>
      content V ns (engine (bench_manager y j)) M2 \<Longrightarrow> passes f y Q"
  shows "passes (andThen (on_manager j (manager_shutdown (lab_platform L))) (\<lambda>_. andThen (restart_manager L j) (\<lambda>_. f))) x Q"
proof (rule passes_andThen, rule passes_manager_shutdown [OF l])
  show "running (bench_manager x j)" by (rule alive_running [OF paired_alive(2) [OF p]])
  fix d assume d: "same_store V (engine (bench_manager x j)) d" "router_is_shutdown (lab_platform L) d"
  obtain s' where s': "manager_protocol_new (lab_platform L) (lab_dir L) (lab_redraw L j) ((bench_manager x j)\<lparr>engine := d\<rparr>) = (Ok (lab_app L), s')"
    "owning_manager L V public_of (lab_manager_key L j) (public_of (lab_machine_key L i)) ns s'" "content V ns (engine s') M2"
    by (rule manager_restart_keeps [OF l pairedD(7) [OF p] paired_alive(6) [OF p] d])
  have "passes f (x\<lparr>bench_manager := (bench_manager x)(j := s')\<rparr>) Q" by (rule Q) (use s' in simp_all)
  then show "passes (andThen (restart_manager L j) (\<lambda>_. f)) (x\<lparr>bench_manager := (bench_manager x)(j := (bench_manager x j)\<lparr>engine := d\<rparr>)\<rparr>) Q"
    using s'(1) by (simp add: passes_def restart_manager_def on_manager_def andThen_eval ret_def)
qed

lemma passes_owning_list:
  assumes l: "working_lab L V room public_of" and o: "owning_manager L V public_of key m ns (bench_manager x j)" and Q: "\<And>t. Q [(m, t)] x"
  shows "passes (on_manager j (list_machines (lab_platform L) (lab_app L))) x Q"
proof -
  obtain t where "ticket_dir (lab_platform L) (lab_app L) (disk (bench_manager x j)) [(m, t)]" "alive (lab_platform L) (bench_manager x j)"
    using o by (auto simp: owning_manager_def)
  from run_list_machines [OF working_labD(1) [OF l] alive_running [OF this(2)] this(1)] show ?thesis
    using Q by (simp add: passes_def on_manager_def)
qed

lemma passes_owning_config:
  assumes l: "working_lab L V room public_of" and o: "owning_manager L V public_of key m ns (bench_manager x j)"
    and c: "content V ns (engine (bench_manager x j)) M" "config_at (lab_platform L) M = Ok cf" and Q: "\<And>y. Q cf y"
  shows "passes (on_manager j (manager_get_machine_config (lab_platform L) (lab_app L) m)) x Q"
proof -
  have "alive (lab_platform L) (bench_manager x j)" using o by (simp add: owning_manager_def)
  from run_manager_reads(3) [OF working_labD(1) [OF l] this owning_manager_doc [OF o] c(1)] show ?thesis
    using c(2) Q by (auto simp: passes_def on_manager_def)
qed

lemma manager_restart_passes:
  assumes l: "working_lab L V room public_of" and b: "bench_ready L V room N x" and N: "8 \<le> N" and none: "sessions x = []"
  shows "passes (test_manager_restart_persistence L) x (\<lambda>_ _. True)"
proof -
  let ?U = "test_keys (lab_platform L) {}"
  note U = no_keys_ready [OF l]
  have cf: "config_at P [MACHINE_CONFIG_KEY \<mapsto> (b, a, t)] = Ok (Some c)" if "config_from_json P b = Some c" for P :: "'a platform" and b a t c
    using that by (simp add: config_at_def)
  show ?thesis unfolding test_manager_restart_persistence_def
    by (insert N, rule passes_andThen, rule passes_pair [OF l b _ none, where U = ?U], simp, rule passes_prod,
        rule passes_andThen, rule passes_first_machine [OF l], assumption, rule passes_let,
        rule passes_andThen, rule passes_set_config [OF l], assumption, assumption, simp, rule U, simp, rule passes_manager_restart [OF l], assumption,
        rule passes_andThen, rule passes_owning_list [OF l], assumption, rule passes_andThen, rule passes_check, simp,
        rule passes_andThen, rule passes_check, simp, rule passes_andThen, simp only:, rule passes_owning_config [OF l], assumption, assumption, erule cf,
        rule passes_andThen, rule passes_check, simp, rule passes_ret, rule TrueI)
qed

section \<open>Keys, PINs and encodings\<close>

lemma pin_generation_passes:
  assumes l: "working_lab L V room public_of" and b: "bench_ready L V room N x" and none: "sessions x = []"
  shows "passes (test_claim_pin_generation L) x (\<lambda>_ _. True)"
  unfolding test_claim_pin_generation_def
proof (rule passes_andThen, rule passes_create_pair [OF l b none], rule passes_prod, rule passes_andThen, rule passes_asks)
  fix i j and y :: "('a, 'c) bench" assume c: "claimable L V room public_of N i {j} y"
  let ?pin = "claim_pin_from_keying_material (lab_keying L (sessions_made y))"
  have up: "running (bench_manager y j)" "\<not> machine_is_shutdown (lab_platform L) (bench_machine y i)" using claimable_up [OF c] by simp_all
  have un: "claimed_manager_pubkey (bench_machine y i) = None" using c by (simp add: claimable_def idle_machine_def)
  have "as_u32 ?pin < 1000000" using pin_bound by (simp add: word_less_nat_alt)
  moreover have "expect_ok (start_claim L j i addr) y = start_claim L j i addr y" for addr
    using start_claim_step [OF up(1)] by (simp add: expect_ok_def attempt_def andThen_def ret_def)
  ultimately show "passes (andThen (expect_ok (start_claim L j i (machine_addr L y i))) (\<lambda>(pin_mgr, _).
     andThen (await_claim_request L i) (\<lambda>request_or.
     andThen (unwrap request_or) (\<lambda>(pin_machine, _).
     andThen (check (pin_mgr = pin_machine)) (\<lambda>_.
     andThen (check (as_u32 pin_mgr < 1000000)) (\<lambda>_.
     ret ())))))) y (\<lambda>_ _. True)"
    using claimable_sessions [OF c] up un start_claim_step [OF up(1), of L i "machine_addr L y i"]
    by (simp add: passes_def andThen_def await_claim_request_eq turned_away_def update_session_def check_def ret_def)
qed

lemma parse_key_passes:
  assumes "codec_contract P" and "Q (fid, contract_id_of P cc) x"
  shows "passes (parse_key (create_claimable_contract_machine_doc_key P fid cc)) x Q"
  using parse_contract_key [OF assms(1)] assms(2) by (simp add: parse_key_def passes_ret)

lemma key_tests_pass:
  assumes l: "working_lab L V room public_of"
  shows "passes (test_shared_protocol_key_functions L) x (\<lambda>_ _. True)"
    and "passes (test_machine_doc_key_validation L) x (\<lambda>_ _. True)"
    and "passes test_shared_protocol_key_parsing_errors x (\<lambda>_ _. True)"
    and "passes (test_machine_config_serialization L) x (\<lambda>_ _. True)"
proof -
  note c = working_engineD(2) [OF working_labD(1) [OF l]]
  show "passes (test_shared_protocol_key_functions L) x (\<lambda>_ _. True)"
    unfolding test_shared_protocol_key_functions_def Let_def
    by (rule passes_andThen, rule parse_key_passes [OF c], rule passes_prod, rule passes_andThen, rule passes_check, simp, rule passes_check) simp_all
  have k: "length (create_claimable_contract_machine_doc_key (lab_platform L) fid cc) = 66"
    "take 2 (create_claimable_contract_machine_doc_key (lab_platform L) fid cc) = CLAIMABLE_CONTRACT_PREFIX" for fid cc
    unfolding contract_key_of_eq [OF c] by (simp_all add: contract_key_of_def CLAIMABLE_CONTRACT_PREFIX_def split: prod.split federation_id.split contract_id.split)
  show "passes (test_machine_doc_key_validation L) x (\<lambda>_ _. True)"
    unfolding test_machine_doc_key_validation_def Let_def
    by (rule passes_andThen, rule passes_check, rule k, rule passes_andThen, rule passes_check, rule k,
        rule passes_andThen, rule parse_key_passes [OF c], rule passes_prod, rule passes_andThen, rule passes_check, simp, rule passes_check) simp_all
  show "passes test_shared_protocol_key_parsing_errors x (\<lambda>_ _. True)"
    unfolding test_shared_protocol_key_parsing_errors_def
    by (simp add: passes_def attempt_def andThen_def check_def ret_def parse_key_def parse_incoming_contract_machine_doc_key_def fail_def
        CLAIMABLE_CONTRACT_PREFIX_def prefix_def numeral_eq_Suc)
  show "passes (test_machine_config_serialization L) x (\<lambda>_ _. True)"
  proof -
    obtain b where b: "config_to_json (lab_platform L) (create_test_machine_config L) = Some b" by (rule encoders_totalD [OF working_labD(1) [OF l]])
    then have "config_from_json (lab_platform L) b = Some (create_test_machine_config L)" using codec_contractD(3) [OF c] by blast
    with b show ?thesis unfolding test_machine_config_serialization_def Let_def
      by (simp add: passes_def andThen_def check_def ret_def create_test_machine_config_def)
  qed
qed

end
