(* ===== verification/Test_Lab.thy ===== *)
theory Test_Lab
  imports Test_Runs Test_Pairs Reference_Working Examples
begin

text \<open>
  A lab on the reference engine, and a bench of new devices in it: the laws of the lab and
  the conditions on the bench hold together.
\<close>

definition ref_lab :: "ref_docs lab" where
  "ref_lab = \<lparr>lab_platform = ref_platform, lab_dir = [''s''], lab_machine_key = (\<lambda>i. small_hash (i + 100)),
     lab_manager_key = small_hash, lab_redraw = (\<lambda>i. small_hash (i + 50)), lab_keying = (\<lambda>n _ _. small_hash n),
     lab_closed = \<lparr>out_connect = Ok (), out_exporter = (\<lambda>_ _. small_hash 0), out_decision = None, out_open_bi = Err External,
       out_write_all = (\<lambda>_. Err External), out_finish = Err External, out_stopped = Err External,
       out_read_to_end = (\<lambda>_. Err External), out_shutdown = Err External\<rparr>,
     lab_exchange = rd_exchange, lab_order = rev, lab_iter = rev, lab_federation = ex_fid, lab_contract = ex_contract,
     lab_invite = InviteCode 3, lab_public_key = PublicKey 1, lab_other_public_key = PublicKey 2, lab_dummy_id = EndpointId 200\<rparr>"

definition blank_docs :: "nat \<Rightarrow> ref_docs" where
  "blank_docs n = \<lparr>rd_author = AuthorId n, rd_known = [], rd_entries = [], rd_blobs = [], rd_clock = 1, rd_shut = True,
     rd_key = small_hash 0\<rparr>"

definition ref_bench :: "(ref_docs, ref_client) bench" where
  "ref_bench = \<lparr>bench_machine = (\<lambda>i. \<lparr>awaits_left = None, io_script = [], disk = [([''s''], Dir)], engine = blank_docs (2 * i),
       clients = [], claimed_manager_pubkey = None, conn_log = []\<rparr>),
     bench_manager = (\<lambda>j. \<lparr>awaits_left = None, io_script = [], disk = [([''s''], Dir)], engine = blank_docs (2 * j + 1)\<rparr>),
     machines_made = 0, managers_made = 0, sessions = [], sessions_made = 0, links = []\<rparr>"

abbreviation ref_public_of :: "hash32 \<Rightarrow> endpoint_id" where "ref_public_of \<equiv> rd_key_id"

lemma ref_working_lab: "working_lab ref_lab ref_view ref_room ref_public_of"
proof -
  have "exchange_works ref_platform ref_view ref_room rd_exchange"
    unfolding exchange_works_def
    by (intro allI impI, rule rd_exchange_synced) (simp_all add: rd_common_def ref_view_def)
  then show ?thesis using ref_working ref_starts_work by (simp add: working_lab_def ref_lab_def)
qed

lemma ref_bench_ready: "bench_ready ref_lab ref_view ref_room 8 ref_bench"
proof -
  have b: "blank_node ref_lab ref_view ref_room 8 s" if "running s" "disk s = [([''s''], Dir)]" "engine s = blank_docs n"
    for s :: "(ref_docs, 'z) node_scheme" and n
  proof -
    have "8 \<le> ref_room (blank_docs n)" by (simp add: ref_room_max blank_docs_def)
    moreover have "dirs_exist [([''s''], Dir)] [''s'']" by (auto simp: dirs_exist_def is_dir_def prefix_Cons)
    moreover have "router_is_shutdown ref_platform (blank_docs n)" by (simp add: ref_platform_def blank_docs_def)
    ultimately show ?thesis using that by (auto simp: blank_node_def ref_lab_def ref_view_def blank_docs_def)
  qed
  have n: "2 * i \<noteq> Suc (2 * j)" for i j :: nat by presburger
  have a: "author_of ref_view (blank_docs m) = AuthorId m" for m by (simp add: ref_view_def blank_docs_def)
  have m: "blank_node ref_lab ref_view ref_room 8 (bench_machine ref_bench i)" and g: "blank_node ref_lab ref_view ref_room 8 (bench_manager ref_bench i)" for i
    by (rule b; simp add: ref_bench_def running_def)+
  have "author_of ref_view (engine (bench_machine ref_bench i)) \<noteq> author_of ref_view (engine (bench_manager ref_bench j))" for i j
    using n by (simp add: ref_bench_def a)
  moreover have "links ref_bench = []" by (simp add: ref_bench_def)
  ultimately show ?thesis using m g by (simp add: bench_ready_def)
qed

lemma ref_bench_new [simp]: "sessions ref_bench = []" "managers_made ref_bench = 0"
  by (simp_all add: ref_bench_def)

lemma ref_keys_apart: "inj_on (\<lambda>j. ref_public_of (lab_manager_key ref_lab j)) {..<100}"
proof (rule inj_onI)
  fix i j :: nat assume ij: "i \<in> {..<100}" "j \<in> {..<100}"
    and e: "ref_public_of (lab_manager_key ref_lab i) = ref_public_of (lab_manager_key ref_lab j)"
  have "unat (word_of_nat i :: 8 word) = i" "unat (word_of_nat j :: 8 word) = j" using ij by (simp_all add: unat_of_nat)
  then show "i = j" using e by (simp add: ref_lab_def rd_key_id_def small_hash_def bytes_of_Hash32)
qed

lemma ref_lab_keys_differ: "lab_public_key ref_lab \<noteq> lab_other_public_key ref_lab"
  by (simp add: ref_lab_def)

end
