(* ===== verification/Spec2Isabelle.thy ===== *)
theory Spec2Isabelle
  imports Examples_Path Further_Facts Reference_Owners Kv_Spec Test_Waits Test_KV_Pass Test_Doc_Pass Test_Concurrent Test_Device_Pass Test_Lab
begin

text \<open>
  Verification development for vendimint (\<open>src/vendimint/src\<close>), a Rust library for devices
  that receive lightning payments without holding the funds.

  The program. A \<^emph>\<open>machine\<close> (\<open>machine.rs\<close>) creates invoices whose contracts can be redeemed
  only by its \<^emph>\<open>manager\<close> (\<open>manager.rs\<close>). Both keep federation clients (\<open>fedimint_wallet.rs\<close>)
  and share one iroh document (\<open>vendimint_iroh/\<close>: \<open>shared.rs\<close>, \<open>machine.rs\<close>,
  \<open>manager.rs\<close>). A manager claims a machine over an authenticated connection, after the users
  of both devices have compared a PIN; the machine then stores the manager's key and sends it a
  ticket with write access to its document. From then on the manager writes a configuration into
  the document, the machine's syncer task moves the contracts of completed payments from its
  wallet into the document, and the manager's syncer task claims them and deletes them from it.

  Theories and what they model.
  \<^item> \<open>Prelude\<close>: outcomes (\<open>Ok\<close>, \<open>Err\<close>, a panic, an abort at an await), programs, the
    combinators for \<open>?\<close>, a matched \<open>Result\<close>, \<open>unwrap\<close> and loops; invariants (\<open>preserves\<close>) and
    pre/postconditions (\<open>triple\<close>); the locales \<open>codec\<close> (encoder and decoder) and \<open>transfer\<close>
    (copy records, then delete the ones that were copied).
  \<^item> \<open>Node\<close>, \<open>Disk\<close>: the state of a device (\<open>awaits_left\<close>, \<open>io_script\<close>, \<open>disk\<close>, \<open>engine\<close>, and
    for the applications \<open>clients\<close>) and the file operations of \<open>tokio::fs\<close>.
  \<^item> \<open>Platform\<close>: iroh and the serialisers as a record of functions, and their contracts.
  \<^item> \<open>Decimal\<close>, \<open>Amounts\<close>: \<open>format_amount\<close> of the wallet and the display of the PIN.
  \<^item> \<open>Shared\<close>: \<open>shared.rs\<close> (document keys, key/value entries, identity, PIN), the locale
    \<open>kv_store\<close> (read after write).
  \<^item> \<open>Machine_Protocol\<close>, \<open>Manager_Protocol\<close>: \<open>MachineProtocol\<close> with \<open>ClaimHandler::accept\<close>, and
    \<open>ManagerProtocol\<close> with the task that \<open>claim_machine\<close> spawns.
  \<^item> \<open>Wallet\<close>: \<open>Wallet\<close>, every operation, and the loop of the task that publishes its view.
  \<^item> \<open>Machine_App\<close>, \<open>Manager_App\<close>: \<open>Machine\<close> and \<open>Manager\<close>, each with one iteration and the
    first iterations of its syncer task.
  \<^item> \<open>Claim\<close>: one machine and any number of managers as a step relation, each step a run of a
    handler, a start or a claim task, aborted anywhere.
  \<^item> \<open>Claim_Requests\<close>: the claim handlers of several connections at once, with the lock on the
    claim and the channel of requests to the machine's user.
  \<^item> \<open>Payment_Path\<close>: a machine and a manager with both syncer tasks and the exchange of document
    entries between them.
  \<^item> \<open>Liveness\<close>: runs in which nothing fails: a claim completes on both sides, also on a machine
    that makes its document in it. \<open>Wallet_Owners\<close>: the wallet's operations as a reachability
    relation, and that no client is stored under a federation it does not belong to.
    \<open>Further_Facts\<close>: single operations, and what a start makes of the key file.
  \<^item> \<open>Working_Engine\<close>, \<open>Replica\<close>, \<open>Settled_Ops\<close>, \<open>Settled_Payments\<close>, \<open>Settled_Start\<close>: what
    every protocol operation returns when the engine takes the calls it documents to take, over
    an abstract document \<open>content\<close> (a map from keys to the winning value, author and time) that
    two devices have a replica of each.
  \<^item> \<open>Test_Bench\<close>, \<open>Test_KV\<close>, \<open>Test_Cases\<close>: the integration tests of \<open>vendimint_iroh/mod.rs\<close>
    as programs over a bench of machines, managers and open connections.
    \<open>Test_Runs\<close>, \<open>Test_Pairs\<close>, \<open>Test_Steps\<close>, \<open>Test_Claims\<close>, \<open>Test_Claim_Runs\<close>, \<open>Test_KV_Runs\<close>:
    what each helper of the tests does; \<open>Test_Waits\<close>, \<open>Test_KV_Pass\<close>, \<open>Test_Doc_Pass\<close>,
    \<open>Test_Concurrent\<close>, \<open>Test_Device_Pass\<close>: the tests pass; \<open>Kv_Spec\<close>: the specification of the
    key/value store and its refinement.
  \<^item> \<open>Reference_Docs\<close>, \<open>Reference_Wallet\<close>, \<open>Reference_Owners\<close>, \<open>Reference_Working\<close>, \<open>Test_Lab\<close>:
    a small engine, small clients and a lab on which the hypotheses hold; \<open>Examples\<close>,
    \<open>Examples_Wallet\<close>, \<open>Examples_Path\<close>: devices and evaluated runs on them, for the witnesses.

  How code becomes a definition. An async function is a function from the state of the device
  to an outcome and a state, in the order of the source; \<open>?\<close> is \<open>andThen\<close>, a matched result
  \<open>attempt\<close>, \<open>let _ =\<close> is \<open>ignore\<close>. Every \<open>.await\<close> that can suspend spends one unit of
  \<open>awaits_left\<close>, and when none is left the run ends with \<open>Cancelled\<close> and the state it has
  reached; so a theorem about all outcomes covers a task that is dropped at any of its awaits.
  Every file operation takes its outcome from \<open>io_script\<close>: it works, it fails, or (a write) it
  is torn, leaving a prefix of the new contents. A hash map is an association list whose
  iteration order a theorem leaves open (\<open>iter\<close>). Amounts and timestamps are 64-bit words, the
  PIN a 32-bit word. The loops of the syncer tasks never end in the code; \<open>machine_sync_loop\<close>
  and \<open>manager_sync_loop\<close> are their first iterations, for every number of them, so no fuel
  bound is left in a statement.

  Third-party code is a parameter, with what the code relies on as hypotheses:
  \<open>docs_contract\<close> (an iroh document is a set of entries per author and key with timestamps, a
  query returns a newest entry per key and no tombstone, a write or delete reaches only its own
  author's entries at keys that extend its key), \<open>codec_contract\<close> (what was serialised reads
  back), \<open>router_contract\<close> (a shut-down router stays so), \<open>client_contract\<close> (claiming is
  remembered, only the named contracts are removed), \<open>database_contract\<close> (a federation's
  database stays in its directory), \<open>client_typing\<close> (a client belongs to the federation of the
  invite code it joined with or of the database it was opened from). \<open>replicated\<close> and \<open>fully_replicated\<close> describe the exchange
  of entries between two engines, \<open>authentic\<close> an authenticated connection. The reference
  theories prove that all of them can hold together.

  The tests run in a lab, \<open>working_lab\<close>, in which nothing fails: disks work, and engines take the
  calls iroh-docs takes. \<open>reads_work\<close> is for documents the engine knows; \<open>writes_work\<close> for these,
  the local author, a value that is not empty (iroh-docs refuses an empty entry) and a clock past
  the author's entries (\<open>writable\<close>); \<open>starts_work\<close> starts an engine that is shut down, on the
  directory whose store it stands for. \<open>bench_ready\<close> says that the bench's unused devices are new
  and that each clock can be read often enough (\<open>N\<close> bounds the number of writes; eight are enough
  for every test, \<open>length ps + 2\<close> for a sequence \<open>ps\<close> of key/value operations), \<open>exchange_works\<close> that an
  exchange of two engines merges their entries and keeps their clocks in step. Documents are
  exchanged, and open claims go on, when a test sleeps. The bench has no claim logic of its own: the PIN
  a machine shows, whether it shows a request at all, and how a claim ends are what \<open>accept_claim\<close>
  and \<open>manager_claim_task\<close> do on the connection; the bench adds only that nothing is handed out by a
  machine that is shut down. A restarted device would draw another secret key than the one it has.

  What the properties show. Payments: none is lost on the way between the devices
  (\<open>payment_never_lost\<close>), it gets through (\<open>payment_arrives\<close>), and neither syncer task loses one
  by itself, wherever it is aborted. Claiming: one manager holds a machine, a claim needs both
  users and never changes hands, the ticket goes to the claimer only, both ends show the same
  PIN, of any number of concurrent managers one wins, and a claim completes when nothing fails;
  a start takes the claim from the key file only; a claim request that waits blocks the machine's
  state. The document: the manager's list of machines is exact, payments found are genuine,
  removing one reaches no other, and the key/value store refines its specification. The
  integration tests pass, except one, which depends on luck (\<open>config_test_races\<close>). The wallet:
  amounts are displayed exactly, the view is the clients, every client is its federation's,
  secrets and the default federation survive a restart, a federation with a balance cannot be
  left. The machine: an invoice needs a claim and a configuration.

  Bounds of the model. Within one device a run is atomic up to its abort: two tasks of the same
  device interleave between runs, not between awaits, except in \<open>Claim_Requests\<close>. Three groups of
  properties assume that no file operation of the machine fails: those on payments
  (\<open>machine_ready\<close>; also that its document and the directories of its clients exist), those on the
  system of one machine and its managers (\<open>claim_start\<close>), and \<open>default_federation_clients\<close>. The
  condition is needed: a key file that cannot be read counts as no claim at the next start, and a
  ticket file that cannot be read makes the machine go on in a second document.
  \<open>machine_claim_exclusive\<close>, \<open>machine_claim_needs_both\<close>, \<open>machine_ticket_only_to_claimer\<close>,
  \<open>start_restores_claim\<close> and the properties of the manager and of the wallet's clients hold with
  any failures. Error values carry the message texts without the numbers formatted into them.

  Not modelled: the contents of iroh and fedimint (parameters); \<open>lib.rs\<close> and the re-exports of
  \<open>mod.rs\<close>, which have no content; \<open>vendimint-tests\<close> (a devimint driver); the wrappers
  \<open>fedimint-cli\<close> and \<open>fedimintd\<close>, which have no logic of their own; \<open>get_update_stream\<close>, which
  only hands out a channel receiver; conversions between error types.
\<close>

section \<open>Properties\<close>

text \<open>
  C1: No payment is lost between the two devices: take a state in which the machine's wallet holds a contract, neither document has an entry at the contract's key or above it, the machine's document exists and so does the directory of every client of its wallet. If no file operation of the machine fails from there on (with a ticket file that cannot be read, the code writes payments into a second document, see the finding on unreadable files), then every state that the two syncer tasks (aborted anywhere, with document and federation calls failing anywhere, and with the manager's file operations failing too), writes of either side and exchanges of entries in both directions can reach has the contract in the machine's wallet, in the machine's document, or claimed by the manager's wallet.
\<close>

lemma payment_never_lost:
  assumes "docs_contract P V" and "codec_contract P" and "client_contract F (contract_id_of P) W" and "database_contract F"
    and "\<not> prefix payer_data payer_app"
    and "payment_reach P V F W ns payer_data payer_app payee_data payee_app x y"
    and "payment_new P V F W ns payer_data payer_app fid cc x"
  shows "contract_held W fid (contract_id_of P cc) (payer y) \<or> payment_stored P V ns fid cc (payer y) \<or>
    contract_claimed W fid (contract_id_of P cc) (payee y)"
  using path_inv_somewhere [OF path_inv_reach [OF assms]] by (simp add: payment_somewhere_def)

lemma payment_never_lost_witness:
  "payment_stored ref_platform ref_view (NamespaceId 1) ex_fid ex_contract (payer ex_path_moved)"
  using payment_never_lost [OF ref_docs_contract ref_codec_contract ref_client_contract ref_database_contract _ ex_path_reach ex_path_new]
    ex_moved_stored(2,3) by (simp add: ex_data_def ex_app_def)

text \<open>
  C2: A payment gets through: in every state reached as in C1 (from a start in which the machine's document and the directories of its clients exist and neither document has an entry at the contract's key or above it, and with no file operation of the machine failing) in which the machine's wallet no longer holds the contract and the manager has not claimed it, one exchange that runs to its end makes it pending for the manager, whatever else ran, failed or was aborted before.
\<close>

lemma payment_arrives:
  assumes "docs_contract P V" and "codec_contract P" and "client_contract F (contract_id_of P) W" and "database_contract F"
    and "\<not> prefix payer_data payer_app"
    and "payment_reach P V F W ns payer_data payer_app payee_data payee_app x y"
    and "payment_new P V F W ns payer_data payer_app fid cc x"
    and "\<not> contract_held W fid (contract_id_of P cc) (payer y)" and "\<not> contract_claimed W fid (contract_id_of P cc) (payee y)"
    and "fully_replicated V ns (engine (payer y)) (engine (payee y)) d"
  shows "payment_pending P V ns fid cc ((payee y)\<lparr>engine := d\<rparr>)"
  using path_inv_somewhere [OF path_inv_reach [OF assms(1-7)]] assms(8,9)
  by (intro path_inv_arrives [OF path_inv_reach [OF assms(1-7)] assms(9) _ assms(10)]) (simp add: payment_somewhere_def)

lemma payment_arrives_witness:
  "payment_pending ref_platform ref_view (NamespaceId 1) ex_fid ex_contract ((payee ex_path_moved)\<lparr>engine := ex_arrived\<rparr>)"
  by (rule payment_arrives [OF ref_docs_contract ref_codec_contract ref_client_contract ref_database_contract _ ex_path_reach
        ex_path_new ex_moved_stored(2,3) ex_full])
     (simp add: ex_data_def ex_app_def)

text \<open>
  C3: The machine's syncer task can be aborted at any await without losing a payment: when its document and the directories of its clients exist and its disk does not fail, then over any number of iterations, whichever document, serialiser or federation call fails on the way, a contract that the wallet held (or the shared document already stored) is afterwards still held or stored, for every federation. (A failing disk is excluded: a ticket file that cannot be read makes the machine continue in a second document.)
\<close>

lemma machine_loop_keeps_payments:
  assumes "docs_contract P V" and "codec_contract P" and "client_contract F (contract_id_of P) W"
    and "database_contract F" and "\<not> prefix data_dir app_path"
    and "machine_ready P V app_path ns s" and "wallet_ready F data_dir s"
    and "payment_safe P V W ns fid cc s"
    and "machine_sync_loop P F root_secret data_dir app_path n s = (r, s')"
  shows "payment_safe P V W ns fid cc s'"
  using preservesD [OF keeps_sync_loop [OF assms(1)] _ assms(9), of W ns fid cc] assms(1-8)
  by (simp add: machine_keeps_def machine_move_inv_def)

lemma machine_loop_keeps_payments_witness:
  "payment_safe ref_platform ref_view ref_client_view (NamespaceId 1) ex_fid ex_contract
     (snd (machine_sync_loop ref_platform ref_fedimint (RootSecret 0) ex_data ex_app 2 (ex_paying\<lparr>awaits_left := Some 9\<rparr>)))"
proof (rule machine_loop_keeps_payments [OF ref_docs_contract ref_codec_contract ref_client_contract ref_database_contract
      _ _ _ _ surjective_pairing])
  show "\<not> prefix ex_data ex_app" by (simp add: ex_data_def ex_app_def)
  show "machine_ready ref_platform ref_view ex_app (NamespaceId 1) (ex_paying\<lparr>awaits_left := Some 9\<rparr>)"
    using ex_paying_ready by (simp add: machine_ready_def machine_doc_def healthy_def)
  show "wallet_ready ref_fedimint ex_data (ex_paying\<lparr>awaits_left := Some 9\<rparr>)"
    using ex_paying_wallet by (simp add: wallet_ready_def)
  show "payment_safe ref_platform ref_view ref_client_view (NamespaceId 1) ex_fid ex_contract (ex_paying\<lparr>awaits_left := Some 9\<rparr>)"
    using ex_paying_held by (simp add: payment_safe_def contract_held_def)
qed

text \<open>
  C4: The manager's syncer task can be aborted at any await without losing a payment: over any number of iterations, whatever fails on the way and in whatever order the machines are visited, a contract that was pending in some machine's document (or already claimed) is afterwards still pending or claimed by the manager's wallet.
\<close>

lemma manager_loop_keeps_payments:
  assumes "docs_contract P V" and "codec_contract P" and "client_contract F (contract_id_of P) W"
    and "\<forall>iter \<in> set iters. \<forall>g. set (iter g) = set g"
    and "payment_kept P V W ns fid cc s"
    and "manager_sync_loop P F data_dir app_path iters s = (r, s')"
  shows "payment_kept P V W ns fid cc s'"
  by (rule preservesD [OF manager_loop_keeps [OF assms(1,2)] assms(5,6)]) (use assms(1-4) in \<open>simp add: sweep_laws_def\<close>)

lemma manager_loop_keeps_payments_witness:
  "payment_kept ref_platform ref_view ref_client_view (NamespaceId 1) ex_fid ex_contract
     (snd (manager_sync_loop ref_platform ref_fedimint ex_data ex_app [rev, rev] (ex_manager\<lparr>awaits_left := Some 12\<rparr>)))"
proof (rule manager_loop_keeps_payments [OF ref_docs_contract ref_codec_contract ref_client_contract _ _ surjective_pairing])
  show "payment_kept ref_platform ref_view ref_client_view (NamespaceId 1) ex_fid ex_contract (ex_manager\<lparr>awaits_left := Some 12\<rparr>)"
    using ex_manager_pending by (simp add: payment_kept_def payment_pending_def)
qed simp

text \<open>
  C5: In every reachable state of one machine and any number of managers, with restarts of the machine and tasks aborted anywhere, a manager that has the machine's ticket on its disk is the manager the machine is claimed by; so no two managers ever hold a machine. This is as long as no file operation of the machine fails (those of the managers may): a key file that cannot be read when the machine starts leaves it unclaimed (C21).
\<close>

lemma one_manager_holds_ticket:
  assumes "docs_contract P V" and "codec_contract P"
    and "claim_reach P machine_dir manager_dir m x" and "has_ticket P (manager_dir k) m (the_manager x k)"
  shows "claimed_manager_pubkey (the_machine x) = Some k"
  using claim_reach_inv [OF assms(1-3)] assms(4) by (auto simp: claim_inv_def claim_backed_def)

lemma one_manager_holds_ticket_witness:
  "claimed_manager_pubkey (the_machine ex_after) = Some (EndpointId 7)"
  by (rule one_manager_holds_ticket [OF ref_docs_contract ref_codec_contract ex_reach_after ex_has_ticket])

text \<open>
  C6: As long as no file operation of the machine fails, a machine that is claimed stays claimed by the same manager whatever step the system makes: a connection of any peer, a restart of the machine, or anything a manager does with any disk, each aborted wherever it may be. (A key file that cannot be read or was torn is taken for no claim at the next start, C21.)
\<close>

lemma claim_never_changes_hands:
  assumes "docs_contract P V" and "codec_contract P"
    and "claim_reach P machine_dir manager_dir m x" and "claim_step P machine_dir manager_dir m x y"
    and "claimed_manager_pubkey (the_machine x) = Some k"
  shows "claimed_manager_pubkey (the_machine y) = Some k"
  by (rule claim_step_stays [OF assms(1,2) claim_reach_inv [OF assms(1-3)] assms(4,5)])

lemma claim_never_changes_hands_witness:
  "claimed_manager_pubkey (snd (machine_protocol_new ref_platform [''s''] (small_hash 9) (ex_claimed\<lparr>awaits_left := None\<rparr>))) =
     Some (EndpointId 7)"
proof -
  let ?s = "snd (machine_protocol_new ref_platform [''s''] (small_hash 9) (ex_claimed\<lparr>awaits_left := None\<rparr>))"
  have st: "claim_step ref_platform [''s''] (\<lambda>_. ex_app) ex_mid ex_after (ex_after\<lparr>the_machine := ?s\<rparr>)"
    by (rule claim_step.start [where n = None and rng = "small_hash 9"]) (simp add: ex_after_def prod_eq_iff)
  show ?thesis
    using claim_never_changes_hands [OF ref_docs_contract ref_codec_contract ex_reach_after st, of "EndpointId 7"]
    by (simp add: ex_after_def ex_claimed_def)
qed

text \<open>
  C7: A machine that is claimed stays claimed by the same manager, whatever connection its claim handler serves next, however that handler ends (success, error, panic, or abort at any await).
\<close>

lemma machine_claim_exclusive:
  assumes "docs_contract P V" and "codec_contract P"
    and "claimed_manager_pubkey s = Some k"
    and "accept_claim P app_path conn s = (r, s')"
  shows "claimed_manager_pubkey s' = Some k"
  using accept_claim_outcome [OF assms(1,2,4)] assms(3)
  by (auto simp: claim_outcome_def claim_memory_def claim_done_def)

lemma machine_claim_exclusive_witness:
  "claimed_manager_pubkey (snd (accept_claim ref_platform ex_app (ex_conn\<lparr>remote_id := EndpointId 8\<rparr>) ex_claimed)) =
     Some (EndpointId 7)"
  by (rule machine_claim_exclusive [OF ref_docs_contract ref_codec_contract _ surjective_pairing])
     (simp add: ex_claimed_def)

text \<open>
  C8: An unclaimed machine becomes claimed only by the manager at the other end of the connection, only after its user accepted and the manager opened the stream with exactly the magic bytes, and by then the manager's key has been stored on disk.
\<close>

lemma machine_claim_needs_both:
  assumes "docs_contract P V" and "codec_contract P"
    and "claimed_manager_pubkey s = None" and "claimed_manager_pubkey s' = Some k"
    and "accept_claim P app_path conn s = (r, s')"
  shows "k = remote_id conn \<and> decision conn = Some True \<and>
    recv_read_to_end conn (length PING_MAGIC_BYTES + 1) = Ok PING_MAGIC_BYTES \<and>
    (\<exists>b. map_of (disk s') (app_path @ [MACHINE_MANAGER_PUBLIC_KEY_PATH]) = Some (File b) \<and>
         endpoint_from_json P b = Some k)"
  using accept_claim_outcome [OF assms(1,2,5)] assms(3,4)
  by (auto simp: claim_outcome_def claim_memory_def claim_done_def agreed_def claim_stored_def)

lemma machine_claim_needs_both_witness:
  "EndpointId 7 = remote_id ex_conn \<and> decision ex_conn = Some True"
  using machine_claim_needs_both [OF ref_docs_contract ref_codec_contract _ _ ex_accept, of "EndpointId 7"]
  by (simp add: ex_machine_def ex_claimed_def)

text \<open>
  C9: Whatever the claim handler sends as a document ticket goes to the peer of its own connection, which the machine is then claimed by, only after both sides agreed (the machine's user accepted and the peer sent exactly the magic bytes), and it gives write access to the document that the machine's own ticket file names.
\<close>

lemma machine_ticket_only_to_claimer:
  assumes "docs_contract P V" and "codec_contract P"
    and "accept_claim P app_path conn s = (r, s')"
    and "(k, TicketSent b) \<in> set (drop (length (conn_log s)) (conn_log s'))"
  shows "k = remote_id conn \<and> claimed_manager_pubkey s' = Some k \<and> decision conn = Some True \<and>
    recv_read_to_end conn (length PING_MAGIC_BYTES + 1) = Ok PING_MAGIC_BYTES \<and>
    (\<exists>t ns. ticket_to_json P t = Some b \<and> is_write_capability (ticket_capability t) \<and>
       capability_id P (ticket_capability t) = ns \<and> machine_doc P V app_path s' ns)"
  using accept_claim_outcome [OF assms(1,2,3)] assms(4) unfolding is_write_capability_iff
  by (auto simp: claim_outcome_def claim_memory_def claim_done_def agreed_def write_ticket_def)

lemma machine_ticket_only_to_claimer_witness:
  "claimed_manager_pubkey ex_claimed = Some (EndpointId 7)"
  using machine_ticket_only_to_claimer [OF ref_docs_contract ref_codec_contract ex_accept, of "EndpointId 7" ex_ticket]
  by (simp add: ex_machine_def ex_claimed_def)

text \<open>
  C10: The key/value store of a claimed pair refines its specification, in which each side sees a map from keys to a value and the side that wrote it: in a lab in which nothing fails (devices with working disks, document engines that take the writes iroh-docs takes, clocks that are in step with the exchanges), for any sequence of writes of non-empty values, reads and listings on either side with exchanges in between, the code on two new devices that claim each other returns what the specification returns, as long as no key extends another and no key is written by both sides between two exchanges.
\<close>

lemma kv_refines_spec:
  assumes "working_lab L V room public_of" and "bench_ready L V room N x" and "sessions x = []"
    and "prefix_free (\<Union> (op_keys ` set ps))" and "list_all op_content ps" and "length ps + 2 \<le> N" and "conflict_free ps empty_spec"
  shows "\<exists>y. claimed_store L ps x = (Ok (spec_outputs ps empty_spec), y)"
  using claimed_store_refines [OF assms] by (auto simp: passes_def)

lemma kv_refines_spec_witness:
  "\<exists>y. claimed_store ref_lab [MachinePut [1] [7], ManagerPut [2] [8], Exchange, ManagerLook [1], MachineLook [2], MachineLook [3]] ref_bench =
    (Ok [Done, Done, Done, Found (Some ([7], Machine)), Found (Some ([8], Manager)), Found None], y)"
  using kv_refines_spec [OF ref_working_lab ref_bench_ready ref_bench_new(1),
      of "[MachinePut [1] [7], ManagerPut [2] [8], Exchange, ManagerLook [1], MachineLook [2], MachineLook [3]]"]
  by (simp add: prefix_free_def empty_spec_def Let_def)

text \<open>
  C11: However many managers claim one machine at once, in whatever order their connections are served, and although the machine's user accepts every request that the claim handler shows, exactly one request is shown, exactly one manager gets the machine, and the machine is claimed by that manager: the test of concurrent claims passes, in a lab in which nothing fails and the managers' keys differ.
\<close>

lemma concurrent_claims_one_winner:
  assumes "working_lab L V room public_of" and "bench_ready L V room N x" and "8 \<le> N" and "sessions x = []" and "0 < n"
    and "inj_on (\<lambda>j. public_of (lab_manager_key L j)) {managers_made x ..< managers_made x + n}"
  shows "\<exists>y. test_concurrent_claim_attempts_with_managers L n x = (Ok (), y)"
  by (rule passes_unit [OF concurrent_claims_pass [OF assms]])

lemma concurrent_claims_one_winner_witness:
  "\<exists>y. test_concurrent_claim_attempts_with_managers ref_lab 20 ref_bench = (Ok (), y)"
  by (rule concurrent_claims_one_winner [OF ref_working_lab ref_bench_ready _ ref_bench_new(1) _ inj_on_subset [OF ref_keys_apart]]) auto

text \<open>
  C12: A claim between two new devices goes through when both users accept, leaves both unclaimed when either rejects, and can then be repeated with success; the PIN that the machine's claim handler shows is the one that the manager's claim_machine returned; and a second manager with another key is turned away from a claimed machine: the integration tests of the claim pass in every lab in which nothing fails, for every engine, directory and key that meet its laws.
\<close>

lemma claim_tests_pass:
  assumes "working_lab L V room public_of" and "bench_ready L V room N x" and "8 \<le> N" and "sessions x = []"
    and "inj_on (\<lambda>j. public_of (lab_manager_key L j)) {..<managers_made x + 2}"
  shows "\<exists>y1 y2 y3 y4 y5. test_basic_claim_flow L x = (Ok (), y1) \<and> test_claim_rejected_by_machine L x = (Ok (), y2) \<and>
    test_claim_rejected_by_manager L x = (Ok (), y3) \<and> test_claim_pin_generation L x = (Ok (), y4) \<and>
    test_machine_can_only_be_claimed_once L x = (Ok (), y5)"
  using basic_claim_passes [OF assms(1-4), THEN passes_unit] rejected_by_machine_passes [OF assms(1-4), THEN passes_unit]
    rejected_by_manager_passes [OF assms(1-4), THEN passes_unit] pin_generation_passes [OF assms(1,2,4), THEN passes_unit]
    claimed_once_passes [OF assms, THEN passes_unit]
  by blast

lemma claim_tests_pass_witness:
  "\<exists>y1 y2 y3 y4 y5. test_basic_claim_flow ref_lab ref_bench = (Ok (), y1) \<and> test_claim_rejected_by_machine ref_lab ref_bench = (Ok (), y2) \<and>
    test_claim_rejected_by_manager ref_lab ref_bench = (Ok (), y3) \<and> test_claim_pin_generation ref_lab ref_bench = (Ok (), y4) \<and>
    test_machine_can_only_be_claimed_once ref_lab ref_bench = (Ok (), y5)"
  by (rule claim_tests_pass [OF ref_working_lab ref_bench_ready _ ref_bench_new(1) inj_on_subset [OF ref_keys_apart]]) auto

text \<open>
  C13: When nothing fails or is aborted, the user accepts, and the peer is the claimer (or the machine is free) and plays its part, the claim handler ends successfully, with the machine claimed by that peer, the peer's key on disk and the ticket sent to it: both on a machine that has its document and on a new one, which has no ticket file yet and makes its document in this claim.
\<close>

lemma claim_handler_completes:
  assumes "running s" and "claimed_manager_pubkey s \<in> {None, Some (remote_id conn)}" and "cooperates conn"
    and "opens_document P V app_path s ns d1 dk"
    and "doc_share P ns ShareWrite RelayAndAddresses d1 = (Ok t, d2)"
    and "endpoint_to_json P (remote_id conn) = Some kb" and "ticket_to_json P t = Some tb"
    and "\<not> is_dir (disk s) (manager_key_file app_path)"
  shows "\<exists>s'. accept_claim P app_path conn s = (Ok (), s') \<and> claimed_manager_pubkey s' = Some (remote_id conn) \<and>
    map_of (disk s') (manager_key_file app_path) = Some (File kb) \<and> (remote_id conn, TicketSent tb) \<in> set (conn_log s')"
  unfolding accept_claim_completes [OF assms] by (simp add: update_conv)

lemma claim_handler_completes_witness:
  "\<exists>s'. accept_claim ref_platform ex_app ex_conn ex_blank = (Ok (), s') \<and> claimed_manager_pubkey s' = Some (EndpointId 7) \<and>
    map_of (disk s') (manager_key_file ex_app) = Some (File (unary_json 7)) \<and> (EndpointId 7, TicketSent ex_ticket) \<in> set (conn_log s')"
proof -
  have "remote_id ex_conn = EndpointId 7" by (simp add: ex_conn_def)
  then show ?thesis
    using claim_handler_completes [OF ex_blank_runs(1) _ ex_blank_runs(3) ex_blank_creates ex_blank_shares(1), of "unary_json 7" ex_ticket]
      ex_blank_shares(2,3) ex_blank_runs(2,4)
    by simp
qed

text \<open>
  C14: When nothing fails or is aborted and the machine sends a ticket with write access, the manager's claim task ends by closing the connection as done, and the ticket is stored under the machine's name.
\<close>

lemma claim_task_completes:
  assumes "running s" and "out_cooperates conn tb" and "ticket_from_json P tb = Some t"
    and "is_write_capability (ticket_capability t)" and "ticket_to_json P t = Some str"
    and "docs_import P t (engine s) = (Ok ns, d)" and "is_dir (disk s) (machine_doc_ticket_path app_path)"
    and "\<not> is_dir (disk s) (machine_doc_ticket_path app_path @ [endpoint_to_string P m])"
  shows "manager_claim_task P app_path conn m s =
    (Ok (Some ''done''), s\<lparr>engine := d,
       disk := AList.update (machine_doc_ticket_path app_path @ [endpoint_to_string P m]) (File str) (disk s)\<rparr>)"
  using assms by (intro manager_claim_completes [where r = "Ok ns" and ns = ns]) simp_all

lemma claim_task_completes_witness:
  "fst (manager_claim_task ref_platform ex_app ex_out ex_mid ex_claimer) = Ok (Some ''done'')"
  using claim_task_completes [of ex_claimer ex_out ex_ticket ref_platform "\<lparr>ticket_capability = CapWrite 1, ticket_nodes = []\<rparr>"
      ex_ticket "NamespaceId 1" "ex_docs\<lparr>rd_known := [NamespaceId 1, NamespaceId 1]\<rparr>" ex_app ex_mid]
  by (simp add: running_def ex_claimer_def out_cooperates_def ex_out_def utf8_ticket is_write_capability_def)
     (simp add: ref_platform_def ex_docs_def rd_capability_id_def is_dir_def ex_app_def utf8_ticket
        machine_doc_ticket_path_def MACHINE_DOC_TICKETS_SUBDIR_def Let_def)

text \<open>
  C15: Both ends of a claim show the same PIN: when the two ends of a connection export the same keying material, every claim request that the machine's handler raises carries the PIN that the manager's claim_machine returned.
\<close>

lemma claim_pins_agree:
  assumes "claim_machine out s = (Ok pin, s1)" and "exporter conn = out_exporter out"
    and "accept_claim P app_path conn t = (r, t')"
    and "(k, ClaimRequested p) \<in> set (drop (length (conn_log t)) (conn_log t'))"
  shows "p = pin"
  using preservesD [OF pins_accept _ assms(3), of "length (conn_log t)"] assms(1,2,4)
  by (auto simp: pins_from_def claim_machine_def andThen_Ok_iff)

lemma claim_pins_agree_witness:
  "claim_pin_from_keying_material (exporter ex_conn) = claim_pin_from_keying_material (out_exporter ex_out)"
  by (rule claim_pins_agree [where k = "EndpointId 7" and out = ex_out and s = ex_claimer and ?s1.0 = ex_claimer, OF _ _ ex_accept])
     (simp_all add: claim_machine_def ex_claimer_def ex_out_def ex_conn_def run_simps ex_machine_def ex_claimed_def)

text \<open>
  C16: The manager's claim task changes the disk only to store a ticket with write access that it read from the machine after its user accepted, and only under that machine's name (all of it, or a prefix when the write is torn).
\<close>

lemma claim_task_ticket_origin:
  assumes "manager_claim_task P app_path conn m s = (r, s')" and "disk s' \<noteq> disk s"
  shows "\<exists>t str n. ticket_received P conn t \<and> ticket_to_json P t = Some str \<and>
    disk s' = AList.update (machine_doc_ticket_path app_path @ [endpoint_to_string P m]) (File (take n str)) (disk s)"
  using tripleD [OF manager_claim_disk_triple _ assms(1), of "disk s"] assms(2)
  by (auto simp: disk_is_def ticket_disk_def)

lemma claim_task_ticket_origin_witness:
  "\<exists>t str n. ticket_received ref_platform ex_out t \<and> ticket_to_json ref_platform t = Some str \<and>
    disk ex_claimer_done = AList.update (machine_doc_ticket_path ex_app @ [endpoint_to_string ref_platform ex_mid])
      (File (take n str)) (disk ex_claimer)"
  by (rule claim_task_ticket_origin [OF ex_task])
     (simp add: ex_claimer_done_def ex_claimer_def ex_app_def machine_doc_ticket_path_def MACHINE_DOC_TICKETS_SUBDIR_def)

text \<open>
  C17: What one device writes into the shared document, the other reads after an exchange: a configuration reaches the machine, a payment reaches the manager once however often it is written, and removing it removes it. The integration tests of configurations and payments pass in every lab in which nothing fails, with engines that take the writes iroh-docs takes (documents they know, the local author, non-empty values, a clock past the author's entries).
\<close>

lemma document_tests_pass:
  assumes "working_lab L V room public_of" and "bench_ready L V room N x" and "8 \<le> N" and "sessions x = []"
  shows "\<exists>y1 y2 y3 y4. test_machine_config_operations L x = (Ok (), y1) \<and> test_claimable_contract_operations L x = (Ok (), y2) \<and>
    test_contract_removal L x = (Ok (), y3) \<and> test_idempotent_contract_writes L x = (Ok (), y4)"
  using config_operations_pass [OF assms, THEN passes_unit] contract_operations_pass [OF assms, THEN passes_unit]
    contract_removal_passes [OF assms, THEN passes_unit] idempotent_writes_pass [OF assms, THEN passes_unit]
  by blast

lemma document_tests_pass_witness:
  "\<exists>y1 y2 y3 y4. test_machine_config_operations ref_lab ref_bench = (Ok (), y1) \<and> test_claimable_contract_operations ref_lab ref_bench = (Ok (), y2) \<and>
    test_contract_removal ref_lab ref_bench = (Ok (), y3) \<and> test_idempotent_contract_writes ref_lab ref_bench = (Ok (), y4)"
  by (rule document_tests_pass [OF ref_working_lab ref_bench_ready _ ref_bench_new(1)]) simp

text \<open>
  C18: The integration tests of the key/value store pass: values of either side, with arbitrary bytes and after updates by the other side, are read on both with the right author, and the entries are apart from configurations and payments. This is for every lab in which nothing fails, with engines that take the writes iroh-docs takes (documents they know, the local author, non-empty values, a clock past the author's entries).
\<close>

lemma kv_tests_pass:
  assumes "working_lab L V room public_of" and "bench_ready L V room N x" and "8 \<le> N" and "sessions x = []"
  shows "\<exists>y1 y2 y3 y4 y5 y6. test_kv_basic_operations L x = (Ok (), y1) \<and> test_kv_multiple_entries L x = (Ok (), y2) \<and>
    test_kv_update_existing_key L x = (Ok (), y3) \<and> test_kv_namespace_isolation L x = (Ok (), y4) \<and>
    test_kv_author_tracking L x = (Ok (), y5) \<and> test_kv_binary_data L x = (Ok (), y6)"
  using kv_basic_passes [OF assms, THEN passes_unit] kv_multiple_passes [OF assms, THEN passes_unit]
    kv_update_passes [OF assms, THEN passes_unit] kv_isolation_passes [OF assms, THEN passes_unit]
    kv_author_passes [OF assms, THEN passes_unit] kv_binary_passes [OF assms, THEN passes_unit]
  by blast

lemma kv_tests_pass_witness:
  "\<exists>y1 y2 y3 y4 y5 y6. test_kv_basic_operations ref_lab ref_bench = (Ok (), y1) \<and> test_kv_multiple_entries ref_lab ref_bench = (Ok (), y2) \<and>
    test_kv_update_existing_key ref_lab ref_bench = (Ok (), y3) \<and> test_kv_namespace_isolation ref_lab ref_bench = (Ok (), y4) \<and>
    test_kv_author_tracking ref_lab ref_bench = (Ok (), y5) \<and> test_kv_binary_data ref_lab ref_bench = (Ok (), y6)"
  by (rule kv_tests_pass [OF ref_working_lab ref_bench_ready _ ref_bench_new(1)]) simp

text \<open>
  C19: A device that is shut down says so, however often it is shut down; started again on the same directory, where it would draw another secret key, it has its identity, its claim or its machines, and the configuration it wrote: the integration tests of restarts pass in every lab in which nothing fails. That the documents themselves survive is what the engine promises for its own directory; the identity, the claim and the tickets are read back by the code.
\<close>

lemma restart_tests_pass:
  assumes "working_lab L V room public_of" and "bench_ready L V room N x" and "8 \<le> N" and "sessions x = []"
  shows "\<exists>y1 y2 y3 y4. test_machine_restart_persistence L x = (Ok (), y1) \<and>
    test_machine_persistence_across_restarts L x = (Ok (), y2) \<and> test_manager_restart_persistence L x = (Ok (), y3) \<and>
    test_shutdown_idempotency L x = (Ok (), y4)"
  using machine_restart_passes [OF assms, THEN passes_unit] machine_persistence_passes [OF assms, THEN passes_unit]
    manager_restart_passes [OF assms, THEN passes_unit] shutdown_idempotency_passes [OF assms(1,2,4), THEN passes_unit]
  by blast

lemma restart_tests_pass_witness:
  "\<exists>y1 y2 y3 y4. test_machine_restart_persistence ref_lab ref_bench = (Ok (), y1) \<and>
    test_machine_persistence_across_restarts ref_lab ref_bench = (Ok (), y2) \<and> test_manager_restart_persistence ref_lab ref_bench = (Ok (), y3) \<and>
    test_shutdown_idempotency ref_lab ref_bench = (Ok (), y4)"
  by (rule restart_tests_pass [OF ref_working_lab ref_bench_ready _ ref_bench_new(1)]) simp

text \<open>
  C20: The test that updates a configuration depends on luck: its wait ends as soon as the machine has any configuration, which it has from the first one. On the schedule of the bench, where documents are exchanged only while the test sleeps, the wait never sleeps after the update, so the machine still has the first configuration and the comparison with the new one panics.
\<close>

lemma config_test_races:
  assumes "working_lab L V room public_of" and "bench_ready L V room N x" and "8 \<le> N" and "sessions x = []"
    and "lab_public_key L \<noteq> lab_other_public_key L"
  shows "fst (test_machine_config_edge_cases L x) = Panic"
  using config_edge_cases_panic [OF assms] by (simp add: panics_def)

lemma config_test_races_witness:
  "fst (test_machine_config_edge_cases ref_lab ref_bench) = Panic"
  by (rule config_test_races [OF ref_working_lab ref_bench_ready _ ref_bench_new(1) ref_lab_keys_differ]) simp

text \<open>
  C21: A start takes the claim from the key file and from nothing else, whatever was in memory: when it succeeds with I/O that may fail anywhere, a claim means that the file on disk holds that manager's key; and a machine that starts unclaimed without any I/O failure has no readable key in the file. With a failing read the second part is lost, which is how a claim can be forgotten.
\<close>

lemma start_restores_claim:
  assumes "machine_protocol_new P dir rng s = (Ok p, s')"
  shows "case claimed_manager_pubkey s' of
      Some k \<Rightarrow> \<exists>b. map_of (disk s') (manager_key_file (app_storage_path dir)) = Some (File b) \<and> utf8_valid b \<and> endpoint_from_json P b = Some k
    | None \<Rightarrow> \<forall>b. io_script s = [] \<longrightarrow> map_of (disk s') (manager_key_file (app_storage_path dir)) = Some (File b) \<longrightarrow> utf8_valid b \<longrightarrow>
        endpoint_from_json P b = None"
  unfolding machine_new_path [OF assms, symmetric] by (rule machine_new_restores [OF assms])

lemma start_restores_claim_witness:
  "\<exists>b. map_of (disk ex_restarted) (manager_key_file ex_app) = Some (File b) \<and> utf8_valid b \<and> endpoint_from_json ref_platform b = Some (EndpointId 7)"
  using start_restores_claim [OF ex_restart_run(1)] by (simp add: ex_restart_run(2) ex_app_path)

text \<open>
  C22: When list_machines returns, it returns exactly the machines whose ticket is a file of the ticket directory: every listed pair is such a file, named by the machine and holding the ticket, and every such file is listed.
\<close>

lemma manager_lists_exactly:
  assumes "list_machines P app_path s = (Ok ms, s')"
  shows "x \<in> set ms \<longleftrightarrow> (\<exists>n. ticket_file P (machine_doc_ticket_path app_path) (disk s) n x)"
  by (rule listed_iff [OF assms])

lemma manager_lists_exactly_witness:
  "\<exists>n. ticket_file ref_platform (machine_doc_ticket_path ex_app) (disk ex_manager) n (ex_mid, ex_write_ticket)"
  using manager_lists_exactly [OF ex_list, of "(ex_mid, ex_write_ticket)"] by simp

text \<open>
  C23: Every payment the manager finds is genuine: it comes from the document of a machine whose ticket is on disk, from a visible entry of that document whose key parses to the payment's federation and whose non-empty value decodes to the payment's contract.
\<close>

lemma claimable_contracts_genuine:
  assumes "docs_contract P V" and "manager_get_claimable_contracts P app_path s = (Ok ps, s')" and "p \<in> set ps"
  shows "\<exists>n t. ticket_file P (machine_doc_ticket_path app_path) (disk s) n (fst p, t) \<and>
    offered P V (capability_id P (ticket_capability t)) p s"
  by (rule get_claimable_contracts_Ok [OF assms])

lemma claimable_contracts_genuine_witness:
  "\<exists>n t. ticket_file ref_platform (machine_doc_ticket_path ex_app) (disk ex_manager) n (ex_mid, t) \<and>
    offered ref_platform ref_view (capability_id ref_platform (ticket_capability t)) (ex_mid, ex_fid, ex_contract) ex_manager"
  using claimable_contracts_genuine [OF ref_docs_contract ex_claimable, of "(ex_mid, ex_fid, ex_contract)"] by simp

text \<open>
  C24: When the manager's removal of contracts returns Ok, each of them is gone from its machine's document (the local clock being ahead of the entry), whatever order the machines are visited in.
\<close>

lemma removed_payment_gone:
  assumes "docs_contract P V" and "codec_contract P"
    and "set (iter (group_by_machine ps)) = set (group_by_machine ps)" and "(m, fid, cc) \<in> set ps"
    and "manager_doc P V app_path m ns s"
    and "clock_ahead V (engine s) ns (create_claimable_contract_machine_doc_key P fid cc)"
    and "remove_claimable_contracts P app_path iter ps s = (Ok (), s')"
  shows "\<not> payment_pending P V ns fid cc s'"
  by (rule remove_claimable_contracts_Ok [OF assms])

lemma removed_payment_gone_witness:
  "\<not> payment_pending ref_platform ref_view (NamespaceId 1) ex_fid ex_contract ex_swept"
  by (rule removed_payment_gone [OF ref_docs_contract ref_codec_contract _ _ ex_manager_doc _ ex_remove])
     (simp_all add: clock_ahead_def ex_manager_def ex_pending_docs_def ref_view_def)

text \<open>
  C25: Removing contracts keeps every other pending payment, in every document, whatever fails and wherever the task is aborted: the deletion, which works by key prefix, reaches exactly the named contracts.
\<close>

lemma removal_keeps_others:
  assumes "docs_contract P V" and "codec_contract P"
    and "set (iter (group_by_machine ps)) \<subseteq> set (group_by_machine ps)"
    and "\<forall>(m, fid', cc') \<in> set ps. fid' \<noteq> fid \<or> contract_id_of P cc' \<noteq> contract_id_of P cc"
    and "payment_pending P V ns fid cc s" and "remove_claimable_contracts P app_path iter ps s = (r, s')"
  shows "payment_pending P V ns fid cc s'"
  by (rule preservesD [OF remove_contracts_pending [where ps = ps and iter = iter, OF assms(1-3)] assms(5,6)]) (use assms(4) in auto)

lemma removal_keeps_others_witness:
  "payment_pending ref_platform ref_view (NamespaceId 1) ex_fid ex_contract
     (snd (remove_claimable_contracts ref_platform ex_app rev [(ex_mid, FederationId (small_hash 4), ex_contract)] ex_manager))"
proof (rule removal_keeps_others [OF ref_docs_contract ref_codec_contract _ _ ex_manager_pending surjective_pairing])
  have "small_hash 4 \<noteq> small_hash 3" using last_small_hash [of 3] last_small_hash [of 4] by auto
  then show "\<forall>(m, fid', cc') \<in> set [(ex_mid, FederationId (small_hash 4), ex_contract)].
      fid' \<noteq> ex_fid \<or> contract_id_of ref_platform cc' \<noteq> contract_id_of ref_platform ex_contract"
    by (simp add: ex_fid_def)
qed simp

text \<open>
  C26: Every client of the wallet is a client of the federation it is stored under, after any operations, each aborted at any await and with any disk errors, and over restarts: what a client belongs to is decided by the invite code it joined with or the database it was opened from, so the wallet never opens one federation's database for another nor puts a client back under a wrong id. The hypotheses are on the client API (a database is its own files, an opened client is its database's federation's, a joined one the invite code's, and calls do not change it; federation ids have distinct names) and on the start (the databases that are there are each in their own federation's directory).
\<close>

lemma clients_under_own_federation:
  assumes "client_typing F owner fed_of" and "wallet_typed F owner fed_of dir s0"
    and "wallet_reach F dir s0 s" and "map_of (clients s) fid = Some c"
  shows "owner c = fid"
  using wallet_reach_typed [OF assms(1,3,2)] assms(4) by (auto simp: wallet_typed_def dest: owned_map_of)

lemma clients_under_own_federation_witness:
  "oc_owner \<lparr>oc_owner = oc_fid, oc_balance = 0\<rparr> = oc_fid"
  by (rule clients_under_own_federation [OF owned_client_typing oc_start_typed oc_reach])
     (simp add: oc_joined_def)

text \<open>
  C27: Waiting ends: for a condition that answers in every state, the wait of the tests returns in the first of its rounds in which the condition holds, without sleeping any more, and otherwise gives up with a timeout after exactly the rounds it was given.
\<close>

lemma waits_end:
  assumes "\<And>y. \<exists>b z. condition y = (Ok b, z)"
  shows "wait_for_condition L condition n x =
    (case find (holds_in_round L condition x) [0..<n] of
       None \<Rightarrow> (Err (Message ''Condition timeout''), round_state L condition n x)
     | Some k \<Rightarrow> (Ok (), snd (condition (round_state L condition k x))))"
  by (rule wait_for_condition_ends [OF assms])

lemma waits_end_witness:
  "fst (wait_for_condition ref_lab (ret False) DEFAULT_WAIT_ITERATIONS ref_bench) = Err (Message ''Condition timeout'')"
proof -
  have "find (holds_in_round ref_lab (ret False) ref_bench) [0..<DEFAULT_WAIT_ITERATIONS] = None"
    by (simp add: find_None_iff holds_in_round_def ret_def)
  moreover have "\<exists>b z. ret False y = (Ok b, z)" for y :: "(ref_docs, ref_client) bench"
    by (intro exI [of _ False] exI [of _ y]) (simp add: ret_def)
  ultimately show ?thesis by (simp add: waits_end [of "ret False"])
qed

text \<open>
  C28: The document key of a payment parses back to its federation and contract id, and it is the only key that does: parsing succeeds with that result exactly on the key that was created for it.
\<close>

lemma contract_key_parse_exact:
  assumes "codec_contract P"
  shows "parse_incoming_contract_machine_doc_key key = Inr (fid, contract_id_of P cc) \<longleftrightarrow>
    key = create_claimable_contract_machine_doc_key P fid cc"
  using parse_contract_key [OF assms, of fid cc] parse_key_contract_key_of [of key "(fid, contract_id_of P cc)"]
    contract_key_of_eq [OF assms, of fid cc] by auto

lemma contract_key_parse_exact_witness:
  "parse_incoming_contract_machine_doc_key ex_key = Inr (ex_fid, contract_id_of ref_platform ex_contract)"
  using contract_key_parse_exact [OF ref_codec_contract] by (simp add: ex_key_def)

text \<open>
  C29: A claim PIN is below one million, whatever keying material the connection exports, and is displayed as exactly six decimal digits whose value it is.
\<close>

lemma claim_pin_six_digits:
  "unat (as_u32 (claim_pin_from_keying_material f)) < 1000000 \<and>
   length (display_pin (claim_pin_from_keying_material f)) = 6 \<and>
   list_all is_digit (display_pin (claim_pin_from_keying_material f)) \<and>
   undec (display_pin (claim_pin_from_keying_material f)) = unat (as_u32 (claim_pin_from_keying_material f))"
  using pin_bound display_pin_length [OF pin_bound]
  by (simp add: list_all_iff display_pin_def zero_pad_digits)

text \<open>
  C30: A device keeps its identity: once its secret key was loaded or created, every later start (with I/O that works) loads the same key and changes nothing, whatever the random generator would yield.
\<close>

lemma identity_persists:
  assumes "load_or_create_secret_key storage_path rng s = (Ok k, s')"
    and "awaits_left s' = None" and "io_script s' = []"
  shows "load_or_create_secret_key storage_path rng' s' = (Ok k, s')"
  by (rule load_secret_key_stored [OF load_secret_key_Ok_stored [OF assms(1)] assms(2,3)])

lemma identity_persists_witness:
  "load_or_create_secret_key [''s''] (small_hash 2)
     (ex_machine\<lparr>disk := AList.update [''s'', SECRET_KEY_FILE] (File (bytes_of_hash (small_hash 1))) (disk ex_machine)\<rparr>) =
   (Ok (small_hash 1),
     ex_machine\<lparr>disk := AList.update [''s'', SECRET_KEY_FILE] (File (bytes_of_hash (small_hash 1))) (disk ex_machine)\<rparr>)"
proof (rule identity_persists [where rng = "small_hash 1" and s = ex_machine])
  show "load_or_create_secret_key [''s''] (small_hash 1) ex_machine = (Ok (small_hash 1),
      ex_machine\<lparr>disk := AList.update [''s'', SECRET_KEY_FILE] (File (bytes_of_hash (small_hash 1))) (disk ex_machine)\<rparr>)"
    using running_new_secret [of ex_machine "[''s'']" "small_hash 1"]
    by (auto simp: running_def ex_machine_def prefix_Cons dirs_exist_def is_dir_def ex_app_def SECRET_KEY_FILE_def MACHINE_DOC_TICKET_PATH_def)
qed (simp_all add: ex_machine_def)

text \<open>
  C31: The display of an amount is exact: the amount in millisatoshis can be read back from it, for every 64-bit amount, so that distinct amounts are displayed differently.
\<close>

lemma amount_display_exact:
  "parse_amount (format_amount a) = Some a \<and> (format_amount a = format_amount b \<longleftrightarrow> a = b)"
  using amount.decode_encode [of a] amount.encode_inj [of a b] by auto

text \<open>
  C32: The view that is published is the clients: it has an entry for exactly the connected federations, with each client's name and balance, in the order of the federation ids.
\<close>

lemma view_is_clients:
  assumes "get_current_state F [] cs = Some v" and "distinct (map fst cs)"
  shows "sorted_wrt (<) (map fst v) \<and> map_of v fid = map_option (view_of F fid) (map_of cs fid)"
  using get_current_state_spec [OF assms] by (simp split: option.split)

lemma view_is_clients_witness:
  "map_of [(ex_fid, view_of ref_fedimint ex_fid rc_new)] ex_fid =
     map_option (view_of ref_fedimint ex_fid) (map_of [(ex_fid, rc_new)] ex_fid)"
  using view_is_clients [of ref_fedimint "[(ex_fid, rc_new)]" "[(ex_fid, view_of ref_fedimint ex_fid rc_new)]" ex_fid]
  by (simp add: ref_fedimint_def view_of_def)

text \<open>
  C33: While the view task runs, the last view it has published is the current one after every iteration, and it never publishes the same view twice in a row.
\<close>

lemma view_task_publishes_changes:
  assumes "view_task_inv t" and "view_running (view_task_step F force receivers cs t)"
  shows "view_task_inv (view_task_step F force receivers cs t) \<and>
    view_sent (view_task_step F force receivers cs t) \<noteq> [] \<and>
    get_current_state F [] cs = Some (last (view_sent (view_task_step F force receivers cs t)))"
  using view_task_step_inv [OF assms(1)] view_task_step_current [OF assms] by auto

lemma view_task_publishes_changes_witness:
  "view_task_inv (view_task_step ref_fedimint True True [(ex_fid, rc_new)]
     \<lparr>last_state = None, view_sent = [], view_running = True, view_acks = 0\<rparr>)"
  using view_task_publishes_changes [of "\<lparr>last_state = None, view_sent = [], view_running = True, view_acks = 0\<rparr>"
      ref_fedimint True True "[(ex_fid, rc_new)]"]
  by (simp add: view_task_inv_def view_task_step_def ref_fedimint_def)

text \<open>
  C34: A wallet keeps its root secret: once it has started, every later start on the same data directory and network yields the same secret, whatever mnemonic would be generated, so the mnemonic that was written first is never replaced.
\<close>

lemma root_secret_persists:
  assumes "database_contract F" and "\<forall>fid. fid_to_string F fid \<noteq> MNEMONIC_PATH"
    and "wallet_new F data_dir net fresh s = (Ok rs, s1)" and "disk s2 = disk s1"
    and "wallet_new F data_dir net fresh' s2 = (Ok rs', s3)"
  shows "rs' = rs"
  by (rule wallet_new_stored [OF assms(1) _ assms(3)])
     (use assms(2,4) wallet_new_secret [OF _ _ assms(5)] in auto)

lemma root_secret_persists_witness:
  "fst (wallet_new ref_fedimint ex_data Bitcoin (Mnemonic 9) ex_rebooted) = Ok ex_root"
  unfolding ex_wallet_again fst_conv
  by (rule arg_cong [where f = Ok, OF root_secret_persists [OF ref_database_contract _ ex_wallet_new _ ex_wallet_again]])
     (simp_all add: ex_fid_not_mnemonic ex_rebooted_def)

text \<open>
  C35: A wallet that has started has a client for every federation it has joined: for each entry of the data directory whose name is a federation id.
\<close>

lemma start_connects_joined:
  assumes "wallet_new F data_dir net fresh s = (Ok rs, s')"
    and "map_of (disk s) (data_dir @ [n]) \<noteq> None" and "os_into_string n \<noteq> None" and "fid_from_string F n = Some fid"
  shows "map_of (clients s') fid \<noteq> None"
  by (rule wallet_new_connects [OF assms])

lemma start_connects_joined_witness:
  "map_of (clients ex_booted) ex_fid \<noteq> None"
  by (rule start_connects_joined [OF ex_wallet_new, where n = "''FFF''"])
     (simp_all add: ex_boot_def ex_data_def os_into_string_def ref_fedimint_def ex_fid_def numeral_3_eq_3)

text \<open>
  C36: As long as the disk does not fail (Path::is_dir takes an error for no directory) and every client has its directory, setting the default federation keeps every client that is there, and when it succeeds for a federation whose directory did not exist before, that federation has a client afterwards; when the directory did exist, the clients are left as they are, whether or not one of them is the federation's.
\<close>

lemma default_federation_clients:
  assumes "database_contract F" and "healthy s" and "wallet_ready F data_dir s"
    and "set_default_federation F root_secret data_dir code s = (r, s')"
  shows "map_of (clients s) \<subseteq>\<^sub>m map_of (clients s') \<and>
    (r = Ok () \<longrightarrow> (if is_dir (disk s) (data_dir @ [fid_to_string F (invite_id F code)])
       then clients s' = clients s else map_of (clients s') (invite_id F code) \<noteq> None))"
  using set_default_grows [OF assms] set_default_joins [of F root_secret data_dir code s "()" s'] assms(2,4)
    clients_of_more [OF set_default_joined [of F root_secret data_dir code s "()" s']]
  by (simp add: wallet_grows_def)

lemma default_federation_clients_witness:
  "map_of (clients ex_paying) \<subseteq>\<^sub>m map_of (clients (snd (set_default_federation ref_fedimint ex_root ex_data (InviteCode 4) ex_paying)))"
  using default_federation_clients [OF ref_database_contract _ ex_paying_wallet surjective_pairing, of ex_root "InviteCode 4"] ex_paying_ready
  by (simp add: machine_ready_def)

text \<open>
  C37: The default federation that was set is the one that is read back, as long as the disk is left alone and reading it does not fail (an abort aside).
\<close>

lemma default_federation_read_back:
  assumes "set_default_federation F root_secret data_dir code s = (Ok (), s1)"
    and "disk s2 = disk s1" and "healthy s2"
    and "utf8_valid (invite_to_string F code)" and "invite_from_string F (str_trim (invite_to_string F code)) = Some code"
    and "get_default_federation F data_dir s2 = (r, s3)"
  shows "r = Ok (Some code) \<or> r = Cancelled"
  by (rule get_default_after_set [OF _ assms(4,5,3,6)]) (use set_default_Ok [OF assms(1)] assms(2) in simp)

lemma default_federation_read_back_witness:
  "fst (get_default_federation ref_fedimint ex_data ex_defaulted) = Ok (Some ex_invite) \<or>
   fst (get_default_federation ref_fedimint ex_data ex_defaulted) = Cancelled"
  by (rule default_federation_read_back [OF ex_set_default refl _ _ _ surjective_pairing])
     (simp_all add: ex_invite_simps unary_json_trimmed utf8_unary_json healthy_def ex_defaulted_def ex_booted_def ex_boot_def)

text \<open>
  C38: A federation in which the wallet has a balance cannot be left: the call does not succeed, deletes nothing from the disk and, unless it is aborted, leaves every client in place.
\<close>

lemma leave_refuses_balance:
  assumes "map_of (clients s) fid = Some c" and "client_balance F c = Some b" and "b \<noteq> 0"
    and "leave_federation F data_dir fid s = (r, s')"
  shows "r \<noteq> Ok () \<and> disk s' = disk s \<and> (r \<noteq> Cancelled \<longrightarrow> map_of (clients s') = map_of (clients s))"
  using leave_with_balance [OF assms] by auto

lemma leave_refuses_balance_witness:
  "disk (snd (leave_federation ref_fedimint ex_data ex_fid ex_rich)) = disk ex_rich"
  using leave_refuses_balance [of ex_rich ex_fid _ ref_fedimint 5, OF _ _ _ surjective_pairing, of "rc_new\<lparr>rc_balance := 5\<rparr>" ex_data]
  by (simp add: ex_rich_def) (simp add: ref_fedimint_def)

text \<open>
  C39: A machine hands out an invoice only when it is claimed and configured, and then it is an invoice of the configured federation's client, payable to the configured claimer.
\<close>

lemma receive_needs_config:
  assumes "machine_receive_payment P F app_path amount expiry desc gw s = (Ok x, s')"
  shows "\<exists>config s1 c c'. get_machine_state P app_path s = (Ok (Claimed (Some config)), s1) \<and>
    map_of (clients s1) (invite_id F (federation_invite_code config)) = Some c \<and>
    ln_remote_receive F (claimer_pk config) amount expiry desc gw c = (Ok x, c')"
  by (rule receive_payment_Ok [OF assms])

lemma receive_needs_config_witness:
  "\<exists>config s1 c c'. get_machine_state ref_platform ex_app ex_configured = (Ok (Claimed (Some config)), s1) \<and>
    map_of (clients s1) (invite_id ref_fedimint (federation_invite_code config)) = Some c \<and>
    ln_remote_receive ref_fedimint (claimer_pk config) 1000 60 ''tea'' None c = (Ok (Bolt11Invoice 1, OperationId 1), c')"
  by (rule receive_needs_config [OF ex_receive])

text \<open>
  C40: While a claim request waits for its answer, its handler keeps the claim locked, whether or not the machine is claimed already: the machine's state cannot be read, no other handler gets past the lock, at most one request is queued (with the PIN of its own connection), and of all steps only the abort of that handler frees the lock before the request is answered.
\<close>

lemma unanswered_request_blocks:
  assumes "request_reach conn x" and "claim_phase_of x h = Waiting"
  shows "\<not> can_lock_claim x \<and> (\<forall>g. in_request (claim_phase_of x g) \<longleftrightarrow> g = h) \<and>
    length (request_queue x) \<le> 1 \<and> (\<forall>(g, p) \<in> set (request_queue x). p = request_pin (conn g)) \<and>
    (\<forall>y. request_step conn x y \<longrightarrow> can_lock_claim y \<longrightarrow> y = end_handler h x)"
proof -
  note inv = request_inv_reach [OF assms(1)]
  have owner: "lock_owner x = Some h" using inv assms(2) by (auto simp: request_inv_def dest: spec [of _ h])
  then show ?thesis using inv request_step_frees [OF _ inv assms(2)]
    by (auto simp: request_inv_def can_lock_claim_def request_capacity_def)
qed

lemma unanswered_request_blocks_witness:
  "\<not> can_lock_claim ex_waiting"
  using unanswered_request_blocks [OF ex_waiting_reach, of 0] by (simp add: ex_waiting_def set_phase_def)

end
